(* ===== verification/Prelude.thy ===== *)
theory Prelude
  imports Main "HOL-Library.Word" "HOL-Library.AList"
begin

text \<open>
  What every component theory shares: the machine-integer types and the C conversions between
  them, the outcomes a C++ call can have besides returning (\<open>fault\<close>), sequencing of calls that
  may fault, checked reads of byte buffers, bounded scans (the \<open>for\<close> loops that stop at
  the first hit), and association lists used as the C++ maps whose elements are iterated.
  The collections \<open>res_simps\<close> and \<open>scan_simps\<close> are what the component proofs simplify with.
\<close>

unbundle bit_operations_syntax

named_theorems res_simps
named_theorems scan_simps

section \<open>Machine integers\<close>

type_synonym u8 = "8 word"
type_synonym u32 = "32 word"
type_synonym u64 = "64 word"

text \<open>
  C's conversion of an integer to \<open>int\<close>, \<open>int64_t\<close> and \<open>uint64_t\<close>. A value of these
  types is kept as an \<open>int\<close> in the type's range; the conversions are written where C performs them.
\<close>

definition to_i32 :: "int \<Rightarrow> int" where
  "to_i32 x = signed_take_bit 31 x"

definition to_i64 :: "int \<Rightarrow> int" where
  "to_i64 x = signed_take_bit 63 x"

definition to_u64 :: "int \<Rightarrow> int" where
  "to_u64 x = x mod 2 ^ 64"

lemma to_i32_id [simp]: "- (2 ^ 31) \<le> x \<Longrightarrow> x < 2 ^ 31 \<Longrightarrow> to_i32 x = x"
  unfolding to_i32_def by (rule signed_take_bit_int_eq_self) simp_all

lemma to_i64_id [simp]: "- (2 ^ 63) \<le> x \<Longrightarrow> x < 2 ^ 63 \<Longrightarrow> to_i64 x = x"
  unfolding to_i64_def by (rule signed_take_bit_int_eq_self) simp_all

lemma to_i32_range: "- (2 ^ 31) \<le> to_i32 x" "to_i32 x < 2 ^ 31"
  unfolding to_i32_def
  using signed_take_bit_int_greater_eq_minus_exp [of 31 x] signed_take_bit_int_less_exp [of 31 x]
  by simp_all

lemma to_u64_id [simp]: "0 \<le> x \<Longrightarrow> x < 2 ^ 64 \<Longrightarrow> to_u64 x = x"
  unfolding to_u64_def by simp

lemma to_u64_add [simp]: "to_u64 (to_u64 x + y) = to_u64 (x + y)"
  unfolding to_u64_def by (simp add: mod_simps)

lemma to_i64_add [simp]: "to_i64 (to_i64 x + y) = to_i64 (x + y)"
  unfolding to_i64_def
  by (metis signed_take_bit_add take_bit_signed_take_bit signed_take_bit_eq_iff_take_bit_eq
      order_refl)

lemma to_i64_add' [simp]: "to_i64 (x + to_i64 y) = to_i64 (x + y)"
  using to_i64_add [of y x] by (simp add: add.commute)

lemma to_i64_idem [simp]: "to_i64 (to_i64 x) = to_i64 x"
  using to_i64_add [of x 0] by simp

section \<open>Outcomes of a call\<close>

text \<open>
  \<open>Deadlock\<close> locks a held \<open>std::mutex\<close>; \<open>OutOfBounds\<close> leaves a buffer or array;
  \<open>NullDeref\<close>, \<open>UseAfterFree\<close> and \<open>DoubleFree\<close> are pointer errors; \<open>AssertFailed\<close> is a failed
  \<open>assert\<close>; \<open>ExitProcess n\<close> is \<open>exit(n)\<close>; \<open>OutOfFuel\<close> is a loop that has not ended within
  the given number of iterations.
\<close>

datatype fault = Deadlock | OutOfBounds | NullDeref | UseAfterFree | DoubleFree
  | AssertFailed | ExitProcess int | OutOfFuel

type_synonym 'a res = "fault + 'a"

definition rbind :: "'a res \<Rightarrow> ('a \<Rightarrow> 'b res) \<Rightarrow> 'b res" where
  "rbind m f = (case m of Inl e \<Rightarrow> Inl e | Inr x \<Rightarrow> f x)"

lemma rbind_simps [simp, res_simps]:
  "rbind (Inr x) f = f x"
  "rbind (Inl e) f = Inl e"
  by (simp_all add: rbind_def)

lemma rbind_Inr [res_simps]: "rbind m f = Inr y \<longleftrightarrow> (\<exists>x. m = Inr x \<and> f x = Inr y)"
  by (cases m) simp_all

lemma rbind_InrE [elim?]:
  assumes "rbind m f = Inr y"
  obtains x where "m = Inr x" and "f x = Inr y"
  using assms by (cases m) simp_all

lemma rbind_assoc: "rbind (rbind m f) g = rbind m (\<lambda>x. rbind (f x) g)"
  by (cases m) simp_all

text \<open>Running one call per element of a list, in order, stopping at the first fault.\<close>

fun rfold :: "('a \<Rightarrow> 's \<Rightarrow> 's res) \<Rightarrow> 'a list \<Rightarrow> 's \<Rightarrow> 's res" where
  "rfold f [] s = Inr s"
| "rfold f (x # xs) s = rbind (f x s) (rfold f xs)"

lemma rfold_append: "rfold f (xs @ ys) s = rbind (rfold f xs s) (rfold f ys)"
proof (induction xs arbitrary: s)
  case Nil
  then show ?case by simp
next
  case (Cons x xs)
  then show ?case by (cases "f x s") simp_all
qed

lemma rfold_invar:
  assumes "rfold f xs s = Inr t" and "P s"
    and "\<And>x u v. x \<in> set xs \<Longrightarrow> P u \<Longrightarrow> f x u = Inr v \<Longrightarrow> P v"
  shows "P t"
  using assms
proof (induction xs arbitrary: s)
  case Nil
  then show ?case by simp
next
  case (Cons x xs)
  from Cons.prems(1) obtain u where u: "f x s = Inr u" "rfold f xs u = Inr t"
    by (auto simp: rbind_Inr)
  have "P u" using Cons.prems(2,3) u(1) by (meson list.set_intros(1))
  then show ?case using Cons.IH [OF u(2)] Cons.prems(3) by (meson list.set_intros(2))
qed

section \<open>Byte buffers\<close>

definition rd :: "u8 list \<Rightarrow> int \<Rightarrow> u8 res" where
  "rd buf i = (if 0 \<le> i \<and> i < int (length buf) then Inr (buf ! nat i) else Inl OutOfBounds)"

text \<open>Little-endian value of a byte string, as \<open>memcpy\<close> into an integer reads it on x86.\<close>

fun le_val :: "u8 list \<Rightarrow> int" where
  "le_val [] = 0"
| "le_val (b # bs) = uint b + 256 * le_val bs"

definition rd_le :: "nat \<Rightarrow> u8 list \<Rightarrow> int \<Rightarrow> int res" where
  "rd_le n buf i =
     (if 0 \<le> i \<and> i + int n \<le> int (length buf) then Inr (le_val (take n (drop (nat i) buf)))
      else Inl OutOfBounds)"

lemma rd_ok [simp]: "0 \<le> i \<Longrightarrow> i < int (length buf) \<Longrightarrow> rd buf i = Inr (buf ! nat i)"
  by (simp add: rd_def)

lemma le_val_nonneg: "0 \<le> le_val bs"
  by (induction bs) simp_all

lemma le_val_bound: "le_val bs < 256 ^ length bs"
proof (induction bs)
  case Nil
  then show ?case by simp
next
  case (Cons b bs)
  have "uint b < 256" using uint_lt2p [of b] by simp
  with Cons show ?case by simp
qed

lemma rd_le_ok:
  "0 \<le> i \<Longrightarrow> i + int n \<le> int (length buf) \<Longrightarrow>
     rd_le n buf i = Inr (le_val (take n (drop (nat i) buf)))"
  by (simp add: rd_le_def)

lemma rd_le_range:
  assumes "rd_le n buf i = Inr v"
  shows "0 \<le> v \<and> v < 256 ^ n"
proof -
  from assms have v: "v = le_val (take n (drop (nat i) buf))"
    and len: "length (take n (drop (nat i) buf)) = n"
    by (auto simp: rd_le_def split: if_splits)
  show ?thesis using le_val_nonneg le_val_bound [of "take n (drop (nat i) buf)"]
    unfolding v len by simp
qed

section \<open>Bounded scans\<close>

text \<open>
  \<open>scan P n i\<close> is the loop \<open>for (; i < n; i++) if (P(i)) break;\<close>: the first index at which
  the test holds.
\<close>

fun scan_list :: "('a \<Rightarrow> bool) \<Rightarrow> nat \<Rightarrow> 'a list \<Rightarrow> nat option" where
  "scan_list P i [] = None"
| "scan_list P i (x # xs) = (if P x then Some i else scan_list P (Suc i) xs)"

lemma scan_list_Some:
  "scan_list P i xs = Some k \<Longrightarrow>
     i \<le> k \<and> k < i + length xs \<and> P (xs ! (k - i)) \<and> (\<forall>j < k - i. \<not> P (xs ! j))"
proof (induction xs arbitrary: i)
  case Nil
  then show ?case by simp
next
  case (Cons x xs)
  show ?case
  proof (cases "P x")
    case True
    with Cons.prems show ?thesis by simp
  next
    case False
    with Cons.prems have "scan_list P (Suc i) xs = Some k" by simp
    note IH = Cons.IH [OF this]
    have "k - i = Suc (k - Suc i)" using IH by linarith
    with IH False show ?thesis by (auto simp: less_Suc_eq_0_disj)
  qed
qed

lemma scan_list_None: "scan_list P i xs = None \<longleftrightarrow> (\<forall>x \<in> set xs. \<not> P x)"
  by (induction xs arbitrary: i) auto

lemma scan_listE [scan_simps]:
  assumes "scan_list P 0 xs = Some k"
  shows "k < length xs" and "P (xs ! k)" and "\<And>j. j < k \<Longrightarrow> \<not> P (xs ! j)"
  using scan_list_Some [OF assms] by simp_all

section \<open>Association lists\<close>

lemma map_of_update [simp]: "map_of (AList.update k v xs) k' = (if k' = k then Some v else map_of xs k')"
  by (simp add: update_conv')

lemma map_of_delete [simp]: "map_of (AList.delete k xs) k' = (if k' = k then None else map_of xs k')"
  by (simp add: delete_conv')

text \<open>\<open>operator[]\<close> on a \<open>std::map<int, int>\<close>: a missing key reads as 0.\<close>

definition idx0 :: "('k \<rightharpoonup> int) \<Rightarrow> 'k \<Rightarrow> int" where
  "idx0 m k = (case m k of None \<Rightarrow> 0 | Some v \<Rightarrow> v)"

lemma idx0_upd [simp]: "idx0 (m(k \<mapsto> v)) k' = (if k' = k then v else idx0 m k')"
  by (simp add: idx0_def)

section \<open>Multimaps\<close>

text \<open>
  A \<open>std::multimap\<close> with integer keys as the list of its entries in iteration order: sorted, equal
  keys in the order of insertion. An iterator is a position, \<open>end()\<close> is the length.
\<close>

definition mmap_insert :: "int \<Rightarrow> 'v \<Rightarrow> (int \<times> 'v) list \<Rightarrow> (int \<times> 'v) list" where
  "mmap_insert s d xs = takeWhile (\<lambda>e. fst e \<le> s) xs @ (s, d) # dropWhile (\<lambda>e. fst e \<le> s) xs"

definition lower_bound :: "int \<Rightarrow> (int \<times> 'v) list \<Rightarrow> nat" where
  "lower_bound k xs = length (takeWhile (\<lambda>e. fst e < k) xs)"

definition iter_get :: "(int \<times> 'v) list \<Rightarrow> nat \<Rightarrow> (int \<times> 'v) res" where
  "iter_get xs i = (if i < length xs then Inr (xs ! i) else Inl OutOfBounds)"

text \<open>Stepping an iterator back; before \<open>begin()\<close> there is nothing.\<close>

definition iter_prev :: "nat \<Rightarrow> nat res" where
  "iter_prev i = (case i of 0 \<Rightarrow> Inl OutOfBounds | Suc j \<Rightarrow> Inr j)"

lemma keys_mmap_insert:
  "map fst (mmap_insert s d xs) = takeWhile (\<lambda>k. k \<le> s) (map fst xs) @ s # dropWhile (\<lambda>k. k \<le> s) (map fst xs)"
  by (simp add: mmap_insert_def takeWhile_map dropWhile_map comp_def)

lemma sorted_mmap_insert: "sorted (map fst xs) \<Longrightarrow> sorted (map fst (mmap_insert s d xs))"
proof (induction xs)
  case (Cons x xs)
  then show ?case
    by (cases "fst x \<le> s") (auto simp: mmap_insert_def dest: set_takeWhileD set_dropWhileD)
qed (simp add: mmap_insert_def)

text \<open>Before \<open>lower_bound k\<close> all keys are below \<open>k\<close>, from there on none is.\<close>

lemma lower_bound_split:
  assumes "sorted (map fst xs)"
  shows "lower_bound k xs \<le> length xs" and "i < lower_bound k xs \<Longrightarrow> fst (xs ! i) < k"
    and "lower_bound k xs \<le> i \<Longrightarrow> i < length xs \<Longrightarrow> k \<le> fst (xs ! i)"
proof -
  let ?n = "lower_bound k xs"
  show "?n \<le> length xs" by (simp add: lower_bound_def length_takeWhile_le)
  show "fst (xs ! i) < k" if "i < ?n"
    using that set_takeWhileD [OF nth_mem [of i "takeWhile (\<lambda>e. fst e < k) xs"]]
    by (simp add: lower_bound_def takeWhile_nth)
  show "k \<le> fst (xs ! i)" if i: "?n \<le> i" "i < length xs"
  proof -
    have "?n < length xs" using i by simp
    then have "\<not> fst (xs ! ?n) < k" unfolding lower_bound_def by (rule nth_length_takeWhile)
    moreover have "fst (xs ! ?n) \<le> fst (xs ! i)"
      using sorted_nth_mono [OF assms i(1)] i by simp
    ultimately show ?thesis by simp
  qed
qed

lemma lower_bound_map: "lower_bound k xs = length (takeWhile (\<lambda>x. x < k) (map fst xs))"
  by (simp add: lower_bound_def takeWhile_map comp_def)

lemma lower_bound_keys: "map fst xs = map fst ys \<Longrightarrow> lower_bound k xs = lower_bound k ys"
  by (simp only: lower_bound_map)

end
