(* ===== verification/Floats.thy ===== *)
theory Floats
  imports Prelude "HOL-Library.Log_Nat"
begin

text \<open>
  The IEEE-754 arithmetic the C++ uses on \<open>float\<close> and \<open>double\<close>: bit patterns are decoded to
  exact rationals, an operation is computed exactly and rounded once to nearest-even in the
  format (binary32: 24 bits, binary64: 53 bits), with subnormals and overflow. The sign of
  zero is not kept: the only place it can be seen is the sign of the infinity \<open>x / 0\<close>, and the
  code tests such a quotient only against both ends of a symmetric interval.
\<close>

section \<open>Powers of two and the binary exponent of a rational\<close>

definition pow2 :: "int \<Rightarrow> rat" where
  "pow2 k = (if 0 \<le> k then 2 ^ nat k else 1 / 2 ^ nat (- k))"

definition ilog2 :: "rat \<Rightarrow> int" where
  "ilog2 x = (let (n, d) = quotient_of x; k = bitlen n - bitlen d
              in if pow2 k \<le> x then k else k - 1)"

lemma pow2_powi: "pow2 k = power_int 2 k"
  by (simp add: pow2_def power_int_def inverse_eq_divide power_one_over)

lemma pow2_pos [simp]: "0 < pow2 k"
  by (simp add: pow2_def)

lemma pow2_nonzero [simp]: "pow2 k \<noteq> 0"
  using pow2_pos [of k] by linarith

lemma pow2_add: "pow2 (a + b) = pow2 a * pow2 b"
  by (simp add: pow2_powi power_int_add)

lemma pow2_Suc: "pow2 (k + 1) = 2 * pow2 k"
  by (simp add: pow2_add) (simp add: pow2_def)

lemma pow2_diff: "pow2 (a - b) = pow2 a / pow2 b"
  by (simp add: pow2_powi power_int_diff)

lemma pow2_mono: "a \<le> b \<Longrightarrow> pow2 a \<le> pow2 b"
  by (simp add: pow2_powi power_int_increasing)

lemma pow2_less: "pow2 a < pow2 b \<Longrightarrow> a < b"
  using pow2_mono [of b a] by linarith

lemma pow2_nat: "0 \<le> k \<Longrightarrow> pow2 k = of_int (2 ^ nat k)"
  by (simp add: pow2_def)

lemma bitlen_pos_bounds:
  assumes "0 < (n :: int)"
  shows "pow2 (bitlen n - 1) \<le> of_int n" and "of_int n < pow2 (bitlen n)"
proof -
  have b: "2 ^ nat (bitlen n - 1) \<le> n \<and> n < 2 ^ nat (bitlen n)"
    using assms by (rule bitlen_bounds)
  have "bitlen n \<noteq> 0"
    using assms by (simp add: bitlen_eq_zero_iff)
  then have pos: "0 \<le> bitlen n - 1" using bitlen_nonneg [of n] by linarith
  show "pow2 (bitlen n - 1) \<le> of_int n"
    using b pos by (simp only: pow2_nat of_int_le_iff)
  show "of_int n < pow2 (bitlen n)"
    using b pos by (simp only: pow2_nat of_int_less_iff bitlen_nonneg)
qed

lemma ilog2_bounds:
  assumes "0 < x"
  shows "pow2 (ilog2 x) \<le> x" and "x < pow2 (ilog2 x + 1)"
proof -
  obtain n d where q: "quotient_of x = (n, d)" by (cases "quotient_of x")
  have d: "0 < d" using q by (rule quotient_of_denom_pos)
  have x: "x = of_int n / of_int d" using q by (rule quotient_of_div)
  have n: "0 < n" using assms d by (simp add: x zero_less_divide_iff)
  let ?k = "bitlen n - bitlen d"
  note bn = bitlen_pos_bounds [OF n] and bd = bitlen_pos_bounds [OF d]
  have d': "(0 :: rat) < of_int d" using d by simp
  have "pow2 (?k - 1) = pow2 (bitlen n - 1) / pow2 (bitlen d)"
    by (simp flip: pow2_diff) (simp add: algebra_simps)
  also have "\<dots> \<le> of_int n / of_int d"
    using bn(1) bd(2) d' n by (intro frac_le) (auto intro: less_imp_le)
  finally have lo: "pow2 (?k - 1) \<le> x" by (simp add: x)
  have "x < pow2 (bitlen n) / pow2 (bitlen d - 1)"
    unfolding x using bn bd d' n
    by (intro frac_less) (auto intro: less_imp_le)
  also have "\<dots> = pow2 (?k + 1)"
    by (simp flip: pow2_diff) (simp add: algebra_simps)
  finally have hi: "x < pow2 (?k + 1)" .
  show "pow2 (ilog2 x) \<le> x"
    using lo by (simp add: ilog2_def q Let_def)
  show "x < pow2 (ilog2 x + 1)"
    using hi by (simp add: ilog2_def q Let_def)
qed

lemma ilog2_unique:
  assumes "pow2 k \<le> x" and "x < pow2 (k + 1)"
  shows "ilog2 x = k"
proof -
  have "0 < x" using assms(1) pow2_pos [of k] by linarith
  note b = ilog2_bounds [OF this]
  have "pow2 k < pow2 (ilog2 x + 1)" and "pow2 (ilog2 x) < pow2 (k + 1)"
    using assms b by linarith+
  from pow2_less [OF this(1)] pow2_less [OF this(2)] show ?thesis by linarith
qed

lemma ilog2_mono: "0 < x \<Longrightarrow> x \<le> y \<Longrightarrow> ilog2 x \<le> ilog2 y"
  using ilog2_bounds [of x] ilog2_bounds [of y] pow2_less [of "ilog2 x" "ilog2 y + 1"]
  by linarith

section \<open>Rounding to nearest-even\<close>

definition round_even :: "rat \<Rightarrow> int" where
  "round_even x = (let f = \<lfloor>x\<rfloor>; r = x - of_int f
     in if r < 1 / 2 then f else if 1 / 2 < r then f + 1 else if even f then f else f + 1)"

lemma round_even_int [simp]: "round_even (of_int k) = k"
  by (simp add: round_even_def)

lemma round_even_bounds: "\<lfloor>x\<rfloor> \<le> round_even x \<and> round_even x \<le> \<lfloor>x\<rfloor> + 1"
  by (simp add: round_even_def Let_def)

lemma round_even_mono:
  assumes "x \<le> y"
  shows "round_even x \<le> round_even y"
proof (cases "\<lfloor>x\<rfloor> = \<lfloor>y\<rfloor>")
  case True
  with assms show ?thesis by (auto simp: round_even_def Let_def)
next
  case False
  with floor_mono [OF assms] have "\<lfloor>x\<rfloor> + 1 \<le> \<lfloor>y\<rfloor>" by linarith
  with round_even_bounds [of x] round_even_bounds [of y] show ?thesis by linarith
qed

text \<open>\<open>fl p emin x\<close>: \<open>x\<close> rounded to \<open>p\<close> significant bits, no finer than the subnormal quantum.\<close>

definition fl :: "int \<Rightarrow> int \<Rightarrow> rat \<Rightarrow> rat" where
  "fl p emin x =
     (if x = 0 then 0
      else let q = pow2 (max (ilog2 \<bar>x\<bar>) emin - (p - 1)) in of_int (round_even (x / q)) * q)"

lemma fl_0 [simp]: "fl p emin 0 = 0"
  by (simp add: fl_def)

lemma fl_exact:
  assumes "x = of_int m * pow2 k" and "k \<ge> max (ilog2 \<bar>x\<bar>) emin - (p - 1)"
  shows "fl p emin x = x"
proof (cases "x = 0")
  case False
  let ?e = "max (ilog2 \<bar>x\<bar>) emin - (p - 1)"
  have "x / pow2 ?e = of_int m * pow2 (k - ?e)"
    using assms(1) by (simp add: pow2_diff)
  also have "\<dots> = of_int (m * 2 ^ nat (k - ?e))"
    using assms(2) by (simp add: pow2_nat)
  finally have "x / pow2 ?e = of_int (m * 2 ^ nat (k - ?e))" .
  then have "of_int (round_even (x / pow2 ?e)) * pow2 ?e = x"
    by (metis nonzero_eq_divide_eq pow2_nonzero round_even_int)
  with False show ?thesis by (simp add: fl_def Let_def)
qed simp

lemma fl_int_exact:
  assumes "\<bar>n\<bar> < 2 ^ nat p" and "0 \<le> p" and "emin \<le> 0"
  shows "fl p emin (of_int n) = of_int n"
proof (cases "n = 0")
  case False
  have "ilog2 \<bar>of_int n\<bar> < p"
  proof -
    have "pow2 (ilog2 \<bar>of_int n\<bar>) \<le> \<bar>of_int n\<bar>"
      using False by (intro ilog2_bounds) simp
    also have "\<dots> < pow2 p"
      using assms(1,2) by (simp only: pow2_nat of_int_less_iff flip: of_int_abs)
    finally show ?thesis by (rule pow2_less)
  qed
  have "0 \<le> ilog2 \<bar>of_int n\<bar>"
  proof -
    have "pow2 0 \<le> \<bar>of_int n :: rat\<bar>"
      using False by (simp add: pow2_def flip: of_int_abs)
    also have "\<dots> < pow2 (ilog2 \<bar>of_int n\<bar> + 1)"
      using False by (intro ilog2_bounds) simp
    finally have "0 < ilog2 \<bar>of_int n\<bar> + 1" by (rule pow2_less)
    then show ?thesis by simp
  qed
  with \<open>ilog2 \<bar>of_int n\<bar> < p\<close> assms(3)
  have "0 \<ge> max (ilog2 \<bar>of_int n :: rat\<bar>) emin - (p - 1)" by simp
  with fl_exact [of "of_int n" n 0] show ?thesis by (simp add: pow2_def)
qed simp

lemma fl_nonneg: "0 \<le> x \<Longrightarrow> 0 \<le> fl p emin x"
proof -
  assume "0 \<le> x"
  then have "0 \<le> \<lfloor>x / pow2 k\<rfloor>" for k
    by (simp add: less_imp_le)
  then have "0 \<le> round_even (x / pow2 k)" for k
    using round_even_bounds [of "x / pow2 k"] by (meson order_trans)
  then show ?thesis by (simp add: fl_def Let_def less_imp_le)
qed

lemma fl_mono:
  assumes "0 \<le> x" and "x \<le> y" and "1 \<le> p"
  shows "fl p emin x \<le> fl p emin y"
proof (cases "x = 0")
  case True
  with assms(2) show ?thesis by (simp add: fl_nonneg)
next
  case False
  with assms have pos: "0 < x" "0 < y" by linarith+
  define ex where "ex = max (ilog2 x) emin"
  define ey where "ey = max (ilog2 y) emin"
  have flx: "fl p emin x = of_int (round_even (x / pow2 (ex - (p - 1)))) * pow2 (ex - (p - 1))"
    and fly: "fl p emin y = of_int (round_even (y / pow2 (ey - (p - 1)))) * pow2 (ey - (p - 1))"
    using pos by (simp_all add: fl_def ex_def ey_def Let_def)
  have "ex \<le> ey" using ilog2_mono [OF pos(1) assms(2)] by (simp add: ex_def ey_def)
  show ?thesis
  proof (cases "ex = ey")
    case True
    have "round_even (x / pow2 (ey - (p - 1))) \<le> round_even (y / pow2 (ey - (p - 1)))"
      using assms(2) by (intro round_even_mono divide_right_mono) (simp_all add: less_imp_le)
    with True show ?thesis unfolding flx fly by (simp add: mult_right_mono less_imp_le)
  next
    case False
    with \<open>ex \<le> ey\<close> have lt: "ex + 1 \<le> ey" and ey: "ey = ilog2 y"
      by (auto simp: ex_def ey_def)
    have "x \<le> pow2 (ex + 1)"
      using ilog2_bounds(2) [OF pos(1)] pow2_mono [of "ilog2 x + 1" "ex + 1"] by (simp add: ex_def)
    then have "x / pow2 (ex - (p - 1)) \<le> pow2 (ex + 1) / pow2 (ex - (p - 1))"
      by (simp add: divide_right_mono less_imp_le)
    also have "\<dots> = of_int (2 ^ nat p)"
      using assms(3) by (simp add: pow2_nat flip: pow2_diff)
    finally have "round_even (x / pow2 (ex - (p - 1))) \<le> 2 ^ nat p"
      by (metis round_even_int round_even_mono)
    then have "fl p emin x \<le> of_int (2 ^ nat p) * pow2 (ex - (p - 1))"
      unfolding flx by (intro mult_right_mono) (simp_all only: of_int_le_iff pow2_pos less_imp_le)
    also have "\<dots> = pow2 (ex + 1)"
      using assms(3) by (simp flip: pow2_nat pow2_add of_int_power)
    finally have 1: "fl p emin x \<le> pow2 (ex + 1)" .
    have "of_int (2 ^ nat (p - 1)) = pow2 ey / pow2 (ey - (p - 1))"
      using assms(3) by (simp add: pow2_nat flip: pow2_diff)
    also have "\<dots> \<le> y / pow2 (ey - (p - 1))"
      using ilog2_bounds(1) [OF pos(2)] by (simp add: ey divide_right_mono less_imp_le)
    finally have "2 ^ nat (p - 1) \<le> round_even (y / pow2 (ey - (p - 1)))"
      by (metis round_even_int round_even_mono)
    then have "of_int (2 ^ nat (p - 1)) * pow2 (ey - (p - 1)) \<le> fl p emin y"
      unfolding fly by (intro mult_right_mono) (simp_all only: of_int_le_iff pow2_pos less_imp_le)
    moreover have "of_int (2 ^ nat (p - 1)) * pow2 (ey - (p - 1)) = pow2 ey"
      using assms(3) by (simp flip: pow2_nat pow2_add of_int_power)
    ultimately have 2: "pow2 ey \<le> fl p emin y" by simp
    from 1 2 pow2_mono [OF lt] show ?thesis by linarith
  qed
qed

section \<open>Values and arithmetic\<close>

datatype fp = NaN | Inf bool | Fin rat

record fmt =
  prec :: int
  emin :: int
  emax :: int

definition binary32 :: fmt where
  "binary32 = \<lparr>prec = 24, emin = -126, emax = 127\<rparr>"

definition binary64 :: fmt where
  "binary64 = \<lparr>prec = 53, emin = -1022, emax = 1023\<rparr>"

definition fp_round :: "fmt \<Rightarrow> rat \<Rightarrow> fp" where
  "fp_round F x = (let y = fl (prec F) (emin F) x
     in if pow2 (emax F + 1) \<le> \<bar>y\<bar> then Inf (y < 0) else Fin y)"

text \<open>The bit pattern \<open>n\<close> of a value with \<open>emax + 1\<close> as the exponent bias plus one.\<close>

definition fp_decode :: "fmt \<Rightarrow> int \<Rightarrow> fp" where
  "fp_decode F n = (let mb = nat (prec F - 1); ew = 2 * (emax F + 1);
       m = n mod 2 ^ mb; e = n div 2 ^ mb mod ew; s = odd (n div 2 ^ mb div ew)
     in if e = ew - 1 then (if m = 0 then Inf s else NaN)
        else (let v = (if e = 0 then of_int m * pow2 (emin F - int mb)
                       else of_int (2 ^ mb + m) * pow2 (e - emax F - int mb))
              in Fin (if s then - v else v)))"

fun fp_sub :: "fmt \<Rightarrow> fp \<Rightarrow> fp \<Rightarrow> fp" where
  "fp_sub F NaN _ = NaN"
| "fp_sub F _ NaN = NaN"
| "fp_sub F (Inf s) (Inf t) = (if s = t then NaN else Inf s)"
| "fp_sub F (Inf s) (Fin _) = Inf s"
| "fp_sub F (Fin _) (Inf t) = Inf (\<not> t)"
| "fp_sub F (Fin x) (Fin y) = fp_round F (x - y)"

fun fp_add :: "fmt \<Rightarrow> fp \<Rightarrow> fp \<Rightarrow> fp" where
  "fp_add F NaN _ = NaN"
| "fp_add F _ NaN = NaN"
| "fp_add F (Inf s) (Inf t) = (if s = t then Inf s else NaN)"
| "fp_add F (Inf s) (Fin _) = Inf s"
| "fp_add F (Fin _) (Inf t) = Inf t"
| "fp_add F (Fin x) (Fin y) = fp_round F (x + y)"

fun fp_div :: "fmt \<Rightarrow> fp \<Rightarrow> fp \<Rightarrow> fp" where
  "fp_div F NaN _ = NaN"
| "fp_div F _ NaN = NaN"
| "fp_div F (Inf _) (Inf _) = NaN"
| "fp_div F (Inf s) (Fin y) = Inf (s \<noteq> (y < 0))"
| "fp_div F (Fin _) (Inf _) = Fin 0"
| "fp_div F (Fin x) (Fin y) =
     (if y = 0 then (if x = 0 then NaN else Inf (x < 0)) else fp_round F (x / y))"

text \<open>C's \<open>!=\<close>: every comparison with a NaN differs.\<close>

fun fp_ne :: "fp \<Rightarrow> fp \<Rightarrow> bool" where
  "fp_ne NaN _ = True"
| "fp_ne _ NaN = True"
| "fp_ne a b = (a \<noteq> b)"

text \<open>\<open>x > r || x < -r\<close>: false on a NaN.\<close>

fun fp_outside :: "rat \<Rightarrow> fp \<Rightarrow> bool" where
  "fp_outside r NaN = False"
| "fp_outside r (Inf _) = True"
| "fp_outside r (Fin x) = (r < x \<or> x < - r)"

lemma fp_ne_self: "fp_ne a a \<longleftrightarrow> a = NaN"
  by (cases a) simp_all

lemma fp_sub_NaN [simp]: "fp_sub F a NaN = NaN"
  by (cases a) simp_all

lemma fp_div_NaN [simp]: "fp_div F NaN a = NaN" "fp_div F a NaN = NaN"
  by (simp, cases a) simp_all

section \<open>Integer and floating-point conversions\<close>

text \<open>
  Converting a \<open>float\<close> or \<open>double\<close> to \<open>int64_t\<close> truncates; outside the range (and for a NaN)
  x86's \<open>cvttss2si\<close> and \<open>cvttsd2si\<close> give \<open>-2^63\<close>.
\<close>

definition trunc_i64 :: "rat \<Rightarrow> int" where
  "trunc_i64 x = (let t = (if 0 \<le> x then \<lfloor>x\<rfloor> else \<lceil>x\<rceil>)
     in if - (2 ^ 63) \<le> t \<and> t < 2 ^ 63 then t else - (2 ^ 63))"

definition f32 :: "rat \<Rightarrow> rat" where
  "f32 = fl 24 (-126)"

definition f64 :: "rat \<Rightarrow> rat" where
  "f64 = fl 53 (-1022)"

text \<open>\<open>((float) n / t) * 100\<close> stored in an \<open>int64_t\<close>, for \<open>int64_t\<close> values \<open>n\<close> and \<open>t\<close>.\<close>

definition percent_i64 :: "int \<Rightarrow> int \<Rightarrow> int" where
  "percent_i64 n t =
     (if t = 0 then - (2 ^ 63)
      else trunc_i64 (f32 (f32 (f32 (of_int n) / f32 (of_int t)) * 100)))"

lemma f32_exact: "\<bar>n\<bar> < 2 ^ 24 \<Longrightarrow> f32 (of_int n) = of_int n"
  unfolding f32_def by (rule fl_int_exact) simp_all

lemma f64_exact: "\<bar>n\<bar> < 2 ^ 53 \<Longrightarrow> f64 (of_int n) = of_int n"
  unfolding f64_def by (rule fl_int_exact) simp_all

lemma f32_mono: "0 \<le> x \<Longrightarrow> x \<le> y \<Longrightarrow> f32 x \<le> f32 y"
  unfolding f32_def by (rule fl_mono) simp_all

lemma f32_pos:
  assumes "1 \<le> n"
  shows "1 \<le> f32 (of_int n)"
proof -
  have "f32 (of_int 1) \<le> f32 (of_int n)"
    using assms by (intro f32_mono) simp_all
  then show ?thesis using f32_exact [of 1] by simp
qed

text \<open>The inefficiency metric is a percentage: rounding never takes it outside 0 to 100.\<close>

lemma percent_i64_range:
  assumes "0 \<le> n" and "n \<le> t" and "0 < t"
  shows "0 \<le> percent_i64 n t \<and> percent_i64 n t \<le> 100"
proof -
  have n0: "0 \<le> f32 (of_int n)"
    using assms(1) unfolding f32_def by (intro fl_nonneg) simp
  have nt: "f32 (of_int n) \<le> f32 (of_int t)"
    using assms(1,2) by (intro f32_mono) simp_all
  have t1: "1 \<le> f32 (of_int t)" using assms(3) by (intro f32_pos) simp
  have q: "0 \<le> f32 (of_int n) / f32 (of_int t)" "f32 (of_int n) / f32 (of_int t) \<le> 1"
    using n0 nt t1 by (simp_all add: divide_le_eq_1)
  let ?r = "f32 (f32 (of_int n) / f32 (of_int t))"
  have r: "0 \<le> ?r" "?r \<le> 1"
    using q(1) f32_mono [OF q] f32_exact [of 1]
    unfolding f32_def by (simp_all add: fl_nonneg)
  have s: "0 \<le> f32 (?r * 100)" "f32 (?r * 100) \<le> 100"
    using r f32_mono [of "?r * 100" "of_int 100"] f32_exact [of 100]
    unfolding f32_def by (simp_all add: fl_nonneg)
  have "\<lfloor>f32 (?r * 100)\<rfloor> \<le> 100" "0 \<le> \<lfloor>f32 (?r * 100)\<rfloor>"
    using s by (simp_all add: floor_le_iff)
  then show ?thesis using assms(3) s(1) by (simp add: percent_i64_def trunc_i64_def Let_def)
qed

lemma percent_i64_zero: "percent_i64 n 0 = - (2 ^ 63)"
  by (simp add: percent_i64_def)

end
