(* ===== verification/Context_Types.thy ===== *)
theory Context_Types
  imports Floats
begin

text \<open>
  The data of \<^verbatim>\<open>includes/platform/context.hpp\<close> and the address macros of
  \<^verbatim>\<open>includes/tools/witchTool/watchpoint-lib/watchpoint_util.h\<close>: access and float types, context
  frames, metric values, sampled events with their destructor, and the arithmetic that decides
  whether and where two accesses overlap, with its closed form on byte intervals.
\<close>

section \<open>Enumerations\<close>

datatype AccessType = LOAD | STORE | LOAD_AND_STORE | UNKNOWN

datatype FloatType = ELEM_TYPE_FLOAT16 | ELEM_TYPE_SINGLE | ELEM_TYPE_DOUBLE
  | ELEM_TYPE_LONGDOUBLE | ELEM_TYPE_LONGBCD | ELEM_TYPE_UNKNOWN

datatype AddressSpaceType = KERNEL_HEAP | KERNEL_TASK_STACK | KERNEL_IRQ_STACK | KERNEL_NMI_STACK
  | KERNEL_EXCEPTION_STACK | USER_SPACE | UNKNOWN_ADDRESS_SPACE

section \<open>Context frames and metric values\<close>

text \<open>
  \<open>cf_ptr\<close> is the address of the heap object; the source shares frames between vectors by
  pointer, and the destructor of an event frees them by pointer.
\<close>

record ContextFrame =
  cf_ptr :: nat
  binary_addr :: int
  method_name :: string
  source_file :: string
  src_lineno :: int

definition frame_key :: "ContextFrame \<Rightarrow> int \<times> int" where
  "frame_key f = (binary_addr f, src_lineno f)"

definition frame_eq :: "ContextFrame \<Rightarrow> ContextFrame \<Rightarrow> bool" where
  "frame_eq f g \<longleftrightarrow> binary_addr f = binary_addr g \<and> src_lineno f = src_lineno g"

lemma frame_eq_key: "frame_eq f g \<longleftrightarrow> frame_key f = frame_key g"
  by (simp add: frame_eq_def frame_key_def)

record metric_val_t =
  mv_r :: int
  mv_i :: int

definition metric_zero :: metric_val_t where
  "metric_zero = \<lparr>mv_r = 0, mv_i = 0\<rparr>"

definition metric_add :: "metric_val_t \<Rightarrow> metric_val_t \<Rightarrow> metric_val_t" where
  "metric_add v1 v2 = \<lparr>mv_r = to_i64 (mv_r v1 + mv_r v2), mv_i = to_i64 (mv_i v1 + mv_i v2)\<rparr>"

definition metric_less :: "metric_val_t \<Rightarrow> metric_val_t \<Rightarrow> bool" where
  "metric_less v1 v2 \<longleftrightarrow> mv_i v1 < mv_i v2"

section \<open>Events\<close>

text \<open>
  \<open>valueAtEvent\<close> is the \<open>malloc\<close>ed buffer, \<open>None\<close> for the null pointer. The members without an
  initialiser in the class are indeterminate in a new event: \<open>new_Event\<close> takes them from \<open>junk\<close>.
\<close>

record Event =
  eventId :: int
  eventType :: int
  deviceFileId :: int
  eventContext_host :: "ContextFrame list"
  eventContext_agent :: "ContextFrame list"
  pId :: int
  tId :: int
  h_pId :: int
  h_tId :: int
  ip_addr :: u64
  data_addr :: u64
  cpu :: int
  h_ip_addr :: u64
  h_data_addr :: u64
  valueAtEvent :: "u8 list option"
  inst :: int
  h_cpu :: int
  event_time :: int
  event_type :: int
  data_src :: int
  latency :: int
  opcode :: int
  accessType :: AccessType
  accessLength :: int
  floatType :: FloatType
  addressSpaceType :: AddressSpaceType
  fixSkid :: bool
  isFixed :: bool
  fixedIP :: u64
  sample_index :: int

definition new_Event :: "Event \<Rightarrow> Event" where
  "new_Event junk = junk\<lparr>eventContext_host := [], eventContext_agent := [], valueAtEvent := None,
     opcode := -1, accessType := UNKNOWN, accessLength := 0,
     addressSpaceType := UNKNOWN_ADDRESS_SPACE, fixSkid := False, isFixed := False, fixedIP := 0,
     sample_index := 0\<rparr>"

text \<open>
  \<open>~Event()\<close> frees the value buffer, then pops and deletes the frames of \<open>eventContext_agent\<close>
  from the back, then those of \<open>eventContext_host\<close>. \<open>live\<close> is the set of allocated frames.
\<close>

fun delete_frames :: "ContextFrame list \<Rightarrow> nat set \<Rightarrow> nat set res" where
  "delete_frames [] live = Inr live"
| "delete_frames (f # fs) live =
     (if cf_ptr f \<in> live then delete_frames fs (live - {cf_ptr f}) else Inl DoubleFree)"

definition destroy_Event :: "Event \<Rightarrow> nat set \<Rightarrow> nat set res" where
  "destroy_Event e live =
     rbind (delete_frames (rev (eventContext_agent e)) live)
           (delete_frames (rev (eventContext_host e)))"

lemma delete_frames_ok:
  "distinct (map cf_ptr fs) \<Longrightarrow> cf_ptr ` set fs \<subseteq> live \<Longrightarrow>
     delete_frames fs live = Inr (live - cf_ptr ` set fs)"
proof (induction fs arbitrary: live)
  case Nil
  then show ?case by simp
next
  case (Cons f fs)
  then have "cf_ptr ` set fs \<subseteq> live - {cf_ptr f}" by (simp add: subset_Diff_insert)
  with Cons show ?case by (simp flip: Diff_insert2)
qed

lemma delete_frames_twice:
  "f \<in> set fs \<Longrightarrow> cf_ptr f \<notin> live \<Longrightarrow> delete_frames fs live = Inl DoubleFree"
  by (induction fs arbitrary: live) auto

text \<open>An event with every member zero: the concrete input of the witnesses.\<close>

definition zero_Event :: Event where
  "zero_Event = \<lparr>eventId = 0, eventType = 0, deviceFileId = 0, eventContext_host = [],
     eventContext_agent = [], pId = 0, tId = 0, h_pId = 0, h_tId = 0, ip_addr = 0, data_addr = 0,
     cpu = 0, h_ip_addr = 0, h_data_addr = 0, valueAtEvent = None, inst = 0, h_cpu = 0,
     event_time = 0, event_type = 0, data_src = 0, latency = 0, opcode = -1, accessType = UNKNOWN,
     accessLength = 0, floatType = ELEM_TYPE_FLOAT16, addressSpaceType = UNKNOWN_ADDRESS_SPACE,
     fixSkid = False, isFixed = False, fixedIP = 0, sample_index = 0\<rparr>"

section \<open>Overlap of two accesses\<close>

definition CACHE_LINE_SZ :: int where "CACHE_LINE_SZ = 64"
definition MAX_WP_SLOTS :: nat where "MAX_WP_SLOTS = 5"
definition SAMPLES_POST_FULL_RESET_VAL :: int where "SAMPLES_POST_FULL_RESET_VAL = 1"
definition APPROX_RATE :: rat where "APPROX_RATE = 5764607523034235 / 2 ^ 59"

definition IS_ALIGNED :: "u64 \<Rightarrow> int \<Rightarrow> bool" where
  "IS_ALIGNED address alignment \<longleftrightarrow> address AND (word_of_int (alignment - 1)) = 0"

definition IS_4_BYTE_ALIGNED :: "u64 \<Rightarrow> bool" where
  "IS_4_BYTE_ALIGNED addr \<longleftrightarrow> addr AND 3 = 0"

definition IS_8_BYTE_ALIGNED :: "u64 \<Rightarrow> bool" where
  "IS_8_BYTE_ALIGNED addr \<longleftrightarrow> addr AND 7 = 0"

text \<open>Lengths are \<open>int\<close> or \<open>uint32_t\<close> and are converted to 64 bits before the additions.\<close>

definition ADDRESSES_OVERLAP :: "u64 \<Rightarrow> int \<Rightarrow> u64 \<Rightarrow> int \<Rightarrow> bool" where
  "ADDRESSES_OVERLAP addr1 len1 addr2 len2 \<longleftrightarrow>
     addr1 + word_of_int len1 > addr2 \<and> addr2 + word_of_int len2 > addr1"

text \<open>\<open>(int64_t)(a) - (int64_t)(b)\<close>, as the hardware computes it.\<close>

definition addr_diff :: "u64 \<Rightarrow> u64 \<Rightarrow> int" where
  "addr_diff a b = to_i64 (sint a - sint b)"

definition GET_OVERLAP_BYTES :: "u64 \<Rightarrow> int \<Rightarrow> u64 \<Rightarrow> int \<Rightarrow> int" where
  "GET_OVERLAP_BYTES a a_len b b_len =
     (if b \<le> a then min a_len (b_len - addr_diff a b) else min b_len (a_len - addr_diff b a))"

definition FIRST_OVERLAPPED_BYTE_OFFSET_IN_FIRST :: "u64 \<Rightarrow> u64 \<Rightarrow> int" where
  "FIRST_OVERLAPPED_BYTE_OFFSET_IN_FIRST a b = (if sint b \<le> sint a then 0 else addr_diff b a)"

definition FIRST_OVERLAPPED_BYTE_OFFSET_IN_SECOND :: "u64 \<Rightarrow> u64 \<Rightarrow> int" where
  "FIRST_OVERLAPPED_BYTE_OFFSET_IN_SECOND a b = (if sint a \<le> sint b then 0 else addr_diff a b)"

subsection \<open>Closed forms\<close>

text \<open>Two addresses in the same half of the address space (both user or both kernel).\<close>

definition same_half :: "u64 \<Rightarrow> u64 \<Rightarrow> bool" where
  "same_half a b \<longleftrightarrow> (sint a < 0 \<longleftrightarrow> sint b < 0)"

lemma uint64_bounds: "0 \<le> uint (a :: u64)" "uint (a :: u64) < 18446744073709551616"
  using uint_lt2p [of a] by simp_all

lemma sint_uint64:
  "sint (a :: u64) = (if uint a < 9223372036854775808 then uint a
                      else uint a - 18446744073709551616)"
proof -
  have s: "sint a = signed_take_bit 63 (uint a)" by (simp add: sint_uint)
  have e: "(2 :: int) ^ 63 = 9223372036854775808" by simp
  show ?thesis
  proof (cases "uint a < 9223372036854775808")
    case True
    have "signed_take_bit 63 (uint a) = uint a"
      by (rule signed_take_bit_int_eq_self; unfold e; use True uint64_bounds [of a] in linarith)
    with True show ?thesis unfolding s by simp
  next
    case False
    have "signed_take_bit 63 (uint a) = signed_take_bit 63 (uint a - 18446744073709551616)"
      by (rule signed_take_bit_eq_iff_take_bit_eq [THEN iffD2]) (simp add: take_bit_eq_mod)
    also have "\<dots> = uint a - 18446744073709551616"
      by (rule signed_take_bit_int_eq_self; unfold e; use False uint64_bounds [of a] in linarith)
    finally show ?thesis using False unfolding s by simp
  qed
qed

lemma same_half_iff:
  "same_half a b \<longleftrightarrow> (uint a < 9223372036854775808 \<longleftrightarrow> uint b < 9223372036854775808)"
  unfolding same_half_def sint_uint64 using uint64_bounds [of a] uint64_bounds [of b] by simp

lemma same_half_diff: "same_half a b \<Longrightarrow> sint a - sint b = uint a - uint b"
  by (simp add: same_half_iff sint_uint64)

lemma addr_diff_uint:
  assumes "same_half a b"
  shows "addr_diff a b = uint a - uint b"
proof -
  have e: "(2 :: int) ^ 63 = 9223372036854775808" by simp
  have "uint a < 9223372036854775808 \<longleftrightarrow> uint b < 9223372036854775808"
    using assms by (simp only: same_half_iff)
  then have "to_i64 (uint a - uint b) = uint a - uint b"
    by (intro to_i64_id; unfold e; use uint64_bounds [of a] uint64_bounds [of b] in linarith)
  then show ?thesis unfolding addr_diff_def same_half_diff [OF assms] .
qed

lemma same_half_sym: "same_half a b \<longleftrightarrow> same_half b a"
  by (auto simp: same_half_def)

lemma GET_OVERLAP_BYTES_interval:
  assumes "same_half a b"
  shows "GET_OVERLAP_BYTES a la b lb
           = min (uint a + la) (uint b + lb) - max (uint a) (uint b)"
  using assms
  by (auto simp: GET_OVERLAP_BYTES_def addr_diff_uint word_le_def same_half_sym [of b a])

lemma uint_add_len:
  assumes "0 \<le> l" and "uint (a :: u64) + l < 2 ^ 64"
  shows "uint (a + word_of_int l) = uint a + l"
proof -
  have "l < 2 ^ 64" using assms uint_ge_0 [of a] by linarith
  with assms show ?thesis by (simp add: uint_word_ariths uint_word_of_int)
qed

lemma ADDRESSES_OVERLAP_interval:
  assumes "0 \<le> la" "0 \<le> lb" "uint a + la < 2 ^ 64" "uint b + lb < 2 ^ 64"
  shows "ADDRESSES_OVERLAP a la b lb \<longleftrightarrow> uint b < uint a + la \<and> uint a < uint b + lb"
  using assms by (simp add: ADDRESSES_OVERLAP_def word_less_def uint_add_len)

lemma FIRST_OFFSETS:
  assumes "same_half a b"
  shows "FIRST_OVERLAPPED_BYTE_OFFSET_IN_FIRST a b = max (uint a) (uint b) - uint a"
    and "FIRST_OVERLAPPED_BYTE_OFFSET_IN_SECOND a b = max (uint a) (uint b) - uint b"
  using assms same_half_diff [OF assms]
  by (auto simp: FIRST_OVERLAPPED_BYTE_OFFSET_IN_FIRST_def
      FIRST_OVERLAPPED_BYTE_OFFSET_IN_SECOND_def addr_diff_uint same_half_sym [of b a])

text \<open>A power-of-two alignment test is divisibility.\<close>

lemma aligned_dvd:
  assumes "n < 64"
  shows "(a :: u64) AND word_of_int (2 ^ n - 1) = 0 \<longleftrightarrow> 2 ^ n dvd uint a"
proof -
  have "a AND word_of_int (2 ^ n - 1) = take_bit n a"
    by (simp add: take_bit_eq_mask mask_eq_exp_minus_1)
  moreover have "take_bit n a = 0 \<longleftrightarrow> take_bit n (uint a) = 0"
    by (metis unsigned_take_bit_eq uint_0_iff)
  ultimately show ?thesis by (simp add: take_bit_eq_0_iff)
qed

end
