(* ===== verification/Context_Tree.thy ===== *)
theory Context_Tree
  imports Context_Types "HOL-Library.Sublist"
begin

text \<open>
  The calling-context tree of \<^verbatim>\<open>includes/tools/witchTool/witchLogic/WitchLogic.hpp\<close>: the heap of
  \<open>Context\<close> nodes, the map from events to their leaves, the proportional-attribution table and the
  mutex, with the operations that grow the tree and take samples, the tree invariant, and the
  refinement of the tree by its set of key paths. Pointers are numbers, \<open>0\<close> is the address of
  \<open>contextTreeRoot\<close>; a deleted node is absent from the heap and reading it is \<open>UseAfterFree\<close>.
\<close>

section \<open>State\<close>

datatype MetricType = USEDBYTES | REDBYTES | APPROXREDBYTES | DEADBYTES | SAMPLECOUNT
  | WATCHEDCOUNT | INEFFICIENCY | CONTEXTTYPE

datatype ContextType = SAMPLEDCONTEXT | USEDCONTEXT | DEADCONTEXT | REDCONTEXT | UNDEFINEDCONTEXT

fun ctype_int :: "ContextType \<Rightarrow> int" where
  "ctype_int SAMPLEDCONTEXT = 0"
| "ctype_int USEDCONTEXT = 1"
| "ctype_int DEADCONTEXT = 2"
| "ctype_int REDCONTEXT = 3"
| "ctype_int UNDEFINEDCONTEXT = 4"

text \<open>
  \<open>metrics\<close> is a \<open>std::map\<close> read and written with \<open>operator[]\<close> only, so a missing key is a zero.
  \<open>children\<close> is an \<open>unordered_set\<close> with the hash of each element stored beside it: a lookup
  dereferences only the elements whose hash is that of the key.
\<close>

record cnode =
  cn_frame :: ContextFrame
  cn_metrics :: "MetricType \<Rightarrow> metric_val_t"
  cn_children :: "(int \<times> nat) list"
  cn_parent :: "nat option"

record SampleNum =
  catchup_num :: int
  cur_num :: int
  avgDistance :: fp

record wlogic =
  nodes :: "nat \<Rightarrow> cnode option"
  next_ctx :: nat
  eventToContextLeafMap :: "int \<rightharpoonup> nat"
  propAttrTable :: "(nat \<times> SampleNum) list"
  contextTree_mtx :: bool

definition new_Context :: "ContextFrame \<Rightarrow> nat option \<Rightarrow> cnode" where
  "new_Context f par = \<lparr>cn_frame = f, cn_metrics = (\<lambda>_. metric_zero), cn_children = [],
     cn_parent = par\<rparr>"

definition root_frame :: ContextFrame where
  "root_frame = \<lparr>cf_ptr = 0, binary_addr = 0, method_name = [], source_file = [], src_lineno = 0\<rparr>"

definition wl_init :: wlogic where
  "wl_init = \<lparr>nodes = (\<lambda>_. None)(0 := Some (new_Context root_frame None)), next_ctx = 1,
     eventToContextLeafMap = Map.empty, propAttrTable = [], contextTree_mtx = False\<rparr>"

definition getn :: "wlogic \<Rightarrow> nat \<Rightarrow> cnode res" where
  "getn w p = (case nodes w p of None \<Rightarrow> Inl UseAfterFree | Some n \<Rightarrow> Inr n)"

definition setn :: "nat \<Rightarrow> cnode \<Rightarrow> wlogic \<Rightarrow> wlogic" where
  "setn p n w = w\<lparr>nodes := (nodes w)(p := Some n)\<rparr>"

definition lock_tree :: "wlogic \<Rightarrow> wlogic res" where
  "lock_tree w = (if contextTree_mtx w then Inl Deadlock else Inr (w\<lparr>contextTree_mtx := True\<rparr>))"

definition unlock_tree :: "wlogic \<Rightarrow> wlogic" where
  "unlock_tree w = w\<lparr>contextTree_mtx := False\<rparr>"

section \<open>Growing the tree\<close>

fun find_child :: "wlogic \<Rightarrow> ContextFrame \<Rightarrow> (int \<times> nat) list \<Rightarrow> nat option res" where
  "find_child w f [] = Inr None"
| "find_child w f ((h, p) # cs) =
     (if h = src_lineno f
      then rbind (getn w p) (\<lambda>n. if frame_eq (cn_frame n) f then Inr (Some p) else find_child w f cs)
      else find_child w f cs)"

definition insert_child :: "nat \<Rightarrow> cnode \<Rightarrow> ContextFrame \<Rightarrow> wlogic \<Rightarrow> wlogic" where
  "insert_child cur n f w =
     (let p = next_ctx w
      in w\<lparr>nodes := (nodes w)(cur := Some (n\<lparr>cn_children := cn_children n @ [(src_lineno f, p)]\<rparr>),
                              p := Some (new_Context f (Some cur))),
           next_ctx := Suc p\<rparr>)"

definition set_metric_i :: "MetricType \<Rightarrow> int \<Rightarrow> cnode \<Rightarrow> cnode" where
  "set_metric_i m v n = n\<lparr>cn_metrics := (cn_metrics n)(m := (cn_metrics n m)\<lparr>mv_i := v\<rparr>)\<rparr>"

definition metric_i :: "cnode \<Rightarrow> MetricType \<Rightarrow> int" where
  "metric_i n m = mv_i (cn_metrics n m)"

text \<open>The two assignments to \<open>CONTEXTTYPE\<close>, in the source's order.\<close>

definition mark_context :: "ContextType \<Rightarrow> cnode \<Rightarrow> cnode" where
  "mark_context ctype n =
     (let t = metric_i n CONTEXTTYPE;
          n1 = (if t \<noteq> ctype_int SAMPLEDCONTEXT \<and> t \<noteq> ctype_int ctype
                then set_metric_i CONTEXTTYPE (ctype_int UNDEFINEDCONTEXT) n else n)
      in set_metric_i CONTEXTTYPE (ctype_int ctype) n1)"

definition frame_step :: "ContextType \<Rightarrow> ContextFrame \<Rightarrow> wlogic \<times> nat \<Rightarrow> (wlogic \<times> nat) res" where
  "frame_step ctype f = (\<lambda>(w, cur).
     rbind (getn w cur) (\<lambda>n.
     rbind (find_child w f (cn_children n)) (\<lambda>r.
       let (w1, p) = (case r of Some p \<Rightarrow> (w, p) | None \<Rightarrow> (insert_child cur n f w, next_ctx w))
       in rbind (getn w1 p) (\<lambda>m. Inr (setn p (mark_context ctype m) w1, p)))))"

text \<open>
  Returns the leaf. Every caller passes a non-null root: \<open>&contextTreeRoot\<close> or a leaf of the map.
\<close>

definition addFramesToContextTree ::
  "ContextFrame list \<Rightarrow> nat \<Rightarrow> bool \<Rightarrow> ContextType \<Rightarrow> wlogic \<Rightarrow> (wlogic \<times> nat) res" where
  "addFramesToContextTree fs start direction_ParentToChild ctype w =
     rfold (frame_step ctype) (if direction_ParentToChild then rev fs else fs) (w, start)"

section \<open>Samples\<close>

definition count_sample :: "nat \<Rightarrow> wlogic \<Rightarrow> wlogic" where
  "count_sample leaf w =
     (case map_of (propAttrTable w) leaf of
        Some s \<Rightarrow> w\<lparr>propAttrTable := AList.update leaf (s\<lparr>cur_num := to_u64 (cur_num s + 1)\<rparr>) (propAttrTable w)\<rparr>
      | None \<Rightarrow> w\<lparr>propAttrTable :=
          AList.update leaf \<lparr>catchup_num = 0, cur_num = 1, avgDistance = Fin 0\<rparr> (propAttrTable w)\<rparr>)"

definition Witch_OnSample_Callback :: "Event \<Rightarrow> wlogic \<Rightarrow> (wlogic \<times> bool) res" where
  "Witch_OnSample_Callback event w =
     rbind (lock_tree w) (\<lambda>w0.
     rbind (addFramesToContextTree (eventContext_agent event) 0 True SAMPLEDCONTEXT w0) (\<lambda>(w1, leaf).
       if leaf \<noteq> 0
       then Inr (unlock_tree (count_sample leaf
              (w1\<lparr>eventToContextLeafMap := (eventToContextLeafMap w1)(eventId event \<mapsto> leaf)\<rparr>)), True)
       else Inr (unlock_tree w1, False)))"

text \<open>The error branch of the source reads the leaf's method name for its message.\<close>

definition GetNumDiffSamplesAndReset :: "nat \<Rightarrow> rat \<Rightarrow> int \<Rightarrow> int \<Rightarrow> wlogic \<Rightarrow> (wlogic \<times> rat) res" where
  "GetNumDiffSamplesAndReset leaf prop threshold ndist w =
     (case map_of (propAttrTable w) leaf of
        None \<Rightarrow> rbind (getn w leaf) (\<lambda>_. Inr (w, 0))
      | Some s \<Rightarrow>
          let diff = f64 (f64 (of_int (to_u64 (cur_num s - catchup_num s))) * prop);
              diffWithPeriod = f64 (diff * of_int threshold);
              sum = fp_add binary64 (avgDistance s) (fp_round binary64 (of_int ndist));
              s' = s\<lparr>catchup_num := cur_num s,
                     avgDistance := fp_div binary64 sum (fp_round binary64 (of_int (cur_num s)))\<rparr>
          in Inr (w\<lparr>propAttrTable := AList.update leaf s' (propAttrTable w)\<rparr>, diffWithPeriod))"

definition removeEventContextMapEntry :: "Event \<Rightarrow> wlogic \<Rightarrow> wlogic" where
  "removeEventContextMapEntry event w =
     w\<lparr>eventToContextLeafMap := (eventToContextLeafMap w)(eventId event := None)\<rparr>"

text \<open>\<open>metrics[m].increment\<close> with \<open>metric_val.i = v\<close> and \<open>metric_val.r = 0\<close>.\<close>

definition increment_i :: "nat \<Rightarrow> MetricType \<Rightarrow> int \<Rightarrow> wlogic \<Rightarrow> wlogic res" where
  "increment_i p m v w = rbind (getn w p) (\<lambda>n.
     Inr (setn p (n\<lparr>cn_metrics := (cn_metrics n)
       (m := metric_add (cn_metrics n m) \<lparr>mv_r = 0, mv_i = v\<rparr>)\<rparr>) w))"

section \<open>The tree invariant\<close>

text \<open>
  Every child is allocated after its parent, is live, points back to its parent and is stored
  under its own hash; the children of a node have distinct keys; no node is left marked
  undefined; every live node but the root is a child of a live node.
\<close>

definition child_ok :: "wlogic \<Rightarrow> nat \<Rightarrow> int \<times> nat \<Rightarrow> bool" where
  "child_ok w p c \<longleftrightarrow> p < snd c \<and> snd c < next_ctx w \<and>
     (case nodes w (snd c) of None \<Rightarrow> False
      | Some m \<Rightarrow> cn_parent m = Some p \<and> fst c = src_lineno (cn_frame m))"

definition node_key :: "wlogic \<Rightarrow> nat \<Rightarrow> int \<times> int" where
  "node_key w p = (case nodes w p of None \<Rightarrow> (0, 0) | Some m \<Rightarrow> frame_key (cn_frame m))"

definition node_ok :: "wlogic \<Rightarrow> nat \<Rightarrow> cnode \<Rightarrow> bool" where
  "node_ok w p n \<longleftrightarrow> p < next_ctx w \<and> (\<forall>c \<in> set (cn_children n). child_ok w p c) \<and>
     distinct (map (\<lambda>c. node_key w (snd c)) (cn_children n)) \<and>
     metric_i n CONTEXTTYPE \<noteq> ctype_int UNDEFINEDCONTEXT \<and>
     (p = 0 \<longleftrightarrow> cn_parent n = None) \<and>
     (\<forall>q. cn_parent n = Some q \<longrightarrow>
        (\<exists>m. nodes w q = Some m \<and> p \<in> snd ` set (cn_children m)))"

definition tree_ok :: "wlogic \<Rightarrow> bool" where
  "tree_ok w \<longleftrightarrow> nodes w 0 \<noteq> None \<and> (\<forall>p n. nodes w p = Some n \<longrightarrow> node_ok w p n)"

definition tables_ok :: "wlogic \<Rightarrow> bool" where
  "tables_ok w \<longleftrightarrow> ran (eventToContextLeafMap w) \<subseteq> dom (nodes w) - {0} \<and>
     distinct (map fst (propAttrTable w)) \<and>
     fst ` set (propAttrTable w) \<subseteq> dom (nodes w) - {0}"

definition wl_ok :: "wlogic \<Rightarrow> bool" where
  "wl_ok w \<longleftrightarrow> tree_ok w \<and> tables_ok w"

lemma wl_init_ok: "wl_ok wl_init"
  by (auto simp: wl_ok_def tree_ok_def tables_ok_def wl_init_def node_ok_def new_Context_def
      metric_i_def metric_zero_def split: if_splits)

text \<open>The key paths of the tree: \<open>walk w p ks\<close> follows \<open>ks\<close> down from the node \<open>p\<close>.\<close>

fun find_key :: "wlogic \<Rightarrow> (int \<times> nat) list \<Rightarrow> int \<times> int \<Rightarrow> nat option" where
  "find_key w [] k = None"
| "find_key w ((h, p) # cs) k = (if node_key w p = k then Some p else find_key w cs k)"

fun walk :: "wlogic \<Rightarrow> nat \<Rightarrow> (int \<times> int) list \<Rightarrow> nat option" where
  "walk w p [] = Some p"
| "walk w p (k # ks) =
     (case nodes w p of None \<Rightarrow> None
      | Some n \<Rightarrow> (case find_key w (cn_children n) k of None \<Rightarrow> None | Some c \<Rightarrow> walk w c ks))"

definition paths :: "wlogic \<Rightarrow> nat \<Rightarrow> (int \<times> int) list set" where
  "paths w p = {ks. walk w p ks \<noteq> None}"

lemma find_child_find_key:
  assumes "\<forall>c \<in> set cs. child_ok w p c"
  shows "find_child w f cs = Inr (find_key w cs (frame_key f))"
  using assms
proof (induction cs)
  case Nil
  then show ?case by simp
next
  case (Cons c cs)
  obtain h q where c: "c = (h, q)" by (cases c)
  from Cons.prems obtain m where m: "nodes w q = Some m" "h = src_lineno (cn_frame m)"
    by (auto simp: c child_ok_def split: option.splits)
  from Cons have "find_child w f cs = Inr (find_key w cs (frame_key f))" by simp
  then show ?case using m by (auto simp: c getn_def node_key_def frame_eq_key frame_key_def)
qed

lemma find_key_Some:
  "find_key w cs k = Some p \<Longrightarrow> p \<in> snd ` set cs \<and> node_key w p = k"
  by (induction cs) (auto split: if_splits)

lemma find_key_None: "find_key w cs k = None \<longleftrightarrow> k \<notin> (\<lambda>c. node_key w (snd c)) ` set cs"
  by (induction w cs k rule: find_key.induct) auto

lemma find_key_cong:
  "(\<And>p. p \<in> snd ` set cs \<Longrightarrow> node_key w' p = node_key w p) \<Longrightarrow> find_key w' cs k = find_key w cs k"
  by (induction cs) auto

lemma find_key_append:
  "find_key w (cs @ ds) k = (case find_key w cs k of None \<Rightarrow> find_key w ds k | Some p \<Rightarrow> Some p)"
  by (induction cs) auto

subsection \<open>Updates that keep the shape of the tree\<close>

definition same_shape :: "cnode \<Rightarrow> cnode \<Rightarrow> bool" where
  "same_shape n n' \<longleftrightarrow> cn_frame n' = cn_frame n \<and> cn_children n' = cn_children n \<and>
     cn_parent n' = cn_parent n"

lemma setn_simps [simp]:
  "nodes (setn p n w) q = (if q = p then Some n else nodes w q)"
  "next_ctx (setn p n w) = next_ctx w"
  "eventToContextLeafMap (setn p n w) = eventToContextLeafMap w"
  "propAttrTable (setn p n w) = propAttrTable w"
  "contextTree_mtx (setn p n w) = contextTree_mtx w"
  by (simp_all add: setn_def)

lemma getn_Inr [res_simps]: "getn w p = Inr n \<longleftrightarrow> nodes w p = Some n"
  by (simp add: getn_def split: option.splits)

lemma node_key_setn:
  "nodes w p = Some n \<Longrightarrow> same_shape n n' \<Longrightarrow> node_key (setn p n' w) q = node_key w q"
  by (simp add: node_key_def same_shape_def)

lemma child_ok_setn:
  "nodes w p = Some n \<Longrightarrow> same_shape n n' \<Longrightarrow> child_ok (setn p n' w) q c = child_ok w q c"
  by (auto simp: child_ok_def same_shape_def split: option.splits)

lemma walk_setn:
  assumes "nodes w p = Some n" and "same_shape n n'"
  shows "walk (setn p n' w) q ks = walk w q ks"
proof (induction ks arbitrary: q)
  case Nil
  then show ?case by simp
next
  case (Cons k ks)
  have "find_key (setn p n' w) cs k = find_key w cs k" for cs
    by (rule find_key_cong) (simp add: node_key_setn [OF assms])
  with Cons assms show ?case
    by (auto simp: same_shape_def split: option.splits)
qed

lemma node_ok_setn:
  assumes w: "nodes w p = Some n" and sh: "same_shape n n'"
    and ty: "metric_i m CONTEXTTYPE \<noteq> ctype_int UNDEFINEDCONTEXT"
    and m0: "same_shape m0 m" and ok: "node_ok w q m0"
  shows "node_ok (setn p n' w) q m"
proof -
  have "\<exists>k. nodes (setn p n' w) r = Some k \<and> q \<in> snd ` set (cn_children k)"
    if "\<exists>k. nodes w r = Some k \<and> q \<in> snd ` set (cn_children k)" for r
    using that w sh by (auto simp: same_shape_def)
  then show ?thesis
    using ok m0 ty
    by (auto simp: node_ok_def child_ok_setn [OF w sh] node_key_setn [OF w sh] same_shape_def)
qed

lemma tree_ok_setn:
  assumes "tree_ok w" and w: "nodes w p = Some n" and sh: "same_shape n n'"
    and ty: "metric_i n' CONTEXTTYPE \<noteq> ctype_int UNDEFINEDCONTEXT"
  shows "tree_ok (setn p n' w)"
proof -
  have "node_ok (setn p n' w) q m" if "nodes (setn p n' w) q = Some m" for q m
  proof (cases "q = p")
    case True
    with that assms have "same_shape n m" "node_ok w q n" "m = n'"
      by (simp_all add: tree_ok_def)
    with ty show ?thesis by (intro node_ok_setn [OF w sh]) simp_all
  next
    case False
    with that have "nodes w q = Some m" by simp
    with assms(1) have ok: "node_ok w q m" by (simp add: tree_ok_def)
    then have "metric_i m CONTEXTTYPE \<noteq> ctype_int UNDEFINEDCONTEXT" by (simp add: node_ok_def)
    with ok show ?thesis by (intro node_ok_setn [OF w sh]) (simp_all add: same_shape_def)
  qed
  with assms show ?thesis by (simp add: tree_ok_def)
qed

lemma dom_setn [simp]: "nodes w p = Some n \<Longrightarrow> dom (nodes (setn p n' w)) = dom (nodes w)"
  by (auto simp: setn_def)

lemma tables_ok_setn: "tables_ok w \<Longrightarrow> nodes w p = Some n \<Longrightarrow> tables_ok (setn p n' w)"
  by (simp add: tables_ok_def)

lemma mark_context_props [simp]:
  "same_shape n (mark_context t n)"
  "metric_i (mark_context t n) CONTEXTTYPE = ctype_int t"
  "m \<noteq> CONTEXTTYPE \<Longrightarrow> cn_metrics (mark_context t n) m = cn_metrics n m"
  by (simp_all add: mark_context_def same_shape_def set_metric_i_def metric_i_def Let_def)

text \<open>The mark for a node met under two types never survives: the last assignment wins.\<close>

lemma mark_context_eq:
  "mark_context t n = set_metric_i CONTEXTTYPE (ctype_int t) n"
  by (simp add: mark_context_def set_metric_i_def Let_def)

subsection \<open>Inserting a child\<close>

lemma live_less: "tree_ok w \<Longrightarrow> nodes w p = Some n \<Longrightarrow> p < next_ctx w"
  by (simp add: tree_ok_def node_ok_def)

lemma fresh_ctx: "tree_ok w \<Longrightarrow> nodes w (next_ctx w) = None"
  using live_less by fastforce

lemma insert_child_simps [simp]:
  "nodes (insert_child cur n f w) q =
     (if q = next_ctx w then Some (new_Context f (Some cur))
      else if q = cur then Some (n\<lparr>cn_children := cn_children n @ [(src_lineno f, next_ctx w)]\<rparr>)
      else nodes w q)"
  "next_ctx (insert_child cur n f w) = Suc (next_ctx w)"
  "eventToContextLeafMap (insert_child cur n f w) = eventToContextLeafMap w"
  "propAttrTable (insert_child cur n f w) = propAttrTable w"
  "contextTree_mtx (insert_child cur n f w) = contextTree_mtx w"
  by (simp_all add: insert_child_def Let_def)

lemma new_Context_simps [simp]:
  "cn_frame (new_Context f par) = f" "cn_children (new_Context f par) = []"
  "cn_parent (new_Context f par) = par" "cn_metrics (new_Context f par) m = metric_zero"
  "metric_i (new_Context f par) m = 0"
  by (simp_all add: new_Context_def metric_i_def metric_zero_def)

lemma metric_i_children [simp]: "metric_i (n\<lparr>cn_children := cs\<rparr>) m = metric_i n m"
  by (simp add: metric_i_def)

lemma node_key_insert:
  assumes "tree_ok w" and "nodes w cur = Some n"
  shows "node_key (insert_child cur n f w) q = (if q = next_ctx w then frame_key f else node_key w q)"
  using assms by (simp add: node_key_def)

lemma child_ok_insert:
  assumes "tree_ok w" and "nodes w cur = Some n" and "child_ok w q c"
  shows "child_ok (insert_child cur n f w) q c"
  using assms fresh_ctx [OF assms(1)] by (auto simp: child_ok_def split: option.splits)

lemma tree_ok_insert:
  assumes ok: "tree_ok w" and n: "nodes w cur = Some n"
    and no: "find_key w (cn_children n) (frame_key f) = None"
  shows "tree_ok (insert_child cur n f w)"
proof -
  let ?w = "insert_child cur n f w" and ?p = "next_ctx w"
  note lt = live_less [OF ok n] and keys = node_key_insert [OF ok n]
  have old: "snd c \<noteq> ?p" if "child_ok w q c" for q c
    using that by (simp add: child_ok_def)
  have keep: "map (\<lambda>c. node_key ?w (snd c)) cs = map (\<lambda>c. node_key w (snd c)) cs"
    if "\<forall>c \<in> set cs. child_ok w q c" for cs q
    using that old by (auto simp: keys)
  have par: "\<exists>k. nodes ?w r = Some k \<and> q \<in> snd ` set (cn_children k)"
    if nok: "node_ok w q m" and pr: "cn_parent m = Some r" for r q m
  proof -
    from nok pr obtain k where k: "nodes w r = Some k" "q \<in> snd ` set (cn_children k)"
      by (auto simp: node_ok_def)
    moreover have "r \<noteq> ?p" using live_less [OF ok k(1)] by simp
    ultimately show ?thesis using n by (cases "r = cur") auto
  qed
  have "node_ok ?w q m" if q: "nodes ?w q = Some m" for q m
  proof -
    consider "q = ?p" | "q = cur" "q \<noteq> ?p" | "q \<noteq> cur" "q \<noteq> ?p" by blast
    then show ?thesis
    proof cases
      case 1
      with q lt show ?thesis by (auto simp: node_ok_def)
    next
      case 2
      with q have m: "m = n\<lparr>cn_children := cn_children n @ [(src_lineno f, ?p)]\<rparr>" by simp
      have nok: "node_ok w cur n" using ok n by (simp add: tree_ok_def)
      then have ch: "\<forall>c \<in> set (cn_children n). child_ok w cur c" by (simp add: node_ok_def)
      have "child_ok ?w cur (src_lineno f, ?p)" using lt by (simp add: child_ok_def)
      moreover have "\<forall>c \<in> set (cn_children n). child_ok ?w cur c"
        using ch child_ok_insert [OF ok n] by blast
      moreover have "distinct (map (\<lambda>c. node_key ?w (snd c)) (cn_children m))"
      proof -
        have "node_key ?w ?p = frame_key f" by (simp add: keys)
        moreover have "map (\<lambda>c. node_key ?w (snd c)) (cn_children m)
            = map (\<lambda>c. node_key w (snd c)) (cn_children n) @ [node_key ?w ?p]"
          using keep [OF ch] by (simp add: m)
        moreover have "frame_key f \<notin> set (map (\<lambda>c. node_key w (snd c)) (cn_children n))"
          using no unfolding find_key_None set_map .
        ultimately show ?thesis using nok by (simp only: node_ok_def) simp
      qed
      moreover have "cn_parent n = Some r \<Longrightarrow>
          \<exists>k. nodes ?w r = Some k \<and> cur \<in> snd ` set (cn_children k)" for r
        by (rule par [OF nok])
      ultimately show ?thesis using nok 2 unfolding m by (simp add: node_ok_def)
    next
      case 3
      with q have mq: "nodes w q = Some m" by simp
      then have nok: "node_ok w q m" using ok by (simp add: tree_ok_def)
      then have ch: "\<forall>c \<in> set (cn_children m). child_ok w q c" by (simp add: node_ok_def)
      have "\<forall>c \<in> set (cn_children m). child_ok ?w q c"
        using ch child_ok_insert [OF ok n] by blast
      moreover have "cn_parent m = Some r \<Longrightarrow>
          \<exists>k. nodes ?w r = Some k \<and> q \<in> snd ` set (cn_children k)" for r
        by (rule par [OF nok])
      ultimately show ?thesis using nok by (simp add: node_ok_def keep [OF ch])
    qed
  qed
  with ok lt show ?thesis by (auto simp: tree_ok_def)
qed

lemma node_children_ok:
  "tree_ok w \<Longrightarrow> nodes w p = Some n \<Longrightarrow> c \<in> set (cn_children n) \<Longrightarrow> child_ok w p c"
  by (simp add: tree_ok_def node_ok_def)

lemma find_key_child:
  assumes "tree_ok w" and "nodes w p = Some n" and "find_key w (cn_children n) k = Some c"
  obtains m where "nodes w c = Some m" and "cn_parent m = Some p" and "p < c"
    and "node_key w c = k"
proof -
  from find_key_Some [OF assms(3)] obtain h where "(h, c) \<in> set (cn_children n)" "node_key w c = k"
    by auto
  with node_children_ok [OF assms(1,2)] that show thesis
    by (fastforce simp: child_ok_def split: option.splits)
qed

subsection \<open>Walks\<close>

lemma walk_append:
  "walk w p (ks @ ls) = (case walk w p ks of None \<Rightarrow> None | Some q \<Rightarrow> walk w q ls)"
  by (induction ks arbitrary: p) (auto split: option.splits)

lemma walk_live:
  assumes "tree_ok w"
  shows "walk w p ks = Some q \<Longrightarrow> ks \<noteq> [] \<Longrightarrow> p < q \<and> nodes w q \<noteq> None"
proof (induction ks arbitrary: p)
  case Nil
  then show ?case by simp
next
  case (Cons k ks)
  from Cons.prems obtain n c where n: "nodes w p = Some n"
    and c: "find_key w (cn_children n) k = Some c" and wc: "walk w c ks = Some q"
    by (auto split: option.splits)
  obtain m where "nodes w c = Some m" "p < c" using find_key_child [OF assms n c] by metis
  with Cons.IH [OF wc] wc show ?case by (cases "ks = []") auto
qed

lemma walk_snocD:
  assumes "tree_ok w" and "walk w p (ks @ [k]) = Some q"
  obtains m r where "walk w p ks = Some r" and "nodes w q = Some m" and "cn_parent m = Some r"
    and "node_key w q = k"
proof -
  from assms(2) obtain r n where r: "walk w p ks = Some r" "nodes w r = Some n"
      "find_key w (cn_children n) k = Some q"
    by (auto simp: walk_append split: option.splits)
  show thesis using find_key_child [OF assms(1) r(2,3)] that r(1) by metis
qed

lemma walk_inj:
  assumes "tree_ok w"
  shows "walk w p ks = Some q \<Longrightarrow> walk w p ls = Some q \<Longrightarrow> ks = ls"
proof (induction ks arbitrary: q ls rule: rev_induct)
  case Nil
  then show ?case using walk_live [OF assms] by fastforce
next
  case (snoc k ks)
  obtain m r where 1: "walk w p ks = Some r" "nodes w q = Some m" "cn_parent m = Some r"
      "node_key w q = k"
    using walk_snocD [OF assms snoc.prems(1)] by metis
  show ?case
  proof (cases ls rule: rev_cases)
    case Nil
    with snoc.prems walk_live [OF assms snoc.prems(1)] show ?thesis by simp
  next
    case (snoc ls' l)
    with snoc.prems(2) obtain m' r' where 2: "walk w p ls' = Some r'" "nodes w q = Some m'"
      "cn_parent m' = Some r'" "node_key w q = l"
      using walk_snocD [OF assms] by metis
    with 1 snoc.IH have "ks = ls'" "k = l" by auto
    with snoc show ?thesis by simp
  qed
qed

text \<open>What an operation that only adds contexts below \<open>cur\<close> may change.\<close>

definition grows :: "nat \<Rightarrow> wlogic \<Rightarrow> wlogic \<Rightarrow> bool" where
  "grows cur w w' \<longleftrightarrow> next_ctx w \<le> next_ctx w' \<and>
     eventToContextLeafMap w' = eventToContextLeafMap w \<and> propAttrTable w' = propAttrTable w \<and>
     contextTree_mtx w' = contextTree_mtx w \<and>
     (\<forall>q n. nodes w q = Some n \<longrightarrow> (\<exists>n'. nodes w' q = Some n' \<and> cn_frame n' = cn_frame n \<and>
        cn_parent n' = cn_parent n \<and> (\<forall>m. m \<noteq> CONTEXTTYPE \<longrightarrow> cn_metrics n' m = cn_metrics n m) \<and>
        (q \<le> cur \<longrightarrow> cn_metrics n' = cn_metrics n)))"

lemma grows_refl [simp]: "grows cur w w"
  by (simp add: grows_def)

lemma grows_trans:
  assumes "grows cur w w1" and "grows p w1 w2" and "cur \<le> p"
  shows "grows cur w w2"
  unfolding grows_def
proof (intro conjI allI impI)
  fix q n
  assume "nodes w q = Some n"
  with assms(1) obtain n1 where n1: "nodes w1 q = Some n1" "cn_frame n1 = cn_frame n"
    "cn_parent n1 = cn_parent n" "\<forall>m. m \<noteq> CONTEXTTYPE \<longrightarrow> cn_metrics n1 m = cn_metrics n m"
    "q \<le> cur \<longrightarrow> cn_metrics n1 = cn_metrics n"
    unfolding grows_def by blast
  from assms(2) n1(1) obtain n2 where n2: "nodes w2 q = Some n2" "cn_frame n2 = cn_frame n1"
    "cn_parent n2 = cn_parent n1" "\<forall>m. m \<noteq> CONTEXTTYPE \<longrightarrow> cn_metrics n2 m = cn_metrics n1 m"
    "q \<le> p \<longrightarrow> cn_metrics n2 = cn_metrics n1"
    unfolding grows_def by blast
  from n1 n2 assms(3) show "\<exists>n'. nodes w2 q = Some n' \<and> cn_frame n' = cn_frame n \<and>
      cn_parent n' = cn_parent n \<and> (\<forall>m. m \<noteq> CONTEXTTYPE \<longrightarrow> cn_metrics n' m = cn_metrics n m) \<and>
      (q \<le> cur \<longrightarrow> cn_metrics n' = cn_metrics n)"
    by auto
qed (use assms in \<open>auto simp: grows_def\<close>)

lemma tables_ok_grows: "tables_ok w \<Longrightarrow> grows cur w w' \<Longrightarrow> tables_ok w'"
proof -
  assume t: "tables_ok w" and g: "grows cur w w'"
  have "dom (nodes w) \<subseteq> dom (nodes w')" using g by (fastforce simp: grows_def)
  moreover have "eventToContextLeafMap w' = eventToContextLeafMap w"
    "propAttrTable w' = propAttrTable w" using g by (simp_all add: grows_def)
  moreover from calculation(1) have "dom (nodes w) - {0} \<subseteq> dom (nodes w') - {0}" by blast
  ultimately show "tables_ok w'" using t unfolding tables_ok_def by (metis (no_types, lifting) subset_trans)
qed

lemma grows_setn:
  assumes "nodes w p = Some n" and "cur < p"
  shows "grows cur w (setn p (mark_context t n) w)"
  using assms mark_context_props(1) [of n t] by (auto simp: grows_def same_shape_def)

lemma grows_insert:
  assumes "tree_ok w" and "nodes w cur = Some n"
  shows "grows cur w (insert_child cur n f w)"
  using assms live_less [OF assms(1)] by (auto simp: grows_def)

lemma find_key_insert:
  assumes ok: "tree_ok w" and n: "nodes w cur = Some n" and m: "nodes w q = Some m"
  shows "find_key (insert_child cur n f w) (cn_children m) k = find_key w (cn_children m) k"
proof (rule find_key_cong)
  fix p
  assume "p \<in> snd ` set (cn_children m)"
  then obtain c where "c \<in> set (cn_children m)" "p = snd c" by auto
  with node_children_ok [OF ok m] have "p < next_ctx w" by (simp add: child_ok_def)
  then show "node_key (insert_child cur n f w) p = node_key w p"
    by (simp add: node_key_insert [OF ok n])
qed

lemma walk_insert_mono:
  assumes ok: "tree_ok w" and n: "nodes w cur = Some n"
  shows "walk w q ks = Some r \<Longrightarrow> walk (insert_child cur n f w) q ks = Some r"
proof (induction ks arbitrary: q)
  case Nil
  then show ?case by simp
next
  case (Cons k ks)
  let ?w = "insert_child cur n f w"
  from Cons.prems obtain m c where m: "nodes w q = Some m"
    and c: "find_key w (cn_children m) k = Some c" and wc: "walk w c ks = Some r"
    by (auto split: option.splits)
  have fk: "find_key ?w (cn_children m) k = find_key w (cn_children m) k"
    by (rule find_key_insert [OF ok n m])
  show ?case using m n c fk Cons.IH [OF wc] live_less [OF ok m]
    by (auto simp: find_key_append)
qed

lemma walk_insert_new:
  assumes ok: "tree_ok w" and n: "nodes w cur = Some n"
    and no: "find_key w (cn_children n) (frame_key f) = None"
  shows "walk (insert_child cur n f w) q ks = Some r \<Longrightarrow>
    walk w q ks = Some r \<or>
    r = next_ctx w \<and> (\<exists>ks1. ks = ks1 @ [frame_key f] \<and> walk w q ks1 = Some cur)"
proof (induction ks arbitrary: q)
  case Nil
  then show ?case by simp
next
  case (Cons k ks)
  let ?w = "insert_child cur n f w" and ?p = "next_ctx w"
  show ?case
  proof (cases "q = ?p")
    case True
    with Cons.prems show ?thesis by simp
  next
    case False
    with Cons.prems obtain m where m: "nodes w q = Some m"
      using n by (auto split: if_splits option.splits)
    have fk: "find_key ?w (cn_children m) k = find_key w (cn_children m) k"
      by (rule find_key_insert [OF ok n m])
    show ?thesis
    proof (cases "find_key w (cn_children m) k")
      case (Some c)
      with Cons.prems m n fk False have "walk ?w c ks = Some r"
        by (cases "q = cur") (auto simp: find_key_append)
      from Cons.IH [OF this] Some m show ?thesis
        by (auto intro: exI [of _ "k # _"])
    next
      case None
      have kp: "node_key ?w ?p = frame_key f" by (simp add: node_key_insert [OF ok n])
      have "q = cur" using None Cons.prems m fk False by (cases "q = cur") simp_all
      with m n have "m = n" by simp
      with None Cons.prems n fk False \<open>q = cur\<close> have q: "q = cur" "k = frame_key f" "walk ?w ?p ks = Some r"
        by (auto simp: find_key_append kp split: if_splits)
      then have "ks = []" by (cases ks) simp_all
      with q show ?thesis by (auto intro: exI [of _ "[]"])
    qed
  qed
qed

subsection \<open>Adding a list of frames\<close>

lemma walk_key:
  assumes ok: "tree_ok w" and n: "nodes w p = Some n" and k: "find_key w (cn_children n) k = Some c"
  shows "walk w p [k] = Some c"
  using n k by simp

text \<open>One iteration: the child for the frame exists afterwards, and it is the only new path.\<close>

lemma frame_step_ok:
  assumes ok: "tree_ok w" and n: "nodes w cur = Some n" and t: "t \<noteq> UNDEFINEDCONTEXT"
    and pre: "walk w s pre = Some cur"
  obtains w' p m where "frame_step t f (w, cur) = Inr (w', p)" and "tree_ok w'"
    and "nodes w' p = Some m" and "metric_i m CONTEXTTYPE = ctype_int t" and "cur < p"
    and "grows cur w w'" and "\<forall>q ks r. walk w q ks = Some r \<longrightarrow> walk w' q ks = Some r"
    and "walk w' s (pre @ [frame_key f]) = Some p"
    and "paths w' s = insert (pre @ [frame_key f]) (paths w s)"
proof -
  let ?k = "frame_key f"
  have fc: "find_child w f (cn_children n) = Inr (find_key w (cn_children n) ?k)"
    using node_children_ok [OF ok n] by (intro find_child_find_key) blast
  have t4: "ctype_int t \<noteq> ctype_int UNDEFINEDCONTEXT" using t by (cases t) simp_all
  show thesis
  proof (cases "find_key w (cn_children n) ?k")
    case (Some p)
    obtain m where m: "nodes w p = Some m" "cur < p" using find_key_child [OF ok n Some] by metis
    let ?w' = "setn p (mark_context t m) w"
    have wk: "walk ?w' q ks = walk w q ks" for q ks by (rule walk_setn [OF m(1)]) simp
    have path: "walk w s (pre @ [?k]) = Some p" using pre n Some by (simp add: walk_append)
    show thesis
    proof (rule that [of ?w' p "mark_context t m"])
      show "frame_step t f (w, cur) = Inr (?w', p)"
        using n m fc Some by (simp add: frame_step_def getn_def)
      show "tree_ok ?w'" using t4 by (intro tree_ok_setn [OF ok m(1)]) simp_all
      show "grows cur w ?w'" using m by (rule grows_setn)
      show "paths ?w' s = insert (pre @ [?k]) (paths w s)"
        using path by (auto simp: paths_def wk)
    qed (use m path in \<open>simp_all add: wk\<close>)
  next
    case None
    let ?p = "next_ctx w" and ?w1 = "insert_child cur n f w"
    let ?m = "new_Context f (Some cur)"
    let ?w' = "setn ?p (mark_context t ?m) ?w1"
    have lt: "cur < ?p" by (rule live_less [OF ok n])
    have ok1: "tree_ok ?w1" by (rule tree_ok_insert [OF ok n None])
    have m: "nodes ?w1 ?p = Some ?m" by simp
    have wk: "walk ?w' q ks = walk ?w1 q ks" for q ks by (rule walk_setn [OF m]) simp
    have kp: "node_key ?w1 ?p = ?k" by (simp add: node_key_insert [OF ok n])
    have "find_key ?w1 (cn_children n) ?k = None" using find_key_insert [OF ok n n] None by simp
    then have "walk ?w1 cur [?k] = Some ?p"
      using lt by (simp add: find_key_append kp)
    then have path: "walk ?w1 s (pre @ [?k]) = Some ?p"
      using walk_insert_mono [OF ok n pre] by (simp only: walk_append option.case)
    have old: "ks \<in> paths w s \<or> ks = pre @ [?k]" if "walk ?w1 s ks = Some r" for ks r
      using walk_insert_new [OF ok n None that] walk_inj [OF ok pre] by (auto simp: paths_def)
    show thesis
    proof (rule that [of ?w' ?p "mark_context t ?m"])
      show "frame_step t f (w, cur) = Inr (?w', ?p)"
        using n fc None by (simp add: frame_step_def getn_def)
      show "tree_ok ?w'" using t4 by (intro tree_ok_setn [OF ok1 m]) simp_all
      show "grows cur w ?w'"
        by (rule grows_trans [OF grows_insert [OF ok n] grows_setn [OF m lt]]) simp
      show "\<forall>q ks r. walk w q ks = Some r \<longrightarrow> walk ?w' q ks = Some r"
        unfolding wk using walk_insert_mono [OF ok n] by blast
      show "paths ?w' s = insert (pre @ [?k]) (paths w s)"
        using path old walk_insert_mono [OF ok n] by (fastforce simp: paths_def wk)
    qed (use lt path in \<open>simp_all add: wk\<close>)
  qed
qed

lemma frames_ok:
  assumes "tree_ok w" and "nodes w cur \<noteq> None" and t: "t \<noteq> UNDEFINEDCONTEXT"
    and "walk w s pre = Some cur"
  shows "\<exists>w' p. rfold (frame_step t) fs (w, cur) = Inr (w', p) \<and> tree_ok w' \<and> nodes w' p \<noteq> None \<and>
    (if fs = [] then p = cur else cur < p) \<and> grows cur w w' \<and>
    (\<forall>q ks r. walk w q ks = Some r \<longrightarrow> walk w' q ks = Some r) \<and>
    walk w' s (pre @ map frame_key fs) = Some p \<and>
    paths w' s = paths w s \<union> {pre @ ks | ks. prefix ks (map frame_key fs)}"
  using assms
proof (induction fs arbitrary: w cur pre)
  case Nil
  then show ?case by (auto simp: paths_def)
next
  case (Cons f fs)
  from Cons.prems(2) obtain n where n: "nodes w cur = Some n" by auto
  obtain w1 p1 m where 1: "frame_step t f (w, cur) = Inr (w1, p1)" "tree_ok w1"
      "nodes w1 p1 = Some m" "cur < p1" "grows cur w w1"
      "\<forall>q ks r. walk w q ks = Some r \<longrightarrow> walk w1 q ks = Some r"
      "walk w1 s (pre @ [frame_key f]) = Some p1"
      "paths w1 s = insert (pre @ [frame_key f]) (paths w s)"
    by (rule frame_step_ok [OF Cons.prems(1) n t Cons.prems(4), of f]) (rule that)
  obtain w' p where 2: "rfold (frame_step t) fs (w1, p1) = Inr (w', p)" "tree_ok w'"
      "nodes w' p \<noteq> None" "if fs = [] then p = p1 else p1 < p" "grows p1 w1 w'"
      "\<forall>q ks r. walk w1 q ks = Some r \<longrightarrow> walk w' q ks = Some r"
      "walk w' s ((pre @ [frame_key f]) @ map frame_key fs) = Some p"
      "paths w' s = paths w1 s \<union> {(pre @ [frame_key f]) @ ks | ks. prefix ks (map frame_key fs)}"
    using Cons.IH [OF 1(2) _ t 1(7)] 1(3) by auto
  have pre: "pre \<in> paths w s" using Cons.prems(4) by (simp add: paths_def)
  have "paths w' s = paths w s \<union> {pre @ ks | ks. prefix ks (map frame_key (f # fs))}"
    unfolding 2(8) 1(8) using pre by (force simp: prefix_Cons)
  moreover have "grows cur w w'" using grows_trans [OF 1(5) 2(5)] 1(4) by simp
  ultimately show ?case using 1(1,4,6) 2 by (auto split: if_splits)
qed

end
