(* ===== verification/Context_Samples.thy ===== *)
theory Context_Samples
  imports Context_Tree
begin

text \<open>
  What the tree operations of \<^verbatim>\<open>WitchLogic.hpp\<close> promise: adding a call path refines adding its
  prefixes to the set of key paths and is idempotent, a sample is filed under its leaf and counted
  once, and the pending-sample counter is read and reset exactly.
\<close>

section \<open>Adding a call path\<close>

lemma rev_if_map: "map f (if d then rev xs else xs) = (if d then rev (map f xs) else map f xs)"
  by (simp add: rev_map)

lemma add_frames_ok:
  assumes "wl_ok w" and "nodes w s \<noteq> None" and "t \<noteq> UNDEFINEDCONTEXT"
  shows "\<exists>w' p. addFramesToContextTree fs s d t w = Inr (w', p) \<and> wl_ok w' \<and> nodes w' p \<noteq> None \<and>
    (if fs = [] then p = s else s < p) \<and> grows s w w' \<and>
    (\<forall>q ks r. walk w q ks = Some r \<longrightarrow> walk w' q ks = Some r) \<and>
    walk w' s (map frame_key (if d then rev fs else fs)) = Some p \<and>
    paths w' s = paths w s \<union> {ks. prefix ks (map frame_key (if d then rev fs else fs))}"
proof -
  have ok: "tree_ok w" and tb: "tables_ok w" using assms(1) by (simp_all add: wl_ok_def)
  show ?thesis
    using frames_ok [OF ok assms(2,3), where s = s and pre = "[]"
        and fs = "if d then rev fs else fs"] tables_ok_grows [OF tb, of s]
    by (fastforce simp: addFramesToContextTree_def wl_ok_def split: if_splits)
qed

text \<open>Nodes along a path that already carry the mark: adding the path again changes nothing.\<close>

fun marked :: "wlogic \<Rightarrow> nat \<Rightarrow> ContextType \<Rightarrow> (int \<times> int) list \<Rightarrow> bool" where
  "marked w cur t [] \<longleftrightarrow> True"
| "marked w cur t (k # ks) \<longleftrightarrow>
     (case nodes w cur of None \<Rightarrow> False | Some n \<Rightarrow>
      (case find_key w (cn_children n) k of None \<Rightarrow> False | Some c \<Rightarrow>
       (case nodes w c of None \<Rightarrow> False | Some m \<Rightarrow>
          metric_i m CONTEXTTYPE = ctype_int t \<and> marked w c t ks)))"

lemma set_metric_same: "metric_i n m = v \<Longrightarrow> set_metric_i m v n = n"
  by (auto simp: set_metric_i_def metric_i_def)

lemma setn_same: "nodes w p = Some n \<Longrightarrow> setn p n w = w"
  by (simp add: setn_def fun_upd_idem)

lemma marked_same:
  assumes ok: "tree_ok w"
  shows "marked w cur t (map frame_key fs) \<Longrightarrow>
    \<exists>p. rfold (frame_step t) fs (w, cur) = Inr (w, p) \<and> walk w cur (map frame_key fs) = Some p"
proof (induction fs arbitrary: cur)
  case Nil
  then show ?case by simp
next
  case (Cons f fs)
  from Cons.prems obtain n c m where n: "nodes w cur = Some n"
    and c: "find_key w (cn_children n) (frame_key f) = Some c" and m: "nodes w c = Some m"
    and t: "metric_i m CONTEXTTYPE = ctype_int t" and rest: "marked w c t (map frame_key fs)"
    by (auto split: option.splits)
  have fc: "find_child w f (cn_children n) = Inr (find_key w (cn_children n) (frame_key f))"
    using node_children_ok [OF ok n] by (intro find_child_find_key) blast
  have "frame_step t f (w, cur) = Inr (w, c)"
    using n c m t fc
    by (simp add: frame_step_def getn_def mark_context_eq set_metric_same setn_same)
  with Cons.IH [OF rest] n c show ?case by simp
qed

lemma marked_after:
  assumes "tree_ok w" and "nodes w cur \<noteq> None" and t: "t \<noteq> UNDEFINEDCONTEXT"
    and "rfold (frame_step t) fs (w, cur) = Inr (w', p)"
  shows "marked w' cur t (map frame_key fs)"
  using assms
proof (induction fs arbitrary: w cur)
  case Nil
  then show ?case by simp
next
  case (Cons f fs)
  from Cons.prems(2) obtain n where n: "nodes w cur = Some n" by auto
  obtain w1 p1 m where 1: "frame_step t f (w, cur) = Inr (w1, p1)" "tree_ok w1"
      "nodes w1 p1 = Some m" "metric_i m CONTEXTTYPE = ctype_int t"
      "walk w1 cur ([] @ [frame_key f]) = Some p1"
    by (rule frame_step_ok [OF Cons.prems(1) n t, of cur "[]" f]) (simp, rule that)
  with Cons.prems(4) have 2: "rfold (frame_step t) fs (w1, p1) = Inr (w', p)" by simp
  have mk: "marked w' p1 t (map frame_key fs)"
    using Cons.IH [OF 1(2) _ t 2] 1(3) by simp
  have g: "grows p1 w1 w' \<and> (\<forall>q ks r. walk w1 q ks = Some r \<longrightarrow> walk w' q ks = Some r)"
    using frames_ok [OF 1(2) _ t, of p1 p1 "[]" fs] 1(3) 2 by auto
  then obtain m' where m': "nodes w' p1 = Some m'" "cn_metrics m' = cn_metrics m"
    using 1(3) unfolding grows_def by blast
  moreover have "walk w' cur [frame_key f] = Some p1"
    using g 1(5) unfolding append_Nil by blast
  ultimately show ?case using mk 1(4) by (auto simp: metric_i_def split: option.splits)
qed

lemma add_frames_again:
  assumes "wl_ok w" and "nodes w s \<noteq> None" and "t \<noteq> UNDEFINEDCONTEXT"
    and add: "addFramesToContextTree fs s d t w = Inr (w', p)"
  shows "addFramesToContextTree fs s d t w' = Inr (w', p)"
proof -
  have ok: "tree_ok w" using assms(1) by (simp add: wl_ok_def)
  let ?fs = "if d then rev fs else fs"
  have run: "rfold (frame_step t) ?fs (w, s) = Inr (w', p)"
    using add by (simp add: addFramesToContextTree_def)
  from add_frames_ok [OF assms(1-3), of fs d] add
  have "wl_ok w'" and wk: "walk w' s (map frame_key ?fs) = Some p" by auto
  then have "tree_ok w'" by (simp add: wl_ok_def)
  from marked_same [OF this marked_after [OF ok assms(2,3) run]] wk
  show ?thesis by (auto simp: addFramesToContextTree_def)
qed

section \<open>Taking a sample\<close>

lemma lock_tree_free: "\<not> contextTree_mtx w \<Longrightarrow> lock_tree w = Inr (w\<lparr>contextTree_mtx := True\<rparr>)"
  by (simp add: lock_tree_def)

lemma lock_tree_held: "contextTree_mtx w \<Longrightarrow> lock_tree w = Inl Deadlock"
  by (simp add: lock_tree_def)

text \<open>The operations on the nodes do not look at the mutex or the tables.\<close>

definition same_nodes :: "wlogic \<Rightarrow> wlogic \<Rightarrow> bool" where
  "same_nodes w w' \<longleftrightarrow> nodes w' = nodes w \<and> next_ctx w' = next_ctx w"

lemma node_key_cong: "same_nodes w w' \<Longrightarrow> node_key w' p = node_key w p"
  by (simp add: same_nodes_def node_key_def)

lemma walk_cong: "same_nodes w w' \<Longrightarrow> walk w' p ks = walk w p ks"
proof (induction ks arbitrary: p)
  case Nil
  then show ?case by simp
next
  case (Cons k ks)
  have "find_key w' cs k = find_key w cs k" for cs
    by (rule find_key_cong) (rule node_key_cong [OF Cons.prems])
  with Cons show ?case by (simp add: same_nodes_def split: option.splits)
qed

lemma paths_cong: "same_nodes w w' \<Longrightarrow> paths w' p = paths w p"
  by (simp add: paths_def walk_cong)

lemma tree_ok_cong: "same_nodes w w' \<Longrightarrow> tree_ok w' = tree_ok w"
proof -
  assume s: "same_nodes w w'"
  then have "nodes w' = nodes w" "next_ctx w' = next_ctx w" by (simp_all add: same_nodes_def)
  then show ?thesis by (simp add: tree_ok_def node_ok_def child_ok_def node_key_cong [OF s])
qed

lemma same_nodes_upd [simp]:
  "same_nodes w (w\<lparr>contextTree_mtx := b\<rparr>)"
  "same_nodes w (w\<lparr>eventToContextLeafMap := e\<rparr>)"
  "same_nodes w (w\<lparr>propAttrTable := t\<rparr>)"
  "same_nodes w (unlock_tree w)"
  "same_nodes w (removeEventContextMapEntry ev w)"
  "same_nodes w (count_sample leaf w)"
  by (simp_all add: same_nodes_def unlock_tree_def removeEventContextMapEntry_def count_sample_def
      split: option.splits)

lemma same_nodes_trans: "same_nodes u v \<Longrightarrow> same_nodes v w \<Longrightarrow> same_nodes u w"
  by (simp add: same_nodes_def)

lemma wl_ok_lock [simp]: "wl_ok (w\<lparr>contextTree_mtx := b\<rparr>) = wl_ok w"
  using tree_ok_cong [OF same_nodes_upd(1)] by (simp add: wl_ok_def tables_ok_def)

lemma wl_ok_unlock [simp]: "wl_ok (unlock_tree w) = wl_ok w"
  by (simp add: unlock_tree_def)

lemma wl_ok_event:
  assumes "wl_ok w" and "nodes w leaf \<noteq> None" and "leaf \<noteq> 0"
  shows "wl_ok (w\<lparr>eventToContextLeafMap := (eventToContextLeafMap w)(e \<mapsto> leaf)\<rparr>)"
proof -
  have "ran ((eventToContextLeafMap w)(e \<mapsto> leaf)) \<subseteq> insert leaf (ran (eventToContextLeafMap w))"
    by (auto simp: ran_def)
  moreover have "insert leaf (ran (eventToContextLeafMap w)) \<subseteq> dom (nodes w) - {0}"
    using assms by (auto simp: wl_ok_def tables_ok_def)
  ultimately show ?thesis
    using assms(1) tree_ok_cong [OF same_nodes_upd(2)]
    by (simp add: wl_ok_def tables_ok_def subset_trans del: fun_upd_apply)
qed

lemma wl_ok_remove: "wl_ok w \<Longrightarrow> wl_ok (removeEventContextMapEntry ev w)"
proof -
  assume ok: "wl_ok w"
  have "ran ((eventToContextLeafMap w)(eventId ev := None)) \<subseteq> ran (eventToContextLeafMap w)"
    by (auto simp: ran_def)
  with ok show ?thesis
    using tree_ok_cong [OF same_nodes_upd(5)]
    by (auto simp: wl_ok_def tables_ok_def removeEventContextMapEntry_def)
qed

lemma wl_ok_table:
  assumes "wl_ok w" and "nodes w p \<noteq> None" and "p \<noteq> 0"
  shows "wl_ok (w\<lparr>propAttrTable := AList.update p s (propAttrTable w)\<rparr>)"
proof -
  have "fst ` set (AList.update p s (propAttrTable w)) = insert p (fst ` set (propAttrTable w))"
    by (simp add: dom_update)
  then show ?thesis
    using assms tree_ok_cong [OF same_nodes_upd(3)]
    by (auto simp: wl_ok_def tables_ok_def distinct_update)
qed

lemma wl_ok_count:
  "wl_ok w \<Longrightarrow> nodes w p \<noteq> None \<Longrightarrow> p \<noteq> 0 \<Longrightarrow> wl_ok (count_sample p w)"
  by (simp add: count_sample_def wl_ok_table split: option.split)

lemma count_sample_table:
  "map_of (propAttrTable (count_sample leaf w)) =
     (map_of (propAttrTable w))(leaf \<mapsto>
       (case map_of (propAttrTable w) leaf of
          None \<Rightarrow> \<lparr>catchup_num = 0, cur_num = 1, avgDistance = Fin 0\<rparr>
        | Some s \<Rightarrow> s\<lparr>cur_num := to_u64 (cur_num s + 1)\<rparr>))"
  by (rule ext) (simp add: count_sample_def split: option.split)

lemma count_sample_other [simp]:
  "eventToContextLeafMap (count_sample leaf w) = eventToContextLeafMap w"
  "contextTree_mtx (count_sample leaf w) = contextTree_mtx w"
  "nodes (count_sample leaf w) = nodes w"
  by (simp_all add: count_sample_def split: option.split)

section \<open>Properties\<close>

text \<open>C6: Adding a call path at a live node never faults, keeps the tree invariant, returns the
  node at the end of the path, adds exactly the prefixes of the path to the key paths below the
  node, and leaves every existing lookup, frame, table and metric (but the context type) alone.\<close>

theorem addFrames_refines_paths:
  assumes "wl_ok w" and "nodes w s \<noteq> None" and "t \<noteq> UNDEFINEDCONTEXT"
  shows "\<exists>w' p. addFramesToContextTree fs s d t w = Inr (w', p) \<and> wl_ok w' \<and> grows s w w' \<and>
    walk w' s (map frame_key (if d then rev fs else fs)) = Some p \<and>
    paths w' s = paths w s \<union> {ks. prefix ks (map frame_key (if d then rev fs else fs))} \<and>
    (\<forall>q ks r. walk w q ks = Some r \<longrightarrow> walk w' q ks = Some r)"
  using add_frames_ok [OF assms, of fs d] by blast

definition demo_frame :: "int \<Rightarrow> int \<Rightarrow> ContextFrame" where
  "demo_frame a l = \<lparr>cf_ptr = 0, binary_addr = a, method_name = ''f'', source_file = ''f.cpp'',
     src_lineno = l\<rparr>"

theorem addFrames_refines_paths_witness:
  "\<exists>w' p. addFramesToContextTree [demo_frame 4096 7, demo_frame 8192 9] 0 True SAMPLEDCONTEXT wl_init
      = Inr (w', p) \<and> wl_ok w' \<and> walk w' 0 [(8192, 9), (4096, 7)] = Some p"
proof -
  have "nodes wl_init 0 \<noteq> None" by (simp add: wl_init_def)
  from addFrames_refines_paths [OF wl_init_ok this, of SAMPLEDCONTEXT
      "[demo_frame 4096 7, demo_frame 8192 9]" True]
  show ?thesis by (simp add: demo_frame_def frame_key_def) blast
qed

text \<open>Adding the same call path again returns the same leaf and leaves the whole state
  unchanged.\<close>

theorem addFrames_idempotent:
  assumes "wl_ok w" and "nodes w s \<noteq> None" and "t \<noteq> UNDEFINEDCONTEXT"
    and "addFramesToContextTree fs s d t w = Inr (w', p)"
  shows "addFramesToContextTree fs s d t w' = Inr (w', p)"
  using assms by (rule add_frames_again)

theorem addFrames_idempotent_witness:
  "\<exists>w' p. addFramesToContextTree [demo_frame 1 2] 0 True SAMPLEDCONTEXT wl_init = Inr (w', p) \<and>
     addFramesToContextTree [demo_frame 1 2] 0 True SAMPLEDCONTEXT w' = Inr (w', p)"
proof -
  have live: "nodes wl_init 0 \<noteq> None" by (simp add: wl_init_def)
  obtain w' p where
    run: "addFramesToContextTree [demo_frame 1 2] 0 True SAMPLEDCONTEXT wl_init = Inr (w', p)"
    using add_frames_ok [OF wl_init_ok live, of SAMPLEDCONTEXT "[demo_frame 1 2]" True] by auto
  from addFrames_idempotent [OF wl_init_ok live _ run] run show ?thesis by auto
qed

lemma sample_filed:
  assumes ok: "wl_ok w" and free: "\<not> contextTree_mtx w" and ctx: "eventContext_agent ev \<noteq> []"
  shows "\<exists>w' leaf. Witch_OnSample_Callback ev w = Inr (w', True) \<and> wl_ok w' \<and>
    \<not> contextTree_mtx w' \<and> walk w' 0 (map frame_key (rev (eventContext_agent ev))) = Some leaf \<and>
    eventToContextLeafMap w' = (eventToContextLeafMap w)(eventId ev \<mapsto> leaf) \<and>
    map_of (propAttrTable w') = (map_of (propAttrTable w))(leaf \<mapsto>
      (case map_of (propAttrTable w) leaf of
         None \<Rightarrow> \<lparr>catchup_num = 0, cur_num = 1, avgDistance = Fin 0\<rparr>
       | Some s \<Rightarrow> s\<lparr>cur_num := to_u64 (cur_num s + 1)\<rparr>))"
proof -
  let ?w0 = "w\<lparr>contextTree_mtx := True\<rparr>"
  have live: "nodes ?w0 0 \<noteq> None" using ok by (simp add: wl_ok_def tree_ok_def)
  have ok0: "wl_ok ?w0" using ok by simp
  obtain w1 leaf where 1: "addFramesToContextTree (eventContext_agent ev) 0 True SAMPLEDCONTEXT ?w0
      = Inr (w1, leaf)" "wl_ok w1" "nodes w1 leaf \<noteq> None" "0 < leaf" "grows 0 ?w0 w1"
    "walk w1 0 (map frame_key (rev (eventContext_agent ev))) = Some leaf"
    using add_frames_ok [OF ok0 live, of SAMPLEDCONTEXT "eventContext_agent ev" True] ctx by auto
  let ?w2 = "w1\<lparr>eventToContextLeafMap := (eventToContextLeafMap w1)(eventId ev \<mapsto> leaf)\<rparr>"
  let ?w' = "unlock_tree (count_sample leaf ?w2)"
  have tab: "eventToContextLeafMap w1 = eventToContextLeafMap w" "propAttrTable w1 = propAttrTable w"
    using 1(5) by (simp_all add: grows_def)
  have "wl_ok ?w'"
    using 1(2-4) by (simp add: wl_ok_count wl_ok_event del: fun_upd_apply)
  moreover have "walk ?w' 0 (map frame_key (rev (eventContext_agent ev))) = Some leaf"
  proof -
    have "same_nodes w1 ?w'"
      by (simp add: same_nodes_def unlock_tree_def count_sample_def split: option.split)
    from walk_cong [OF this] 1(6) show ?thesis by simp
  qed
  moreover have "Witch_OnSample_Callback ev w = Inr (?w', True)"
    using free 1(1,4) by (simp add: Witch_OnSample_Callback_def lock_tree_free)
  moreover have "map_of (propAttrTable ?w') = (map_of (propAttrTable w))(leaf \<mapsto>
      (case map_of (propAttrTable w) leaf of
         None \<Rightarrow> \<lparr>catchup_num = 0, cur_num = 1, avgDistance = Fin 0\<rparr>
       | Some s \<Rightarrow> s\<lparr>cur_num := to_u64 (cur_num s + 1)\<rparr>))"
    using count_sample_table [of leaf ?w2] by (simp add: unlock_tree_def tab)
  moreover have "eventToContextLeafMap ?w' = (eventToContextLeafMap w)(eventId ev \<mapsto> leaf)"
    "\<not> contextTree_mtx ?w'" by (simp_all add: unlock_tree_def tab)
  ultimately show ?thesis by (intro exI [of _ ?w'] exI [of _ leaf] conjI)
qed

text \<open>A sample whose call path is not empty is filed under the leaf of that path and counted
  once there, every other counter and event entry is unchanged, and the mutex is free again.\<close>

theorem on_sample_counts:
  assumes ok: "wl_ok w" and free: "\<not> contextTree_mtx w" and ctx: "eventContext_agent ev \<noteq> []"
  shows "\<exists>w' leaf. Witch_OnSample_Callback ev w = Inr (w', True) \<and> wl_ok w' \<and>
    \<not> contextTree_mtx w' \<and> walk w' 0 (map frame_key (rev (eventContext_agent ev))) = Some leaf \<and>
    eventToContextLeafMap w' = (eventToContextLeafMap w)(eventId ev \<mapsto> leaf) \<and>
    map_of (propAttrTable w') = (map_of (propAttrTable w))(leaf \<mapsto>
      (case map_of (propAttrTable w) leaf of
         None \<Rightarrow> \<lparr>catchup_num = 0, cur_num = 1, avgDistance = Fin 0\<rparr>
       | Some s \<Rightarrow> s\<lparr>cur_num := to_u64 (cur_num s + 1)\<rparr>))"
  using sample_filed [OF assms] .

theorem on_sample_counts_witness:
  "\<exists>w' leaf. Witch_OnSample_Callback
       (zero_Event\<lparr>eventId := 5, eventContext_agent := [demo_frame 16 3]\<rparr>) wl_init = Inr (w', True) \<and>
     wl_ok w' \<and> \<not> contextTree_mtx w' \<and> eventToContextLeafMap w' 5 = Some leaf"
proof -
  have "\<not> contextTree_mtx wl_init" by (simp add: wl_init_def)
  from on_sample_counts [OF wl_init_ok this, of
      "zero_Event\<lparr>eventId := 5, eventContext_agent := [demo_frame 16 3]\<rparr>"]
  show ?thesis by force
qed

text \<open>A sample without a call path is refused and changes nothing.\<close>

lemma on_sample_empty:
  assumes "\<not> contextTree_mtx w" and "eventContext_agent ev = []"
  shows "Witch_OnSample_Callback ev w = Inr (w, False)"
  using assms by (simp add: Witch_OnSample_Callback_def lock_tree_free addFramesToContextTree_def
      unlock_tree_def)

lemma numdiff_entry:
  assumes s: "map_of (propAttrTable w) leaf = Some s"
    and le: "0 \<le> catchup_num s" "catchup_num s \<le> cur_num s" "cur_num s < 2 ^ 64"
    and small: "(cur_num s - catchup_num s) * 100003 < 2 ^ 53"
  shows "\<exists>a. GetNumDiffSamplesAndReset leaf 1 100003 d w =
     Inr (w\<lparr>propAttrTable := AList.update leaf (s\<lparr>catchup_num := cur_num s, avgDistance := a\<rparr>)
             (propAttrTable w)\<rparr>, of_int ((cur_num s - catchup_num s) * 100003))"
proof -
  let ?n = "cur_num s - catchup_num s"
  have u: "to_u64 ?n = ?n" using le by (intro to_u64_id) simp_all
  have "\<bar>?n\<bar> < 2 ^ 53" and "\<bar>?n * 100003\<bar> < 2 ^ 53" using le small by simp_all
  from f64_exact [OF this(1)] f64_exact [OF this(2)] show ?thesis
    by (simp add: GetNumDiffSamplesAndReset_def s u Let_def) (rule exI, rule refl)
qed

text \<open>C21: While fewer than \<open>2^53 / 100003\<close> samples are pending, the number attributed to a watchpoint
  hit is exactly the pending samples times the period, the counter is reset, and a second hit
  before the next sample is attributed nothing.\<close>

theorem numdiff_exact_and_reset:
  assumes "map_of (propAttrTable w) leaf = Some s"
    and "0 \<le> catchup_num s" and "catchup_num s \<le> cur_num s" and "cur_num s < 2 ^ 64"
    and "(cur_num s - catchup_num s) * 100003 < 2 ^ 53"
  shows "\<exists>w'. GetNumDiffSamplesAndReset leaf 1 100003 d w
        = Inr (w', of_int ((cur_num s - catchup_num s) * 100003)) \<and>
     map_option catchup_num (map_of (propAttrTable w') leaf) = Some (cur_num s) \<and>
     (\<exists>w''. GetNumDiffSamplesAndReset leaf 1 100003 d' w' = Inr (w'', 0))"
proof -
  from numdiff_entry [OF assms, of d] obtain a where
    1: "GetNumDiffSamplesAndReset leaf 1 100003 d w =
     Inr (w\<lparr>propAttrTable := AList.update leaf (s\<lparr>catchup_num := cur_num s, avgDistance := a\<rparr>)
             (propAttrTable w)\<rparr>, of_int ((cur_num s - catchup_num s) * 100003))" ..
  let ?w' = "w\<lparr>propAttrTable := AList.update leaf (s\<lparr>catchup_num := cur_num s, avgDistance := a\<rparr>)
             (propAttrTable w)\<rparr>"
  have "\<exists>b. GetNumDiffSamplesAndReset leaf 1 100003 d' ?w' =
      Inr (?w'\<lparr>propAttrTable := AList.update leaf (s\<lparr>catchup_num := cur_num s, avgDistance := b\<rparr>)
             (propAttrTable ?w')\<rparr>, of_int ((cur_num s - cur_num s) * 100003))"
    using numdiff_entry [of ?w' leaf "s\<lparr>catchup_num := cur_num s, avgDistance := a\<rparr>" d'] assms
    by simp
  with 1 show ?thesis by auto
qed

theorem numdiff_exact_and_reset_witness:
  "\<exists>w'. GetNumDiffSamplesAndReset 1 1 100003 50
       (wl_init\<lparr>propAttrTable := [(1, \<lparr>catchup_num = 2, cur_num = 9, avgDistance = Fin 0\<rparr>)]\<rparr>)
     = Inr (w', 700021)"
  using numdiff_exact_and_reset [of "wl_init\<lparr>propAttrTable :=
      [(1, \<lparr>catchup_num = 2, cur_num = 9, avgDistance = Fin 0\<rparr>)]\<rparr>" 1
      "\<lparr>catchup_num = 2, cur_num = 9, avgDistance = Fin 0\<rparr>" 50]
  by auto

end
