(* ===== verification/Context_Report.thy ===== *)
theory Context_Report
  imports Context_Samples
begin

text \<open>
  The traversals of the calling-context tree in \<^verbatim>\<open>WitchLogic.hpp\<close> and \<^verbatim>\<open>WitchLogic.cpp\<close>: the three
  printers (what they print is a list of lines), the bottom-up sums of \<open>calculateForAllContext\<close>,
  and the clean-up. The recursions take fuel; \<open>next_ctx\<close> is enough because children are allocated
  after their parents. The order of a node's children stands for the iteration order of the
  \<open>unordered_set\<close>.
\<close>

section \<open>The list of addresses not reported\<close>

definition SeenList :: "u64 list" where
  "SeenList = [0xffffffff810c3ac2, 0xffffffff810bea30, 0xffffffff810cae83, 0xffffffff810cb70b,
     0xffffffff811145f5, 0xffffffff819f051f, 0xffffffff819f08d9, 0xffffffff81398ce6]"

definition inAlreadySeenList :: "u64 \<Rightarrow> bool" where
  "inAlreadySeenList ipAddr \<longleftrightarrow> scan_list (\<lambda>s. s = ipAddr) 0 SeenList \<noteq> None"

section \<open>Printing\<close>

text \<open>
  The build macros of the printers (\<^verbatim>\<open>AVOID_SEEN\<close>, \<^verbatim>\<open>SHOW_SAMPLED_WATCHED_SAME_ADDRESS\<close>) and one
  output line. \<open>AllLine\<close> carries red bytes, used bytes, average distance, inefficiency and whether
  the line is highlighted.
\<close>

record print_cfg =
  AVOID_SEEN :: bool
  SHOW_SAME_ADDRESS :: bool

datatype out_line = SampledLine int ContextFrame | WatchedLine int ContextFrame string
  | SameAddressLine | AllLine int ContextFrame int int fp fp bool
  | HeaderLine int fp int fp | StatusLine

definition seen :: "print_cfg \<Rightarrow> int \<Rightarrow> cnode \<Rightarrow> bool" where
  "seen cfg i n \<longleftrightarrow> AVOID_SEEN cfg \<and> i = 0 \<and> inAlreadySeenList (word_of_int (binary_addr (cn_frame n)))"

fun printSampledContext :: "nat \<Rightarrow> print_cfg \<Rightarrow> wlogic \<Rightarrow> nat option \<Rightarrow> int \<Rightarrow> out_line list res" where
  "printSampledContext 0 cfg w p i = Inl OutOfFuel"
| "printSampledContext (Suc k) cfg w None i = Inr []"
| "printSampledContext (Suc k) cfg w (Some p) i =
     rbind (getn w p) (\<lambda>n.
       if seen cfg i n then Inr []
       else rbind (printSampledContext k cfg w (cn_parent n) (i + 1)) (\<lambda>ls.
         Inr (SampledLine i (cn_frame n) # ls)))"

definition type_tag :: "cnode \<Rightarrow> string" where
  "type_tag n =
     (let t = metric_i n CONTEXTTYPE
      in if t = ctype_int USEDCONTEXT then ''[U]''
         else if t = ctype_int DEADCONTEXT then ''[D]''
         else if t = ctype_int REDCONTEXT then ''[R]''
         else if t = ctype_int UNDEFINEDCONTEXT then ''[UD]'' else [])"

fun printWatchedContext :: "nat \<Rightarrow> print_cfg \<Rightarrow> wlogic \<Rightarrow> nat \<Rightarrow> int \<Rightarrow> out_line list res" where
  "printWatchedContext 0 cfg w p i = Inl OutOfFuel"
| "printWatchedContext (Suc k) cfg w p i =
     rbind (getn w p) (\<lambda>n.
       if seen cfg i n then Inr []
       else rfold (\<lambda>(h, c) ls.
              rbind (if SHOW_SAME_ADDRESS cfg \<and> i = 0
                     then rbind (getn w c) (\<lambda>m.
                       Inr (if binary_addr (cn_frame n) = binary_addr (cn_frame m)
                            then [SameAddressLine] else []))
                     else Inr []) (\<lambda>mark.
              rbind (printWatchedContext k cfg w c (i + 1)) (\<lambda>below. Inr (ls @ mark @ below))))
            (cn_children n)
            (if i \<noteq> 0 then [WatchedLine i (cn_frame n) (type_tag n)] else []))"

text \<open>\<open>root->_parent && root->frame.binary_addr == root->_parent->frame.binary_addr\<close>.\<close>

definition same_as_parent :: "wlogic \<Rightarrow> cnode \<Rightarrow> bool res" where
  "same_as_parent w n =
     (case cn_parent n of None \<Rightarrow> Inr False
      | Some q \<Rightarrow> rbind (getn w q) (\<lambda>m. Inr (binary_addr (cn_frame n) = binary_addr (cn_frame m))))"

fun fp_gt :: "fp \<Rightarrow> rat \<Rightarrow> bool" where
  "fp_gt NaN r = False"
| "fp_gt (Inf s) r = (\<not> s)"
| "fp_gt (Fin x) r = (r < x)"

definition all_line :: "wlogic \<Rightarrow> nat \<Rightarrow> cnode \<Rightarrow> int \<Rightarrow> int \<Rightarrow> out_line list" where
  "all_line w p n i totalBytes =
     (let red = metric_i n REDBYTES; used = metric_i n USEDBYTES
      in if \<not> (used = 0 \<and> red = 0)
         then let inEff = fp_div binary64 (fp_round binary64 (100 * f64 (of_int red)))
                            (Fin (of_int totalBytes));
                  avgDist = (case map_of (propAttrTable w) p of None \<Rightarrow> Fin 1000000
                             | Some s \<Rightarrow> avgDistance s)
              in [AllLine i (cn_frame n) red used avgDist inEff (fp_gt inEff 1)]
         else [])"

fun printAllContext :: "nat \<Rightarrow> wlogic \<Rightarrow> nat \<Rightarrow> int \<Rightarrow> int \<Rightarrow> out_line list res" where
  "printAllContext 0 w p i totalBytes = Inl OutOfFuel"
| "printAllContext (Suc k) w p i totalBytes =
     rbind (getn w p) (\<lambda>n.
     rbind (same_as_parent w n) (\<lambda>same.
       if same then Inr []
       else rfold (\<lambda>(h, c) ls.
              rbind (printAllContext k w c (i + 1) totalBytes) (\<lambda>below. Inr (ls @ below)))
            (cn_children n) (all_line w p n i totalBytes)))"

section \<open>Sums over subtrees\<close>

definition add_totals :: "nat \<Rightarrow> metric_val_t \<Rightarrow> wlogic \<Rightarrow> (wlogic \<times> metric_val_t) res" where
  "add_totals p red w =
     rbind (getn w p) (\<lambda>n.
       let n1 = set_metric_i REDBYTES (to_i64 (metric_i n REDBYTES + mv_i red)) n;
           n2 = set_metric_i USEDBYTES (to_i64 (metric_i n1 USEDBYTES + mv_r red)) n1
       in Inr (setn p n2 w, \<lparr>mv_r = metric_i n2 USEDBYTES, mv_i = metric_i n2 REDBYTES\<rparr>))"

fun calculateForAllContext :: "nat \<Rightarrow> nat \<Rightarrow> wlogic \<Rightarrow> (wlogic \<times> metric_val_t) res" where
  "calculateForAllContext 0 p w = Inl OutOfFuel"
| "calculateForAllContext (Suc k) p w =
     rbind (getn w p) (\<lambda>n.
     rbind (same_as_parent w n) (\<lambda>same.
       if same then Inr (w, metric_zero)
       else rbind (rfold (\<lambda>(h, c) (w1, red).
                rbind (calculateForAllContext k c w1) (\<lambda>(w2, ret). Inr (w2, metric_add red ret)))
              (cn_children n) (w, metric_zero)) (\<lambda>(w1, red).
            add_totals p red w1)))"

section \<open>Clean-up\<close>

definition delete_node :: "nat \<Rightarrow> wlogic \<Rightarrow> wlogic" where
  "delete_node p w = w\<lparr>nodes := (nodes w)(p := None)\<rparr>"

fun cleanChildContext :: "nat \<Rightarrow> nat \<Rightarrow> int \<Rightarrow> wlogic \<Rightarrow> wlogic res" where
  "cleanChildContext 0 p i w = Inl OutOfFuel"
| "cleanChildContext (Suc k) p i w =
     rbind (getn w p) (\<lambda>n.
     rbind (rfold (\<lambda>(h, c). cleanChildContext k c (i + 1)) (cn_children n) w) (\<lambda>w1.
       Inr (if i \<noteq> 0 then delete_node p w1 else w1)))"

text \<open>The part of \<open>cleanContextTree\<close> before the virtual \<open>resetWitchLogic\<close>.\<close>

definition cleanContextTree :: "wlogic \<Rightarrow> wlogic res" where
  "cleanContextTree w =
     rbind (lock_tree w) (\<lambda>w1.
     rbind (cleanChildContext (next_ctx w) 0 0
              (w1\<lparr>propAttrTable := [], eventToContextLeafMap := Map.empty\<rparr>)) (\<lambda>w2.
       Inr (unlock_tree w2)))"

section \<open>The nodes below a node\<close>

definition below :: "wlogic \<Rightarrow> nat \<Rightarrow> nat set" where
  "below w p = {q. \<exists>ks. walk w p ks = Some q}"

lemma below_self [simp]: "p \<in> below w p"
  by (auto simp: below_def intro: exI [of _ "[]"])

lemma child_walk:
  assumes ok: "tree_ok w" and n: "nodes w p = Some n" and c: "(h, c) \<in> set (cn_children n)"
  shows "find_key w (cn_children n) (node_key w c) = Some c"
proof -
  have "distinct (map (\<lambda>c. node_key w (snd c)) (cn_children n))"
    using ok n by (simp add: tree_ok_def node_ok_def)
  then show ?thesis using c
  proof (induction "cn_children n" arbitrary: n)
    case Nil
    then show ?case by simp
  next
    case (Cons x xs)
    have "find_key w xs (node_key w c) = Some c"
      if "distinct (map (\<lambda>c. node_key w (snd c)) xs)" "(h, c) \<in> set xs" for xs
      using that by (induction xs) force+
    then show ?case using Cons.prems by blast
  qed
qed

lemma below_unfold:
  assumes ok: "tree_ok w" and n: "nodes w p = Some n"
  shows "below w p = insert p (\<Union>c \<in> snd ` set (cn_children n). below w c)" (is "?L = ?R")
proof
  show "?L \<subseteq> ?R"
  proof
    fix q
    assume "q \<in> ?L"
    then obtain ks where ks: "walk w p ks = Some q" by (auto simp: below_def)
    show "q \<in> ?R"
    proof (cases ks)
      case Nil
      with ks show ?thesis by simp
    next
      case (Cons k ks')
      with ks n obtain c where c: "find_key w (cn_children n) k = Some c" "walk w c ks' = Some q"
        by (auto split: option.splits)
      with find_key_Some [OF c(1)] show ?thesis by (auto simp: below_def)
    qed
  qed
  show "?R \<subseteq> ?L"
  proof -
    have "q \<in> ?L" if c: "(h, c) \<in> set (cn_children n)" and q: "q \<in> below w c" for h c q
    proof -
      from q obtain ks where ks: "walk w c ks = Some q" by (auto simp: below_def)
      have "walk w p (node_key w c # ks) = Some q"
        using n child_walk [OF ok n c] ks by simp
      then show ?thesis unfolding below_def by blast
    qed
    then show ?thesis by auto
  qed
qed

lemma below_ge: "tree_ok w \<Longrightarrow> q \<in> below w p \<Longrightarrow> p \<le> q"
  using walk_live by (fastforce simp: below_def)

lemma below_live: "tree_ok w \<Longrightarrow> nodes w p \<noteq> None \<Longrightarrow> q \<in> below w p \<Longrightarrow> nodes w q \<noteq> None"
  using walk_live by (fastforce simp: below_def)

lemma below_child_greater:
  "tree_ok w \<Longrightarrow> nodes w p = Some n \<Longrightarrow> c \<in> snd ` set (cn_children n) \<Longrightarrow> q \<in> below w c \<Longrightarrow> p < q"
  using node_children_ok below_ge by (fastforce simp: child_ok_def)

lemma below_disjoint:
  assumes ok: "tree_ok w" and n: "nodes w p = Some n"
    and c: "c \<in> snd ` set (cn_children n)" "d \<in> snd ` set (cn_children n)" "c \<noteq> d"
  shows "below w c \<inter> below w d = {}"
proof (rule ccontr)
  assume "below w c \<inter> below w d \<noteq> {}"
  then obtain q ks ls where "walk w c ks = Some q" "walk w d ls = Some q"
    by (auto simp: below_def)
  moreover from c(1) have fc: "find_key w (cn_children n) (node_key w c) = Some c"
    using child_walk [OF ok n] by auto
  moreover from c(2) have fd: "find_key w (cn_children n) (node_key w d) = Some d"
    using child_walk [OF ok n] by auto
  ultimately have "walk w p (node_key w c # ks) = Some q" "walk w p (node_key w d # ls) = Some q"
    using n by simp_all
  from walk_inj [OF ok this] have "node_key w c = node_key w d" by simp
  with fc fd c(3) show False by simp
qed

lemma distinct_children:
  assumes "tree_ok w" and "nodes w p = Some n"
  shows "distinct (map snd (cn_children n))"
proof -
  have "distinct (map (node_key w) (map snd (cn_children n)))"
    using assms by (simp add: tree_ok_def node_ok_def comp_def)
  then show ?thesis by (simp only: distinct_map)
qed

section \<open>What the clean-up deletes\<close>

definition drop_nodes :: "nat set \<Rightarrow> wlogic \<Rightarrow> wlogic" where
  "drop_nodes S w = w\<lparr>nodes := (\<lambda>q. if q \<in> S then None else nodes w q)\<rparr>"

lemma drop_nodes_simps [simp]:
  "nodes (drop_nodes S w) q = (if q \<in> S then None else nodes w q)"
  "drop_nodes {} w = w"
  "next_ctx (drop_nodes S w) = next_ctx w"
  "eventToContextLeafMap (drop_nodes S w) = eventToContextLeafMap w"
  "propAttrTable (drop_nodes S w) = propAttrTable w"
  "contextTree_mtx (drop_nodes S w) = contextTree_mtx w"
  by (auto simp: drop_nodes_def)

lemma drop_nodes_twice [simp]: "drop_nodes S (drop_nodes T w) = drop_nodes (S \<union> T) w"
  by (rule wlogic.equality) (auto simp: fun_eq_iff)

lemma delete_node_drop: "delete_node p (drop_nodes S w) = drop_nodes (insert p S) w"
  by (rule wlogic.equality) (auto simp: delete_node_def fun_eq_iff)

text \<open>A subtree untouched so far, as the tree \<open>w0\<close> had it, is deleted exactly.\<close>

lemma clean_child_ok:
  assumes ok: "tree_ok w0"
  shows "nodes w0 p \<noteq> None \<Longrightarrow> next_ctx w0 - p \<le> k \<Longrightarrow> \<forall>q \<in> below w0 p. nodes w q = nodes w0 q \<Longrightarrow>
    0 \<le> i \<Longrightarrow> cleanChildContext k p i w =
      Inr (drop_nodes (if i \<noteq> 0 then below w0 p else below w0 p - {p}) w)"
proof (induction k arbitrary: p i w)
  case 0
  then show ?case using live_less [OF ok] by fastforce
next
  case (Suc k)
  obtain n where n: "nodes w0 p = Some n" using Suc.prems(1) by auto
  let ?B = "\<lambda>cs. \<Union>c \<in> snd ` set cs. below w0 c"
  have run: "rfold (\<lambda>(h, c). cleanChildContext k c (i + 1)) cs v = Inr (drop_nodes (?B cs) v)"
    if "set cs \<subseteq> set (cn_children n)" and "distinct (map snd cs)"
      and "\<forall>q \<in> ?B cs. nodes v q = nodes w0 q" for cs v
    using that
  proof (induction cs arbitrary: v)
    case Nil
    then show ?case by simp
  next
    case (Cons x xs)
    obtain h c where x: "x = (h, c)" by (cases x)
    have c: "(h, c) \<in> set (cn_children n)" using Cons.prems(1) x by simp
    have "p < c" "nodes w0 c \<noteq> None"
      using node_children_ok [OF ok n c] by (auto simp: child_ok_def split: option.splits)
    then have 1: "cleanChildContext k c (i + 1) v = Inr (drop_nodes (below w0 c) v)"
      using Suc.IH [of c v "i + 1"] Suc.prems(2,4) Cons.prems(3) by (simp add: x)
    have "\<forall>q \<in> ?B xs. nodes (drop_nodes (below w0 c) v) q = nodes w0 q"
    proof
      fix q
      assume "q \<in> ?B xs"
      then obtain d where d: "d \<in> snd ` set xs" "q \<in> below w0 d" by auto
      have "c \<noteq> d" using Cons.prems(2) d(1) x by auto
      moreover have "c \<in> snd ` set (cn_children n)" "d \<in> snd ` set (cn_children n)"
        using c d(1) Cons.prems(1) by force+
      ultimately have "q \<notin> below w0 c" using below_disjoint [OF ok n] d(2) by blast
      then show "nodes (drop_nodes (below w0 c) v) q = nodes w0 q"
        using Cons.prems(3) \<open>q \<in> ?B xs\<close> by auto
    qed
    with Cons.IH [of "drop_nodes (below w0 c) v"] Cons.prems(1,2) 1 x
    show ?case by (simp add: Un_commute)
  qed
  have B: "below w0 p = insert p (?B (cn_children n))" by (rule below_unfold [OF ok n])
  have p: "p \<notin> ?B (cn_children n)" using below_child_greater [OF ok n] by blast
  have "rfold (\<lambda>(h, c). cleanChildContext k c (i + 1)) (cn_children n) w
      = Inr (drop_nodes (?B (cn_children n)) w)"
    using Suc.prems(3) by (intro run distinct_children [OF ok n]) (auto simp: B)
  moreover have "nodes w p = Some n" using Suc.prems(3) n by simp
  ultimately show ?case using p by (simp add: getn_def B delete_node_drop)
qed

lemma cleanContextTree_ok:
  assumes "tree_ok w" and "\<not> contextTree_mtx w"
  shows "cleanContextTree w = Inr (drop_nodes (below w 0 - {0})
    (w\<lparr>propAttrTable := [], eventToContextLeafMap := Map.empty\<rparr>))"
proof -
  let ?w1 = "w\<lparr>contextTree_mtx := True, propAttrTable := [], eventToContextLeafMap := Map.empty\<rparr>"
  have "cleanChildContext (next_ctx w) 0 0 ?w1 = Inr (drop_nodes (below w 0 - {0}) ?w1)"
    using clean_child_ok [OF assms(1), of 0 "next_ctx w" ?w1 0] assms(1)
    by (simp add: tree_ok_def)
  moreover have "unlock_tree (drop_nodes (below w 0 - {0}) ?w1) = drop_nodes (below w 0 - {0})
      (w\<lparr>propAttrTable := [], eventToContextLeafMap := Map.empty\<rparr>)"
    using assms(2) by (intro wlogic.equality) (auto simp: unlock_tree_def fun_eq_iff)
  ultimately show ?thesis using assms(2) by (simp add: cleanContextTree_def lock_tree_free)
qed

lemma find_child_dangling:
  assumes "\<forall>c \<in> snd ` set cs. nodes w c = None" and "src_lineno f \<in> fst ` set cs"
  shows "find_child w f cs = Inl UseAfterFree"
  using assms by (induction w f cs rule: find_child.induct) (auto simp: getn_def)

lemma root_children_below:
  "tree_ok w \<Longrightarrow> nodes w 0 = Some n \<Longrightarrow> c \<in> snd ` set (cn_children n) \<Longrightarrow> c \<in> below w 0 - {0}"
proof -
  assume ok: "tree_ok w" and n: "nodes w 0 = Some n" and c: "c \<in> snd ` set (cn_children n)"
  have "c \<in> below w 0" unfolding below_unfold [OF ok n] using c by (blast intro: below_self)
  moreover have "0 < c" by (rule below_child_greater [OF ok n c below_self])
  ultimately show ?thesis by simp
qed

text \<open>C40: \<open>cleanContextTree\<close> deletes exactly the nodes below the root and empties both tables, but it
  leaves the deleted nodes in the root's set of children: if the tree was not empty, the next
  sample whose outermost frame has the line number of one of them, the next sum over the tree and
  the next clean-up all read freed memory.\<close>

theorem clean_leaves_dangling_children:
  assumes ok: "wl_ok w" and free: "\<not> contextTree_mtx w"
    and n: "nodes w 0 = Some n" and h: "h \<in> fst ` set (cn_children n)"
  shows "\<exists>w'. cleanContextTree w = Inr w' \<and> dom (nodes w') = dom (nodes w) - (below w 0 - {0}) \<and>
    propAttrTable w' = [] \<and> eventToContextLeafMap w' = Map.empty \<and>
    (\<forall>ev. eventContext_agent ev \<noteq> [] \<longrightarrow> src_lineno (last (eventContext_agent ev)) = h \<longrightarrow>
       Witch_OnSample_Callback ev w' = Inl UseAfterFree) \<and>
    calculateForAllContext (Suc (Suc k)) 0 w' = Inl UseAfterFree \<and>
    (1 < next_ctx w' \<longrightarrow> cleanContextTree w' = Inl UseAfterFree)"
proof -
  have tr: "tree_ok w" using ok by (simp add: wl_ok_def)
  define w' where "w' = drop_nodes (below w 0 - {0})
    (w\<lparr>propAttrTable := [], eventToContextLeafMap := Map.empty\<rparr>)"
  have run: "cleanContextTree w = Inr w'"
    unfolding w'_def by (rule cleanContextTree_ok [OF tr free])
  have root: "nodes w' 0 = Some n" and mtx: "\<not> contextTree_mtx w'"
    using n free by (simp_all add: w'_def)
  have gone: "\<forall>c \<in> snd ` set (cn_children n). nodes w' c = None"
    using root_children_below [OF tr n] by (simp add: w'_def)
  obtain c0 cs where cs: "cn_children n = c0 # cs" using h by (cases "cn_children n") auto
  then have c0: "nodes w' (snd c0) = None" using gone by auto
  have par: "cn_parent n = None" using tr n unfolding tree_ok_def node_ok_def by blast
  have 1: "Witch_OnSample_Callback ev w' = Inl UseAfterFree"
    if e: "eventContext_agent ev \<noteq> []" "src_lineno (last (eventContext_agent ev)) = h" for ev
  proof -
    let ?v = "w'\<lparr>contextTree_mtx := True\<rparr>"
    obtain fs where fs: "rev (eventContext_agent ev) = last (eventContext_agent ev) # fs"
      using e(1) by (metis append_butlast_last_id rev_eq_Cons_iff rev_rev_ident)
    have "find_child ?v (last (eventContext_agent ev)) (cn_children n) = Inl UseAfterFree"
      using gone e(2) h by (intro find_child_dangling) auto
    then have "addFramesToContextTree (eventContext_agent ev) 0 True SAMPLEDCONTEXT ?v
        = Inl UseAfterFree"
      unfolding addFramesToContextTree_def if_P [OF TrueI] fs
      using root by (simp add: frame_step_def getn_def)
    then show ?thesis
      using mtx by (simp add: Witch_OnSample_Callback_def lock_tree_free)
  qed
  have 2: "calculateForAllContext (Suc (Suc k)) 0 w' = Inl UseAfterFree"
    using root c0 par by (cases c0) (simp add: getn_def cs same_as_parent_def)
  have 3: "cleanContextTree w' = Inl UseAfterFree" if "1 < next_ctx w'"
  proof -
    from that obtain m where "next_ctx w' = Suc (Suc m)" using less_natE by (metis One_nat_def Suc_less_eq less_imp_Suc_add add_Suc)
    then show ?thesis
      using root c0 mtx by (cases c0)
        (simp add: cleanContextTree_def lock_tree_free getn_def cs)
  qed
  have 4: "dom (nodes w') = dom (nodes w) - (below w 0 - {0})"
    by (auto simp: w'_def split: if_splits)
  show ?thesis using run 1 2 3 4 by (intro exI [of _ w']) (simp add: w'_def)
qed

text \<open>A tree with one sampled call path of one frame at line 7.\<close>

definition one_sample :: wlogic where
  "one_sample = wl_init\<lparr>nodes := (\<lambda>_. None)
       (0 := Some (new_Context root_frame None\<lparr>cn_children := [(7, 1)]\<rparr>),
        1 := Some (new_Context (demo_frame 4096 7) (Some 0))),
     next_ctx := 2\<rparr>"

lemma one_sample_ok: "wl_ok one_sample"
  by (auto simp: wl_ok_def tree_ok_def tables_ok_def one_sample_def wl_init_def node_ok_def
      child_ok_def demo_frame_def split: if_splits)

theorem clean_leaves_dangling_children_witness:
  "\<exists>w'. cleanContextTree one_sample = Inr w' \<and> cleanContextTree w' = Inl UseAfterFree \<and>
     Witch_OnSample_Callback (zero_Event\<lparr>eventContext_agent := [demo_frame 9000 7]\<rparr>) w'
       = Inl UseAfterFree"
proof -
  have "\<not> contextTree_mtx one_sample" "nodes one_sample 0 =
      Some (new_Context root_frame None\<lparr>cn_children := [(7, 1)]\<rparr>)"
    by (simp_all add: one_sample_def wl_init_def)
  from clean_leaves_dangling_children [OF one_sample_ok this, of 7 0] obtain w' where
    w': "cleanContextTree one_sample = Inr w'" "1 < next_ctx w' \<longrightarrow> cleanContextTree w' = Inl UseAfterFree"
    "\<forall>ev. eventContext_agent ev \<noteq> [] \<longrightarrow> src_lineno (last (eventContext_agent ev)) = 7 \<longrightarrow>
       Witch_OnSample_Callback ev w' = Inl UseAfterFree"
    by auto
  have "next_ctx w' = 2"
    using w'(1) cleanContextTree_ok [of one_sample] one_sample_ok
    by (auto simp: wl_ok_def) (simp add: one_sample_def wl_init_def)
  with w' show ?thesis by (force simp: demo_frame_def)
qed

end
