(* ===== verification/Context_Sums.thy ===== *)
theory Context_Sums
  imports Context_Report
begin

text \<open>
  Two of the traversals of \<^verbatim>\<open>WitchLogic.hpp\<close> against what they compute: \<open>calculateForAllContext\<close>
  returns the sums of the metrics over the subtree (without the subtrees of recursive calls), and
  \<open>printSampledContext\<close> prints the call path from the leaf to the root.
\<close>

section \<open>Subtree sums\<close>

definition pruned :: "wlogic \<Rightarrow> cnode \<Rightarrow> bool" where
  "pruned w n \<longleftrightarrow> (case cn_parent n of None \<Rightarrow> False | Some q \<Rightarrow>
     (case nodes w q of None \<Rightarrow> False | Some m \<Rightarrow> binary_addr (cn_frame n) = binary_addr (cn_frame m)))"

inductive counted :: "wlogic \<Rightarrow> nat \<Rightarrow> nat \<Rightarrow> bool" for w where
  here: "nodes w p = Some n \<Longrightarrow> \<not> pruned w n \<Longrightarrow> counted w p p"
| child: "nodes w p = Some n \<Longrightarrow> \<not> pruned w n \<Longrightarrow> c \<in> snd ` set (cn_children n) \<Longrightarrow>
    counted w c q \<Longrightarrow> counted w p q"

inductive_cases counted_cases: "counted w p q"

definition mi :: "wlogic \<Rightarrow> MetricType \<Rightarrow> nat \<Rightarrow> int" where
  "mi w m q = (case nodes w q of None \<Rightarrow> 0 | Some n \<Rightarrow> metric_i n m)"

definition subtree_total :: "wlogic \<Rightarrow> MetricType \<Rightarrow> nat \<Rightarrow> int" where
  "subtree_total w m p = (\<Sum>q | counted w p q. mi w m q)"

lemma counted_unfold:
  assumes n: "nodes w p = Some n"
  shows "{q. counted w p q} = (if pruned w n then {}
    else insert p (\<Union>c \<in> snd ` set (cn_children n). {q. counted w c q}))"
proof (cases "pruned w n")
  case True
  with n show ?thesis by (auto elim: counted_cases)
next
  case False
  have "q = p \<or> (\<exists>c \<in> snd ` set (cn_children n). counted w c q)" if "counted w p q" for q
    using that by (rule counted_cases) (use n in auto)
  with n False show ?thesis by (auto intro: counted.intros)
qed

lemma counted_below:
  assumes "tree_ok w"
  shows "counted w p q \<Longrightarrow> q \<in> below w p"
proof (induction rule: counted.induct)
  case (here p n)
  show ?case by simp
next
  case (child p n c q)
  show ?case unfolding below_unfold [OF assms child(1)] using child(3,5) by blast
qed

lemma finite_counted [simp]:
  assumes ok: "tree_ok w"
  shows "finite {q. counted w p q}"
proof (cases "nodes w p")
  case None
  then have "{q. counted w p q} = {}" by (auto elim: counted_cases)
  then show ?thesis by simp
next
  case (Some n)
  have "{q. counted w p q} \<subseteq> {..< next_ctx w}"
    using counted_below [OF ok] below_live [OF ok] Some live_less [OF ok] by fastforce
  then show ?thesis by (rule finite_subset) simp
qed

lemma subtree_total_unfold:
  assumes ok: "tree_ok w" and n: "nodes w p = Some n"
  shows "subtree_total w m p = (if pruned w n then 0
    else metric_i n m + (\<Sum>c \<leftarrow> map snd (cn_children n). subtree_total w m c))"
proof (cases "pruned w n")
  case True
  with counted_unfold [OF n] show ?thesis by (simp add: subtree_total_def)
next
  case False
  let ?C = "snd ` set (cn_children n)"
  have sub: "{q. counted w c q} \<subseteq> below w c" for c using counted_below [OF ok] by blast
  have disj: "{q. counted w c q} \<inter> {q. counted w d q} = {}" if "c \<in> ?C" "d \<in> ?C" "c \<noteq> d" for c d
    using below_disjoint [OF ok n that] sub [of c] sub [of d] by blast
  have p: "p \<notin> (\<Union>c \<in> ?C. {q. counted w c q})"
    using below_child_greater [OF ok n] sub by blast
  have "subtree_total w m p
      = mi w m p + (\<Sum>q \<in> (\<Union>c \<in> ?C. {q. counted w c q}). mi w m q)"
    using False counted_unfold [OF n] p ok by (simp add: subtree_total_def)
  also have "(\<Sum>q \<in> (\<Union>c \<in> ?C. {q. counted w c q}). mi w m q) = (\<Sum>c \<in> ?C. subtree_total w m c)"
    unfolding subtree_total_def using disj ok by (intro sum.UNION_disjoint) auto
  also have "\<dots> = (\<Sum>c \<leftarrow> map snd (cn_children n). subtree_total w m c)"
    using sum_list_distinct_conv_sum_set [OF distinct_children [OF ok n], of "subtree_total w m"]
    by (simp only: set_map)
  finally show ?thesis using False n by (simp add: mi_def)
qed

text \<open>States that differ from \<open>w0\<close> in metric values only.\<close>

definition like :: "wlogic \<Rightarrow> wlogic \<Rightarrow> bool" where
  "like w0 w \<longleftrightarrow> (\<forall>q. case nodes w0 q of None \<Rightarrow> nodes w q = None
     | Some n \<Rightarrow> (\<exists>n'. nodes w q = Some n' \<and> same_shape n n'))"

lemma like_refl: "like w w"
  by (auto simp: like_def same_shape_def split: option.split)

lemma like_node: "like w0 w \<Longrightarrow> nodes w0 q = Some n \<Longrightarrow> \<exists>n'. nodes w q = Some n' \<and> same_shape n n'"
  by (auto simp: like_def split: option.splits)

lemma like_setn:
  "like w0 w \<Longrightarrow> nodes w0 p = Some n \<Longrightarrow> same_shape n n' \<Longrightarrow> like w0 (setn p n' w)"
proof -
  assume a: "like w0 w" "nodes w0 p = Some n" "same_shape n n'"
  show "like w0 (setn p n' w)"
    unfolding like_def
  proof
    fix q
    have "case nodes w0 q of None \<Rightarrow> nodes w q = None
       | Some n \<Rightarrow> (\<exists>n'. nodes w q = Some n' \<and> same_shape n n')"
      using a(1) by (simp add: like_def)
    with a(2,3) show "case nodes w0 q of None \<Rightarrow> nodes (setn p n' w) q = None
       | Some n \<Rightarrow> (\<exists>n''. nodes (setn p n' w) q = Some n'' \<and> same_shape n n'')"
      by (cases "q = p"; cases "nodes w0 q") simp_all
  qed
qed

lemma same_as_parent_like:
  assumes ok: "tree_ok w0" and like: "like w0 w" and n: "nodes w0 p = Some n"
    and n': "same_shape n n'"
  shows "same_as_parent w n' = Inr (pruned w0 n)"
proof (cases "cn_parent n")
  case None
  with n' show ?thesis by (simp add: same_as_parent_def pruned_def same_shape_def)
next
  case (Some q)
  have "node_ok w0 p n" using ok n by (simp add: tree_ok_def)
  with Some obtain m where m: "nodes w0 q = Some m" by (auto simp: node_ok_def)
  obtain m' where "nodes w q = Some m'" "same_shape m m'" using like_node [OF like m] by blast
  with m Some n' show ?thesis
    by (simp add: same_as_parent_def pruned_def same_shape_def getn_def)
qed

definition totals_of :: "wlogic \<Rightarrow> nat \<Rightarrow> metric_val_t \<Rightarrow> bool" where
  "totals_of w p v \<longleftrightarrow> mv_i v = to_i64 (subtree_total w REDBYTES p) \<and>
     mv_r v = to_i64 (subtree_total w USEDBYTES p)"

lemma add_totals_ok:
  assumes "nodes w p = Some n"
  shows "\<exists>n'. add_totals p red w = Inr (setn p n' w,
      \<lparr>mv_r = to_i64 (metric_i n USEDBYTES + mv_r red), mv_i = to_i64 (metric_i n REDBYTES + mv_i red)\<rparr>)
    \<and> same_shape n n'"
  using assms by (auto simp: add_totals_def getn_def Let_def set_metric_i_def metric_i_def
      same_shape_def intro: exI)

text \<open>The sum below a node, in any state that agrees with \<open>w0\<close> on the nodes below it.\<close>

lemma calculate_ok:
  assumes ok: "tree_ok w0"
  shows "nodes w0 p \<noteq> None \<Longrightarrow> next_ctx w0 - p \<le> k \<Longrightarrow> like w0 w \<Longrightarrow>
    \<forall>q \<in> below w0 p. nodes w q = nodes w0 q \<Longrightarrow>
    \<exists>w' v. calculateForAllContext k p w = Inr (w', v) \<and> like w0 w' \<and>
      (\<forall>q. q \<notin> below w0 p \<longrightarrow> nodes w' q = nodes w q) \<and> totals_of w0 p v"
proof (induction k arbitrary: p w)
  case 0
  then show ?case using live_less [OF ok] by fastforce
next
  case (Suc k)
  obtain n where n: "nodes w0 p = Some n" using Suc.prems(1) by auto
  then have wn: "nodes w p = Some n" using Suc.prems(4) by simp
  let ?B = "\<lambda>cs. \<Union>c \<in> snd ` set cs. below w0 c"
  let ?step = "\<lambda>(h :: int, c) (w1, red). rbind (calculateForAllContext k c w1)
    (\<lambda>(w2, ret). Inr (w2, metric_add red ret))"
  have run: "\<exists>v' red'. rfold ?step cs (v, red) = Inr (v', red') \<and> like w0 v' \<and>
      (\<forall>q. q \<notin> ?B cs \<longrightarrow> nodes v' q = nodes v q) \<and>
      mv_i red' = to_i64 (x + (\<Sum>c \<leftarrow> map snd cs. subtree_total w0 REDBYTES c)) \<and>
      mv_r red' = to_i64 (y + (\<Sum>c \<leftarrow> map snd cs. subtree_total w0 USEDBYTES c))"
    if "set cs \<subseteq> set (cn_children n)" and "distinct (map snd cs)" and "like w0 v"
      and "\<forall>q \<in> ?B cs. nodes v q = nodes w0 q" and "mv_i red = to_i64 x" and "mv_r red = to_i64 y"
    for cs v red x y
    using that
  proof (induction cs arbitrary: v red x y)
    case Nil
    then show ?case by simp
  next
    case (Cons z zs)
    obtain h c where z: "z = (h, c)" by (cases z)
    have c: "(h, c) \<in> set (cn_children n)" using Cons.prems(1) z by simp
    have lt: "p < c" "nodes w0 c \<noteq> None"
      using node_children_ok [OF ok n c] by (auto simp: child_ok_def split: option.splits)
    have fuel: "next_ctx w0 - c \<le> k" using lt(1) Suc.prems(2) by linarith
    obtain v1 r where 1: "calculateForAllContext k c v = Inr (v1, r)" "like w0 v1"
        "\<forall>q. q \<notin> below w0 c \<longrightarrow> nodes v1 q = nodes v q" "totals_of w0 c r"
      using Suc.IH [OF lt(2) fuel Cons.prems(3)] Cons.prems(4) by (auto simp: z)
    have agree: "\<forall>q \<in> ?B zs. nodes v1 q = nodes w0 q"
    proof
      fix q
      assume q: "q \<in> ?B zs"
      then obtain d where d: "d \<in> snd ` set zs" "q \<in> below w0 d" by auto
      have "c \<noteq> d" using Cons.prems(2) d(1) z by auto
      moreover have "c \<in> snd ` set (cn_children n)" "d \<in> snd ` set (cn_children n)"
        using c d(1) Cons.prems(1) by force+
      ultimately have "q \<notin> below w0 c" using below_disjoint [OF ok n] d(2) by blast
      then show "nodes v1 q = nodes w0 q" using 1(3) Cons.prems(4) q by auto
    qed
    have m: "mv_i (metric_add red r) = to_i64 (x + subtree_total w0 REDBYTES c)"
      "mv_r (metric_add red r) = to_i64 (y + subtree_total w0 USEDBYTES c)"
      using 1(4) Cons.prems(5,6) by (simp_all add: metric_add_def totals_of_def)
    obtain v' red' where 2: "rfold ?step zs (v1, metric_add red r) = Inr (v', red')" "like w0 v'"
      "\<forall>q. q \<notin> ?B zs \<longrightarrow> nodes v' q = nodes v1 q"
      "mv_i red' = to_i64 (x + subtree_total w0 REDBYTES c
          + (\<Sum>c \<leftarrow> map snd zs. subtree_total w0 REDBYTES c))"
      "mv_r red' = to_i64 (y + subtree_total w0 USEDBYTES c
          + (\<Sum>c \<leftarrow> map snd zs. subtree_total w0 USEDBYTES c))"
      using Cons.IH [OF _ _ 1(2) agree m] Cons.prems(1,2) by auto
    show ?case
      using 1(1,3) 2 by (intro exI [of _ v'] exI [of _ red']) (simp add: z add.assoc)
  qed
  have B: "below w0 p = insert p (?B (cn_children n))" by (rule below_unfold [OF ok n])
  have same: "same_as_parent w n = Inr (pruned w0 n)"
    by (rule same_as_parent_like [OF ok Suc.prems(3) n]) (simp add: same_shape_def)
  show ?case
  proof (cases "pruned w0 n")
    case True
    then show ?thesis using wn same Suc.prems(3) subtree_total_unfold [OF ok n]
      by (simp add: getn_def totals_of_def metric_zero_def)
  next
    case False
    obtain w1 red where 1: "rfold ?step (cn_children n) (w, metric_zero) = Inr (w1, red)"
      "like w0 w1" "\<forall>q. q \<notin> ?B (cn_children n) \<longrightarrow> nodes w1 q = nodes w q"
      "mv_i red = to_i64 (0 + (\<Sum>c \<leftarrow> map snd (cn_children n). subtree_total w0 REDBYTES c))"
      "mv_r red = to_i64 (0 + (\<Sum>c \<leftarrow> map snd (cn_children n). subtree_total w0 USEDBYTES c))"
      using run [OF subset_refl distinct_children [OF ok n] Suc.prems(3), of metric_zero 0 0]
        Suc.prems(4) by (auto simp: B metric_zero_def)
    have p: "p \<notin> ?B (cn_children n)" using below_child_greater [OF ok n] by blast
    then have w1n: "nodes w1 p = Some n" using 1(3) wn by simp
    obtain n' where 2: "add_totals p red w1 = Inr (setn p n' w1,
        \<lparr>mv_r = to_i64 (metric_i n USEDBYTES + mv_r red),
         mv_i = to_i64 (metric_i n REDBYTES + mv_i red)\<rparr>)" "same_shape n n'"
      using add_totals_ok [OF w1n] by blast
    have "like w0 (setn p n' w1)" by (rule like_setn [OF 1(2) n 2(2)])
    moreover have "\<forall>q. q \<notin> below w0 p \<longrightarrow> nodes (setn p n' w1) q = nodes w q"
      using 1(3) by (simp add: B)
    ultimately show ?thesis
      using wn same False 1 2(1) subtree_total_unfold [OF ok n]
      by (simp add: getn_def totals_of_def)
  qed
qed

text \<open>C26: With fuel \<open>next_ctx\<close> the sum over the tree returns, keeps every frame and link of the
  tree, and its result is, modulo \<open>2^64\<close>, the sum of \<open>REDBYTES\<close> (and of \<open>USEDBYTES\<close>) over the
  nodes below \<open>p\<close> that are not in the subtree of a call to the caller's own address.\<close>

theorem calculate_is_subtree_sum:
  assumes "tree_ok w" and "nodes w p \<noteq> None"
  shows "\<exists>w' v. calculateForAllContext (next_ctx w) p w = Inr (w', v) \<and> like w w' \<and>
    mv_i v = to_i64 (subtree_total w REDBYTES p) \<and> mv_r v = to_i64 (subtree_total w USEDBYTES p)"
  using calculate_ok [OF assms, of "next_ctx w" w] like_refl [of w] by (auto simp: totals_of_def)

definition summed_sample :: wlogic where
  "summed_sample = one_sample\<lparr>nodes := (nodes one_sample)
     (1 := Some (new_Context (demo_frame 4096 7) (Some 0)\<lparr>cn_metrics :=
        (\<lambda>_. metric_zero)(REDBYTES := \<lparr>mv_r = 0, mv_i = 24\<rparr>, USEDBYTES := \<lparr>mv_r = 0, mv_i = 8\<rparr>)\<rparr>))\<rparr>"

lemma summed_sample_ok: "tree_ok summed_sample"
  by (auto simp: tree_ok_def summed_sample_def one_sample_def wl_init_def node_ok_def
      child_ok_def demo_frame_def metric_i_def metric_zero_def new_Context_def split: if_splits)

theorem calculate_is_subtree_sum_witness:
  "\<exists>w' v. calculateForAllContext 2 0 summed_sample = Inr (w', v) \<and> mv_i v = 24 \<and> mv_r v = 8"
proof -
  have n: "nodes summed_sample 0 = Some (new_Context root_frame None\<lparr>cn_children := [(7, 1)]\<rparr>)"
    and c: "nodes summed_sample 1 = Some (new_Context (demo_frame 4096 7) (Some 0)\<lparr>cn_metrics :=
        (\<lambda>_. metric_zero)(REDBYTES := \<lparr>mv_r = 0, mv_i = 24\<rparr>, USEDBYTES := \<lparr>mv_r = 0, mv_i = 8\<rparr>)\<rparr>)"
    by (simp_all add: summed_sample_def one_sample_def)
  have "subtree_total summed_sample REDBYTES 0 = 24" "subtree_total summed_sample USEDBYTES 0 = 8"
    using subtree_total_unfold [OF summed_sample_ok n] subtree_total_unfold [OF summed_sample_ok c]
    by (simp_all add: pruned_def n metric_i_def new_Context_def metric_zero_def demo_frame_def
        root_frame_def)
  moreover have "next_ctx summed_sample = 2" by (simp add: summed_sample_def one_sample_def)
  ultimately show ?thesis
    using calculate_is_subtree_sum [OF summed_sample_ok, of 0] n by auto
qed

section \<open>Printing a call path\<close>

fun line_key :: "out_line \<Rightarrow> int \<times> int" where
  "line_key (SampledLine i f) = frame_key f"
| "line_key _ = (0, 0)"

lemma print_sampled_path:
  assumes ok: "tree_ok w" and root: "nodes w 0 \<noteq> None"
  shows "walk w 0 ks = Some p \<Longrightarrow> length ks + 2 \<le> k \<Longrightarrow> 0 < i \<Longrightarrow>
    \<exists>ls. printSampledContext k cfg w (Some p) i = Inr ls \<and>
      map line_key ls = rev (node_key w 0 # ks)"
proof (induction ks arbitrary: p k i rule: rev_induct)
  case Nil
  then obtain k' where k: "k = Suc (Suc k')"
    by (metis add_2_eq_Suc' le_Suc_ex list.size(3) plus_nat.add_0 add_Suc)
  obtain n where n: "nodes w 0 = Some n" using root by auto
  then have "cn_parent n = None" using ok unfolding tree_ok_def node_ok_def by blast
  with Nil n show ?case by (simp add: k getn_def seen_def node_key_def)
next
  case (snoc x xs)
  obtain m r where 1: "walk w 0 xs = Some r" "nodes w p = Some m" "cn_parent m = Some r"
      "node_key w p = x"
    using walk_snocD [OF ok snoc.prems(1)] by metis
  obtain k' where k: "k = Suc k'" "length xs + 2 \<le> k'"
    using snoc.prems(2) by (cases k) auto
  from snoc.IH [OF 1(1) k(2), of "i + 1"] snoc.prems(3) 1 show ?case
    by (auto simp: k(1) getn_def seen_def node_key_def)
qed

text \<open>For a sampled leaf that is not on the list of addresses not reported,
  \<open>printSampledContext\<close> prints one line per frame of the call path, from the leaf up, and last
  the root's.\<close>

theorem printSampledContext_prints_path:
  assumes "tree_ok w" and "walk w 0 ks = Some p" and "nodes w p = Some n" and "\<not> seen cfg 0 n"
    and "ks \<noteq> []"
  shows "\<exists>ls. printSampledContext (length ks + 2) cfg w (Some p) 0 = Inr ls \<and>
    map line_key ls = rev (node_key w 0 # ks)"
proof -
  obtain xs x where ks: "ks = xs @ [x]" using assms(5) by (cases ks rule: rev_cases) auto
  obtain m r where 1: "walk w 0 xs = Some r" "nodes w p = Some m" "cn_parent m = Some r"
      "node_key w p = x"
    using walk_snocD [OF assms(1)] assms(2) unfolding ks by metis
  have root: "nodes w 0 \<noteq> None" using assms(1) by (simp add: tree_ok_def)
  from print_sampled_path [OF assms(1) root 1(1), of "length xs + 2" 1 cfg] obtain ls where
    "printSampledContext (length xs + 2) cfg w (Some r) 1 = Inr ls"
    "map line_key ls = rev (node_key w 0 # xs)" by auto
  then show ?thesis using 1 assms(3,4) by (simp add: ks getn_def node_key_def)
qed

theorem printSampledContext_prints_path_witness:
  "\<exists>ls. printSampledContext 3 \<lparr>AVOID_SEEN = True, SHOW_SAME_ADDRESS = True\<rparr> one_sample (Some 1) 0
      = Inr ls \<and> map line_key ls = [(4096, 7), (0, 0)]"
proof -
  have ok: "tree_ok one_sample" using one_sample_ok by (simp add: wl_ok_def)
  have w: "walk one_sample 0 [(4096, 7)] = Some 1"
    by (simp add: one_sample_def node_key_def frame_key_def demo_frame_def)
  have n: "nodes one_sample 1 = Some (new_Context (demo_frame 4096 7) (Some 0))"
    by (simp add: one_sample_def)
  have s: "\<not> seen \<lparr>AVOID_SEEN = True, SHOW_SAME_ADDRESS = True\<rparr> 0
      (new_Context (demo_frame 4096 7) (Some 0))"
    by (simp add: seen_def inAlreadySeenList_def SeenList_def demo_frame_def)
  from printSampledContext_prints_path [OF ok w n s]
  show ?thesis by (simp add: one_sample_def node_key_def frame_key_def root_frame_def numeral_3_eq_3)
qed

end
