(* ===== verification/Spies.thy ===== *)
theory Spies
  imports Context_Sums
begin

text \<open>
  The five inefficiency detectors of \<^verbatim>\<open>src/tools/witchTool/witchLogic\<close>: \<open>DeadStore\<close>,
  \<open>FalseSharing\<close>, \<open>RedSpy\<close>, \<open>LoadSpy\<close> and \<open>DupSpy\<close>. A detector is its context tree with its byte
  totals (process-wide, and those of the calling thread); its callback compares the sampled access
  with the access that hit the watchpoint. Build macros are the fields of \<open>spy_cfg\<close>.
\<close>

section \<open>What the callbacks share\<close>

datatype WP_TriggerAction = WP_DISABLE | WP_ALREADY_DISABLED | WP_DISABLE_ALL | WP_RETAIN

text \<open>The members of \<open>WP_TriggerInfo_t\<close> the callbacks use; the caller does not read it afterwards.\<close>

record WP_TriggerInfo =
  wpt_va :: u64
  wpt_watchLen :: int

record spy_cfg =
  INST :: bool
  CONSIDER_APPROXRED :: bool
  SHOW_USED_CONTEXT :: bool
  DUPSPY_LOAD :: bool
  DUPSPY_OVERLAP :: bool

definition trigger_va :: "Event \<Rightarrow> Event \<Rightarrow> WP_TriggerInfo \<Rightarrow> u64" where
  "trigger_va cur sam wpt =
     (if ADDRESSES_OVERLAP (data_addr cur) (accessLength cur) (data_addr sam) (wpt_watchLen wpt)
      then data_addr cur else wpt_va wpt)"

definition overlapBytes :: "Event \<Rightarrow> Event \<Rightarrow> WP_TriggerInfo \<Rightarrow> int" where
  "overlapBytes cur sam wpt =
     to_i32 (GET_OVERLAP_BYTES (data_addr sam) (wpt_watchLen wpt) (trigger_va cur sam wpt)
               (accessLength cur))"

definition firstOffset :: "Event \<Rightarrow> Event \<Rightarrow> int" where
  "firstOffset cur sam =
     to_i32 (FIRST_OVERLAPPED_BYTE_OFFSET_IN_FIRST (data_addr cur) (data_addr sam))"

definition secondOffset :: "Event \<Rightarrow> Event \<Rightarrow> int" where
  "secondOffset cur sam =
     to_i32 (FIRST_OVERLAPPED_BYTE_OFFSET_IN_SECOND (data_addr cur) (data_addr sam))"

definition bad_offsets :: "int \<Rightarrow> int \<Rightarrow> bool" where
  "bad_offsets first second \<longleftrightarrow> second < -16 \<or> second > 16 \<or> first > 16 \<or> first < -16"

text \<open>\<open>numDiffSamples * sampleEvent->accessLength\<close>, with the period the callbacks hard-code.\<close>

definition sample_inc :: "nat \<Rightarrow> Event \<Rightarrow> Event \<Rightarrow> wlogic \<Rightarrow> (wlogic \<times> int) res" where
  "sample_inc leaf cur sam w =
     rbind (GetNumDiffSamplesAndReset leaf 1 100003 (to_u64 (event_time cur - event_time sam)) w)
       (\<lambda>(w1, d). Inr (w1, to_i64 (trunc_i64 d * accessLength sam)))"

definition value_bytes :: "nat \<Rightarrow> Event \<Rightarrow> int \<Rightarrow> int res" where
  "value_bytes n e i = (case valueAtEvent e of None \<Rightarrow> Inl NullDeref | Some b \<Rightarrow> rd_le n b i)"

definition on_node :: "nat \<Rightarrow> (cnode \<Rightarrow> cnode) \<Rightarrow> wlogic \<Rightarrow> wlogic res" where
  "on_node p f w = rbind (getn w p) (\<lambda>n. Inr (setn p (f n) w))"

definition dead_percent :: "cnode \<Rightarrow> cnode" where
  "dead_percent n =
     (let d = metric_i n DEADBYTES
      in set_metric_i INEFFICIENCY (percent_i64 d (to_i64 (d + metric_i n USEDBYTES))) n)"

definition red_percent :: "cnode \<Rightarrow> cnode" where
  "red_percent n =
     (let r = to_i64 (metric_i n REDBYTES + metric_i n APPROXREDBYTES)
      in set_metric_i INEFFICIENCY (percent_i64 r (to_i64 (r + metric_i n USEDBYTES))) n)"

definition release :: "Event \<Rightarrow> wlogic \<Rightarrow> wlogic" where
  "release sam w = unlock_tree (removeEventContextMapEntry sam w)"

section \<open>Dead stores and false sharing\<close>

record dead_spy =
  ds_wl :: wlogic
  totalDeadBytes :: int
  totalUsedBytes :: int
  watchedSampleCount :: int
  totalDeadBytes_perThread :: int
  totalUsedBytes_perThread :: int
  watchedSampleCount_perThread :: int

definition ds_on_wl :: "(wlogic \<Rightarrow> wlogic res) \<Rightarrow> dead_spy \<Rightarrow> dead_spy res" where
  "ds_on_wl f s = rbind (f (ds_wl s)) (\<lambda>w. Inr (s\<lparr>ds_wl := w\<rparr>))"

definition ds_finish :: "Event \<Rightarrow> dead_spy \<Rightarrow> dead_spy \<times> WP_TriggerAction" where
  "ds_finish sam s = (s\<lparr>ds_wl := release sam (ds_wl s)\<rparr>, WP_DISABLE)"

definition ds_watched :: "dead_spy \<Rightarrow> dead_spy" where
  "ds_watched s = s\<lparr>watchedSampleCount := to_u64 (watchedSampleCount s + 1),
     watchedSampleCount_perThread := to_u64 (watchedSampleCount_perThread s + 1)\<rparr>"

definition ds_used :: "nat \<Rightarrow> int \<Rightarrow> dead_spy \<Rightarrow> dead_spy res" where
  "ds_used leaf inc s =
     rbind (increment_i leaf USEDBYTES inc (ds_wl s)) (\<lambda>w.
     rbind (on_node leaf dead_percent w) (\<lambda>w.
       Inr (s\<lparr>ds_wl := w, totalUsedBytes := to_u64 (totalUsedBytes s + inc),
              totalUsedBytes_perThread := to_u64 (totalUsedBytes_perThread s + inc)\<rparr>)))"

text \<open>The dead branch ends with a message that reads eight bytes of both values.\<close>

definition ds_dead :: "nat \<Rightarrow> int \<Rightarrow> Event \<Rightarrow> Event \<Rightarrow> dead_spy \<Rightarrow> dead_spy res" where
  "ds_dead leaf inc cur sam s =
     rbind (addFramesToContextTree (eventContext_agent cur) leaf False SAMPLEDCONTEXT (ds_wl s)) (\<lambda>(w, l).
     rbind (increment_i l DEADBYTES inc w) (\<lambda>w.
     rbind (increment_i leaf DEADBYTES inc w) (\<lambda>w.
     rbind (on_node leaf dead_percent w) (\<lambda>w.
     rbind (value_bytes 8 sam 0) (\<lambda>oldValue.
     rbind (value_bytes 8 cur 0) (\<lambda>newValue.
       Inr (s\<lparr>ds_wl := w, totalDeadBytes := to_u64 (totalDeadBytes s + inc),
              totalDeadBytes_perThread := to_u64 (totalDeadBytes_perThread s + inc)\<rparr>)))))))"

definition DeadStore_account :: "nat \<Rightarrow> int \<Rightarrow> Event \<Rightarrow> Event \<Rightarrow> dead_spy \<Rightarrow> dead_spy res" where
  "DeadStore_account leaf inc cur sam s =
     (if accessType cur = LOAD \<or> accessType cur = LOAD_AND_STORE then ds_used leaf inc s
      else if accessType cur = STORE then ds_dead leaf inc cur sam s
      else Inr s)"

definition FalseSharing_account :: "nat \<Rightarrow> int \<Rightarrow> Event \<Rightarrow> Event \<Rightarrow> dead_spy \<Rightarrow> dead_spy res" where
  "FalseSharing_account leaf inc cur sam s =
     (if cpu cur = cpu sam then ds_used leaf inc s else ds_dead leaf inc cur sam s)"

definition DeadStore_OnWP ::
  "spy_cfg \<Rightarrow> Event \<Rightarrow> Event \<Rightarrow> WP_TriggerInfo \<Rightarrow> dead_spy \<Rightarrow> (dead_spy \<times> WP_TriggerAction) res" where
  "DeadStore_OnWP cfg cur sam wpt s =
     rbind (ds_on_wl lock_tree s) (\<lambda>s.
       if accessType cur = UNKNOWN then Inr (ds_finish sam s)
       else if INST cfg \<and> fixedIP sam \<noteq> fixedIP cur
       then Inr (s\<lparr>ds_wl := unlock_tree (ds_wl s)\<rparr>, WP_DISABLE)
       else (case eventToContextLeafMap (ds_wl s) (eventId sam) of
         None \<Rightarrow> Inr (ds_finish sam s)
       | Some leaf \<Rightarrow>
           rbind (sample_inc leaf cur sam (ds_wl s)) (\<lambda>(w, inc).
             if overlapBytes cur sam wpt \<le> 0 then Inr (ds_finish sam (s\<lparr>ds_wl := w\<rparr>))
             else rbind (DeadStore_account leaf inc cur sam (s\<lparr>ds_wl := w\<rparr>)) (\<lambda>s.
               Inr (ds_finish sam (ds_watched s))))))"

definition FalseSharing_OnWP ::
  "Event \<Rightarrow> Event \<Rightarrow> WP_TriggerInfo \<Rightarrow> dead_spy \<Rightarrow> (dead_spy \<times> WP_TriggerAction) res" where
  "FalseSharing_OnWP cur sam wpt s =
     rbind (ds_on_wl lock_tree s) (\<lambda>s.
       if accessType cur = UNKNOWN then Inr (ds_finish sam s)
       else (case eventToContextLeafMap (ds_wl s) (eventId sam) of
         None \<Rightarrow> Inr (ds_finish sam s)
       | Some leaf \<Rightarrow>
           rbind (sample_inc leaf cur sam (ds_wl s)) (\<lambda>(w, inc).
             if overlapBytes cur sam wpt \<le> 0 then Inr (ds_finish sam (s\<lparr>ds_wl := w\<rparr>))
             else rbind (FalseSharing_account leaf inc cur sam (s\<lparr>ds_wl := w\<rparr>)) (\<lambda>s.
               Inr (ds_finish sam (ds_watched s))))))"

definition DeadStore_reset :: "dead_spy \<Rightarrow> dead_spy" where
  "DeadStore_reset s = s\<lparr>totalDeadBytes := 0, totalUsedBytes := 0, watchedSampleCount := 0\<rparr>"

section \<open>Redundant stores, redundant loads and duplicates\<close>

text \<open>The three classes have the same members (\<open>DupSpy\<close> calls its red bytes duplicates).\<close>

record red_spy =
  rs_wl :: wlogic
  totalRedBytes :: int
  totalApproxRedBytes :: int
  rs_totalUsedBytes :: int
  rs_watchedSampleCount :: int
  totalRedBytes_perThread :: int
  totalApproxRedBytes_perThread :: int
  rs_totalUsedBytes_perThread :: int
  rs_watchedSampleCount_perThread :: int

definition rs_on_wl :: "(wlogic \<Rightarrow> wlogic res) \<Rightarrow> red_spy \<Rightarrow> red_spy res" where
  "rs_on_wl f s = rbind (f (rs_wl s)) (\<lambda>w. Inr (s\<lparr>rs_wl := w\<rparr>))"

definition rs_finish :: "Event \<Rightarrow> red_spy \<Rightarrow> red_spy \<times> WP_TriggerAction" where
  "rs_finish sam s = (s\<lparr>rs_wl := release sam (rs_wl s)\<rparr>, WP_DISABLE)"

definition rs_watched :: "red_spy \<Rightarrow> red_spy" where
  "rs_watched s = s\<lparr>rs_watchedSampleCount := to_u64 (rs_watchedSampleCount s + 1),
     rs_watchedSampleCount_perThread := to_u64 (rs_watchedSampleCount_perThread s + 1)\<rparr>"

text \<open>
  Whether the \<open>switch\<close> on the float type stays in the float branch or jumps to \<open>TreatLikeInteger\<close>.
\<close>

definition float_size :: "FloatType \<Rightarrow> nat" where
  "float_size t = (if t = ELEM_TYPE_SINGLE then 4 else if t = ELEM_TYPE_DOUBLE then 8 else 0)"

definition treat_as_float :: "Event \<Rightarrow> Event \<Rightarrow> int \<Rightarrow> int \<Rightarrow> int \<Rightarrow> bool" where
  "treat_as_float cur sam first second overlap =
     (case floatType cur of
        ELEM_TYPE_SINGLE \<Rightarrow> 4 \<le> overlap \<and>
          IS_4_BYTE_ALIGNED (data_addr sam + word_of_int second) \<and>
          IS_4_BYTE_ALIGNED (data_addr cur + word_of_int first)
      | ELEM_TYPE_DOUBLE \<Rightarrow> 8 \<le> overlap \<and>
          IS_8_BYTE_ALIGNED (data_addr sam + word_of_int second) \<and>
          IS_8_BYTE_ALIGNED (data_addr cur + word_of_int first)
      | _ \<Rightarrow> False)"

definition float_redBytes :: "bool \<Rightarrow> Event \<Rightarrow> Event \<Rightarrow> int \<Rightarrow> int \<Rightarrow> int res" where
  "float_redBytes approx cur sam first second =
     (let n = float_size (floatType cur); F = (if n = 4 then binary32 else binary64)
      in rbind (value_bytes n sam second) (\<lambda>old.
         rbind (value_bytes n cur first) (\<lambda>new.
           let oldValue = fp_decode F old; newValue = fp_decode F new;
               rate = fp_div F (fp_sub F oldValue newValue) oldValue
           in Inr (if fp_ne oldValue newValue
                   then (if approx \<and> \<not> fp_outside APPROX_RATE rate then int n else 0)
                   else int n))))"

text \<open>The byte loop of \<open>TreatLikeInteger\<close>; \<open>redBytes\<close> is a \<open>uint8_t\<close>.\<close>

fun int_redBytes :: "nat \<Rightarrow> Event \<Rightarrow> Event \<Rightarrow> int \<Rightarrow> int \<Rightarrow> int \<Rightarrow> int res" where
  "int_redBytes 0 cur sam i k red = Inr red"
| "int_redBytes (Suc n) cur sam i k red =
     rbind (value_bytes 1 cur i) (\<lambda>a.
     rbind (value_bytes 1 sam k) (\<lambda>b.
       if a = b then int_redBytes n cur sam (i + 1) (k + 1) ((red + 1) mod 256) else Inr 0))"

text \<open>The two ways a hit is booked; \<open>upd\<close> is what the branch does to the inefficiency metric.\<close>

definition rs_red :: "MetricType \<Rightarrow> ContextType \<Rightarrow> nat \<Rightarrow> int \<Rightarrow> Event \<Rightarrow> red_spy \<Rightarrow> red_spy res" where
  "rs_red m ctype leaf inc cur s =
     rbind (addFramesToContextTree (eventContext_agent cur) leaf False ctype (rs_wl s)) (\<lambda>(w, l).
     rbind (increment_i l m inc w) (\<lambda>w.
     rbind (increment_i leaf m inc w) (\<lambda>w.
     rbind (on_node leaf red_percent w) (\<lambda>w.
       Inr (if m = REDBYTES
            then s\<lparr>rs_wl := w, totalRedBytes := to_u64 (totalRedBytes s + inc),
                   totalRedBytes_perThread := to_u64 (totalRedBytes_perThread s + inc)\<rparr>
            else s\<lparr>rs_wl := w, totalApproxRedBytes := to_u64 (totalApproxRedBytes s + inc),
                   totalApproxRedBytes_perThread := to_u64 (totalApproxRedBytes_perThread s + inc)\<rparr>)))))"

definition rs_used :: "bool \<Rightarrow> bool \<Rightarrow> nat \<Rightarrow> int \<Rightarrow> Event \<Rightarrow> red_spy \<Rightarrow> red_spy res" where
  "rs_used update_ineff show leaf inc cur s =
     rbind (increment_i leaf USEDBYTES inc (rs_wl s)) (\<lambda>w.
     rbind (if update_ineff then on_node leaf red_percent w else Inr w) (\<lambda>w.
     rbind (if show then addFramesToContextTree (eventContext_agent cur) leaf False USEDCONTEXT w
            else Inr (w, leaf)) (\<lambda>(w, _).
       Inr (s\<lparr>rs_wl := w, rs_totalUsedBytes := to_u64 (rs_totalUsedBytes s + inc),
              rs_totalUsedBytes_perThread := to_u64 (rs_totalUsedBytes_perThread s + inc)\<rparr>))))"

text \<open>From the comparison to the totals, for each class.\<close>

definition RedSpy_account ::
  "spy_cfg \<Rightarrow> nat \<Rightarrow> int \<Rightarrow> Event \<Rightarrow> Event \<Rightarrow> WP_TriggerInfo \<Rightarrow> red_spy \<Rightarrow> red_spy res" where
  "RedSpy_account cfg leaf inc cur sam wpt s =
     (let first = firstOffset cur sam; second = secondOffset cur sam;
          overlap = overlapBytes cur sam wpt
      in if treat_as_float cur sam first second overlap
         then rbind (float_redBytes (CONSIDER_APPROXRED cfg) cur sam first second) (\<lambda>redBytes.
           if redBytes \<noteq> 0 then rs_red APPROXREDBYTES REDCONTEXT leaf inc cur s
           else rs_used False (SHOW_USED_CONTEXT cfg) leaf inc cur s)
         else rbind (int_redBytes (nat overlap) cur sam first second 0) (\<lambda>redBytes.
           if redBytes \<noteq> 0 then rs_red REDBYTES REDCONTEXT leaf inc cur s
           else rs_used True (SHOW_USED_CONTEXT cfg) leaf inc cur s))"

definition LoadSpy_account ::
  "nat \<Rightarrow> int \<Rightarrow> Event \<Rightarrow> Event \<Rightarrow> WP_TriggerInfo \<Rightarrow> red_spy \<Rightarrow> red_spy res" where
  "LoadSpy_account leaf inc cur sam wpt s =
     (let first = firstOffset cur sam; second = secondOffset cur sam;
          overlap = overlapBytes cur sam wpt
      in if treat_as_float cur sam first second overlap
         then rbind (float_redBytes True cur sam first second) (\<lambda>redBytes.
           if redBytes \<noteq> 0 then rs_red APPROXREDBYTES SAMPLEDCONTEXT leaf inc cur s
           else rs_used True False leaf inc cur s)
         else rbind (int_redBytes (nat overlap) cur sam first second 0) (\<lambda>redBytes.
           if redBytes \<noteq> 0 then rs_red REDBYTES SAMPLEDCONTEXT leaf inc cur s
           else rs_used True False leaf inc cur s))"

definition DupSpy_account ::
  "spy_cfg \<Rightarrow> nat \<Rightarrow> int \<Rightarrow> Event \<Rightarrow> Event \<Rightarrow> WP_TriggerInfo \<Rightarrow> int \<Rightarrow> int \<Rightarrow> red_spy \<Rightarrow> red_spy res" where
  "DupSpy_account cfg leaf inc cur sam wpt first second s =
     (let overlap = overlapBytes cur sam wpt
      in if treat_as_float cur sam first second overlap
         then rbind (float_redBytes (CONSIDER_APPROXRED cfg) cur sam first second) (\<lambda>redBytes.
           if redBytes \<noteq> 0 then rs_red APPROXREDBYTES REDCONTEXT leaf inc cur s
           else rs_used False (SHOW_USED_CONTEXT cfg) leaf inc cur s)
         else rbind (int_redBytes 4 cur sam first second 0) (\<lambda>redBytes.
           if redBytes \<noteq> 0 then rs_red REDBYTES REDCONTEXT leaf inc cur s
           else rs_used True (SHOW_USED_CONTEXT cfg) leaf inc cur s))"

definition RedSpy_OnWP ::
  "spy_cfg \<Rightarrow> Event \<Rightarrow> Event \<Rightarrow> WP_TriggerInfo \<Rightarrow> red_spy \<Rightarrow> (red_spy \<times> WP_TriggerAction) res" where
  "RedSpy_OnWP cfg cur sam wpt s =
     rbind (rs_on_wl lock_tree s) (\<lambda>s.
       if accessType cur \<noteq> STORE \<and> accessType cur \<noteq> LOAD_AND_STORE
       then Inr (s\<lparr>rs_wl := unlock_tree (rs_wl s)\<rparr>, WP_RETAIN)
       else if INST cfg \<and> fixedIP sam \<noteq> fixedIP cur
       then Inr (s\<lparr>rs_wl := unlock_tree (rs_wl s)\<rparr>, WP_DISABLE)
       else (case eventToContextLeafMap (rs_wl s) (eventId sam) of
         None \<Rightarrow> Inr (rs_finish sam s)
       | Some leaf \<Rightarrow>
           if overlapBytes cur sam wpt \<le> 0 then Inr (rs_finish sam s)
           else if bad_offsets (firstOffset cur sam) (secondOffset cur sam) then Inr (rs_finish sam s)
           else rbind (sample_inc leaf cur sam (rs_wl s)) (\<lambda>(w, inc).
             if inc = 0 then Inr (rs_finish sam (s\<lparr>rs_wl := w\<rparr>))
             else rbind (RedSpy_account cfg leaf inc cur sam wpt (s\<lparr>rs_wl := w\<rparr>)) (\<lambda>s.
               Inr (rs_finish sam (rs_watched s))))))"

definition LoadSpy_OnWP ::
  "spy_cfg \<Rightarrow> Event \<Rightarrow> Event \<Rightarrow> WP_TriggerInfo \<Rightarrow> red_spy \<Rightarrow> (red_spy \<times> WP_TriggerAction) res" where
  "LoadSpy_OnWP cfg cur sam wpt s =
     rbind (rs_on_wl lock_tree s) (\<lambda>s.
       if accessType cur \<noteq> LOAD \<and> accessType cur \<noteq> LOAD_AND_STORE
       then Inr (s\<lparr>rs_wl := unlock_tree (rs_wl s)\<rparr>, WP_RETAIN)
       else if INST cfg \<and> fixedIP sam \<noteq> fixedIP cur
       then Inr (s\<lparr>rs_wl := unlock_tree (rs_wl s)\<rparr>, WP_DISABLE)
       else (case eventToContextLeafMap (rs_wl s) (eventId sam) of
         None \<Rightarrow> Inr (rs_finish sam s)
       | Some leaf \<Rightarrow>
           if overlapBytes cur sam wpt \<le> 0 then Inr (rs_finish sam s)
           else if bad_offsets (firstOffset cur sam) (secondOffset cur sam) then Inr (rs_finish sam s)
           else rbind (sample_inc leaf cur sam (rs_wl s)) (\<lambda>(w, inc).
             if inc = 0 then Inr (rs_finish sam (s\<lparr>rs_wl := w\<rparr>))
             else rbind (LoadSpy_account leaf inc cur sam wpt (s\<lparr>rs_wl := w\<rparr>)) (\<lambda>s.
               Inr (rs_finish sam (rs_watched s))))))"

text \<open>
  \<open>DupSpy\<close> is built for loads or stores, and for overlapping or for distinct addresses: without
  \<^verbatim>\<open>WITCHTOOL_DUPSPY_OVERLAP\<close> an overlap of zero or more bytes drops the hit and both offsets are 0.
\<close>

definition DupSpy_OnWP ::
  "spy_cfg \<Rightarrow> Event \<Rightarrow> Event \<Rightarrow> WP_TriggerInfo \<Rightarrow> red_spy \<Rightarrow> (red_spy \<times> WP_TriggerAction) res" where
  "DupSpy_OnWP cfg cur sam wpt s =
     rbind (rs_on_wl lock_tree s) (\<lambda>s.
       if (if DUPSPY_LOAD cfg then accessType cur \<noteq> LOAD \<and> accessType cur \<noteq> LOAD_AND_STORE
           else accessType cur \<noteq> STORE \<and> accessType cur \<noteq> LOAD_AND_STORE)
       then Inr (s\<lparr>rs_wl := unlock_tree (rs_wl s)\<rparr>, WP_RETAIN)
       else (case eventToContextLeafMap (rs_wl s) (eventId sam) of
         None \<Rightarrow> Inr (rs_finish sam s)
       | Some leaf \<Rightarrow>
           let first = (if DUPSPY_OVERLAP cfg then firstOffset cur sam else 0);
               second = (if DUPSPY_OVERLAP cfg then secondOffset cur sam else 0)
           in if (if DUPSPY_OVERLAP cfg then overlapBytes cur sam wpt \<le> 0
                  else 0 \<le> overlapBytes cur sam wpt)
              then Inr (rs_finish sam s)
              else if bad_offsets first second then Inr (rs_finish sam s)
              else rbind (sample_inc leaf cur sam (rs_wl s)) (\<lambda>(w, inc).
                if inc = 0 then Inr (rs_finish sam (s\<lparr>rs_wl := w\<rparr>))
                else rbind (DupSpy_account cfg leaf inc cur sam wpt first second (s\<lparr>rs_wl := w\<rparr>)) (\<lambda>s.
                  Inr (rs_finish sam (rs_watched s))))))"

definition RedSpy_reset :: "red_spy \<Rightarrow> red_spy" where
  "RedSpy_reset s = s\<lparr>totalRedBytes := 0, totalApproxRedBytes := 0, rs_totalUsedBytes := 0,
     rs_watchedSampleCount := 0\<rparr>"

section \<open>Printing the results\<close>

text \<open>
  The table is copied to a vector and sorted ascending by one metric (\<open>std::sort\<close> leaves the
  order of equal elements open; here they keep the table's order). A leaf with no watched context
  below it is skipped.
\<close>

definition global_percent :: "int \<Rightarrow> int \<Rightarrow> fp" where
  "global_percent n tot =
     (case fp_div binary32 (Fin (f32 (of_int n))) (Fin (f32 (of_int tot))) of
        Fin x \<Rightarrow> fp_round binary32 (100 * x) | v \<Rightarrow> v)"

definition print_entry :: "print_cfg \<Rightarrow> (cnode \<Rightarrow> int) \<Rightarrow> int \<Rightarrow> wlogic \<Rightarrow> nat \<times> SampleNum \<Rightarrow>
    out_line list res" where
  "print_entry cfg part tot w e =
     rbind (getn w (fst e)) (\<lambda>n.
       if cn_children n = [] then Inr []
       else rbind (printSampledContext (next_ctx w + 2) cfg w (Some (fst e)) 0) (\<lambda>up.
            rbind (printWatchedContext (next_ctx w) cfg w (fst e) 0) (\<lambda>down.
              Inr (HeaderLine (metric_i n INEFFICIENCY) (global_percent (part n) tot)
                     (cur_num (snd e)) (avgDistance (snd e)) # up @ down))))"

definition metric_of :: "wlogic \<Rightarrow> MetricType \<Rightarrow> nat \<times> SampleNum \<Rightarrow> int" where
  "metric_of w m e = (case nodes w (fst e) of None \<Rightarrow> 0 | Some n \<Rightarrow> metric_i n m)"

definition print_table :: "print_cfg \<Rightarrow> MetricType \<Rightarrow> (cnode \<Rightarrow> int) \<Rightarrow> int \<Rightarrow> wlogic \<Rightarrow> out_line list res" where
  "print_table cfg m part tot w =
     rbind (rfold (\<lambda>e. \<lambda>_. rbind (getn w (fst e)) (\<lambda>_. Inr ())) (propAttrTable w) ()) (\<lambda>_.
     rfold (\<lambda>e ls. rbind (print_entry cfg part tot w e) (\<lambda>l. Inr (ls @ l)))
       (sort_key (metric_of w m) (propAttrTable w)) [])"

text \<open>The report on the whole tree of the \<^verbatim>\<open>_INST\<close> builds; the total is cut to \<open>unsigned int\<close>.\<close>

definition print_tree :: "int \<Rightarrow> wlogic \<Rightarrow> (wlogic \<times> out_line list) res" where
  "print_tree tot w =
     rbind (calculateForAllContext (next_ctx w) 0 w) (\<lambda>(w, _).
     rbind (printAllContext (next_ctx w) w 0 0 (tot mod 2 ^ 32)) (\<lambda>ls. Inr (w, ls)))"

definition DeadStore_printContextTree ::
  "spy_cfg \<Rightarrow> print_cfg \<Rightarrow> dead_spy \<Rightarrow> (dead_spy \<times> out_line list) res" where
  "DeadStore_printContextTree scfg cfg s =
     (let tot = to_u64 (totalDeadBytes s + totalUsedBytes s)
      in rbind (lock_tree (ds_wl s)) (\<lambda>w.
         rbind (if INST scfg then print_tree tot w
                else rbind (print_table cfg DEADBYTES (\<lambda>n. metric_i n DEADBYTES) tot w)
                       (\<lambda>ls. Inr (w, ls @ [StatusLine]))) (\<lambda>(w, ls).
         rbind (cleanContextTree (unlock_tree w)) (\<lambda>w.
           Inr (DeadStore_reset (s\<lparr>ds_wl := w\<rparr>), ls)))))"

definition FalseSharing_printContextTree ::
  "print_cfg \<Rightarrow> dead_spy \<Rightarrow> (dead_spy \<times> out_line list) res" where
  "FalseSharing_printContextTree cfg s =
     rbind (lock_tree (ds_wl s)) (\<lambda>w.
     rbind (print_table cfg DEADBYTES (\<lambda>n. metric_i n DEADBYTES)
              (to_u64 (totalDeadBytes s + totalUsedBytes s)) w) (\<lambda>ls.
       Inr (s\<lparr>ds_wl := unlock_tree w\<rparr>, ls @ [StatusLine])))"

text \<open>\<open>RedSpy\<close> and \<open>LoadSpy\<close> print alike. \<open>DupSpy\<close> always prints the tree, and neither deletes it nor
  resets its totals.\<close>

definition RedSpy_printContextTree ::
  "spy_cfg \<Rightarrow> print_cfg \<Rightarrow> red_spy \<Rightarrow> (red_spy \<times> out_line list) res" where
  "RedSpy_printContextTree scfg cfg s =
     (let tot = to_u64 (totalRedBytes s + totalApproxRedBytes s + rs_totalUsedBytes s)
      in rbind (lock_tree (rs_wl s)) (\<lambda>w.
         rbind (if INST scfg then print_tree tot w
                else rbind (print_table cfg REDBYTES
                       (\<lambda>n. to_i64 (metric_i n REDBYTES + metric_i n APPROXREDBYTES)) tot w)
                       (\<lambda>ls. Inr (w, ls @ [StatusLine]))) (\<lambda>(w, ls).
         rbind (cleanContextTree (unlock_tree w)) (\<lambda>w.
           Inr (RedSpy_reset (s\<lparr>rs_wl := w\<rparr>), ls)))))"

definition LoadSpy_printContextTree ::
  "spy_cfg \<Rightarrow> print_cfg \<Rightarrow> red_spy \<Rightarrow> (red_spy \<times> out_line list) res" where
  "LoadSpy_printContextTree scfg cfg s = RedSpy_printContextTree scfg cfg s"

definition DupSpy_printContextTree :: "red_spy \<Rightarrow> (red_spy \<times> out_line list) res" where
  "DupSpy_printContextTree s =
     rbind (lock_tree (rs_wl s)) (\<lambda>w.
     rbind (print_tree (to_u64 (totalRedBytes s + totalApproxRedBytes s + rs_totalUsedBytes s)) w)
       (\<lambda>(w, ls). Inr (s\<lparr>rs_wl := unlock_tree w\<rparr>, ls)))"

end
