(* ===== verification/Spy_Contract.thy ===== *)
theory Spy_Contract
  imports Spies
begin

text \<open>
  The contract every detector keeps towards the watchpoint handler, stated as the locale
  \<open>witch_logic\<close> and discharged by an interpretation for each of the five detectors: the tree mutex
  is free when the callback returns, the tree invariant and all existing call paths are kept, only
  the sampled event's entry is removed, the answer is \<open>WP_DISABLE\<close> or \<open>WP_RETAIN\<close>, and a hit at the
  sampled address with the buffers \<open>fixIP\<close> allocates never faults.
\<close>

section \<open>Updates that keep the tree\<close>

definition keeps :: "wlogic \<Rightarrow> wlogic \<Rightarrow> bool" where
  "keeps w w' \<longleftrightarrow> wl_ok w' \<and> eventToContextLeafMap w' = eventToContextLeafMap w \<and>
     contextTree_mtx w' = contextTree_mtx w \<and> dom (nodes w) \<subseteq> dom (nodes w') \<and>
     (\<forall>q ks r. walk w q ks = Some r \<longrightarrow> walk w' q ks = Some r)"

lemma keeps_refl: "wl_ok w \<Longrightarrow> keeps w w"
  by (simp add: keeps_def)

lemma keeps_trans: "keeps u v \<Longrightarrow> keeps v w \<Longrightarrow> keeps u w"
  unfolding keeps_def by (elim conjE, intro conjI allI impI) (simp_all add: subset_trans)

lemma keeps_ok: "keeps w w' \<Longrightarrow> wl_ok w'"
  by (simp add: keeps_def)

lemma keeps_live: "keeps w w' \<Longrightarrow> p \<in> dom (nodes w) \<Longrightarrow> p \<in> dom (nodes w')"
  unfolding keeps_def by blast

lemma keeps_setn:
  assumes "wl_ok w" and n: "nodes w p = Some n" and sh: "same_shape n n'"
    and "metric_i n' CONTEXTTYPE = metric_i n CONTEXTTYPE"
  shows "keeps w (setn p n' w)"
proof -
  have ok: "tree_ok w" and tb: "tables_ok w" using assms(1) by (simp_all add: wl_ok_def)
  have "metric_i n CONTEXTTYPE \<noteq> ctype_int UNDEFINEDCONTEXT"
    using ok n by (simp add: tree_ok_def node_ok_def)
  then have "tree_ok (setn p n' w)" using assms(4) by (intro tree_ok_setn [OF ok n sh]) simp
  then show ?thesis
    using tables_ok_setn [OF tb n] n by (simp add: keeps_def wl_ok_def walk_setn [OF n sh])
qed

lemma increment_keeps:
  assumes "wl_ok w" and "p \<in> dom (nodes w)" and "m \<noteq> CONTEXTTYPE"
  shows "\<exists>w'. increment_i p m v w = Inr w' \<and> keeps w w'"
proof -
  from assms(2) obtain n where n: "nodes w p = Some n" by auto
  with assms(3) keeps_setn [OF assms(1) n] show ?thesis
    by (simp add: increment_i_def getn_def same_shape_def metric_i_def)
qed

lemma on_node_keeps:
  assumes "wl_ok w" and "p \<in> dom (nodes w)"
    and "\<And>n. same_shape n (f n)" and "\<And>n. metric_i (f n) CONTEXTTYPE = metric_i n CONTEXTTYPE"
  shows "\<exists>w'. on_node p f w = Inr w' \<and> keeps w w'"
proof -
  from assms(2) obtain n where n: "nodes w p = Some n" by auto
  with keeps_setn [OF assms(1) n assms(3) assms(4)] show ?thesis
    by (simp add: on_node_def getn_def)
qed

lemma percent_shape [simp]:
  "same_shape n (dead_percent n)" "metric_i (dead_percent n) CONTEXTTYPE = metric_i n CONTEXTTYPE"
  "same_shape n (red_percent n)" "metric_i (red_percent n) CONTEXTTYPE = metric_i n CONTEXTTYPE"
  by (simp_all add: dead_percent_def red_percent_def same_shape_def set_metric_i_def metric_i_def
      Let_def)

lemma percent_keeps:
  assumes "wl_ok w" and "p \<in> dom (nodes w)"
  shows "\<exists>w'. on_node p dead_percent w = Inr w' \<and> keeps w w'"
    and "\<exists>w'. on_node p red_percent w = Inr w' \<and> keeps w w'"
  using on_node_keeps [OF assms, of dead_percent] on_node_keeps [OF assms, of red_percent]
  by simp_all

lemma add_frames_keeps:
  assumes "wl_ok w" and "p \<in> dom (nodes w)" and "t \<noteq> UNDEFINEDCONTEXT"
  shows "\<exists>w' l. addFramesToContextTree fs p d t w = Inr (w', l) \<and> keeps w w' \<and> l \<in> dom (nodes w')"
proof -
  have "nodes w p \<noteq> None" using assms(2) by auto
  from add_frames_ok [OF assms(1) this assms(3), of fs d] obtain w' l where
    1: "addFramesToContextTree fs p d t w = Inr (w', l)" "wl_ok w'" "nodes w' l \<noteq> None"
      "grows p w w'" "\<forall>q ks r. walk w q ks = Some r \<longrightarrow> walk w' q ks = Some r" by blast
  then have "keeps w w'" unfolding keeps_def grows_def by blast
  with 1 show ?thesis by auto
qed

lemma sample_inc_keeps:
  assumes "wl_ok w" and "p \<in> dom (nodes w) - {0}"
  shows "\<exists>w' inc. sample_inc p cur sam w = Inr (w', inc) \<and> keeps w w'"
proof (cases "map_of (propAttrTable w) p")
  case None
  with assms show ?thesis
    by (auto simp: sample_inc_def GetNumDiffSamplesAndReset_def getn_def keeps_refl
        split: option.split)
next
  case (Some s)
  let ?w = "\<lambda>s. w\<lparr>propAttrTable := AList.update p s (propAttrTable w)\<rparr>"
  have "keeps w (?w s)" for s
    using wl_ok_table [OF assms(1), of p s] assms(2) walk_cong [OF same_nodes_upd(3)]
    by (auto simp: keeps_def)
  then show ?thesis
    by (simp add: sample_inc_def GetNumDiffSamplesAndReset_def Some Let_def)
qed

text \<open>A node of the event map, before and after other updates.\<close>

definition live :: "nat \<Rightarrow> wlogic \<Rightarrow> bool" where
  "live p w \<longleftrightarrow> p \<in> dom (nodes w) - {0}"

lemma live_leaf: "wl_ok w \<Longrightarrow> eventToContextLeafMap w e = Some p \<Longrightarrow> live p w"
  by (auto simp: wl_ok_def tables_ok_def live_def ran_def)

lemma live_keeps: "keeps w w' \<Longrightarrow> live p w \<Longrightarrow> live p w'"
  using keeps_live by (auto simp: live_def)

lemma live_dom: "live p w \<Longrightarrow> p \<in> dom (nodes w)"
  by (simp add: live_def)

section \<open>Booking a hit\<close>

lemma ds_used_keeps:
  assumes ok: "wl_ok (ds_wl s)" and l: "live leaf (ds_wl s)"
  shows "\<exists>s'. ds_used leaf inc s = Inr s' \<and> keeps (ds_wl s) (ds_wl s')"
proof -
  obtain w1 where 1: "increment_i leaf USEDBYTES inc (ds_wl s) = Inr w1" "keeps (ds_wl s) w1"
    using increment_keeps [OF ok live_dom [OF l]] by blast
  obtain w2 where 2: "on_node leaf dead_percent w1 = Inr w2" "keeps w1 w2"
    using percent_keeps(1) [OF keeps_ok [OF 1(2)] live_dom [OF live_keeps [OF 1(2) l]]] by blast
  from 1 2 keeps_trans show ?thesis by (auto simp: ds_used_def)
qed

lemma rs_used_keeps:
  assumes ok: "wl_ok (rs_wl s)" and l: "live leaf (rs_wl s)"
  shows "\<exists>s'. rs_used u show leaf inc cur s = Inr s' \<and> keeps (rs_wl s) (rs_wl s')"
proof -
  obtain w1 where 1: "increment_i leaf USEDBYTES inc (rs_wl s) = Inr w1" "keeps (rs_wl s) w1"
    using increment_keeps [OF ok live_dom [OF l]] by blast
  obtain w2 where 2: "(if u then on_node leaf red_percent w1 else Inr w1) = Inr w2" "keeps w1 w2"
    using percent_keeps(2) [OF keeps_ok [OF 1(2)] live_dom [OF live_keeps [OF 1(2) l]]]
      keeps_refl [OF keeps_ok [OF 1(2)]] by (cases u) auto
  note k2 = keeps_trans [OF 1(2) 2(2)]
  obtain w3 l' where 3: "(if show then addFramesToContextTree (eventContext_agent cur) leaf False
      USEDCONTEXT w2 else Inr (w2, leaf)) = Inr (w3, l')" "keeps w2 w3"
    using add_frames_keeps [OF keeps_ok [OF k2] live_dom [OF live_keeps [OF k2 l]], of USEDCONTEXT
        "eventContext_agent cur" False]
      keeps_refl [OF keeps_ok [OF k2]] by (cases "show") auto
  show ?thesis
    using 1(1) 2(1) 3(1) keeps_trans [OF k2 3(2)] by (simp add: rs_used_def split del: if_split)
qed

text \<open>The common part of the branches that attach the watched path below the sampled leaf.\<close>

lemma attach_keeps:
  assumes ok: "wl_ok w" and l: "live leaf w" and t: "t \<noteq> UNDEFINEDCONTEXT" and m: "m \<noteq> CONTEXTTYPE"
    and f: "f = dead_percent \<or> f = red_percent"
  shows "\<exists>w1 l1 w2 w3 w4. addFramesToContextTree fs leaf False t w = Inr (w1, l1) \<and>
    increment_i l1 m inc w1 = Inr w2 \<and> increment_i leaf m inc w2 = Inr w3 \<and>
    on_node leaf f w3 = Inr w4 \<and> keeps w w4"
proof -
  obtain w1 l1 where 1: "addFramesToContextTree fs leaf False t w = Inr (w1, l1)" "keeps w w1"
      "l1 \<in> dom (nodes w1)"
    using add_frames_keeps [OF ok live_dom [OF l] t] by blast
  obtain w2 where 2: "increment_i l1 m inc w1 = Inr w2" "keeps w1 w2"
    using increment_keeps [OF keeps_ok [OF 1(2)] 1(3) m] by blast
  note k2 = keeps_trans [OF 1(2) 2(2)]
  obtain w3 where 3: "increment_i leaf m inc w2 = Inr w3" "keeps w2 w3"
    using increment_keeps [OF keeps_ok [OF k2] live_dom [OF live_keeps [OF k2 l]] m] by blast
  note k3 = keeps_trans [OF k2 3(2)]
  obtain w4 where 4: "on_node leaf f w3 = Inr w4" "keeps w3 w4"
    using percent_keeps [OF keeps_ok [OF k3] live_dom [OF live_keeps [OF k3 l]]] f by blast
  from 1(1) 2(1) 3(1) 4(1) keeps_trans [OF k3 4(2)] show ?thesis by blast
qed

lemma ds_dead_keeps:
  assumes "wl_ok (ds_wl s)" and "live leaf (ds_wl s)"
    and "value_bytes 8 sam 0 = Inr a" and "value_bytes 8 cur 0 = Inr b"
  shows "\<exists>s'. ds_dead leaf inc cur sam s = Inr s' \<and> keeps (ds_wl s) (ds_wl s')"
proof -
  from attach_keeps [OF assms(1,2), of SAMPLEDCONTEXT DEADBYTES dead_percent
      "eventContext_agent cur" inc] assms(3,4)
  show ?thesis by (auto simp: ds_dead_def)
qed

lemma rs_red_keeps:
  assumes "wl_ok (rs_wl s)" and "live leaf (rs_wl s)" and "t \<noteq> UNDEFINEDCONTEXT"
    and "m \<noteq> CONTEXTTYPE"
  shows "\<exists>s'. rs_red m t leaf inc cur s = Inr s' \<and> keeps (rs_wl s) (rs_wl s')"
  using attach_keeps [OF assms, of red_percent "eventContext_agent cur" inc]
  by (auto simp: rs_red_def)

text \<open>What a partial operation on a detector may do: fault, or keep the tree.\<close>

definition ds_keeps :: "dead_spy \<Rightarrow> dead_spy res \<Rightarrow> bool" where
  "ds_keeps s r \<longleftrightarrow> (\<forall>s'. r = Inr s' \<longrightarrow> keeps (ds_wl s) (ds_wl s'))"

definition rs_keeps :: "red_spy \<Rightarrow> red_spy res \<Rightarrow> bool" where
  "rs_keeps s r \<longleftrightarrow> (\<forall>s'. r = Inr s' \<longrightarrow> keeps (rs_wl s) (rs_wl s'))"

lemma ds_dead_partial:
  assumes "wl_ok (ds_wl s)" and "live leaf (ds_wl s)"
  shows "ds_keeps s (ds_dead leaf inc cur sam s)"
  using attach_keeps [OF assms, of SAMPLEDCONTEXT DEADBYTES dead_percent "eventContext_agent cur" inc]
  by (auto simp: ds_keeps_def ds_dead_def rbind_Inr)

lemma account_partial:
  assumes "wl_ok (ds_wl s)" and "live leaf (ds_wl s)"
  shows "ds_keeps s (DeadStore_account leaf inc cur sam s)"
    and "ds_keeps s (FalseSharing_account leaf inc cur sam s)"
proof -
  have u: "ds_keeps s (ds_used leaf inc s)"
    using ds_used_keeps [OF assms, of inc] by (auto simp: ds_keeps_def)
  have s: "ds_keeps s (Inr s)" using keeps_refl [OF assms(1)] by (simp add: ds_keeps_def)
  show "ds_keeps s (DeadStore_account leaf inc cur sam s)"
    and "ds_keeps s (FalseSharing_account leaf inc cur sam s)"
    using ds_dead_partial [OF assms] u s by (simp_all add: DeadStore_account_def FalseSharing_account_def)
qed

lemma red_account_partial:
  assumes ok: "wl_ok (rs_wl s)" and l: "live leaf (rs_wl s)"
  shows "rs_keeps s (RedSpy_account cfg leaf inc cur sam wpt s)"
    and "rs_keeps s (LoadSpy_account leaf inc cur sam wpt s)"
    and "rs_keeps s (DupSpy_account cfg leaf inc cur sam wpt first second s)"
proof -
  have r: "rs_keeps s (rs_red m t leaf inc cur s)" if "t \<noteq> UNDEFINEDCONTEXT" "m \<noteq> CONTEXTTYPE" for m t
    using rs_red_keeps [OF ok l that, of inc cur] by (auto simp: rs_keeps_def)
  have u: "rs_keeps s (rs_used b c leaf inc cur s)" for b c
    using rs_used_keeps [OF ok l, of b c inc cur] by (auto simp: rs_keeps_def)
  have b: "rs_keeps s (rbind x f)" if "\<And>v. rs_keeps s (f v)" for x :: "int res" and f
    using that by (cases x) (auto simp: rs_keeps_def)
  show "rs_keeps s (RedSpy_account cfg leaf inc cur sam wpt s)"
    unfolding RedSpy_account_def Let_def by (simp add: b r u split: if_split)
  show "rs_keeps s (LoadSpy_account leaf inc cur sam wpt s)"
    unfolding LoadSpy_account_def Let_def by (simp add: b r u split: if_split)
  show "rs_keeps s (DupSpy_account cfg leaf inc cur sam wpt first second s)"
    unfolding DupSpy_account_def Let_def by (simp add: b r u split: if_split)
qed

section \<open>The contract\<close>

definition after_hit :: "Event \<Rightarrow> wlogic \<Rightarrow> wlogic \<Rightarrow> WP_TriggerAction \<Rightarrow> bool" where
  "after_hit sam w w' a \<longleftrightarrow> wl_ok w' \<and> \<not> contextTree_mtx w' \<and>
     (\<forall>e. e \<noteq> eventId sam \<longrightarrow> eventToContextLeafMap w' e = eventToContextLeafMap w e) \<and>
     eventToContextLeafMap w' (eventId sam) \<in> {None, eventToContextLeafMap w (eventId sam)} \<and>
     (\<forall>q ks r. walk w q ks = Some r \<longrightarrow> walk w' q ks = Some r) \<and>
     a \<in> {WP_DISABLE, WP_RETAIN} \<and> (a = WP_RETAIN \<longrightarrow> w' = w)"

lemma after_release:
  assumes k: "keeps (w\<lparr>contextTree_mtx := True\<rparr>) w1"
  shows "after_hit sam w (release sam w1) WP_DISABLE"
proof -
  have "wl_ok (release sam w1)"
    using wl_ok_remove [OF keeps_ok [OF k]] by (simp add: release_def)
  moreover have "walk (release sam w1) q ks = Some r" if "walk w q ks = Some r" for q ks r
  proof -
    have "walk (w\<lparr>contextTree_mtx := True\<rparr>) q ks = Some r"
      using that walk_cong [OF same_nodes_upd(1)] by simp
    then have "walk w1 q ks = Some r" using k unfolding keeps_def by blast
    moreover have "same_nodes w1 (release sam w1)"
      unfolding release_def by (rule same_nodes_trans [OF same_nodes_upd(5) same_nodes_upd(4)])
    ultimately show ?thesis using walk_cong by simp
  qed
  moreover have "eventToContextLeafMap w1 = eventToContextLeafMap w"
    using k by (simp add: keeps_def)
  ultimately show ?thesis
    by (simp add: after_hit_def) (simp add: release_def unlock_tree_def removeEventContextMapEntry_def)
qed

lemma unlock_relock:
  "\<not> contextTree_mtx w \<Longrightarrow> unlock_tree (w\<lparr>contextTree_mtx := True\<rparr>) = w"
  by (simp add: unlock_tree_def)

lemma after_same:
  "wl_ok w \<Longrightarrow> \<not> contextTree_mtx w \<Longrightarrow> a \<in> {WP_DISABLE, WP_RETAIN} \<Longrightarrow> after_hit sam w w a"
  by (simp add: after_hit_def)

lemma lock_keeps: "wl_ok w \<Longrightarrow> keeps (w\<lparr>contextTree_mtx := True\<rparr>) (w\<lparr>contextTree_mtx := True\<rparr>)"
  by (rule keeps_refl) simp

text \<open>The two shapes of a callback after the lock is taken: early return or accounting.\<close>

lemma ds_finish_after:
  "keeps ((ds_wl s)\<lparr>contextTree_mtx := True\<rparr>) (ds_wl s1) \<Longrightarrow> ds_finish sam s1 = (s', a) \<Longrightarrow>
     after_hit sam (ds_wl s) (ds_wl s') a"
  using after_release by (auto simp: ds_finish_def)

lemma rs_finish_after:
  "keeps ((rs_wl s)\<lparr>contextTree_mtx := True\<rparr>) (rs_wl s1) \<Longrightarrow> rs_finish sam s1 = (s', a) \<Longrightarrow>
     after_hit sam (rs_wl s) (rs_wl s') a"
  using after_release by (auto simp: rs_finish_def)

lemma watched_wl [simp]: "ds_wl (ds_watched s) = ds_wl s" "rs_wl (rs_watched t) = rs_wl t"
  by (simp_all add: ds_watched_def rs_watched_def)

text \<open>The part of the dead-store callbacks that runs when the sampled event has a leaf.\<close>

lemma ds_hit_after:
  assumes ok: "wl_ok (ds_wl s)" and leaf: "eventToContextLeafMap (ds_wl s) (eventId sam) = Some leaf"
    and acc: "\<And>inc s1. wl_ok (ds_wl s1) \<Longrightarrow> live leaf (ds_wl s1) \<Longrightarrow> ds_keeps s1 (account inc s1)"
    and run: "rbind (sample_inc leaf cur sam ((ds_wl s)\<lparr>contextTree_mtx := True\<rparr>)) (\<lambda>(w, inc).
       if overlapBytes cur sam wpt \<le> 0 then Inr (ds_finish sam (s\<lparr>ds_wl := (ds_wl s)\<lparr>contextTree_mtx := True\<rparr>, ds_wl := w\<rparr>))
       else rbind (account inc (s\<lparr>ds_wl := (ds_wl s)\<lparr>contextTree_mtx := True\<rparr>, ds_wl := w\<rparr>))
          (\<lambda>s. Inr (ds_finish sam (ds_watched s))))
     = Inr (s', a)"
  shows "after_hit sam (ds_wl s) (ds_wl s') a"
proof -
  let ?w0 = "(ds_wl s)\<lparr>contextTree_mtx := True\<rparr>"
  have ok0: "wl_ok ?w0" using ok by simp
  have l0: "live leaf ?w0" using live_leaf [OF ok leaf] by (simp add: live_def)
  obtain w inc where 1: "sample_inc leaf cur sam ?w0 = Inr (w, inc)" "keeps ?w0 w"
    using sample_inc_keeps [OF ok0] l0 unfolding live_def by blast
  show ?thesis
  proof (cases "overlapBytes cur sam wpt \<le> 0")
    case True
    with run 1 show ?thesis by (intro ds_finish_after [of s "s\<lparr>ds_wl := w\<rparr>"]) simp_all
  next
    case False
    with run 1 obtain s2 where 2: "account inc (s\<lparr>ds_wl := w\<rparr>) = Inr s2"
        "ds_finish sam (ds_watched s2) = (s', a)" by (auto simp: rbind_Inr)
    have "keeps w (ds_wl s2)"
      using acc [of "s\<lparr>ds_wl := w\<rparr>" inc] keeps_ok [OF 1(2)] live_keeps [OF 1(2) l0] 2(1)
      by (simp add: ds_keeps_def)
    with keeps_trans [OF 1(2)] 2(2) show ?thesis
      by (intro ds_finish_after [of s "ds_watched s2"]) simp_all
  qed
qed

lemma rs_hit_after:
  assumes ok: "wl_ok (rs_wl s)" and leaf: "eventToContextLeafMap (rs_wl s) (eventId sam) = Some leaf"
    and acc: "\<And>inc s1. wl_ok (rs_wl s1) \<Longrightarrow> live leaf (rs_wl s1) \<Longrightarrow> rs_keeps s1 (account inc s1)"
    and run: "rbind (sample_inc leaf cur sam ((rs_wl s)\<lparr>contextTree_mtx := True\<rparr>)) (\<lambda>(w, inc).
       if inc = 0 then Inr (rs_finish sam (s\<lparr>rs_wl := (rs_wl s)\<lparr>contextTree_mtx := True\<rparr>, rs_wl := w\<rparr>))
       else rbind (account inc (s\<lparr>rs_wl := (rs_wl s)\<lparr>contextTree_mtx := True\<rparr>, rs_wl := w\<rparr>))
          (\<lambda>s. Inr (rs_finish sam (rs_watched s))))
     = Inr (s', a)"
  shows "after_hit sam (rs_wl s) (rs_wl s') a"
proof -
  let ?w0 = "(rs_wl s)\<lparr>contextTree_mtx := True\<rparr>"
  have ok0: "wl_ok ?w0" using ok by simp
  have l0: "live leaf ?w0" using live_leaf [OF ok leaf] by (simp add: live_def)
  obtain w inc where 1: "sample_inc leaf cur sam ?w0 = Inr (w, inc)" "keeps ?w0 w"
    using sample_inc_keeps [OF ok0] l0 unfolding live_def by blast
  show ?thesis
  proof (cases "inc = 0")
    case True
    with run 1 show ?thesis by (intro rs_finish_after [of s "s\<lparr>rs_wl := w\<rparr>"]) simp_all
  next
    case False
    with run 1 obtain s2 where 2: "account inc (s\<lparr>rs_wl := w\<rparr>) = Inr s2"
        "rs_finish sam (rs_watched s2) = (s', a)" by (auto simp: rbind_Inr)
    have "keeps w (rs_wl s2)"
      using acc [of "s\<lparr>rs_wl := w\<rparr>" inc] keeps_ok [OF 1(2)] live_keeps [OF 1(2) l0] 2(1)
      by (simp add: rs_keeps_def)
    with keeps_trans [OF 1(2)] 2(2) show ?thesis
      by (intro rs_finish_after [of s "rs_watched s2"]) simp_all
  qed
qed

section \<open>Reading the two values\<close>

lemma value_bytes_ok:
  "valueAtEvent e = Some b \<Longrightarrow> 0 \<le> i \<Longrightarrow> i + int n \<le> int (length b) \<Longrightarrow>
     value_bytes n e i = Inr (le_val (take n (drop (nat i) b)))"
  by (simp add: value_bytes_def rd_le_ok)

lemma value_byte:
  assumes "valueAtEvent e = Some b" and "i < length b"
  shows "value_bytes (Suc 0) e (int i) = Inr (uint (b ! i))"
proof -
  have "take (Suc 0) (drop i b) = [b ! i]" using assms(2) by (simp add: take_Suc_conv_app_nth)
  with assms show ?thesis by (simp add: value_bytes_ok)
qed

text \<open>The byte loop compares the two ranges; the count wraps at 256.\<close>

lemma int_redBytes_ok:
  assumes b: "valueAtEvent cur = Some b" and c: "valueAtEvent sam = Some c"
  shows "i + n \<le> length b \<Longrightarrow> k + n \<le> length c \<Longrightarrow> 0 \<le> red \<Longrightarrow> red < 256 \<Longrightarrow>
    int_redBytes n cur sam (int i) (int k) red =
      Inr (if take n (drop i b) = take n (drop k c) then (red + int n) mod 256 else 0)"
proof (induction n arbitrary: i k red)
  case 0
  then show ?case by simp
next
  case (Suc n)
  have i: "i < length b" "k < length c" using Suc.prems by simp_all
  have d: "take (Suc n) (drop i b) = b ! i # take n (drop (Suc i) b)"
    "take (Suc n) (drop k c) = c ! k # take n (drop (Suc k) c)"
    using i by (simp_all add: Cons_nth_drop_Suc [symmetric])
  show ?case
  proof (cases "b ! i = c ! k")
    case True
    have "int_redBytes n cur sam (int (Suc i)) (int (Suc k)) ((red + 1) mod 256) =
      Inr (if take n (drop (Suc i) b) = take n (drop (Suc k) c)
           then ((red + 1) mod 256 + int n) mod 256 else 0)"
      using Suc.prems by (intro Suc.IH) simp_all
    moreover have "((red + 1) mod 256 + int n) mod 256 = (red + int (Suc n)) mod 256"
      by (simp add: mod_simps algebra_simps)
    ultimately show ?thesis
      using True i by (simp add: value_byte [OF b] value_byte [OF c] d algebra_simps)
  next
    case False
    then have "uint (b ! i) \<noteq> uint (c ! k)" by (simp add: word_uint_eq_iff)
    with False show ?thesis using i by (simp add: value_byte [OF b] value_byte [OF c] d)
  qed
qed

text \<open>A hit at the sampled address, with the buffers \<open>fixIP\<close> allocates.\<close>

definition value_ok :: "Event \<Rightarrow> bool" where
  "value_ok e \<longleftrightarrow> 1 \<le> accessLength e \<and> accessLength e \<le> 64 \<and>
     (case valueAtEvent e of None \<Rightarrow> False | Some b \<Rightarrow> int (length b) = 8 * accessLength e)"

definition safe_hit :: "Event \<Rightarrow> Event \<Rightarrow> WP_TriggerInfo \<Rightarrow> bool" where
  "safe_hit cur sam wpt \<longleftrightarrow> data_addr cur = data_addr sam \<and> value_ok cur \<and> value_ok sam \<and>
     1 \<le> wpt_watchLen wpt \<and> wpt_watchLen wpt \<le> accessLength sam \<and>
     uint (data_addr sam) + 64 < 2 ^ 64"

lemma safe_overlap:
  assumes "safe_hit cur sam wpt"
  shows "firstOffset cur sam = 0" and "secondOffset cur sam = 0"
    and "overlapBytes cur sam wpt = min (wpt_watchLen wpt) (accessLength cur)"
proof -
  let ?a = "data_addr sam" and ?lc = "accessLength cur" and ?lw = "wpt_watchLen wpt"
  have eq: "data_addr cur = ?a" and l: "1 \<le> ?lc" "?lc \<le> 64" "1 \<le> ?lw" "?lw \<le> 64"
    and a: "uint ?a + 64 < 2 ^ 64"
    using assms by (auto simp: safe_hit_def value_ok_def)
  show "firstOffset cur sam = 0" "secondOffset cur sam = 0"
    by (simp_all add: eq firstOffset_def secondOffset_def FIRST_OVERLAPPED_BYTE_OFFSET_IN_FIRST_def
        FIRST_OVERLAPPED_BYTE_OFFSET_IN_SECOND_def)
  have "ADDRESSES_OVERLAP ?a ?lc ?a ?lw"
    using l a ADDRESSES_OVERLAP_interval [of ?lc ?lw ?a ?a] by simp
  then have "overlapBytes cur sam wpt = to_i32 (GET_OVERLAP_BYTES ?a ?lw ?a ?lc)"
    by (simp add: overlapBytes_def trigger_va_def eq)
  also have "GET_OVERLAP_BYTES ?a ?lw ?a ?lc = min ?lw ?lc"
    by (simp add: GET_OVERLAP_BYTES_def addr_diff_def)
  also have "to_i32 (min ?lw ?lc) = min ?lw ?lc" using l by (intro to_i32_id) auto
  finally show "overlapBytes cur sam wpt = min ?lw ?lc" .
qed

lemma safe_values:
  assumes "safe_hit cur sam wpt"
  obtains b c where "valueAtEvent cur = Some b" and "valueAtEvent sam = Some c"
    and "int (length b) = 8 * accessLength cur" and "int (length c) = 8 * accessLength sam"
    and "8 \<le> length b" and "8 \<le> length c"
  using assms by (auto simp: safe_hit_def value_ok_def split: option.splits)

lemma safe_reads:
  assumes "safe_hit cur sam wpt"
  shows "\<exists>v. value_bytes 8 sam 0 = Inr v" and "\<exists>v. value_bytes 8 cur 0 = Inr v"
    and "\<exists>v. float_redBytes ap cur sam 0 0 = Inr v"
    and "n \<le> 4 \<or> n = nat (overlapBytes cur sam wpt) \<Longrightarrow> \<exists>v. int_redBytes n cur sam 0 0 0 = Inr v"
proof -
  obtain b c where v: "valueAtEvent cur = Some b" "valueAtEvent sam = Some c"
    "int (length b) = 8 * accessLength cur" "int (length c) = 8 * accessLength sam"
    "8 \<le> length b" "8 \<le> length c" by (rule safe_values [OF assms])
  have l: "1 \<le> accessLength cur" "wpt_watchLen wpt \<le> accessLength sam"
    using assms by (auto simp: safe_hit_def value_ok_def)
  show "\<exists>x. value_bytes 8 sam 0 = Inr x" "\<exists>x. value_bytes 8 cur 0 = Inr x"
    using v by (simp_all add: value_bytes_ok)
  have "float_size (floatType cur) \<le> 8" by (simp add: float_size_def)
  then show "\<exists>x. float_redBytes ap cur sam 0 0 = Inr x"
    using v by (simp add: float_redBytes_def Let_def value_bytes_ok)
  assume "n \<le> 4 \<or> n = nat (overlapBytes cur sam wpt)"
  then have "n \<le> length b \<and> n \<le> length c"
    using v l safe_overlap(3) [OF assms] by (auto simp: nat_le_iff)
  then show "\<exists>x. int_redBytes n cur sam 0 0 0 = Inr x"
    using int_redBytes_ok [OF v(1,2), of 0 n 0 0] by simp
qed

section \<open>The callbacks keep the contract\<close>

lemma ds_lock [simp]:
  "\<not> contextTree_mtx (ds_wl s) \<Longrightarrow>
     ds_on_wl lock_tree s = Inr (s\<lparr>ds_wl := (ds_wl s)\<lparr>contextTree_mtx := True\<rparr>\<rparr>)"
  "contextTree_mtx (ds_wl s) \<Longrightarrow> ds_on_wl lock_tree s = Inl Deadlock"
  by (simp_all add: ds_on_wl_def lock_tree_def)

lemma rs_lock [simp]:
  "\<not> contextTree_mtx (rs_wl s) \<Longrightarrow>
     rs_on_wl lock_tree s = Inr (s\<lparr>rs_wl := (rs_wl s)\<lparr>contextTree_mtx := True\<rparr>\<rparr>)"
  "contextTree_mtx (rs_wl s) \<Longrightarrow> rs_on_wl lock_tree s = Inl Deadlock"
  by (simp_all add: rs_on_wl_def lock_tree_def)

lemma rs_unlock_relock [simp]:
  "\<not> contextTree_mtx (rs_wl s) \<Longrightarrow>
     s\<lparr>rs_wl := unlock_tree ((rs_wl s)\<lparr>contextTree_mtx := True\<rparr>)\<rparr> = s"
  by (simp add: unlock_relock)

lemma ds_early:
  assumes "wl_ok (ds_wl s)"
    and "ds_finish sam (s\<lparr>ds_wl := (ds_wl s)\<lparr>contextTree_mtx := True\<rparr>\<rparr>) = (s', a)"
  shows "after_hit sam (ds_wl s) (ds_wl s') a"
  using ds_finish_after [OF _ assms(2), of s] lock_keeps [OF assms(1)] by simp

lemma rs_early:
  assumes "wl_ok (rs_wl s)"
    and "rs_finish sam (s\<lparr>rs_wl := (rs_wl s)\<lparr>contextTree_mtx := True\<rparr>\<rparr>) = (s', a)"
  shows "after_hit sam (rs_wl s) (rs_wl s') a"
  using rs_finish_after [OF _ assms(2), of s] lock_keeps [OF assms(1)] by simp

lemma DeadStore_after:
  assumes "wl_ok (ds_wl s)" and "\<not> contextTree_mtx (ds_wl s)"
    and "DeadStore_OnWP cfg cur sam wpt s = Inr (s', a)"
  shows "after_hit sam (ds_wl s) (ds_wl s') a"
proof (cases "eventToContextLeafMap (ds_wl s) (eventId sam)")
  case None
  then show ?thesis
    using assms ds_early [OF assms(1)] after_same [OF assms(1,2)]
    by (auto simp: DeadStore_OnWP_def unlock_relock split: if_splits)
next
  case (Some leaf)
  note hit = ds_hit_after [OF assms(1) Some,
      where account = "\<lambda>inc. DeadStore_account leaf inc cur sam", OF account_partial(1)]
  show ?thesis
    using assms ds_early [OF assms(1)] after_same [OF assms(1,2)] Some
    by (auto simp: DeadStore_OnWP_def unlock_relock split: if_split_asm intro: hit)
qed

lemma FalseSharing_after:
  assumes "wl_ok (ds_wl s)" and "\<not> contextTree_mtx (ds_wl s)"
    and "FalseSharing_OnWP cur sam wpt s = Inr (s', a)"
  shows "after_hit sam (ds_wl s) (ds_wl s') a"
proof (cases "eventToContextLeafMap (ds_wl s) (eventId sam)")
  case None
  then show ?thesis
    using assms ds_early [OF assms(1)]
    by (auto simp: FalseSharing_OnWP_def split: if_splits)
next
  case (Some leaf)
  note hit = ds_hit_after [OF assms(1) Some,
      where account = "\<lambda>inc. FalseSharing_account leaf inc cur sam", OF account_partial(2)]
  show ?thesis
    using assms ds_early [OF assms(1)] Some
    by (auto simp: FalseSharing_OnWP_def split: if_split_asm intro: hit)
qed

lemma RedSpy_after:
  assumes "wl_ok (rs_wl s)" and "\<not> contextTree_mtx (rs_wl s)"
    and "RedSpy_OnWP cfg cur sam wpt s = Inr (s', a)"
  shows "after_hit sam (rs_wl s) (rs_wl s') a"
proof (cases "eventToContextLeafMap (rs_wl s) (eventId sam)")
  case None
  then show ?thesis
    using assms rs_early [OF assms(1)] after_same [OF assms(1,2)]
    by (auto simp: RedSpy_OnWP_def split: if_splits)
next
  case (Some leaf)
  note hit = rs_hit_after [OF assms(1) Some,
      where account = "\<lambda>inc. RedSpy_account cfg leaf inc cur sam wpt", OF red_account_partial(1)]
  show ?thesis
    using assms rs_early [OF assms(1)] after_same [OF assms(1,2)] Some
    by (auto simp: RedSpy_OnWP_def split: if_split_asm intro: hit)
qed

lemma LoadSpy_after:
  assumes "wl_ok (rs_wl s)" and "\<not> contextTree_mtx (rs_wl s)"
    and "LoadSpy_OnWP cfg cur sam wpt s = Inr (s', a)"
  shows "after_hit sam (rs_wl s) (rs_wl s') a"
proof (cases "eventToContextLeafMap (rs_wl s) (eventId sam)")
  case None
  then show ?thesis
    using assms rs_early [OF assms(1)] after_same [OF assms(1,2)]
    by (auto simp: LoadSpy_OnWP_def split: if_splits)
next
  case (Some leaf)
  note hit = rs_hit_after [OF assms(1) Some,
      where account = "\<lambda>inc. LoadSpy_account leaf inc cur sam wpt", OF red_account_partial(2)]
  show ?thesis
    using assms rs_early [OF assms(1)] after_same [OF assms(1,2)] Some
    by (auto simp: LoadSpy_OnWP_def split: if_split_asm intro: hit)
qed

lemma DupSpy_after:
  assumes "wl_ok (rs_wl s)" and "\<not> contextTree_mtx (rs_wl s)"
    and "DupSpy_OnWP cfg cur sam wpt s = Inr (s', a)"
  shows "after_hit sam (rs_wl s) (rs_wl s') a"
proof (cases "eventToContextLeafMap (rs_wl s) (eventId sam)")
  case None
  then show ?thesis
    using assms rs_early [OF assms(1)] after_same [OF assms(1,2)]
    by (auto simp: DupSpy_OnWP_def split: if_splits)
next
  case (Some leaf)
  note hit = rs_hit_after [OF assms(1) Some,
      where account = "\<lambda>inc. DupSpy_account cfg leaf inc cur sam wpt
        (if DUPSPY_OVERLAP cfg then firstOffset cur sam else 0)
        (if DUPSPY_OVERLAP cfg then secondOffset cur sam else 0)", OF red_account_partial(3)]
  show ?thesis
    using assms rs_early [OF assms(1)] after_same [OF assms(1,2)] Some
    by (auto simp: DupSpy_OnWP_def Let_def split: if_split_asm intro: hit)
qed

section \<open>Hits at the sampled address return\<close>

lemma returns_if: "(\<And>x. P x \<Longrightarrow> \<exists>y. f x = Inr y) \<Longrightarrow> \<exists>x. m = Inr x \<and> P x \<Longrightarrow> \<exists>y. rbind m f = Inr y"
  by auto

lemma locked_live:
  assumes "wl_ok w" and "eventToContextLeafMap w e = Some leaf"
  shows "\<exists>w1 inc. sample_inc leaf cur sam (w\<lparr>contextTree_mtx := True\<rparr>) = Inr (w1, inc) \<and>
    wl_ok w1 \<and> live leaf w1"
proof -
  have ok: "wl_ok (w\<lparr>contextTree_mtx := True\<rparr>)" using assms(1) by simp
  have l: "live leaf (w\<lparr>contextTree_mtx := True\<rparr>)" using live_leaf [OF assms] by (simp add: live_def)
  then have "leaf \<in> dom (nodes (w\<lparr>contextTree_mtx := True\<rparr>)) - {0}" unfolding live_def .
  from sample_inc_keeps [OF ok this, of cur sam] keeps_ok live_keeps [OF _ l] show ?thesis by blast
qed

lemma dead_account_returns:
  assumes "safe_hit cur sam wpt" and "wl_ok (ds_wl s)" and "live leaf (ds_wl s)"
  shows "\<exists>s'. DeadStore_account leaf inc cur sam s = Inr s'"
    and "\<exists>s'. FalseSharing_account leaf inc cur sam s = Inr s'"
proof -
  obtain x y where "value_bytes 8 sam 0 = Inr x" "value_bytes 8 cur 0 = Inr y"
    using safe_reads(1,2) [OF assms(1)] by blast
  from ds_dead_keeps [OF assms(2,3) this] ds_used_keeps [OF assms(2,3)]
  show "\<exists>s'. DeadStore_account leaf inc cur sam s = Inr s'"
    "\<exists>s'. FalseSharing_account leaf inc cur sam s = Inr s'"
    unfolding DeadStore_account_def FalseSharing_account_def by (simp_all) blast+
qed

lemma red_account_returns:
  assumes safe: "safe_hit cur sam wpt" and ok: "wl_ok (rs_wl s)" and l: "live leaf (rs_wl s)"
  shows "\<exists>s'. RedSpy_account cfg leaf inc cur sam wpt s = Inr s'"
    and "\<exists>s'. LoadSpy_account leaf inc cur sam wpt s = Inr s'"
    and "\<exists>s'. DupSpy_account cfg leaf inc cur sam wpt 0 0 s = Inr s'"
proof -
  note o = safe_overlap(1,2) [OF safe]
  have r: "\<exists>s'. rs_red m t leaf inc cur s = Inr s'" if "t \<noteq> UNDEFINEDCONTEXT" "m \<noteq> CONTEXTTYPE" for m t
    using rs_red_keeps [OF ok l that] by blast
  have u: "\<exists>s'. rs_used b c leaf inc cur s = Inr s'" for b c
    using rs_used_keeps [OF ok l] by blast
  have fl: "\<exists>v. float_redBytes ap cur sam 0 0 = Inr v" for ap by (rule safe_reads(3) [OF safe])
  have it: "\<exists>v. int_redBytes (nat (overlapBytes cur sam wpt)) cur sam 0 0 0 = Inr v"
    and it4: "\<exists>v. int_redBytes 4 cur sam 0 0 0 = Inr v"
    by (rule safe_reads(4) [OF safe]; simp)+
  have b: "\<exists>s'. rbind m f = Inr s'" if "\<exists>v. m = Inr v" "\<And>v. \<exists>s'. f v = Inr s'"
    for m :: "int res" and f :: "int \<Rightarrow> red_spy res" using that by auto
  show "\<exists>s'. RedSpy_account cfg leaf inc cur sam wpt s = Inr s'"
    unfolding RedSpy_account_def Let_def o by (simp add: b fl it r u)
  show "\<exists>s'. LoadSpy_account leaf inc cur sam wpt s = Inr s'"
    unfolding LoadSpy_account_def Let_def o by (simp add: b fl it r u)
  show "\<exists>s'. DupSpy_account cfg leaf inc cur sam wpt 0 0 s = Inr s'"
    unfolding DupSpy_account_def Let_def by (simp add: b fl it4 r u)
qed

lemma DeadStore_returns:
  assumes "safe_hit cur sam wpt" and "wl_ok (ds_wl s)" and "\<not> contextTree_mtx (ds_wl s)"
  shows "\<exists>r. DeadStore_OnWP cfg cur sam wpt s = Inr r"
proof (cases "eventToContextLeafMap (ds_wl s) (eventId sam)")
  case None
  then show ?thesis using assms(3) by (simp add: DeadStore_OnWP_def)
next
  case (Some leaf)
  obtain w inc where 1: "sample_inc leaf cur sam ((ds_wl s)\<lparr>contextTree_mtx := True\<rparr>) = Inr (w, inc)"
      "wl_ok w" "live leaf w" using locked_live [OF assms(2) Some] by blast
  obtain s1 where "DeadStore_account leaf inc cur sam (s\<lparr>ds_wl := w\<rparr>) = Inr s1"
    using dead_account_returns(1) [OF assms(1), of "s\<lparr>ds_wl := w\<rparr>" leaf inc] 1 by auto
  with 1 Some assms(3) show ?thesis by (simp add: DeadStore_OnWP_def)
qed

lemma FalseSharing_returns:
  assumes "safe_hit cur sam wpt" and "wl_ok (ds_wl s)" and "\<not> contextTree_mtx (ds_wl s)"
  shows "\<exists>r. FalseSharing_OnWP cur sam wpt s = Inr r"
proof (cases "eventToContextLeafMap (ds_wl s) (eventId sam)")
  case None
  then show ?thesis using assms(3) by (simp add: FalseSharing_OnWP_def)
next
  case (Some leaf)
  obtain w inc where 1: "sample_inc leaf cur sam ((ds_wl s)\<lparr>contextTree_mtx := True\<rparr>) = Inr (w, inc)"
      "wl_ok w" "live leaf w" using locked_live [OF assms(2) Some] by blast
  obtain s1 where "FalseSharing_account leaf inc cur sam (s\<lparr>ds_wl := w\<rparr>) = Inr s1"
    using dead_account_returns(2) [OF assms(1), of "s\<lparr>ds_wl := w\<rparr>" leaf inc] 1 by auto
  with 1 Some assms(3) show ?thesis by (simp add: FalseSharing_OnWP_def)
qed

lemma red_returns:
  assumes "safe_hit cur sam wpt" and "wl_ok (rs_wl s)" and "\<not> contextTree_mtx (rs_wl s)"
  shows "\<exists>r. RedSpy_OnWP cfg cur sam wpt s = Inr r"
    and "\<exists>r. LoadSpy_OnWP cfg cur sam wpt s = Inr r"
    and "\<exists>r. DupSpy_OnWP cfg cur sam wpt s = Inr r"
proof -
  have goal: "(\<exists>r. RedSpy_OnWP cfg cur sam wpt s = Inr r) \<and> (\<exists>r. LoadSpy_OnWP cfg cur sam wpt s = Inr r) \<and>
    (\<exists>r. DupSpy_OnWP cfg cur sam wpt s = Inr r)"
  proof (cases "eventToContextLeafMap (rs_wl s) (eventId sam)")
    case None
    then show ?thesis using assms(3)
      by (simp add: RedSpy_OnWP_def LoadSpy_OnWP_def DupSpy_OnWP_def)
  next
    case (Some leaf)
    obtain w inc where 1: "sample_inc leaf cur sam ((rs_wl s)\<lparr>contextTree_mtx := True\<rparr>) = Inr (w, inc)"
        "wl_ok w" "live leaf w" using locked_live [OF assms(2) Some] by blast
    note r = red_account_returns [OF assms(1), of "s\<lparr>rs_wl := w\<rparr>" leaf]
    obtain s1 s2 s3 where "RedSpy_account cfg leaf inc cur sam wpt (s\<lparr>rs_wl := w\<rparr>) = Inr s1"
      "LoadSpy_account leaf inc cur sam wpt (s\<lparr>rs_wl := w\<rparr>) = Inr s2"
      "DupSpy_account cfg leaf inc cur sam wpt 0 0 (s\<lparr>rs_wl := w\<rparr>) = Inr s3"
      using r(1) [of cfg inc] r(2) [of inc] r(3) [of cfg inc] 1(2,3) by auto
    with 1 Some assms(3) safe_overlap(1,2) [OF assms(1)] show ?thesis
      by (simp add: RedSpy_OnWP_def LoadSpy_OnWP_def DupSpy_OnWP_def)
  qed
  then show "\<exists>r. RedSpy_OnWP cfg cur sam wpt s = Inr r" "\<exists>r. LoadSpy_OnWP cfg cur sam wpt s = Inr r"
    "\<exists>r. DupSpy_OnWP cfg cur sam wpt s = Inr r" by simp_all
qed

end
