(* ===== verification/Witch_Logic.thy ===== *)
theory Witch_Logic
  imports Spy_Contract
begin

text \<open>
  The interface between the watchpoint handler and the detectors: the locale \<open>witch_logic\<close> with
  its client lemma on sequences of hits, its interpretations, and the properties of the five
  callbacks.
\<close>

section \<open>The interface\<close>

text \<open>Hits handled one after the other.\<close>

definition hits ::
  "(Event \<Rightarrow> Event \<Rightarrow> WP_TriggerInfo \<Rightarrow> 's \<Rightarrow> ('s \<times> WP_TriggerAction) res) \<Rightarrow>
     (Event \<times> Event \<times> WP_TriggerInfo) list \<Rightarrow> 's \<Rightarrow> 's res" where
  "hits cb = rfold (\<lambda>(cur, sam, wpt) s. rbind (cb cur sam wpt s) (\<lambda>(s', a). Inr s'))"

locale witch_logic =
  fixes cb :: "Event \<Rightarrow> Event \<Rightarrow> WP_TriggerInfo \<Rightarrow> 's \<Rightarrow> ('s \<times> WP_TriggerAction) res"
    and wl :: "'s \<Rightarrow> wlogic"
  assumes held: "contextTree_mtx (wl s) \<Longrightarrow> cb cur sam wpt s = Inl Deadlock"
    and after: "wl_ok (wl s) \<Longrightarrow> \<not> contextTree_mtx (wl s) \<Longrightarrow> cb cur sam wpt s = Inr (s', a) \<Longrightarrow>
      after_hit sam (wl s) (wl s') a"
    and returns: "safe_hit cur sam wpt \<Longrightarrow> wl_ok (wl s) \<Longrightarrow> \<not> contextTree_mtx (wl s) \<Longrightarrow>
      \<exists>r. cb cur sam wpt s = Inr r"
begin

lemma one_hit:
  assumes "wl_ok (wl s)" and "\<not> contextTree_mtx (wl s)" and "safe_hit cur sam wpt"
  obtains s' a where "cb cur sam wpt s = Inr (s', a)" and "after_hit sam (wl s) (wl s') a"
  using returns [OF assms(3,1,2)] after [OF assms(1,2)] by (metis surj_pair)

lemma hits_keep:
  assumes "wl_ok (wl s)" and "\<not> contextTree_mtx (wl s)"
    and "\<forall>(cur, sam, wpt) \<in> set hs. safe_hit cur sam wpt"
  shows "\<exists>s'. hits cb hs s = Inr s' \<and> wl_ok (wl s') \<and> \<not> contextTree_mtx (wl s') \<and>
    (\<forall>q ks r. walk (wl s) q ks = Some r \<longrightarrow> walk (wl s') q ks = Some r) \<and>
    (\<forall>e. e \<notin> (\<lambda>(cur, sam, wpt). eventId sam) ` set hs \<longrightarrow>
       eventToContextLeafMap (wl s') e = eventToContextLeafMap (wl s) e)"
  using assms
proof (induction hs arbitrary: s)
  case Nil
  then show ?case by (simp add: hits_def)
next
  case (Cons h hs)
  obtain cur sam wpt where h: "h = (cur, sam, wpt)" by (cases h)
  have safe: "safe_hit cur sam wpt" using Cons.prems(3) h by simp
  obtain s1 a where 1: "cb cur sam wpt s = Inr (s1, a)" "after_hit sam (wl s) (wl s1) a"
    by (rule one_hit [OF Cons.prems(1,2) safe])
  then have "wl_ok (wl s1)" "\<not> contextTree_mtx (wl s1)" by (simp_all add: after_hit_def)
  from Cons.IH [OF this] Cons.prems(3) obtain s' where 2: "hits cb hs s1 = Inr s'" "wl_ok (wl s')"
    "\<not> contextTree_mtx (wl s')"
    "\<forall>q ks r. walk (wl s1) q ks = Some r \<longrightarrow> walk (wl s') q ks = Some r"
    "\<forall>e. e \<notin> (\<lambda>(cur, sam, wpt). eventId sam) ` set hs \<longrightarrow>
       eventToContextLeafMap (wl s') e = eventToContextLeafMap (wl s1) e" by auto
  have "\<forall>q ks r. walk (wl s) q ks = Some r \<longrightarrow> walk (wl s') q ks = Some r"
    using 1(2) 2(4) by (simp add: after_hit_def)
  moreover have "\<forall>e. e \<noteq> eventId sam \<longrightarrow>
      eventToContextLeafMap (wl s1) e = eventToContextLeafMap (wl s) e"
    using 1(2) by (simp add: after_hit_def)
  ultimately show ?case using 1(1) 2 h by (auto simp: hits_def)
qed

end

interpretation dead_store: witch_logic "DeadStore_OnWP cfg" ds_wl for cfg
  by unfold_locales (use DeadStore_after DeadStore_returns in \<open>auto simp: DeadStore_OnWP_def\<close>)

interpretation false_sharing: witch_logic FalseSharing_OnWP ds_wl
  by unfold_locales (use FalseSharing_after FalseSharing_returns in \<open>auto simp: FalseSharing_OnWP_def\<close>)

interpretation red_spy: witch_logic "RedSpy_OnWP cfg" rs_wl for cfg
  by unfold_locales (use RedSpy_after red_returns in \<open>auto simp: RedSpy_OnWP_def\<close>)

interpretation load_spy: witch_logic "LoadSpy_OnWP cfg" rs_wl for cfg
  by unfold_locales (use LoadSpy_after red_returns in \<open>auto simp: LoadSpy_OnWP_def\<close>)

interpretation dup_spy: witch_logic "DupSpy_OnWP cfg" rs_wl for cfg
  by unfold_locales (use DupSpy_after red_returns in \<open>auto simp: DupSpy_OnWP_def\<close>)

section \<open>The amount a hit is booked with\<close>

definition pending_ok :: "SampleNum \<Rightarrow> bool" where
  "pending_ok e \<longleftrightarrow> 0 \<le> catchup_num e \<and> catchup_num e \<le> cur_num e \<and> cur_num e < 2 ^ 64 \<and>
     (cur_num e - catchup_num e) * 100003 < 2 ^ 53"

definition booked :: "SampleNum \<Rightarrow> Event \<Rightarrow> int" where
  "booked e sam = (cur_num e - catchup_num e) * 100003 * accessLength sam"

lemma trunc_int: "\<bar>k\<bar> < 2 ^ 53 \<Longrightarrow> trunc_i64 (of_int k) = k"
  by (auto simp: trunc_i64_def Let_def)

lemma sample_inc_exact:
  assumes e: "map_of (propAttrTable w) leaf = Some e" and p: "pending_ok e"
    and l: "0 \<le> accessLength sam" "accessLength sam \<le> 64"
  shows "\<exists>w'. sample_inc leaf cur sam w = Inr (w', booked e sam)"
proof -
  let ?k = "(cur_num e - catchup_num e) * 100003"
  have k: "0 \<le> ?k" "?k < 2 ^ 53" using p by (simp_all add: pending_ok_def)
  have "?k * accessLength sam \<le> ?k * 64" using k(1) l(2) by (rule mult_left_mono [rotated])
  then have b: "0 \<le> ?k * accessLength sam" "?k * accessLength sam < 2 ^ 63" using k l by simp_all
  have "\<exists>a. GetNumDiffSamplesAndReset leaf 1 100003 d w =
     Inr (w\<lparr>propAttrTable := AList.update leaf (e\<lparr>catchup_num := cur_num e, avgDistance := a\<rparr>)
             (propAttrTable w)\<rparr>, of_int ?k)" for d
    using p by (intro numdiff_entry [OF e]) (simp_all add: pending_ok_def)
  then obtain w' where "GetNumDiffSamplesAndReset leaf 1 100003
      (to_u64 (event_time cur - event_time sam)) w = Inr (w', of_int ?k)" by blast
  moreover have "trunc_i64 (of_int ?k) = ?k" using k by (intro trunc_int) simp
  moreover have "to_i64 (?k * accessLength sam) = ?k * accessLength sam"
    using b by (intro to_i64_id) simp_all
  ultimately show ?thesis by (simp add: sample_inc_def booked_def del: of_int_mult of_int_diff)
qed

lemma locked_sample:
  assumes ok: "wl_ok w" and leaf: "eventToContextLeafMap w e = Some leaf"
    and ent: "map_of (propAttrTable w) leaf = Some n" and p: "pending_ok n" and v: "value_ok sam"
  shows "\<exists>w1. sample_inc leaf cur sam (w\<lparr>contextTree_mtx := True\<rparr>) = Inr (w1, booked n sam) \<and>
    wl_ok w1 \<and> live leaf w1"
proof -
  have "map_of (propAttrTable (w\<lparr>contextTree_mtx := True\<rparr>)) leaf = Some n" using ent by simp
  then obtain w1 where "sample_inc leaf cur sam (w\<lparr>contextTree_mtx := True\<rparr>) = Inr (w1, booked n sam)"
    using sample_inc_exact [OF _ p, of "w\<lparr>contextTree_mtx := True\<rparr>" leaf sam cur] v
    by (auto simp: value_ok_def)
  with locked_live [OF ok leaf, of cur sam] show ?thesis by auto
qed

lemma release_gone [simp]: "eventToContextLeafMap (release sam w) (eventId sam) = None"
  by (simp add: release_def unlock_tree_def removeEventContextMapEntry_def)

section \<open>Dead stores\<close>

lemma ds_used_totals:
  "ds_used leaf inc s = Inr s' \<Longrightarrow> totalUsedBytes s' = to_u64 (totalUsedBytes s + inc) \<and>
     totalUsedBytes_perThread s' = to_u64 (totalUsedBytes_perThread s + inc) \<and>
     totalDeadBytes_perThread s' = totalDeadBytes_perThread s \<and>
     totalDeadBytes s' = totalDeadBytes s \<and> watchedSampleCount s' = watchedSampleCount s"
  by (auto simp: ds_used_def rbind_Inr)

lemma ds_dead_totals:
  "ds_dead leaf inc cur sam s = Inr s' \<Longrightarrow> totalDeadBytes s' = to_u64 (totalDeadBytes s + inc) \<and>
     totalDeadBytes_perThread s' = to_u64 (totalDeadBytes_perThread s + inc) \<and>
     totalUsedBytes_perThread s' = totalUsedBytes_perThread s \<and>
     totalUsedBytes s' = totalUsedBytes s \<and> watchedSampleCount s' = watchedSampleCount s"
  by (auto simp: ds_dead_def rbind_Inr)

text \<open>C20: A dead-store detector hit at the sampled address by a known access books the bytes
  written by the pending samples (samples times period times access length) as dead when the hit
  is a store and as used when it is a load, in the totals of the process and of the thread, counts the hit once and forgets the sampled event.\<close>

theorem DeadStore_books_hit:
  assumes "wl_ok (ds_wl s)" and "\<not> contextTree_mtx (ds_wl s)" and safe: "safe_hit cur sam wpt"
    and "INST cfg \<longrightarrow> fixedIP sam = fixedIP cur" and "accessType cur \<noteq> UNKNOWN"
    and leaf: "eventToContextLeafMap (ds_wl s) (eventId sam) = Some leaf"
    and ent: "map_of (propAttrTable (ds_wl s)) leaf = Some n" and "pending_ok n"
  shows "\<exists>s'. DeadStore_OnWP cfg cur sam wpt s = Inr (s', WP_DISABLE) \<and>
    totalDeadBytes s' = (if accessType cur = STORE then to_u64 (totalDeadBytes s + booked n sam)
                         else totalDeadBytes s) \<and>
    totalUsedBytes s' = (if accessType cur = STORE then totalUsedBytes s
                         else to_u64 (totalUsedBytes s + booked n sam)) \<and>
    totalDeadBytes_perThread s' = (if accessType cur = STORE then to_u64 (totalDeadBytes_perThread s + booked n sam)
                         else totalDeadBytes_perThread s) \<and>
    totalUsedBytes_perThread s' = (if accessType cur = STORE then totalUsedBytes_perThread s
                         else to_u64 (totalUsedBytes_perThread s + booked n sam)) \<and>
    watchedSampleCount s' = to_u64 (watchedSampleCount s + 1) \<and>
    eventToContextLeafMap (ds_wl s') (eventId sam) = None"
proof -
  have v: "value_ok sam" using safe by (simp add: safe_hit_def)
  obtain w where 1: "sample_inc leaf cur sam ((ds_wl s)\<lparr>contextTree_mtx := True\<rparr>) = Inr (w, booked n sam)"
      "wl_ok w" "live leaf w" using locked_sample [OF assms(1) leaf ent assms(8) v] by blast
  obtain s1 where 2: "DeadStore_account leaf (booked n sam) cur sam (s\<lparr>ds_wl := w\<rparr>) = Inr s1"
    using dead_account_returns(1) [OF safe, of "s\<lparr>ds_wl := w\<rparr>" leaf "booked n sam"] 1 by auto
  have o: "\<not> overlapBytes cur sam wpt \<le> 0"
    using safe_overlap(3) [OF safe] safe by (auto simp: safe_hit_def value_ok_def)
  have "DeadStore_OnWP cfg cur sam wpt s = Inr (ds_finish sam (ds_watched s1))"
    using assms(2,4,5) leaf 1(1) 2 o by (auto simp: DeadStore_OnWP_def)
  then show ?thesis
    using 2 assms(5) ds_used_totals [of leaf "booked n sam" "s\<lparr>ds_wl := w\<rparr>" s1]
      ds_dead_totals [of leaf "booked n sam" cur sam "s\<lparr>ds_wl := w\<rparr>" s1]
    by (cases "accessType cur") (simp_all add: DeadStore_account_def ds_finish_def ds_watched_def)
qed

text \<open>A concrete detector state and concrete events for the witnesses.\<close>

definition demo_wl :: wlogic where
  "demo_wl = one_sample\<lparr>eventToContextLeafMap := [5 \<mapsto> 1],
     propAttrTable := [(1, \<lparr>catchup_num = 0, cur_num = 3, avgDistance = Fin 0\<rparr>)]\<rparr>"

definition demo_event :: "AccessType \<Rightarrow> u8 \<Rightarrow> Event" where
  "demo_event t b = zero_Event\<lparr>eventId := 5, data_addr := 4096, accessLength := 4, accessType := t,
     floatType := ELEM_TYPE_UNKNOWN, valueAtEvent := Some (replicate 32 b),
     eventContext_agent := [demo_frame 8192 9]\<rparr>"

definition demo_wpt :: WP_TriggerInfo where
  "demo_wpt = \<lparr>wpt_va = 4096, wpt_watchLen = 4\<rparr>"

definition demo_dead :: dead_spy where
  "demo_dead = \<lparr>ds_wl = demo_wl, totalDeadBytes = 10, totalUsedBytes = 20, watchedSampleCount = 0,
     totalDeadBytes_perThread = 0, totalUsedBytes_perThread = 0, watchedSampleCount_perThread = 0\<rparr>"

definition demo_red :: red_spy where
  "demo_red = \<lparr>rs_wl = demo_wl, totalRedBytes = 10, totalApproxRedBytes = 0, rs_totalUsedBytes = 20,
     rs_watchedSampleCount = 0, totalRedBytes_perThread = 0, totalApproxRedBytes_perThread = 0,
     rs_totalUsedBytes_perThread = 0, rs_watchedSampleCount_perThread = 0\<rparr>"

definition demo_spy_cfg :: spy_cfg where
  "demo_spy_cfg = \<lparr>INST = False, CONSIDER_APPROXRED = False, SHOW_USED_CONTEXT = False,
     DUPSPY_LOAD = False, DUPSPY_OVERLAP = True\<rparr>"

lemma demo_wl_ok: "wl_ok demo_wl"
proof -
  have "nodes one_sample 1 \<noteq> None" by (simp add: one_sample_def)
  then have "dom (nodes one_sample) - {0} \<supseteq> {1}" by auto
  then show ?thesis
    using one_sample_ok tree_ok_cong [of one_sample demo_wl]
    by (simp add: wl_ok_def tables_ok_def demo_wl_def same_nodes_def)
qed

lemma demo_facts [simp]:
  "\<not> contextTree_mtx demo_wl" "eventToContextLeafMap demo_wl 5 = Some 1"
  "map_of (propAttrTable demo_wl) (Suc 0) = Some \<lparr>catchup_num = 0, cur_num = 3, avgDistance = Fin 0\<rparr>"
  "pending_ok \<lparr>catchup_num = 0, cur_num = 3, avgDistance = Fin 0\<rparr>"
  "safe_hit (demo_event t b) (demo_event u c) demo_wpt"
  "eventId (demo_event t b) = 5" "accessType (demo_event t b) = t" "accessLength (demo_event t b) = 4"
  "floatType (demo_event t b) = ELEM_TYPE_UNKNOWN" "valueAtEvent (demo_event t b) = Some (replicate 32 b)"
  "\<not> INST demo_spy_cfg" "wpt_watchLen demo_wpt = 4"
  by (simp_all add: demo_wl_def one_sample_def wl_init_def pending_ok_def safe_hit_def value_ok_def
      demo_event_def demo_wpt_def demo_spy_cfg_def)

theorem DeadStore_books_hit_witness:
  "\<exists>s'. DeadStore_OnWP demo_spy_cfg (demo_event STORE 7) (demo_event STORE 7) demo_wpt demo_dead
      = Inr (s', WP_DISABLE) \<and> totalDeadBytes s' = 1200046 \<and> totalUsedBytes s' = 20"
  using DeadStore_books_hit [of demo_dead "demo_event STORE 7" "demo_event STORE 7" demo_wpt
      demo_spy_cfg 1 "\<lparr>catchup_num = 0, cur_num = 3, avgDistance = Fin 0\<rparr>"] demo_wl_ok
  by (auto simp: demo_dead_def booked_def to_u64_def)

section \<open>Redundant stores and loads\<close>

lemma rs_used_totals:
  "rs_used u c leaf inc cur s = Inr s' \<Longrightarrow> rs_totalUsedBytes s' = to_u64 (rs_totalUsedBytes s + inc) \<and>
     totalRedBytes s' = totalRedBytes s \<and> totalApproxRedBytes s' = totalApproxRedBytes s \<and>
     rs_watchedSampleCount s' = rs_watchedSampleCount s"
  by (auto simp: rs_used_def rbind_Inr)

lemma rs_red_totals:
  "rs_red REDBYTES t leaf inc cur s = Inr s' \<Longrightarrow> totalRedBytes s' = to_u64 (totalRedBytes s + inc) \<and>
     rs_totalUsedBytes s' = rs_totalUsedBytes s \<and> totalApproxRedBytes s' = totalApproxRedBytes s \<and>
     rs_watchedSampleCount s' = rs_watchedSampleCount s"
  by (auto simp: rs_red_def rbind_Inr)

text \<open>The bytes both accesses cover, at equal addresses.\<close>

definition same_bytes :: "nat \<Rightarrow> Event \<Rightarrow> Event \<Rightarrow> bool" where
  "same_bytes n cur sam \<longleftrightarrow>
     map_option (take n) (valueAtEvent cur) = map_option (take n) (valueAtEvent sam)"

lemma int_red_iff:
  assumes safe: "safe_hit cur sam wpt"
  shows "\<exists>r. int_redBytes (nat (overlapBytes cur sam wpt)) cur sam 0 0 0 = Inr r \<and>
    (r \<noteq> 0 \<longleftrightarrow> same_bytes (nat (overlapBytes cur sam wpt)) cur sam)"
proof -
  obtain b c where v: "valueAtEvent cur = Some b" "valueAtEvent sam = Some c"
    "int (length b) = 8 * accessLength cur" "int (length c) = 8 * accessLength sam"
    by (rule safe_values [OF safe])
  let ?n = "nat (overlapBytes cur sam wpt)"
  have l: "1 \<le> accessLength cur" "accessLength cur \<le> 64" "1 \<le> wpt_watchLen wpt"
    "wpt_watchLen wpt \<le> accessLength sam" using safe by (auto simp: safe_hit_def value_ok_def)
  then have n: "?n \<le> length b" "?n \<le> length c" "0 < ?n" "?n < 256"
    using v(3,4) safe_overlap(3) [OF safe] by (auto simp: nat_le_iff)
  have "int_redBytes ?n cur sam (int 0) (int 0) 0 =
      Inr (if take ?n (drop 0 b) = take ?n (drop 0 c) then (0 + int ?n) mod 256 else 0)"
    using n by (intro int_redBytes_ok [OF v(1,2)]) simp_all
  then show ?thesis using n v(1,2) by (auto simp: same_bytes_def)
qed

text \<open>The accounting of a non-float hit at the sampled address.\<close>

lemma red_int_account:
  assumes safe: "safe_hit cur sam wpt" and nf: "floatType cur = ELEM_TYPE_UNKNOWN"
    and ok: "wl_ok (rs_wl s)" and l: "live leaf (rs_wl s)"
    and acc: "account = RedSpy_account cfg leaf inc cur sam wpt \<or>
      account = LoadSpy_account leaf inc cur sam wpt"
  shows "\<exists>s'. account s = Inr s' \<and> rs_watchedSampleCount s' = rs_watchedSampleCount s \<and>
    (if same_bytes (nat (overlapBytes cur sam wpt)) cur sam
     then totalRedBytes s' = to_u64 (totalRedBytes s + inc) \<and> rs_totalUsedBytes s' = rs_totalUsedBytes s
     else rs_totalUsedBytes s' = to_u64 (rs_totalUsedBytes s + inc) \<and> totalRedBytes s' = totalRedBytes s)"
proof -
  note o = safe_overlap(1,2) [OF safe]
  have nt: "\<not> treat_as_float cur sam 0 0 ov" for ov by (simp add: treat_as_float_def nf)
  obtain r where r: "int_redBytes (nat (overlapBytes cur sam wpt)) cur sam 0 0 0 = Inr r"
    "r \<noteq> 0 \<longleftrightarrow> same_bytes (nat (overlapBytes cur sam wpt)) cur sam"
    using int_red_iff [OF safe] by blast
  obtain s' where s': "account s = Inr s'"
    using red_account_returns(1,2) [OF safe ok l] acc by blast
  have "account s = (if r \<noteq> 0 then rs_red REDBYTES (if account = RedSpy_account cfg leaf inc cur sam wpt
      then REDCONTEXT else SAMPLEDCONTEXT) leaf inc cur s
    else rs_used True (account = RedSpy_account cfg leaf inc cur sam wpt \<and> SHOW_USED_CONTEXT cfg)
      leaf inc cur s)"
    using acc by (auto simp: RedSpy_account_def LoadSpy_account_def Let_def o nt r(1))
  with s' r(2) rs_red_totals rs_used_totals show ?thesis by (auto split: if_splits)
qed

text \<open>C13: A redundant-store hit at the sampled address, on bytes that are not floats, books the
  pending bytes as redundant exactly when all bytes both accesses cover have the sampled value,
  and as used otherwise.\<close>

theorem RedSpy_books_hit:
  assumes "wl_ok (rs_wl s)" and "\<not> contextTree_mtx (rs_wl s)" and safe: "safe_hit cur sam wpt"
    and "INST cfg \<longrightarrow> fixedIP sam = fixedIP cur"
    and "accessType cur = STORE \<or> accessType cur = LOAD_AND_STORE"
    and nf: "floatType cur = ELEM_TYPE_UNKNOWN"
    and leaf: "eventToContextLeafMap (rs_wl s) (eventId sam) = Some leaf"
    and ent: "map_of (propAttrTable (rs_wl s)) leaf = Some n" and "pending_ok n" and "booked n sam \<noteq> 0"
  shows "\<exists>s'. RedSpy_OnWP cfg cur sam wpt s = Inr (s', WP_DISABLE) \<and>
    (if same_bytes (nat (overlapBytes cur sam wpt)) cur sam
     then totalRedBytes s' = to_u64 (totalRedBytes s + booked n sam) \<and>
          rs_totalUsedBytes s' = rs_totalUsedBytes s
     else rs_totalUsedBytes s' = to_u64 (rs_totalUsedBytes s + booked n sam) \<and>
          totalRedBytes s' = totalRedBytes s) \<and>
    rs_watchedSampleCount s' = to_u64 (rs_watchedSampleCount s + 1) \<and>
    eventToContextLeafMap (rs_wl s') (eventId sam) = None"
proof -
  have v: "value_ok sam" using safe by (simp add: safe_hit_def)
  obtain w where 1: "sample_inc leaf cur sam ((rs_wl s)\<lparr>contextTree_mtx := True\<rparr>) = Inr (w, booked n sam)"
      "wl_ok w" "live leaf w" using locked_sample [OF assms(1) leaf ent assms(9) v] by blast
  have o: "\<not> overlapBytes cur sam wpt \<le> 0" "firstOffset cur sam = 0" "secondOffset cur sam = 0"
    using safe_overlap [OF safe] safe by (auto simp: safe_hit_def value_ok_def)
  obtain s1 where 2: "RedSpy_account cfg leaf (booked n sam) cur sam wpt (s\<lparr>rs_wl := w\<rparr>) = Inr s1"
    "rs_watchedSampleCount s1 = rs_watchedSampleCount s"
    "if same_bytes (nat (overlapBytes cur sam wpt)) cur sam
     then totalRedBytes s1 = to_u64 (totalRedBytes s + booked n sam) \<and>
          rs_totalUsedBytes s1 = rs_totalUsedBytes s
     else rs_totalUsedBytes s1 = to_u64 (rs_totalUsedBytes s + booked n sam) \<and>
          totalRedBytes s1 = totalRedBytes s"
    using red_int_account [OF safe nf, of "s\<lparr>rs_wl := w\<rparr>" leaf
        "RedSpy_account cfg leaf (booked n sam) cur sam wpt" cfg "booked n sam"] 1(2,3) by auto
  have "RedSpy_OnWP cfg cur sam wpt s = Inr (rs_finish sam (rs_watched s1))"
    using assms(2,4,5,10) leaf 1(1) 2(1) o by (auto simp: RedSpy_OnWP_def bad_offsets_def)
  then show ?thesis using 2(2,3) by (simp add: rs_finish_def rs_watched_def split: if_splits)
qed

theorem RedSpy_books_hit_witness:
  "\<exists>s'. RedSpy_OnWP demo_spy_cfg (demo_event STORE 7) (demo_event STORE 7) demo_wpt demo_red
      = Inr (s', WP_DISABLE) \<and> totalRedBytes s' = 1200046 \<and> rs_totalUsedBytes s' = 20"
proof -
  have "same_bytes k (demo_event STORE 7) (demo_event STORE 7)" for k by (simp add: same_bytes_def)
  then show ?thesis
    using RedSpy_books_hit [of demo_red "demo_event STORE 7" "demo_event STORE 7" demo_wpt
        demo_spy_cfg 1 "\<lparr>catchup_num = 0, cur_num = 3, avgDistance = Fin 0\<rparr>"] demo_wl_ok
    by (auto simp: demo_red_def booked_def to_u64_def)
qed

text \<open>A redundant-load hit at the sampled address, on bytes that are not floats, books the
  pending bytes as redundant exactly when the loaded bytes have the sampled value, and as used
  otherwise.\<close>

theorem LoadSpy_books_hit:
  assumes "wl_ok (rs_wl s)" and "\<not> contextTree_mtx (rs_wl s)" and safe: "safe_hit cur sam wpt"
    and "INST cfg \<longrightarrow> fixedIP sam = fixedIP cur"
    and "accessType cur = LOAD \<or> accessType cur = LOAD_AND_STORE"
    and nf: "floatType cur = ELEM_TYPE_UNKNOWN"
    and leaf: "eventToContextLeafMap (rs_wl s) (eventId sam) = Some leaf"
    and ent: "map_of (propAttrTable (rs_wl s)) leaf = Some n" and "pending_ok n" and "booked n sam \<noteq> 0"
  shows "\<exists>s'. LoadSpy_OnWP cfg cur sam wpt s = Inr (s', WP_DISABLE) \<and>
    (if same_bytes (nat (overlapBytes cur sam wpt)) cur sam
     then totalRedBytes s' = to_u64 (totalRedBytes s + booked n sam) \<and>
          rs_totalUsedBytes s' = rs_totalUsedBytes s
     else rs_totalUsedBytes s' = to_u64 (rs_totalUsedBytes s + booked n sam) \<and>
          totalRedBytes s' = totalRedBytes s)"
proof -
  have v: "value_ok sam" using safe by (simp add: safe_hit_def)
  obtain w where 1: "sample_inc leaf cur sam ((rs_wl s)\<lparr>contextTree_mtx := True\<rparr>) = Inr (w, booked n sam)"
      "wl_ok w" "live leaf w" using locked_sample [OF assms(1) leaf ent assms(9) v] by blast
  have o: "\<not> overlapBytes cur sam wpt \<le> 0" "firstOffset cur sam = 0" "secondOffset cur sam = 0"
    using safe_overlap [OF safe] safe by (auto simp: safe_hit_def value_ok_def)
  obtain s1 where 2: "LoadSpy_account leaf (booked n sam) cur sam wpt (s\<lparr>rs_wl := w\<rparr>) = Inr s1"
    "if same_bytes (nat (overlapBytes cur sam wpt)) cur sam
     then totalRedBytes s1 = to_u64 (totalRedBytes s + booked n sam) \<and>
          rs_totalUsedBytes s1 = rs_totalUsedBytes s
     else rs_totalUsedBytes s1 = to_u64 (rs_totalUsedBytes s + booked n sam) \<and>
          totalRedBytes s1 = totalRedBytes s"
    using red_int_account [OF safe nf, of "s\<lparr>rs_wl := w\<rparr>" leaf
        "LoadSpy_account leaf (booked n sam) cur sam wpt" cfg "booked n sam"] 1(2,3) by auto
  have "LoadSpy_OnWP cfg cur sam wpt s = Inr (rs_finish sam (rs_watched s1))"
    using assms(2,4,5,10) leaf 1(1) 2(1) o by (auto simp: LoadSpy_OnWP_def bad_offsets_def)
  then show ?thesis using 2(2) by (simp add: rs_finish_def rs_watched_def split: if_splits)
qed

theorem LoadSpy_books_hit_witness:
  "\<exists>s'. LoadSpy_OnWP demo_spy_cfg (demo_event LOAD 7) (demo_event LOAD 9) demo_wpt demo_red
      = Inr (s', WP_DISABLE) \<and> totalRedBytes s' = 10 \<and> rs_totalUsedBytes s' = 1200056"
proof -
  have "overlapBytes (demo_event LOAD 7) (demo_event LOAD 9) demo_wpt = 4"
    using safe_overlap(3) [of "demo_event LOAD 7" "demo_event LOAD 9" demo_wpt] by simp
  then have "\<not> same_bytes (nat (overlapBytes (demo_event LOAD 7) (demo_event LOAD 9) demo_wpt))
      (demo_event LOAD 7) (demo_event LOAD 9)"
    by (simp add: same_bytes_def)
  then show ?thesis
    using LoadSpy_books_hit [of demo_red "demo_event LOAD 7" "demo_event LOAD 9" demo_wpt
        demo_spy_cfg 1 "\<lparr>catchup_num = 0, cur_num = 3, avgDistance = Fin 0\<rparr>"] demo_wl_ok
    by (auto simp: demo_red_def booked_def to_u64_def)
qed

text \<open>With the approximate comparison (always on in the redundant-load detector), a float
  load whose old or new value is a NaN is booked as redundant, whatever the other value is: the
  test against the rate is false on a NaN.\<close>

theorem NaN_counts_as_redundant:
  assumes "floatType cur = ELEM_TYPE_SINGLE"
    and "value_bytes 4 sam second = Inr old" and "value_bytes 4 cur first = Inr new"
    and "fp_decode binary32 old = NaN \<or> fp_decode binary32 new = NaN"
  shows "float_redBytes True cur sam first second = Inr 4"
  using assms by (auto simp: float_redBytes_def float_size_def Let_def)

theorem NaN_counts_as_redundant_witness:
  "float_redBytes True (zero_Event\<lparr>floatType := ELEM_TYPE_SINGLE, valueAtEvent := Some [0, 0, 128, 63]\<rparr>)
     (zero_Event\<lparr>floatType := ELEM_TYPE_SINGLE, valueAtEvent := Some [0, 0, 192, 127]\<rparr>) 0 0 = Inr 4"
proof (rule NaN_counts_as_redundant)
  show "value_bytes 4 (zero_Event\<lparr>floatType := ELEM_TYPE_SINGLE, valueAtEvent := Some [0, 0, 192, 127]\<rparr>) 0
      = Inr 2143289344"
    by (simp add: value_bytes_def rd_le_def)
  show "value_bytes 4 (zero_Event\<lparr>floatType := ELEM_TYPE_SINGLE, valueAtEvent := Some [0, 0, 128, 63]\<rparr>) 0
      = Inr 1065353216"
    by (simp add: value_bytes_def rd_le_def)
  show "fp_decode binary32 2143289344 = NaN \<or> fp_decode binary32 1065353216 = NaN"
    by (simp add: fp_decode_def binary32_def Let_def)
qed simp

section \<open>Sequences of hits\<close>

text \<open>C19: Whatever the order and kind of the accesses, a sequence of hits at sampled addresses
  with the buffers \<open>fixIP\<close> allocates is handled by every detector without a fault, leaves the tree
  mutex free and the tree invariant intact, loses no call path, and touches the entries of no
  other event.\<close>

theorem detectors_handle_hits:
  assumes hs: "\<forall>(cur, sam, wpt) \<in> set hs. safe_hit cur sam wpt"
    and "wl_ok (ds_wl d)" and "\<not> contextTree_mtx (ds_wl d)"
    and "wl_ok (rs_wl r)" and "\<not> contextTree_mtx (rs_wl r)"
    and "cb \<in> {DeadStore_OnWP cfg, FalseSharing_OnWP}"
    and "cb' \<in> {RedSpy_OnWP cfg, LoadSpy_OnWP cfg, DupSpy_OnWP cfg}"
  shows "(\<exists>d'. hits cb hs d = Inr d' \<and> wl_ok (ds_wl d') \<and> \<not> contextTree_mtx (ds_wl d') \<and>
      (\<forall>q ks p. walk (ds_wl d) q ks = Some p \<longrightarrow> walk (ds_wl d') q ks = Some p) \<and>
      (\<forall>e. e \<notin> (\<lambda>(cur, sam, wpt). eventId sam) ` set hs \<longrightarrow>
         eventToContextLeafMap (ds_wl d') e = eventToContextLeafMap (ds_wl d) e)) \<and>
    (\<exists>r'. hits cb' hs r = Inr r' \<and> wl_ok (rs_wl r') \<and> \<not> contextTree_mtx (rs_wl r') \<and>
      (\<forall>q ks p. walk (rs_wl r) q ks = Some p \<longrightarrow> walk (rs_wl r') q ks = Some p) \<and>
      (\<forall>e. e \<notin> (\<lambda>(cur, sam, wpt). eventId sam) ` set hs \<longrightarrow>
         eventToContextLeafMap (rs_wl r') e = eventToContextLeafMap (rs_wl r) e))"
  using assms(6,7) dead_store.hits_keep [OF assms(2,3) hs] false_sharing.hits_keep [OF assms(2,3) hs]
    red_spy.hits_keep [OF assms(4,5) hs] load_spy.hits_keep [OF assms(4,5) hs]
    dup_spy.hits_keep [OF assms(4,5) hs]
  by (elim insertE emptyE) (simp_all only:)

theorem detectors_handle_hits_witness:
  "(\<exists>d'. hits (DeadStore_OnWP demo_spy_cfg) [(demo_event LOAD 1, demo_event STORE 2, demo_wpt),
      (demo_event STORE 3, demo_event STORE 2, demo_wpt)] demo_dead = Inr d' \<and> wl_ok (ds_wl d')) \<and>
   (\<exists>r'. hits (LoadSpy_OnWP demo_spy_cfg) [(demo_event LOAD 1, demo_event STORE 2, demo_wpt),
      (demo_event STORE 3, demo_event STORE 2, demo_wpt)] demo_red = Inr r' \<and> wl_ok (rs_wl r'))"
  using detectors_handle_hits [of "[(demo_event LOAD 1, demo_event STORE 2, demo_wpt),
      (demo_event STORE 3, demo_event STORE 2, demo_wpt)]" demo_dead demo_red
      "DeadStore_OnWP demo_spy_cfg" demo_spy_cfg "LoadSpy_OnWP demo_spy_cfg"] demo_wl_ok
  by (auto simp: demo_dead_def demo_red_def)

section \<open>Addresses that do not overlap\<close>

text \<open>When the hit lies 16 bytes below the sampled address and the trigger still carries the
  sampled address, the callback's overlap test passes although the ranges are disjoint, and the
  byte comparison then reads at offset 16 of the value buffer: for a one-byte access, whose buffer
  has eight bytes, that is out of bounds.\<close>

theorem disjoint_hit_reads_out_of_bounds:
  assumes "wl_ok (rs_wl s)" and "\<not> contextTree_mtx (rs_wl s)"
    and addr: "16 \<le> uint a" "uint a < 2 ^ 62"
    and cur: "data_addr cur = a - 16" "accessLength cur = 1" "valueAtEvent cur = Some b" "length b = 8"
      "accessType cur = STORE" "floatType cur = ELEM_TYPE_UNKNOWN"
    and sam: "data_addr sam = a" "value_ok sam"
    and "INST cfg \<longrightarrow> fixedIP sam = fixedIP cur"
    and leaf: "eventToContextLeafMap (rs_wl s) (eventId sam) = Some leaf"
    and ent: "map_of (propAttrTable (rs_wl s)) leaf = Some n" and "pending_ok n" and "booked n sam \<noteq> 0"
  shows "RedSpy_OnWP cfg cur sam \<lparr>wpt_va = a, wpt_watchLen = 8\<rparr> s = Inl OutOfBounds"
proof -
  let ?wpt = "\<lparr>wpt_va = a, wpt_watchLen = 8\<rparr>"
  have c: "uint (a - 16) = uint a - 16"
    using addr uint_sub_lem [of 16 a] by simp
  have "\<not> ADDRESSES_OVERLAP (a - 16) 1 a 8"
    using ADDRESSES_OVERLAP_interval [of 1 8 "a - 16" a] addr c by simp
  then have va: "trigger_va cur sam ?wpt = a" using cur sam by (simp add: trigger_va_def)
  have ov: "overlapBytes cur sam ?wpt = 1"
    using va cur sam by (simp add: overlapBytes_def GET_OVERLAP_BYTES_def addr_diff_def)
  have h: "same_half (a - 16) a" using addr c by (simp add: same_half_iff)
  have off: "firstOffset cur sam = 16" "secondOffset cur sam = 0"
    using FIRST_OFFSETS [OF h] c cur sam by (simp_all add: firstOffset_def secondOffset_def)
  have nf: "\<not> treat_as_float cur sam 16 0 1" by (simp add: treat_as_float_def cur)
  have "value_bytes (Suc 0) cur 16 = Inl OutOfBounds"
    using cur by (simp add: value_bytes_def rd_le_def)
  then have "int_redBytes 1 cur sam 16 0 0 = Inl OutOfBounds" by simp
  then have acc: "RedSpy_account cfg leaf inc cur sam ?wpt t = Inl OutOfBounds" for inc t
    using nf off ov by (simp add: RedSpy_account_def)
  obtain w where 1: "sample_inc leaf cur sam ((rs_wl s)\<lparr>contextTree_mtx := True\<rparr>) = Inr (w, booked n sam)"
    using locked_sample [OF assms(1) leaf ent assms(16) sam(2)] by blast
  show ?thesis
    using assms(2,13,17) cur leaf 1 off ov acc by (simp add: RedSpy_OnWP_def bad_offsets_def)
qed

theorem disjoint_hit_reads_out_of_bounds_witness:
  "RedSpy_OnWP demo_spy_cfg (demo_event STORE 7\<lparr>data_addr := 4080, accessLength := 1,
      valueAtEvent := Some (replicate 8 7)\<rparr>) (demo_event STORE 7)
     \<lparr>wpt_va = 4096, wpt_watchLen = 8\<rparr> demo_red = Inl OutOfBounds"
  using disjoint_hit_reads_out_of_bounds [of demo_red 4096 "demo_event STORE 7\<lparr>data_addr := 4080,
      accessLength := 1, valueAtEvent := Some (replicate 8 7)\<rparr>" "replicate 8 7" "demo_event STORE 7"
      demo_spy_cfg 1 "\<lparr>catchup_num = 0, cur_num = 3, avgDistance = Fin 0\<rparr>"] demo_wl_ok
  by (simp add: demo_red_def booked_def value_ok_def) (simp add: demo_event_def)

end
