(* ===== verification/Kvm_Agent.thy ===== *)
theory Kvm_Agent
  imports Context_Types
begin

text \<open>
  The agents' breakpoint interface. \<^verbatim>\<open>src/agent/kvmAgent/myagent.cpp\<close>: the two maps that assign each
  breakpoint device one of the four debug registers of its virtual CPU, as \<open>std::map\<close>s read with
  \<open>operator[]\<close> (a missing key is inserted with zeros). \<^verbatim>\<open>src/agent/nativeAgent/myagent.cpp\<close> and the
  Python agent: the same operations as stubs. The hypervisor's functions are parameters; the calls
  made to them are kept in the order made.
\<close>

section \<open>State\<close>

definition HBP_NUM :: nat where "HBP_NUM = 4"

text \<open>What the agent reads of a device.\<close>

record bp_view =
  bv_fd :: int
  bv_is_bp :: bool
  bv_length :: int
  bv_type :: int
  bv_addr :: u64

datatype hv_call = UpdateBP int int int u64 nat | PauseBP int int int nat | ResumeBP int int int nat

text \<open>The functions of \<open>KVMInterface\<close>, pushed by the hypervisor module.\<close>

record hypervisor =
  getVCPU :: int
  hv_updateBP :: "int \<Rightarrow> int \<Rightarrow> int \<Rightarrow> u64 \<Rightarrow> nat \<Rightarrow> bool"
  hv_pauseBP :: "int \<Rightarrow> int \<Rightarrow> int \<Rightarrow> nat \<Rightarrow> bool"
  hv_resumeBP :: "int \<Rightarrow> int \<Rightarrow> int \<Rightarrow> nat \<Rightarrow> bool"
  hv_memory :: "u64 \<Rightarrow> int \<Rightarrow> int \<times> u8 list"

record kvm_agent =
  hyPerfDev :: "hypervisor option"
  deviceVCPUMap :: "int \<rightharpoonup> int"
  VCPUBPdeviceSlotMap :: "int \<rightharpoonup> int list"
  hv_calls :: "hv_call list"

definition kvm_init :: kvm_agent where
  "kvm_init = \<lparr>hyPerfDev = None, deviceVCPUMap = Map.empty, VCPUBPdeviceSlotMap = Map.empty,
     hv_calls = []\<rparr>"

text \<open>\<open>operator[]\<close> on the two maps: the value, and the map with the default inserted.\<close>

definition vcpu_of :: "int \<Rightarrow> kvm_agent \<Rightarrow> int \<times> kvm_agent" where
  "vcpu_of d a = (case deviceVCPUMap a d of Some v \<Rightarrow> (v, a)
     | None \<Rightarrow> (0, a\<lparr>deviceVCPUMap := (deviceVCPUMap a)(d \<mapsto> 0)\<rparr>))"

definition slots_of :: "int \<Rightarrow> kvm_agent \<Rightarrow> int list \<times> kvm_agent" where
  "slots_of v a = (case VCPUBPdeviceSlotMap a v of Some sl \<Rightarrow> (sl, a)
     | None \<Rightarrow> (replicate HBP_NUM 0,
         a\<lparr>VCPUBPdeviceSlotMap := (VCPUBPdeviceSlotMap a)(v \<mapsto> replicate HBP_NUM 0)\<rparr>))"

definition set_slot :: "int \<Rightarrow> nat \<Rightarrow> int \<Rightarrow> kvm_agent \<Rightarrow> kvm_agent" where
  "set_slot v i d a = (let (sl, a) = slots_of v a
     in a\<lparr>VCPUBPdeviceSlotMap := (VCPUBPdeviceSlotMap a)(v \<mapsto> sl[i := d])\<rparr>)"

definition set_vcpu :: "int \<Rightarrow> int \<Rightarrow> kvm_agent \<Rightarrow> kvm_agent" where
  "set_vcpu d v a = a\<lparr>deviceVCPUMap := (deviceVCPUMap a)(d \<mapsto> v)\<rparr>"

definition hv_call :: "hv_call \<Rightarrow> kvm_agent \<Rightarrow> kvm_agent" where
  "hv_call c a = a\<lparr>hv_calls := hv_calls a @ [c]\<rparr>"

text \<open>The loop over the debug registers of a device's virtual CPU for the one it holds.\<close>

definition find_slot :: "int \<Rightarrow> kvm_agent \<Rightarrow> nat option \<times> kvm_agent" where
  "find_slot d a = (let (v, a) = vcpu_of d a; (sl, a) = slots_of v a
     in (scan_list (\<lambda>x. x = d) 0 sl, a))"

section \<open>Operations\<close>

definition kvm_updateBPAddress ::
  "int \<Rightarrow> int \<Rightarrow> int \<Rightarrow> u64 \<Rightarrow> kvm_agent \<Rightarrow> kvm_agent \<times> bool" where
  "kvm_updateBPAddress deviceId len bpType addr a =
     (case hyPerfDev a of
        None \<Rightarrow> (a, False)
      | Some hv \<Rightarrow>
          let (v, a) = vcpu_of deviceId a
          in if v \<noteq> -1
             then (case find_slot deviceId a of
                     (Some breakno, a) \<Rightarrow>
                       (hv_call (UpdateBP v len bpType addr breakno) a, hv_updateBP hv v len bpType addr breakno)
                   | (None, a) \<Rightarrow> (a, False))
             else (a, False))"

text \<open>
  Registering: the first breakpoint device of a virtual CPU takes register 0 and marks the others
  free, a later one takes the first free register or is marked as having none.
\<close>

definition kvm_registerDevice :: "bp_view \<Rightarrow> kvm_agent \<Rightarrow> kvm_agent" where
  "kvm_registerDevice d a =
     (case hyPerfDev a of
        None \<Rightarrow> a
      | Some hv \<Rightarrow>
          let fd = bv_fd d; v = getVCPU hv; a = set_vcpu fd v a
          in if bv_is_bp d
             then (case VCPUBPdeviceSlotMap a v of
                     None \<Rightarrow>
                       let a = set_slot v 0 fd a;
                           a = fold (\<lambda>i. set_slot v i (-1)) [1..<HBP_NUM] a
                       in fst (kvm_updateBPAddress fd (bv_length d) (bv_type d) (bv_addr d) a)
                   | Some sl \<Rightarrow>
                       (case scan_list (\<lambda>x. x = -1) 0 (take HBP_NUM sl) of
                          None \<Rightarrow> set_vcpu fd (-1) a
                        | Some breakno \<Rightarrow>
                            fst (kvm_updateBPAddress fd (bv_length d) (bv_type d) (bv_addr d)
                                   (set_slot v breakno fd a))))
             else a)"

definition clear_slot :: "int \<Rightarrow> nat \<Rightarrow> kvm_agent \<Rightarrow> kvm_agent" where
  "clear_slot fd i a = (let (v, a) = vcpu_of fd a; (sl, a) = slots_of v a
     in if sl ! i = fd then set_slot v i (-1) a else a)"

definition kvm_unRegisterDevice :: "bp_view \<Rightarrow> kvm_agent \<Rightarrow> kvm_agent" where
  "kvm_unRegisterDevice d a =
     set_vcpu (bv_fd d) (-1) (if bv_is_bp d then fold (clear_slot (bv_fd d)) [0..<HBP_NUM] a else a)"

definition kvm_pauseDevice :: "bp_view \<Rightarrow> kvm_agent \<Rightarrow> kvm_agent \<times> bool" where
  "kvm_pauseDevice d a =
     (case hyPerfDev a of
        None \<Rightarrow> (a, False)
      | Some hv \<Rightarrow>
          let (v, a) = vcpu_of (bv_fd d) a
          in if v \<noteq> -1
             then (case find_slot (bv_fd d) a of
                     (Some breakno, a) \<Rightarrow>
                       (hv_call (PauseBP v (bv_length d) (bv_type d) breakno) a,
                        hv_pauseBP hv v (bv_length d) (bv_type d) breakno)
                   | (None, a) \<Rightarrow> (a, False))
             else (a, False))"

definition kvm_resumeDevice :: "bp_view \<Rightarrow> kvm_agent \<Rightarrow> kvm_agent \<times> bool" where
  "kvm_resumeDevice d a =
     (case hyPerfDev a of
        None \<Rightarrow> (a, False)
      | Some hv \<Rightarrow>
          let (v, a) = vcpu_of (bv_fd d) a
          in if v \<noteq> -1
             then (case find_slot (bv_fd d) a of
                     (Some breakno, a) \<Rightarrow>
                       (hv_call (ResumeBP v (bv_length d) (bv_type d) breakno) a,
                        hv_resumeBP hv v (bv_length d) (bv_type d) breakno)
                   | (None, a) \<Rightarrow> (a, False))
             else (a, False))"

definition kvm_getValueAtAddress :: "u64 \<Rightarrow> int \<Rightarrow> kvm_agent \<Rightarrow> int \<times> u8 list" where
  "kvm_getValueAtAddress gpa len a =
     (case hyPerfDev a of None \<Rightarrow> (-1, []) | Some hv \<Rightarrow> hv_memory hv gpa len)"

definition set_hyPerfDev :: "hypervisor option \<Rightarrow> kvm_agent \<Rightarrow> kvm_agent" where
  "set_hyPerfDev hv a = a\<lparr>hyPerfDev := hv\<rparr>"

text \<open>The native and Python agents.\<close>

definition native_updateBPAddress :: "int \<Rightarrow> int \<Rightarrow> int \<Rightarrow> u64 \<Rightarrow> unit \<Rightarrow> unit \<times> bool" where
  "native_updateBPAddress deviceId len bpType addr a = (a, False)"

definition native_registerDevice :: "bp_view \<Rightarrow> unit \<Rightarrow> unit" where
  "native_registerDevice d a = a"

definition native_unRegisterDevice :: "bp_view \<Rightarrow> unit \<Rightarrow> unit" where
  "native_unRegisterDevice d a = a"

definition native_pauseDevice :: "bp_view \<Rightarrow> unit \<Rightarrow> unit \<times> bool" where
  "native_pauseDevice d a = (a, False)"

definition native_resumeDevice :: "bp_view \<Rightarrow> unit \<Rightarrow> unit \<times> bool" where
  "native_resumeDevice d a = (a, False)"

definition native_getValueAtAddress :: "u64 \<Rightarrow> int \<Rightarrow> unit \<Rightarrow> int \<times> u8 list" where
  "native_getValueAtAddress addr len a = (-1, [])"

section \<open>Invariant\<close>

text \<open>
  Every virtual CPU has four registers; a register that is not free holds a file descriptor
  (at least 1) of a device that is mapped to this CPU and that holds no other register. The key
  \<open>-1\<close> stands for no CPU: unregistering a device without a register inserts a row for it.
\<close>

definition slots_ok :: "kvm_agent \<Rightarrow> int \<Rightarrow> int list \<Rightarrow> bool" where
  "slots_ok a v sl \<longleftrightarrow> length sl = HBP_NUM \<and>
     (\<forall>x \<in> set sl. x \<noteq> -1 \<longrightarrow> 1 \<le> x \<and> deviceVCPUMap a x = Some v) \<and>
     distinct (filter (\<lambda>x. x \<noteq> -1) sl)"

definition kvm_ok :: "kvm_agent \<Rightarrow> bool" where
  "kvm_ok a \<longleftrightarrow> (\<forall>v sl. 0 \<le> v \<longrightarrow> VCPUBPdeviceSlotMap a v = Some sl \<longrightarrow> slots_ok a v sl)"

definition holds :: "kvm_agent \<Rightarrow> int \<Rightarrow> int \<Rightarrow> nat \<Rightarrow> bool" where
  "holds a d v i \<longleftrightarrow> 0 \<le> v \<and> (case VCPUBPdeviceSlotMap a v of None \<Rightarrow> False
     | Some sl \<Rightarrow> i < length sl \<and> sl ! i = d)"

definition unheld :: "kvm_agent \<Rightarrow> int \<Rightarrow> bool" where
  "unheld a d \<longleftrightarrow> (\<forall>v sl. 0 \<le> v \<longrightarrow> VCPUBPdeviceSlotMap a v = Some sl \<longrightarrow> d \<notin> set sl)"

lemma kvm_init_ok: "kvm_ok kvm_init"
  by (simp add: kvm_ok_def kvm_init_def)

lemma vcpu_of_Some [simp]: "deviceVCPUMap a d = Some v \<Longrightarrow> vcpu_of d a = (v, a)"
  by (simp add: vcpu_of_def)

lemma slots_of_Some [simp]: "VCPUBPdeviceSlotMap a v = Some sl \<Longrightarrow> slots_of v a = (sl, a)"
  by (simp add: slots_of_def)

lemma set_vcpu_simps [simp]:
  "deviceVCPUMap (set_vcpu d v a) = (deviceVCPUMap a)(d \<mapsto> v)"
  "VCPUBPdeviceSlotMap (set_vcpu d v a) = VCPUBPdeviceSlotMap a"
  "hyPerfDev (set_vcpu d v a) = hyPerfDev a" "hv_calls (set_vcpu d v a) = hv_calls a"
  by (simp_all add: set_vcpu_def)

lemma hv_call_simps [simp]:
  "deviceVCPUMap (hv_call c a) = deviceVCPUMap a"
  "VCPUBPdeviceSlotMap (hv_call c a) = VCPUBPdeviceSlotMap a"
  "hyPerfDev (hv_call c a) = hyPerfDev a" "hv_calls (hv_call c a) = hv_calls a @ [c]"
  by (simp_all add: hv_call_def)

lemma set_slot_Some:
  "VCPUBPdeviceSlotMap a v = Some sl \<Longrightarrow>
     set_slot v i d a = a\<lparr>VCPUBPdeviceSlotMap := (VCPUBPdeviceSlotMap a)(v \<mapsto> sl[i := d])\<rparr>"
  by (simp add: set_slot_def)

text \<open>The scan finds the register a device holds.\<close>

lemma scan_first:
  assumes "i < length sl" and "sl ! i = d" and "\<forall>j < length sl. sl ! j = d \<longrightarrow> j = i"
  shows "scan_list (\<lambda>x. x = d) 0 sl = Some i"
proof (cases "scan_list (\<lambda>x. x = d) 0 sl")
  case None
  with assms(1,2) show ?thesis by (auto simp: scan_list_None)
next
  case (Some k)
  from scan_listE [OF this] assms(3) show ?thesis using Some by auto
qed

lemma filter_distinct_nth:
  assumes "distinct (filter P xs)" and "i < length xs" and "j < length xs" and "xs ! i = xs ! j"
    and "P (xs ! i)"
  shows "i = j"
  using assms
proof (induction xs arbitrary: i j)
  case Nil
  then show ?case by simp
next
  case (Cons x xs)
  show ?case
  proof (cases i; cases j)
    fix i' j'
    assume "i = Suc i'" "j = Suc j'"
    with Cons show ?thesis by (auto split: if_splits)
  qed (use Cons.prems in \<open>auto split: if_splits simp: nth_mem\<close>)
qed

lemma holds_iff:
  "holds a d v i \<longleftrightarrow> 0 \<le> v \<and> (\<exists>sl. VCPUBPdeviceSlotMap a v = Some sl \<and> i < length sl \<and> sl ! i = d)"
  by (simp add: holds_def split: option.splits)

lemma held_unique:
  assumes "kvm_ok a" and "holds a d v i" and "d \<noteq> -1"
  shows "deviceVCPUMap a d = Some v \<and> (\<forall>w j. holds a d w j \<longrightarrow> w = v \<and> j = i)"
proof -
  have own: "deviceVCPUMap a d = Some w" if "holds a d w j" for w j
    using that assms(1,3) by (auto simp: holds_def kvm_ok_def slots_ok_def split: option.splits)
  have "j = i" if j: "holds a d v j" for j
  proof -
    obtain sl where sl: "VCPUBPdeviceSlotMap a v = Some sl" "i < length sl" "sl ! i = d"
        "j < length sl" "sl ! j = d"
      using assms(2) j by (auto simp: holds_def split: option.splits)
    have "0 \<le> v" using j by (simp add: holds_def)
    then have "distinct (filter (\<lambda>x. x \<noteq> -1) sl)" using assms(1) sl(1) by (simp add: kvm_ok_def slots_ok_def)
    moreover have "sl ! j = sl ! i" using sl(3,5) by simp
    moreover have "sl ! j \<noteq> -1" using sl(5) assms(3) by simp
    ultimately show ?thesis using filter_distinct_nth [of "\<lambda>x. x \<noteq> -1" sl j i] sl(2,4) by blast
  qed
  note eq = this
  have v: "deviceVCPUMap a d = Some v" by (rule own [OF assms(2)])
  have "w = v \<and> j = i" if h: "holds a d w j" for w j
  proof -
    have "w = v" using own [OF h] v by simp
    with h eq show ?thesis by simp
  qed
  with v show ?thesis by blast
qed

lemma find_slot_held:
  assumes ok: "kvm_ok a" and h: "holds a d v i" and d: "d \<noteq> -1"
  shows "find_slot d a = (Some i, a)"
proof -
  note u = held_unique [OF ok h d]
  obtain sl where sl: "VCPUBPdeviceSlotMap a v = Some sl" "i < length sl" "sl ! i = d"
    using h by (auto simp: holds_def split: option.splits)
  have "0 \<le> v" using h by (simp add: holds_def)
  then have "\<forall>j < length sl. sl ! j = d \<longrightarrow> j = i" using u sl(1) unfolding holds_iff by blast
  from scan_first [OF sl(2,3) this] show ?thesis using u sl(1) by (simp add: find_slot_def)
qed

section \<open>Registering\<close>

lemma slots_ok_update:
  assumes ok: "slots_ok a v sl" and i: "i < length sl" "sl ! i = -1" and d: "1 \<le> d" "d \<notin> set sl"
    and m: "deviceVCPUMap a' d = Some v" "\<And>x. x \<noteq> d \<Longrightarrow> deviceVCPUMap a' x = deviceVCPUMap a x"
  shows "slots_ok a' v (sl[i := d])"
proof -
  have sp: "sl = take i sl @ (-1) # drop (Suc i) sl" using i by (metis id_take_nth_drop)
  have up: "sl[i := d] = take i sl @ d # drop (Suc i) sl" using i(1) by (simp add: upd_conv_take_nth_drop)
  have "distinct (filter (\<lambda>x. x \<noteq> -1) (take i sl @ (-1) # drop (Suc i) sl))"
    using ok sp by (simp add: slots_ok_def)
  moreover have "d \<notin> set (take i sl) \<union> set (drop (Suc i) sl)"
    using d(2) by (meson UnE in_set_dropD in_set_takeD)
  ultimately have "distinct (filter (\<lambda>x. x \<noteq> -1) (sl[i := d]))" using d(1) unfolding up by auto
  moreover have "\<forall>x \<in> set (sl[i := d]). x \<noteq> -1 \<longrightarrow> 1 \<le> x \<and> deviceVCPUMap a' x = Some v"
  proof (intro ballI impI)
    fix x
    assume x: "x \<in> set (sl[i := d])" "x \<noteq> -1"
    show "1 \<le> x \<and> deviceVCPUMap a' x = Some v"
    proof (cases "x = d")
      case True
      with d(1) m(1) show ?thesis by simp
    next
      case False
      with x have "x \<in> set sl" using set_update_subset_insert [of sl i d] by auto
      with ok x(2) m(2) [OF False] show ?thesis by (simp add: slots_ok_def)
    qed
  qed
  ultimately show ?thesis using ok by (simp add: slots_ok_def)
qed

lemma kvm_ok_other_device:
  assumes "kvm_ok a" and "unheld a d" and "deviceVCPUMap a' = (deviceVCPUMap a)(d \<mapsto> w)"
    and "0 \<le> v" and "VCPUBPdeviceSlotMap a v = Some sl"
  shows "slots_ok a' v sl"
  using assms by (auto simp: kvm_ok_def slots_ok_def unheld_def)

lemma update_held:
  assumes "kvm_ok a" and "holds a fd v i" and "1 \<le> fd" and "0 \<le> v" and "hyPerfDev a = Some hv"
  shows "kvm_updateBPAddress fd len ty addr a =
    (hv_call (UpdateBP v len ty addr i) a, hv_updateBP hv v len ty addr i)"
  using held_unique [OF assms(1,2)] find_slot_held [OF assms(1,2)] assms(3-5)
  by (simp add: kvm_updateBPAddress_def)

lemma kvm_ok_hv_call [simp]: "kvm_ok (hv_call c a) = kvm_ok a"
  by (simp add: kvm_ok_def slots_ok_def)

lemma first_register:
  assumes ok: "kvm_ok a" and hv: "hyPerfDev a = Some hv" "getVCPU hv = v" "0 \<le> v" and bp: "bv_is_bp d"
    and fd: "1 \<le> bv_fd d" "unheld a (bv_fd d)" and none: "VCPUBPdeviceSlotMap a v = None"
  shows "kvm_ok (kvm_registerDevice d a)"
    and "VCPUBPdeviceSlotMap (kvm_registerDevice d a) =
      (VCPUBPdeviceSlotMap a)(v \<mapsto> [bv_fd d, -1, -1, -1])"
    and "hv_calls (kvm_registerDevice d a) =
      hv_calls a @ [UpdateBP v (bv_length d) (bv_type d) (bv_addr d) 0]"
    and "deviceVCPUMap (kvm_registerDevice d a) = (deviceVCPUMap a)(bv_fd d \<mapsto> v)"
    and "hyPerfDev (kvm_registerDevice d a) = hyPerfDev a"
proof -
  let ?fd = "bv_fd d" and ?a = "set_vcpu (bv_fd d) v a"
  let ?b = "?a\<lparr>VCPUBPdeviceSlotMap := (VCPUBPdeviceSlotMap a)(v \<mapsto> [?fd, -1, -1, -1])\<rparr>"
  have b: "fold (\<lambda>i. set_slot v i (-1)) [1..<HBP_NUM] (set_slot v 0 ?fd ?a) = ?b"
    using none by (simp add: HBP_NUM_def set_slot_def slots_of_def numeral_Bit0 upt_rec)
  have okb: "kvm_ok ?b"
    unfolding kvm_ok_def
  proof (intro allI impI)
    fix u sl
    assume u0: "0 \<le> u" and u: "VCPUBPdeviceSlotMap ?b u = Some sl"
    show "slots_ok ?b u sl"
    proof (cases "u = v")
      case True
      with u hv fd show ?thesis by (auto simp: slots_ok_def HBP_NUM_def)
    next
      case False
      with u u0 show ?thesis by (intro kvm_ok_other_device [OF ok fd(2)]) (simp_all split: if_splits)
    qed
  qed
  have h: "holds ?b ?fd v 0" using hv(3) by (simp add: holds_def)
  have "kvm_registerDevice d a = hv_call (UpdateBP v (bv_length d) (bv_type d) (bv_addr d) 0) ?b"
    using hv bp none b update_held [OF okb h fd(1) hv(3)] by (simp add: kvm_registerDevice_def Let_def)
  then show "kvm_ok (kvm_registerDevice d a)"
    and "VCPUBPdeviceSlotMap (kvm_registerDevice d a) =
      (VCPUBPdeviceSlotMap a)(v \<mapsto> [bv_fd d, -1, -1, -1])"
    and "hv_calls (kvm_registerDevice d a) =
      hv_calls a @ [UpdateBP v (bv_length d) (bv_type d) (bv_addr d) 0]"
    and "deviceVCPUMap (kvm_registerDevice d a) = (deviceVCPUMap a)(bv_fd d \<mapsto> v)"
    and "hyPerfDev (kvm_registerDevice d a) = hyPerfDev a"
    using okb by simp_all
qed

lemma later_register:
  assumes ok: "kvm_ok a" and hv: "hyPerfDev a = Some hv" "getVCPU hv = v" "0 \<le> v" and bp: "bv_is_bp d"
    and fd: "1 \<le> bv_fd d" "unheld a (bv_fd d)" and some: "VCPUBPdeviceSlotMap a v = Some sl"
    and free: "-1 \<in> set sl"
  shows "\<exists>i < HBP_NUM. sl ! i = -1 \<and> kvm_ok (kvm_registerDevice d a) \<and>
    VCPUBPdeviceSlotMap (kvm_registerDevice d a) = (VCPUBPdeviceSlotMap a)(v \<mapsto> sl[i := bv_fd d]) \<and>
    hv_calls (kvm_registerDevice d a) =
      hv_calls a @ [UpdateBP v (bv_length d) (bv_type d) (bv_addr d) i] \<and>
    deviceVCPUMap (kvm_registerDevice d a) = (deviceVCPUMap a)(bv_fd d \<mapsto> v) \<and>
    hyPerfDev (kvm_registerDevice d a) = hyPerfDev a"
proof -
  let ?fd = "bv_fd d" and ?a = "set_vcpu (bv_fd d) v a"
  have slok: "slots_ok a v sl" using ok some hv(3) by (simp add: kvm_ok_def)
  then have len: "length sl = HBP_NUM" by (simp add: slots_ok_def)
  have "scan_list (\<lambda>x. x = -1) 0 sl \<noteq> None" using free by (auto simp: scan_list_None)
  then obtain i where i: "scan_list (\<lambda>x. x = -1) 0 sl = Some i" by auto
  note iv = scan_listE(1,2) [OF i]
  let ?b = "?a\<lparr>VCPUBPdeviceSlotMap := (VCPUBPdeviceSlotMap a)(v \<mapsto> sl[i := ?fd])\<rparr>"
  have b: "set_slot v i ?fd ?a = ?b" using some by (simp add: set_slot_Some)
  have okb: "kvm_ok ?b"
    unfolding kvm_ok_def
  proof (intro allI impI)
    fix u sl'
    assume u0: "0 \<le> u" and u: "VCPUBPdeviceSlotMap ?b u = Some sl'"
    show "slots_ok ?b u sl'"
    proof (cases "u = v")
      case True
      have "slots_ok ?b v (sl[i := ?fd])"
        using fd some hv(3) by (intro slots_ok_update [OF slok iv]) (simp_all add: unheld_def)
      with True u hv(3) show ?thesis by simp
    next
      case False
      with u u0 show ?thesis by (intro kvm_ok_other_device [OF ok fd(2)]) (simp_all split: if_splits)
    qed
  qed
  have h: "holds ?b ?fd v i" using iv(1) hv(3) by (simp add: holds_def)
  have "kvm_registerDevice d a = hv_call (UpdateBP v (bv_length d) (bv_type d) (bv_addr d) i) ?b"
    using hv bp some i b len update_held [OF okb h fd(1) hv(3)] by (simp add: kvm_registerDevice_def Let_def)
  with okb iv len show ?thesis by auto
qed

lemma full_register:
  assumes ok: "kvm_ok a" and hv: "hyPerfDev a = Some hv" "getVCPU hv = v" and bp: "bv_is_bp d"
    and fd: "unheld a (bv_fd d)" and some: "VCPUBPdeviceSlotMap a v = Some sl"
    and full: "-1 \<notin> set sl"
  shows "kvm_registerDevice d a = set_vcpu (bv_fd d) (-1) (set_vcpu (bv_fd d) v a)"
    and "kvm_ok (kvm_registerDevice d a)"
proof -
  have "scan_list (\<lambda>x. x = -1) 0 (take HBP_NUM sl) = None"
    using full by (auto simp: scan_list_None dest: in_set_takeD)
  then show r: "kvm_registerDevice d a = set_vcpu (bv_fd d) (-1) (set_vcpu (bv_fd d) v a)"
    using hv bp some by (simp add: kvm_registerDevice_def Let_def)
  show "kvm_ok (kvm_registerDevice d a)"
    unfolding kvm_ok_def
  proof (intro allI impI)
    fix u sl'
    assume u: "0 \<le> u" and "VCPUBPdeviceSlotMap (kvm_registerDevice d a) u = Some sl'"
    then have "VCPUBPdeviceSlotMap a u = Some sl'" by (simp add: r)
    with u show "slots_ok (kvm_registerDevice d a) u sl'"
      by (intro kvm_ok_other_device [OF ok fd, of _ "-1"]) (simp_all add: r)
  qed
qed

section \<open>Unregistering\<close>

definition freed :: "int \<Rightarrow> int list \<Rightarrow> int list" where
  "freed d = map (\<lambda>x. if x = d then -1 else x)"

lemma clear_fold:
  assumes "deviceVCPUMap a fd = Some v" and "VCPUBPdeviceSlotMap a v = Some sl"
  shows "n \<le> length sl \<Longrightarrow> fold (clear_slot fd) [0..<n] a = a\<lparr>VCPUBPdeviceSlotMap :=
    (VCPUBPdeviceSlotMap a)(v \<mapsto> freed fd (take n sl) @ drop n sl)\<rparr>"
proof (induction n)
  case 0
  then show ?case using assms by (simp add: freed_def fun_upd_idem)
next
  case (Suc n)
  let ?sl = "freed fd (take n sl) @ drop n sl"
  have nth: "?sl ! n = sl ! n" using Suc.prems by (simp add: freed_def nth_append)
  have "freed fd (take (Suc n) sl) @ drop (Suc n) sl = (if sl ! n = fd then ?sl[n := -1] else ?sl)"
    using Suc.prems by (auto simp: freed_def take_Suc_conv_app_nth list_update_append
        Cons_nth_drop_Suc [symmetric])
  note step = this
  let ?b = "a\<lparr>VCPUBPdeviceSlotMap := (VCPUBPdeviceSlotMap a)(v \<mapsto> ?sl)\<rparr>"
  have "fold (clear_slot fd) [0..<Suc n] a = clear_slot fd n ?b"
    using Suc by (simp del: fun_upd_apply)
  also have "\<dots> = (if sl ! n = fd then set_slot v n (-1) ?b else ?b)"
    using assms(1) nth by (simp add: clear_slot_def)
  also have "\<dots> = a\<lparr>VCPUBPdeviceSlotMap := (VCPUBPdeviceSlotMap a)
      (v \<mapsto> freed fd (take (Suc n) sl) @ drop (Suc n) sl)\<rparr>"
  proof -
    have "VCPUBPdeviceSlotMap ?b v = Some ?sl" by simp
    from set_slot_Some [OF this, of n "-1"] show ?thesis
      unfolding step by (simp del: fun_upd_apply)
  qed
  finally show ?case .
qed

lemma unregister_held:
  assumes "bv_is_bp d" and "deviceVCPUMap a (bv_fd d) = Some v" and "VCPUBPdeviceSlotMap a v = Some sl"
    and "length sl = HBP_NUM"
  shows "kvm_unRegisterDevice d a = set_vcpu (bv_fd d) (-1)
    (a\<lparr>VCPUBPdeviceSlotMap := (VCPUBPdeviceSlotMap a)(v \<mapsto> freed (bv_fd d) sl)\<rparr>)"
  using clear_fold [OF assms(2,3), of HBP_NUM] assms(1,4) by (simp add: kvm_unRegisterDevice_def)

lemma freed_unheld: "d \<notin> set sl \<Longrightarrow> freed d sl = sl"
  by (induction sl) (auto simp: freed_def)

lemma freed_update: "d \<notin> set sl \<Longrightarrow> i < length sl \<Longrightarrow> sl ! i = -1 \<Longrightarrow> freed d (sl[i := d]) = sl"
  unfolding freed_def map_update using freed_unheld [of d sl] by (simp add: freed_def list_update_same_conv)

section \<open>Properties\<close>

text \<open>C27: Registering a breakpoint device gives it a debug register of its virtual CPU that was
  free, programs exactly that register, and touches no other; when all four are taken the device
  is marked as having none and the hypervisor is not called. Every register keeps at most one
  device and every device at most one register.\<close>

theorem kvm_register_assigns_free_slot:
  assumes ok: "kvm_ok a" and hv: "hyPerfDev a = Some hv" "getVCPU hv = v" "0 \<le> v" and bp: "bv_is_bp d"
    and fd: "1 \<le> bv_fd d" "unheld a (bv_fd d)"
  shows "kvm_ok (kvm_registerDevice d a) \<and>
    (case VCPUBPdeviceSlotMap a v of
       None \<Rightarrow> holds (kvm_registerDevice d a) (bv_fd d) v 0 \<and>
         hv_calls (kvm_registerDevice d a) =
           hv_calls a @ [UpdateBP v (bv_length d) (bv_type d) (bv_addr d) 0]
     | Some sl \<Rightarrow>
         if -1 \<in> set sl
         then \<exists>i < HBP_NUM. sl ! i = -1 \<and>
           VCPUBPdeviceSlotMap (kvm_registerDevice d a) = (VCPUBPdeviceSlotMap a)(v \<mapsto> sl[i := bv_fd d]) \<and>
           hv_calls (kvm_registerDevice d a) =
             hv_calls a @ [UpdateBP v (bv_length d) (bv_type d) (bv_addr d) i]
         else VCPUBPdeviceSlotMap (kvm_registerDevice d a) = VCPUBPdeviceSlotMap a \<and>
           deviceVCPUMap (kvm_registerDevice d a) (bv_fd d) = Some (-1) \<and>
           hv_calls (kvm_registerDevice d a) = hv_calls a)"
proof (cases "VCPUBPdeviceSlotMap a v")
  case None
  then show ?thesis using first_register [OF ok hv bp fd None] hv(3) by (simp add: holds_def)
next
  case (Some sl)
  show ?thesis
  proof (cases "-1 \<in> set sl")
    case True
    with Some later_register [OF ok hv bp fd Some True] show ?thesis by auto
  next
    case False
    with Some full_register [OF ok hv(1,2) bp fd(2) Some False] show ?thesis by simp
  qed
qed

definition demo_hv :: hypervisor where
  "demo_hv = \<lparr>getVCPU = 2, hv_updateBP = (\<lambda>_ _ _ _ _. True), hv_pauseBP = (\<lambda>_ _ _ _. True),
     hv_resumeBP = (\<lambda>_ _ _ _. True), hv_memory = (\<lambda>_ n. (0, replicate (nat n) 0))\<rparr>"

definition demo_bp :: "int \<Rightarrow> bp_view" where
  "demo_bp fd = \<lparr>bv_fd = fd, bv_is_bp = True, bv_length = 4, bv_type = 3, bv_addr = 4096\<rparr>"

definition demo_kvm :: kvm_agent where
  "demo_kvm = kvm_init\<lparr>hyPerfDev := Some demo_hv, deviceVCPUMap := [7 \<mapsto> 2],
     VCPUBPdeviceSlotMap := [2 \<mapsto> [7, -1, -1, -1]]\<rparr>"

lemma demo_kvm_ok: "kvm_ok demo_kvm" "unheld demo_kvm 9"
  by (auto simp: kvm_ok_def slots_ok_def demo_kvm_def kvm_init_def HBP_NUM_def unheld_def
      split: if_splits)

theorem kvm_register_assigns_free_slot_witness:
  "kvm_ok (kvm_registerDevice (demo_bp 9) demo_kvm) \<and>
     length (hv_calls (kvm_registerDevice (demo_bp 9) demo_kvm)) = 1"
  using kvm_register_assigns_free_slot [OF demo_kvm_ok(1), of demo_hv 2 "demo_bp 9"] demo_kvm_ok(2)
  by (auto simp: demo_kvm_def demo_hv_def demo_bp_def kvm_init_def)

text \<open>Unregistering a registered device gives its register back: the registers are as they
  were before it was registered (all free where its virtual CPU was new), and the device is no
  longer mapped to a virtual CPU.\<close>

theorem kvm_unregister_restores:
  assumes ok: "kvm_ok a" and hv: "hyPerfDev a = Some hv" "getVCPU hv = v" "0 \<le> v" and bp: "bv_is_bp d"
    and fd: "1 \<le> bv_fd d" "unheld a (bv_fd d)"
    and room: "\<forall>sl. VCPUBPdeviceSlotMap a v = Some sl \<longrightarrow> -1 \<in> set sl"
  shows "VCPUBPdeviceSlotMap (kvm_unRegisterDevice d (kvm_registerDevice d a)) =
      (VCPUBPdeviceSlotMap a)(v \<mapsto> case VCPUBPdeviceSlotMap a v of None \<Rightarrow> replicate HBP_NUM (-1)
                                   | Some sl \<Rightarrow> sl) \<and>
    deviceVCPUMap (kvm_unRegisterDevice d (kvm_registerDevice d a)) (bv_fd d) = Some (-1)"
proof -
  let ?a = "kvm_registerDevice d a"
  have "\<exists>i sl'. kvm_ok ?a \<and> length sl' = HBP_NUM \<and> i < HBP_NUM \<and> sl' ! i = bv_fd d \<and>
      VCPUBPdeviceSlotMap ?a = (VCPUBPdeviceSlotMap a)(v \<mapsto> sl') \<and>
      freed (bv_fd d) sl' = (case VCPUBPdeviceSlotMap a v of None \<Rightarrow> replicate HBP_NUM (-1) | Some sl \<Rightarrow> sl)"
  proof (cases "VCPUBPdeviceSlotMap a v")
    case None
    then show ?thesis using first_register [OF ok hv bp fd None] fd(1)
      by (intro exI [of _ 0] exI [of _ "[bv_fd d, -1, -1, -1]"]) (simp add: HBP_NUM_def freed_def numeral_eq_Suc)
  next
    case (Some sl)
    have sl: "length sl = HBP_NUM" "bv_fd d \<notin> set sl"
      using ok fd(2) hv(3) Some by (auto simp: kvm_ok_def slots_ok_def unheld_def)
    from room Some have "-1 \<in> set sl" by blast
    from later_register [OF ok hv bp fd Some this] obtain i where "i < HBP_NUM" "sl ! i = -1"
      "kvm_ok ?a" "VCPUBPdeviceSlotMap ?a = (VCPUBPdeviceSlotMap a)(v \<mapsto> sl[i := bv_fd d])" by blast
    with sl freed_update [OF sl(2), of i] Some show ?thesis
      by (intro exI [of _ i] exI [of _ "sl[i := bv_fd d]"]) simp
  qed
  then obtain i sl' where 1: "kvm_ok ?a" "length sl' = HBP_NUM" "i < HBP_NUM" "sl' ! i = bv_fd d"
    "VCPUBPdeviceSlotMap ?a = (VCPUBPdeviceSlotMap a)(v \<mapsto> sl')"
    "freed (bv_fd d) sl' = (case VCPUBPdeviceSlotMap a v of None \<Rightarrow> replicate HBP_NUM (-1) | Some sl \<Rightarrow> sl)"
    by blast
  have "holds ?a (bv_fd d) v i" using 1(2-5) hv(3) by (simp add: holds_def)
  then have "deviceVCPUMap ?a (bv_fd d) = Some v" using held_unique [OF 1(1)] fd(1) by force
  from unregister_held [OF bp this _ 1(2)] 1(5,6) show ?thesis by simp
qed

theorem kvm_unregister_restores_witness:
  "VCPUBPdeviceSlotMap (kvm_unRegisterDevice (demo_bp 9) (kvm_registerDevice (demo_bp 9) demo_kvm)) 2
     = Some [7, -1, -1, -1]"
  using kvm_unregister_restores [OF demo_kvm_ok(1), of demo_hv 2 "demo_bp 9"] demo_kvm_ok(2)
  by (simp add: demo_kvm_def demo_hv_def demo_bp_def kvm_init_def)

text \<open>Pausing or resuming a device that holds a debug register acts on that register of its own
  virtual CPU and on no other, changes no map, and answers what the hypervisor answers.\<close>

theorem kvm_pause_resume_own_slot:
  assumes ok: "kvm_ok a" and hv: "hyPerfDev a = Some hv" and fd: "1 \<le> bv_fd d"
    and h: "holds a (bv_fd d) v i"
  shows "kvm_pauseDevice d a = (hv_call (PauseBP v (bv_length d) (bv_type d) i) a,
      hv_pauseBP hv v (bv_length d) (bv_type d) i) \<and>
    kvm_resumeDevice d a = (hv_call (ResumeBP v (bv_length d) (bv_type d) i) a,
      hv_resumeBP hv v (bv_length d) (bv_type d) i) \<and>
    (\<forall>w j. holds a (bv_fd d) w j \<longrightarrow> w = v \<and> j = i)"
proof -
  have nd: "bv_fd d \<noteq> -1" using fd by simp
  have "0 \<le> v" using h by (simp add: holds_def)
  with held_unique [OF ok h nd] find_slot_held [OF ok h nd] hv show ?thesis
    by (simp add: kvm_pauseDevice_def kvm_resumeDevice_def)
qed

theorem kvm_pause_resume_own_slot_witness:
  "kvm_pauseDevice (demo_bp 7) demo_kvm = (hv_call (PauseBP 2 4 3 0) demo_kvm, True)"
  using kvm_pause_resume_own_slot [OF demo_kvm_ok(1), of demo_hv "demo_bp 7" 2 0]
  by (simp add: demo_kvm_def demo_hv_def demo_bp_def kvm_init_def holds_def)

text \<open>A breakpoint device that is unregistered while no hypervisor is attached (the device was
  never mapped) leaves an all-zero row for virtual CPU 0. No entry of that row is free, so once a
  hypervisor is attached every breakpoint registration on virtual CPU 0 fails.\<close>

theorem kvm_early_unregister_blocks_vcpu0:
  assumes "hyPerfDev a = None" and "deviceVCPUMap a (bv_fd d) = None" and "VCPUBPdeviceSlotMap a 0 = None"
    and "bv_is_bp d" and "1 \<le> bv_fd d" and "getVCPU hv = 0" and "bv_is_bp d'"
  defines "b \<equiv> kvm_unRegisterDevice d (kvm_registerDevice d a)"
  shows "VCPUBPdeviceSlotMap b 0 = Some [0, 0, 0, 0] \<and>
    deviceVCPUMap (kvm_registerDevice d' (set_hyPerfDev (Some hv) b)) (bv_fd d') = Some (-1) \<and>
    hv_calls (kvm_registerDevice d' (set_hyPerfDev (Some hv) b)) = hv_calls a"
proof -
  let ?fd = "bv_fd d"
  let ?c = "a\<lparr>deviceVCPUMap := (deviceVCPUMap a)(?fd \<mapsto> 0),
    VCPUBPdeviceSlotMap := (VCPUBPdeviceSlotMap a)(0 \<mapsto> [0, 0, 0, 0])\<rparr>"
  have z: "replicate HBP_NUM 0 = [0 :: int, 0, 0, 0]" by (simp add: HBP_NUM_def numeral_eq_Suc)
  have r: "kvm_registerDevice d a = a" using assms(1) by (simp add: kvm_registerDevice_def)
  have "clear_slot ?fd 0 a = ?c"
    using assms(2,3,5) by (simp add: clear_slot_def vcpu_of_def slots_of_def z)
  moreover have "clear_slot ?fd i ?c = ?c" if "i < 4" for i
  proof -
    have "[0 :: int, 0, 0, 0] ! i = 0" using that by (simp add: less_Suc_eq numeral_eq_Suc) auto
    then show ?thesis using assms(5) by (simp add: clear_slot_def)
  qed
  ultimately have f: "fold (clear_slot ?fd) [0..<HBP_NUM] a = ?c"
    by (simp add: HBP_NUM_def numeral_eq_Suc del: fun_upd_apply)
  have b: "b = set_vcpu ?fd (-1) ?c"
    unfolding b_def r using assms(4) f by (simp add: kvm_unRegisterDevice_def del: fun_upd_apply)
  then show ?thesis
    using assms(6,7) by (simp add: set_hyPerfDev_def kvm_registerDevice_def Let_def HBP_NUM_def)
qed

theorem kvm_early_unregister_blocks_vcpu0_witness:
  "deviceVCPUMap (kvm_registerDevice (demo_bp 8) (set_hyPerfDev (Some (demo_hv\<lparr>getVCPU := 0\<rparr>))
     (kvm_unRegisterDevice (demo_bp 5) (kvm_registerDevice (demo_bp 5) kvm_init)))) 8 = Some (-1)"
  using kvm_early_unregister_blocks_vcpu0 [of kvm_init "demo_bp 5" "demo_hv\<lparr>getVCPU := 0\<rparr>" "demo_bp 8"]
  by (simp add: kvm_init_def demo_bp_def)

end
