(* ===== verification/Agents.thy ===== *)
theory Agents
  imports Kvm_Agent
begin

text \<open>
  The \<open>Agent\<close> interface (\<^verbatim>\<open>includes/agent/agent.hpp\<close>) as far as devices use it. \<open>agent_ops\<close> is its
  table of virtual functions; \<open>kvm_ops\<close> and \<open>native_ops\<close> are the two implementations. The locale
  \<open>bp_agent\<close> states what the platform relies on: an agent keeps its own invariant, and an operation
  on one device leaves the registration of every other device as it was.
\<close>

section \<open>The interface\<close>

record 'a agent_ops =
  ag_updateBPAddress :: "int \<Rightarrow> int \<Rightarrow> int \<Rightarrow> u64 \<Rightarrow> 'a \<Rightarrow> 'a \<times> bool"
  ag_registerDevice :: "bp_view \<Rightarrow> 'a \<Rightarrow> 'a"
  ag_unRegisterDevice :: "bp_view \<Rightarrow> 'a \<Rightarrow> 'a"
  ag_pauseDevice :: "bp_view \<Rightarrow> 'a \<Rightarrow> 'a \<times> bool"
  ag_resumeDevice :: "bp_view \<Rightarrow> 'a \<Rightarrow> 'a \<times> bool"
  isAgentKVM :: bool
  requestWillBeNotified :: bool

definition kvm_ops :: "kvm_agent agent_ops" where
  "kvm_ops = \<lparr>ag_updateBPAddress = kvm_updateBPAddress, ag_registerDevice = kvm_registerDevice,
     ag_unRegisterDevice = kvm_unRegisterDevice, ag_pauseDevice = kvm_pauseDevice,
     ag_resumeDevice = kvm_resumeDevice, isAgentKVM = True, requestWillBeNotified = True\<rparr>"

definition native_ops :: "unit agent_ops" where
  "native_ops = \<lparr>ag_updateBPAddress = native_updateBPAddress, ag_registerDevice = native_registerDevice,
     ag_unRegisterDevice = native_unRegisterDevice, ag_pauseDevice = native_pauseDevice,
     ag_resumeDevice = native_resumeDevice, isAgentKVM = False, requestWillBeNotified = False\<rparr>"

lemma kvm_ops_simps [simp]:
  "ag_updateBPAddress kvm_ops = kvm_updateBPAddress" "ag_registerDevice kvm_ops = kvm_registerDevice"
  "ag_unRegisterDevice kvm_ops = kvm_unRegisterDevice" "ag_pauseDevice kvm_ops = kvm_pauseDevice"
  "ag_resumeDevice kvm_ops = kvm_resumeDevice" "isAgentKVM kvm_ops" "requestWillBeNotified kvm_ops"
  by (simp_all add: kvm_ops_def)

lemma native_ops_simps [simp]:
  "ag_updateBPAddress native_ops = native_updateBPAddress"
  "ag_registerDevice native_ops = native_registerDevice"
  "ag_unRegisterDevice native_ops = native_unRegisterDevice"
  "ag_pauseDevice native_ops = native_pauseDevice"
  "ag_resumeDevice native_ops = native_resumeDevice"
  "\<not> isAgentKVM native_ops" "\<not> requestWillBeNotified native_ops"
  by (simp_all add: native_ops_def)

text \<open>
  \<open>reg a fd bp\<close>: device \<open>fd\<close>, a breakpoint device when \<open>bp\<close>, is registered with the agent;
  \<open>free a fd\<close>: the agent has given \<open>fd\<close> nothing, so it may be registered.
\<close>

locale bp_agent =
  fixes A :: "'a agent_ops"
    and ainv :: "'a \<Rightarrow> bool"
    and reg :: "'a \<Rightarrow> int \<Rightarrow> bool \<Rightarrow> bool"
    and free :: "'a \<Rightarrow> int \<Rightarrow> bool"
  assumes register_inv: "ainv a \<Longrightarrow> free a (bv_fd d) \<Longrightarrow> 1 \<le> bv_fd d \<Longrightarrow> ainv (ag_registerDevice A d a)"
    and register_reg: "ainv a \<Longrightarrow> free a (bv_fd d) \<Longrightarrow> 1 \<le> bv_fd d \<Longrightarrow>
      reg (ag_registerDevice A d a) (bv_fd d) (bv_is_bp d)"
    and register_other: "ainv a \<Longrightarrow> free a (bv_fd d) \<Longrightarrow> 1 \<le> bv_fd d \<Longrightarrow> x \<noteq> bv_fd d \<Longrightarrow> 1 \<le> x \<Longrightarrow>
      (reg a x b \<longrightarrow> reg (ag_registerDevice A d a) x b) \<and> (free a x \<longrightarrow> free (ag_registerDevice A d a) x)"
    and unregister_inv: "ainv a \<Longrightarrow> reg a (bv_fd d) (bv_is_bp d) \<Longrightarrow> 1 \<le> bv_fd d \<Longrightarrow>
      ainv (ag_unRegisterDevice A d a)"
    and unregister_free: "ainv a \<Longrightarrow> reg a (bv_fd d) (bv_is_bp d) \<Longrightarrow> 1 \<le> bv_fd d \<Longrightarrow>
      free (ag_unRegisterDevice A d a) (bv_fd d)"
    and unregister_other: "ainv a \<Longrightarrow> reg a (bv_fd d) (bv_is_bp d) \<Longrightarrow> 1 \<le> bv_fd d \<Longrightarrow> x \<noteq> bv_fd d \<Longrightarrow> 1 \<le> x \<Longrightarrow>
      (reg a x b \<longrightarrow> reg (ag_unRegisterDevice A d a) x b) \<and> (free a x \<longrightarrow> free (ag_unRegisterDevice A d a) x)"
    and pause_inv: "ainv a \<Longrightarrow> reg a (bv_fd d) True \<Longrightarrow> ainv (fst (ag_pauseDevice A d a))"
    and pause_reg: "ainv a \<Longrightarrow> reg a (bv_fd d) True \<Longrightarrow> reg (fst (ag_pauseDevice A d a)) x b = reg a x b"
    and pause_free: "ainv a \<Longrightarrow> reg a (bv_fd d) True \<Longrightarrow> free (fst (ag_pauseDevice A d a)) x = free a x"
    and resume_inv: "ainv a \<Longrightarrow> reg a (bv_fd d) True \<Longrightarrow> ainv (fst (ag_resumeDevice A d a))"
    and resume_reg: "ainv a \<Longrightarrow> reg a (bv_fd d) True \<Longrightarrow> reg (fst (ag_resumeDevice A d a)) x b = reg a x b"
    and resume_free: "ainv a \<Longrightarrow> reg a (bv_fd d) True \<Longrightarrow> free (fst (ag_resumeDevice A d a)) x = free a x"
    and update_inv: "ainv a \<Longrightarrow> reg a fd True \<Longrightarrow> ainv (fst (ag_updateBPAddress A fd len bt addr a))"
    and update_reg: "ainv a \<Longrightarrow> reg a fd True \<Longrightarrow>
      reg (fst (ag_updateBPAddress A fd len bt addr a)) x b = reg a x b"
    and update_free: "ainv a \<Longrightarrow> reg a fd True \<Longrightarrow>
      free (fst (ag_updateBPAddress A fd len bt addr a)) x = free a x"

interpretation native_agent: bp_agent native_ops "\<lambda>_. True" "\<lambda>_ _ _. True" "\<lambda>_ _. True"
  by unfold_locales simp_all

section \<open>The KVM agent provides it\<close>

text \<open>
  Once a hypervisor is attached: a registered breakpoint device is mapped to no virtual CPU
  (\<open>-1\<close>) or to one whose registers are in the table; another device holds no register.
\<close>

definition kvm_inv :: "kvm_agent \<Rightarrow> bool" where
  "kvm_inv a \<longleftrightarrow> kvm_ok a \<and> (case hyPerfDev a of None \<Rightarrow> False | Some hv \<Rightarrow> 0 \<le> getVCPU hv)"

definition kvm_reg :: "kvm_agent \<Rightarrow> int \<Rightarrow> bool \<Rightarrow> bool" where
  "kvm_reg a fd bp \<longleftrightarrow> (case deviceVCPUMap a fd of None \<Rightarrow> False
     | Some v \<Rightarrow> if bp then v = -1 \<or> 0 \<le> v \<and> VCPUBPdeviceSlotMap a v \<noteq> None else unheld a fd)"

lemma kvm_invE:
  assumes "kvm_inv a"
  obtains hv where "kvm_ok a" and "hyPerfDev a = Some hv" and "0 \<le> getVCPU hv"
  using assms by (auto simp: kvm_inv_def split: option.splits)

text \<open>What registering does to the two maps, whichever branch is taken.\<close>

lemma kvm_register_cases:
  assumes ok: "kvm_ok a" and hv: "hyPerfDev a = Some hv" "0 \<le> getVCPU hv" and fd: "unheld a (bv_fd d)" "1 \<le> bv_fd d"
  obtains (no_bp) "\<not> bv_is_bp d" "kvm_registerDevice d a = set_vcpu (bv_fd d) (getVCPU hv) a"
  | (got) sl' where "bv_is_bp d" "VCPUBPdeviceSlotMap (kvm_registerDevice d a) =
      (VCPUBPdeviceSlotMap a)(getVCPU hv \<mapsto> sl')" "set sl' \<subseteq> {-1, bv_fd d} \<union>
        (case VCPUBPdeviceSlotMap a (getVCPU hv) of None \<Rightarrow> {} | Some sl \<Rightarrow> set sl)"
      "deviceVCPUMap (kvm_registerDevice d a) = (deviceVCPUMap a)(bv_fd d \<mapsto> getVCPU hv)"
      "hyPerfDev (kvm_registerDevice d a) = hyPerfDev a" "kvm_ok (kvm_registerDevice d a)"
  | (full) "bv_is_bp d" "kvm_registerDevice d a = set_vcpu (bv_fd d) (-1) (set_vcpu (bv_fd d) (getVCPU hv) a)"
      "kvm_ok (kvm_registerDevice d a)"
proof (cases "bv_is_bp d")
  case False
  with hv no_bp show ?thesis by (simp add: kvm_registerDevice_def Let_def)
next
  case True
  show ?thesis
  proof (cases "VCPUBPdeviceSlotMap a (getVCPU hv)")
    case None
    note r = first_register [OF ok hv(1) refl hv(2) True fd(2,1) None]
    show ?thesis using got [OF True r(2) _ r(4,5,1)] None by auto
  next
    case (Some sl)
    show ?thesis
    proof (cases "-1 \<in> set sl")
      case t: True
      from later_register [OF ok hv(1) refl hv(2) True fd(2,1) Some t] obtain i where
        i: "VCPUBPdeviceSlotMap (kvm_registerDevice d a) = (VCPUBPdeviceSlotMap a)(getVCPU hv \<mapsto> sl[i := bv_fd d])"
          "kvm_ok (kvm_registerDevice d a)"
          "deviceVCPUMap (kvm_registerDevice d a) = (deviceVCPUMap a)(bv_fd d \<mapsto> getVCPU hv)"
          "hyPerfDev (kvm_registerDevice d a) = hyPerfDev a" by blast
      have "set (sl[i := bv_fd d]) \<subseteq> {-1, bv_fd d} \<union> set sl"
        using set_update_subset_insert [of sl i "bv_fd d"] by auto
      with got [OF True i(1) _ i(3,4,2)] Some show ?thesis by simp
    next
      case False
      from full_register [OF ok hv(1) refl True fd(1) Some False] full [OF True] show ?thesis by simp
    qed
  qed
qed

lemma clear_slots_frame:
  assumes "deviceVCPUMap a fd = Some v"
  shows "deviceVCPUMap (fold (clear_slot fd) is a) = deviceVCPUMap a \<and>
    hyPerfDev (fold (clear_slot fd) is a) = hyPerfDev a \<and>
    (\<forall>u. u \<noteq> v \<longrightarrow> VCPUBPdeviceSlotMap (fold (clear_slot fd) is a) u = VCPUBPdeviceSlotMap a u)"
  using assms
proof (induction "is" arbitrary: a)
  case Nil
  then show ?case by simp
next
  case (Cons i "is")
  have 1: "deviceVCPUMap (clear_slot fd i a) = deviceVCPUMap a"
    "hyPerfDev (clear_slot fd i a) = hyPerfDev a"
    "u \<noteq> v \<Longrightarrow> VCPUBPdeviceSlotMap (clear_slot fd i a) u = VCPUBPdeviceSlotMap a u" for u
    using Cons.prems by (simp_all add: clear_slot_def set_slot_def slots_of_def split: option.splits)
  with Cons.prems have "deviceVCPUMap (clear_slot fd i a) fd = Some v" by simp
  from Cons.IH [OF this] 1 show ?case by simp
qed

lemma kvm_unregister_maps:
  assumes ok: "kvm_ok a" and r: "kvm_reg a (bv_fd d) (bv_is_bp d)"
  shows "deviceVCPUMap (kvm_unRegisterDevice d a) = (deviceVCPUMap a)(bv_fd d \<mapsto> -1)"
    and "hyPerfDev (kvm_unRegisterDevice d a) = hyPerfDev a"
    and "0 \<le> u \<Longrightarrow> VCPUBPdeviceSlotMap (kvm_unRegisterDevice d a) u =
      (if bv_is_bp d \<and> deviceVCPUMap a (bv_fd d) = Some u
       then map_option (freed (bv_fd d)) (VCPUBPdeviceSlotMap a u) else VCPUBPdeviceSlotMap a u)"
proof -
  obtain v where v: "deviceVCPUMap a (bv_fd d) = Some v" using r by (auto simp: kvm_reg_def split: option.splits)
  note f = clear_slots_frame [OF v, of "[0..<HBP_NUM]"]
  show "deviceVCPUMap (kvm_unRegisterDevice d a) = (deviceVCPUMap a)(bv_fd d \<mapsto> -1)"
    and "hyPerfDev (kvm_unRegisterDevice d a) = hyPerfDev a"
    using f by (simp_all add: kvm_unRegisterDevice_def)
  assume u: "0 \<le> u"
  show "VCPUBPdeviceSlotMap (kvm_unRegisterDevice d a) u =
      (if bv_is_bp d \<and> deviceVCPUMap a (bv_fd d) = Some u
       then map_option (freed (bv_fd d)) (VCPUBPdeviceSlotMap a u) else VCPUBPdeviceSlotMap a u)"
  proof (cases "bv_is_bp d \<and> u = v")
    case True
    with r v u obtain sl where sl: "VCPUBPdeviceSlotMap a v = Some sl" by (auto simp: kvm_reg_def)
    then have "length sl = HBP_NUM" using ok True u by (simp add: kvm_ok_def slots_ok_def)
    from unregister_held [OF _ v sl this] True sl v show ?thesis by simp
  next
    case False
    with f v show ?thesis by (auto simp: kvm_unRegisterDevice_def)
  qed
qed

lemma freed_slots_ok:
  assumes "slots_ok a v sl" and "\<And>x. x \<noteq> d \<Longrightarrow> deviceVCPUMap a' x = deviceVCPUMap a x"
  shows "slots_ok a' v (freed d sl)"
proof -
  have "filter (\<lambda>x. x \<noteq> -1) (freed d sl) = filter (\<lambda>x. x \<noteq> d) (filter (\<lambda>x. x \<noteq> -1) sl)"
    by (induction sl) (auto simp: freed_def)
  then have "distinct (filter (\<lambda>x. x \<noteq> -1) (freed d sl))"
    using assms(1) distinct_filter [of "filter (\<lambda>x. x \<noteq> -1) sl"] by (simp only: slots_ok_def)
  with assms show ?thesis by (auto simp: slots_ok_def freed_def split: if_splits)
qed

lemma kvm_unregister_ok:
  assumes ok: "kvm_ok a" and r: "kvm_reg a (bv_fd d) (bv_is_bp d)" and fd: "bv_fd d \<noteq> -1"
  shows "kvm_ok (kvm_unRegisterDevice d a)" and "unheld (kvm_unRegisterDevice d a) (bv_fd d)"
proof -
  note m = kvm_unregister_maps [OF ok r]
  have bp: "bv_is_bp d \<or> unheld a (bv_fd d)" using r by (auto simp: kvm_reg_def split: option.splits if_splits)
  have row: "slots_ok (kvm_unRegisterDevice d a) u sl \<and> bv_fd d \<notin> set sl"
    if u: "0 \<le> u" and sl: "VCPUBPdeviceSlotMap (kvm_unRegisterDevice d a) u = Some sl" for u sl
  proof (cases "bv_is_bp d \<and> deviceVCPUMap a (bv_fd d) = Some u")
    case True
    with sl m(3) [OF u] obtain sl' where s: "VCPUBPdeviceSlotMap a u = Some sl'" "sl = freed (bv_fd d) sl'"
      by auto
    with ok u have "slots_ok a u sl'" by (simp add: kvm_ok_def)
    from freed_slots_ok [OF this, of "bv_fd d" "kvm_unRegisterDevice d a"] m(1) s fd show ?thesis
      by (auto simp: freed_def)
  next
    case False
    with sl m(3) [OF u] have s: "VCPUBPdeviceSlotMap a u = Some sl" by simp
    with ok u have so: "slots_ok a u sl" by (simp add: kvm_ok_def)
    have "bv_fd d \<notin> set sl"
      using False bp s u so fd by (auto simp: unheld_def slots_ok_def)
    with so m(1) show ?thesis by (auto simp: slots_ok_def)
  qed
  then show "kvm_ok (kvm_unRegisterDevice d a)" and "unheld (kvm_unRegisterDevice d a) (bv_fd d)"
    by (auto simp: kvm_ok_def unheld_def)
qed

text \<open>Pausing and resuming a registered breakpoint device change neither map.\<close>

lemma kvm_pause_maps:
  assumes "kvm_reg a (bv_fd d) True"
  shows "VCPUBPdeviceSlotMap (fst (kvm_pauseDevice d a)) = VCPUBPdeviceSlotMap a \<and>
    deviceVCPUMap (fst (kvm_pauseDevice d a)) = deviceVCPUMap a \<and>
    hyPerfDev (fst (kvm_pauseDevice d a)) = hyPerfDev a"
    and "VCPUBPdeviceSlotMap (fst (kvm_resumeDevice d a)) = VCPUBPdeviceSlotMap a \<and>
    deviceVCPUMap (fst (kvm_resumeDevice d a)) = deviceVCPUMap a \<and>
    hyPerfDev (fst (kvm_resumeDevice d a)) = hyPerfDev a"
  using assms by (auto simp: kvm_reg_def kvm_pauseDevice_def kvm_resumeDevice_def find_slot_def
      split: option.splits)

lemma kvm_update_maps:
  assumes "kvm_reg a fd True"
  shows "VCPUBPdeviceSlotMap (fst (kvm_updateBPAddress fd len bt addr a)) = VCPUBPdeviceSlotMap a \<and>
    deviceVCPUMap (fst (kvm_updateBPAddress fd len bt addr a)) = deviceVCPUMap a \<and>
    hyPerfDev (fst (kvm_updateBPAddress fd len bt addr a)) = hyPerfDev a"
  using assms by (auto simp: kvm_reg_def kvm_updateBPAddress_def find_slot_def split: option.splits)

lemma kvm_reg_cong:
  "VCPUBPdeviceSlotMap b = VCPUBPdeviceSlotMap a \<Longrightarrow> deviceVCPUMap b = deviceVCPUMap a \<Longrightarrow>
     hyPerfDev b = hyPerfDev a \<Longrightarrow>
     kvm_reg b x p = kvm_reg a x p \<and> unheld b x = unheld a x \<and> kvm_inv b = kvm_inv a"
  by (auto simp: kvm_reg_def unheld_def kvm_inv_def kvm_ok_def slots_ok_def split: option.splits)

lemma kvm_reg_mono:
  assumes "deviceVCPUMap b x = deviceVCPUMap a x"
    and "\<And>v. 0 \<le> v \<Longrightarrow> VCPUBPdeviceSlotMap a v \<noteq> None \<Longrightarrow> VCPUBPdeviceSlotMap b v \<noteq> None"
    and "unheld a x \<Longrightarrow> unheld b x"
  shows "(kvm_reg a x p \<longrightarrow> kvm_reg b x p) \<and> (unheld a x \<longrightarrow> unheld b x)"
  using assms by (auto simp: kvm_reg_def split: option.splits)

interpretation kvm_agent: bp_agent kvm_ops kvm_inv kvm_reg unheld
proof
  fix a and d :: bp_view assume i: "kvm_inv a" and u: "unheld a (bv_fd d)" and fd: "1 \<le> bv_fd d"
  from i obtain hv where hv: "kvm_ok a" "hyPerfDev a = Some hv" "0 \<le> getVCPU hv" by (rule kvm_invE)
  note r = kvm_register_cases [OF hv u fd]
  show "kvm_inv (ag_registerDevice kvm_ops d a)"
    by (rule r) (use hv u kvm_ok_other_device [OF hv(1) u] in
      \<open>auto simp: kvm_inv_def kvm_ok_def\<close>)
  show "kvm_reg (ag_registerDevice kvm_ops d a) (bv_fd d) (bv_is_bp d)"
    by (rule r) (use hv u in \<open>auto simp: kvm_reg_def unheld_def\<close>)
  fix x b assume x: "x \<noteq> bv_fd d" "1 \<le> x"
  show "(kvm_reg a x b \<longrightarrow> kvm_reg (ag_registerDevice kvm_ops d a) x b) \<and>
      (unheld a x \<longrightarrow> unheld (ag_registerDevice kvm_ops d a) x)"
    by (rule r; simp only: kvm_ops_simps; rule kvm_reg_mono)
      (use x in \<open>auto simp: unheld_def split: option.splits if_splits\<close>)
next
  fix a and d :: bp_view
  assume i: "kvm_inv a" and r: "kvm_reg a (bv_fd d) (bv_is_bp d)" and fd: "1 \<le> bv_fd d"
  from i obtain hv where hv: "kvm_ok a" "hyPerfDev a = Some hv" "0 \<le> getVCPU hv" by (rule kvm_invE)
  have "bv_fd d \<noteq> -1" using fd by simp
  note k = kvm_unregister_ok [OF hv(1) r this] and m = kvm_unregister_maps [OF hv(1) r]
  show "kvm_inv (ag_unRegisterDevice kvm_ops d a)" using k m(2) i by (simp add: kvm_inv_def)
  show "unheld (ag_unRegisterDevice kvm_ops d a) (bv_fd d)" using k by simp
  fix x b assume x: "x \<noteq> bv_fd d" "1 \<le> x"
  show "(kvm_reg a x b \<longrightarrow> kvm_reg (ag_unRegisterDevice kvm_ops d a) x b) \<and>
      (unheld a x \<longrightarrow> unheld (ag_unRegisterDevice kvm_ops d a) x)"
    by (simp only: kvm_ops_simps, rule kvm_reg_mono)
      (use x m in \<open>auto simp: unheld_def freed_def split: option.splits if_splits\<close>)
next
  fix a and d :: bp_view and x b
  assume i: "kvm_inv a" and r: "kvm_reg a (bv_fd d) True"
  note p = kvm_pause_maps [OF r]
  show "kvm_inv (fst (ag_pauseDevice kvm_ops d a))" "kvm_inv (fst (ag_resumeDevice kvm_ops d a))"
    "kvm_reg (fst (ag_pauseDevice kvm_ops d a)) x b = kvm_reg a x b"
    "kvm_reg (fst (ag_resumeDevice kvm_ops d a)) x b = kvm_reg a x b"
    "unheld (fst (ag_pauseDevice kvm_ops d a)) x = unheld a x"
    "unheld (fst (ag_resumeDevice kvm_ops d a)) x = unheld a x"
    using i p kvm_reg_cong [of "fst (kvm_pauseDevice d a)" a] kvm_reg_cong [of "fst (kvm_resumeDevice d a)" a]
    by simp_all
next
  fix a fd len bt addr x b
  assume i: "kvm_inv a" and r: "kvm_reg a fd True"
  note u = kvm_update_maps [OF r, of len bt addr]
  show "kvm_inv (fst (ag_updateBPAddress kvm_ops fd len bt addr a))"
    "kvm_reg (fst (ag_updateBPAddress kvm_ops fd len bt addr a)) x b = kvm_reg a x b"
    "unheld (fst (ag_updateBPAddress kvm_ops fd len bt addr a)) x = unheld a x"
    using i u kvm_reg_cong [of "fst (kvm_updateBPAddress fd len bt addr a)" a] by simp_all
qed

end
