(* ===== verification/Devices.thy ===== *)
theory Devices
  imports Agents "HOL-Library.Product_Lexorder"
begin

text \<open>
  Devices and the state of the platform (\<^verbatim>\<open>src/platform/device\<close>, \<^verbatim>\<open>includes/platform\<close>). A device object
  lives in a heap of devices; the kernel side of a device is its file descriptor: whether it is
  open and whether its counter runs. What the system calls answer is a parameter (\<open>os\<close>), one answer
  per call. The state is an extensible record: the tools add their own state to it.
\<close>

section \<open>Event attributes\<close>

definition EBSDEVICE :: int where "EBSDEVICE = 1"
definition PEBSDEVICE :: int where "PEBSDEVICE = 2"
definition BPDEVICE :: int where "BPDEVICE = 3"
definition MAX_POSSIBLE_DEVICES :: nat where "MAX_POSSIBLE_DEVICES = 128"

record perf_attr =
  pa_type :: int
  pa_size :: int
  pa_config :: int
  pa_sample_period :: int
  pa_sample_type :: int
  pa_read_format :: int
  pa_disabled :: bool
  pa_exclude_user :: bool
  pa_exclude_kernel :: bool
  pa_exclude_hv :: bool
  pa_exclude_host :: bool
  pa_exclude_guest :: bool
  pa_exclude_callchain_user :: bool
  pa_precise_ip :: int
  pa_bp_type :: int
  pa_bp_len :: int
  pa_bp_addr :: u64

definition attr0 :: perf_attr where
  "attr0 = \<lparr>pa_type = 0, pa_size = 0, pa_config = 0, pa_sample_period = 0, pa_sample_type = 0,
     pa_read_format = 0, pa_disabled = False, pa_exclude_user = False, pa_exclude_kernel = False,
     pa_exclude_hv = False, pa_exclude_host = False, pa_exclude_guest = False,
     pa_exclude_callchain_user = False, pa_precise_ip = 0,
     pa_bp_type = 0, pa_bp_len = 0, pa_bp_addr = 0\<rparr>"

text \<open>Build macros, and \<open>sizeof(struct perf_event_attr)\<close> of the headers built with.\<close>

record dev_cfg =
  attr_size :: int
  PEBS_SAMPLING_PERIOD :: "int option"
  PEBS_SAMPLING_L1_LOAD_MISS :: bool
  PEBS_SAMPLING_LLC_LOAD_MISS :: bool

section \<open>Device objects\<close>

text \<open>
  The members of \<open>Device\<close>, \<open>BPDevice\<close> and \<open>PEBSDevice\<close>/\<open>EBSDevice\<close> in one record; \<open>mmapBuffer\<close> tells
  whether the pointer is set. The members a constructor leaves unset start as 0.
\<close>

record device =
  deviceType :: int
  deviceFileId :: int
  dev_sessionId :: int
  mmapBuffer :: bool
  read_head :: int
  isDisabled :: bool
  aType :: AccessType
  bp_length :: int
  bp_type :: int
  bp_address :: u64
  pe_attr :: perf_attr

definition new_BPDevice :: "int \<Rightarrow> int \<Rightarrow> u64 \<Rightarrow> device" where
  "new_BPDevice len bpType addr = \<lparr>deviceType = BPDEVICE, deviceFileId = 0, dev_sessionId = 0,
     mmapBuffer = False, read_head = 0, isDisabled = False, aType = UNKNOWN, bp_length = len,
     bp_type = bpType, bp_address = addr, pe_attr = attr0\<rparr>"

definition new_PEBSDevice :: "AccessType \<Rightarrow> device" where
  "new_PEBSDevice type = (new_BPDevice 0 0 0)\<lparr>deviceType := PEBSDEVICE, aType := type\<rparr>"

definition new_EBSDevice :: device where
  "new_EBSDevice = (new_BPDevice 0 0 0)\<lparr>deviceType := EBSDEVICE, aType := STORE\<rparr>"

text \<open>
  The \<open>registerThisDevice\<close> of the three classes; \<open>kvm\<close> is \<open>isAgentKVM()\<close>. The sample-type and
  read-format bits are those of \<^verbatim>\<open>linux/perf_event.h\<close>, and \<open>dummy[0]\<close>, a global that is never
  written, is 0.
\<close>

definition BP_SAMPLE_TYPE :: int where "BP_SAMPLE_TYPE = 1 + 2 + 8 + 32 + 128"
definition PEBS_SAMPLE_TYPE :: int where "PEBS_SAMPLE_TYPE = 1 + 2 + 8 + 64 + 32 + 128"
definition EBS_SAMPLE_TYPE :: int where "EBS_SAMPLE_TYPE = 1 + 2 + 4 + 128 + 256"

definition BP_registerThisDevice :: "dev_cfg \<Rightarrow> bool \<Rightarrow> device \<Rightarrow> perf_attr \<Rightarrow> perf_attr" where
  "BP_registerThisDevice cfg kvm d attr =
     attr\<lparr>pa_type := 5, pa_size := attr_size cfg, pa_bp_type := bp_type d, pa_bp_len := bp_length d,
       pa_bp_addr := (if kvm then 0 else bp_address d), pa_exclude_user := False,
       pa_exclude_kernel := True, pa_exclude_hv := True, pa_sample_period := 1,
       pa_sample_type := BP_SAMPLE_TYPE, pa_disabled := False, pa_precise_ip := 2\<rparr>"

definition PEBS_registerThisDevice :: "dev_cfg \<Rightarrow> bool \<Rightarrow> device \<Rightarrow> perf_attr \<Rightarrow> perf_attr" where
  "PEBS_registerThisDevice cfg kvm d attr =
     (let attr = attr\<lparr>pa_type := 4, pa_size := attr_size cfg, pa_sample_type := PEBS_SAMPLE_TYPE\<rparr>;
          period = (\<lambda>n. case PEBS_SAMPLING_PERIOD cfg of None \<Rightarrow> n | Some p \<Rightarrow> p);
          attr = (if kvm
                  then attr\<lparr>pa_sample_period := period 10003, pa_exclude_host := True,
                         pa_exclude_user := False, pa_exclude_kernel := False,
                         pa_exclude_hv := False, pa_disabled := True\<rparr>
                  else attr\<lparr>pa_sample_period := period 1000003, pa_exclude_user := False,
                         pa_exclude_kernel := True, pa_exclude_guest := True,
                         pa_exclude_callchain_user := False, pa_disabled := False\<rparr>);
          config = (if aType d = LOAD
                    then (if PEBS_SAMPLING_L1_LOAD_MISS cfg then 0x8d1
                          else if PEBS_SAMPLING_LLC_LOAD_MISS cfg then 0x5320D1 else 0x5381d0)
                    else 0x5382d0)
      in attr\<lparr>pa_config := config, pa_precise_ip := 3, pa_read_format := 8 + 4\<rparr>)"

definition EBS_registerThisDevice :: "dev_cfg \<Rightarrow> device \<Rightarrow> perf_attr \<Rightarrow> perf_attr" where
  "EBS_registerThisDevice cfg d attr =
     attr\<lparr>pa_type := 3, pa_size := attr_size cfg, pa_sample_period := 4000,
       pa_sample_type := EBS_SAMPLE_TYPE, pa_exclude_host := True, pa_disabled := False,
       pa_config := (if aType d = LOAD then 0x10002 else 0x10102), pa_read_format := 8 + 4\<rparr>"

definition registerThisDevice :: "dev_cfg \<Rightarrow> bool \<Rightarrow> device \<Rightarrow> perf_attr \<Rightarrow> perf_attr" where
  "registerThisDevice cfg kvm d attr =
     (if deviceType d = BPDEVICE then BP_registerThisDevice cfg kvm d attr
      else if deviceType d = PEBSDEVICE then PEBS_registerThisDevice cfg kvm d attr
      else EBS_registerThisDevice cfg d attr)"

definition bp_view_of :: "device \<Rightarrow> bp_view" where
  "bp_view_of d = \<lparr>bv_fd = deviceFileId d, bv_is_bp = (deviceType d = BPDEVICE),
     bv_length = bp_length d, bv_type = bp_type d, bv_addr = bp_address d\<rparr>"

section \<open>The state\<close>

text \<open>
  System calls whose failure the code looks at. \<open>os_ok os n c fd\<close> tells whether the \<open>n\<close>th system
  call, \<open>c\<close> on \<open>fd\<close>, succeeds; \<open>perf_event_open\<close>, which also sees the open descriptors, answers a
  descriptor or \<open>-1\<close>.
\<close>

datatype syscall = Mmap | Munmap | SetAsync | Sigaction | SetSig | SetOwn | Close | UpdateBreakpoint

record os =
  perf_event_open :: "nat \<Rightarrow> int set \<Rightarrow> perf_attr \<Rightarrow> int"
  os_ok :: "nat \<Rightarrow> syscall \<Rightarrow> int \<Rightarrow> bool"

text \<open>
  The thread-local variables are functions of the thread id. \<open>deviceMap\<close> and
  \<open>deviceSessionMultiMap\<close> are kept in the iteration order of \<open>std::map\<close> and \<open>std::multimap\<close>.
\<close>

record 'a plat =
  sKey :: int
  eKey :: int
  sessionKey :: "int \<Rightarrow> int"
  inSignalHandler :: "int \<Rightarrow> bool"
  signalUnsafe :: "int \<Rightarrow> bool"
  mallocCount :: int
  deviceMap :: "((int \<times> int) \<times> nat) list"
  deviceSessionMultiMap :: "(int \<times> int) list"
  eventMap :: "int \<rightharpoonup> nat"
  threadSessionMap :: "int \<rightharpoonup> int"
  devicemap_mtx :: bool
  eventmap_mtx :: bool
  threadSessionmap_mtx :: bool
  devs :: "nat \<rightharpoonup> device"
  next_dev :: nat
  open_fds :: "int set"
  running :: "int \<Rightarrow> bool"
  clock :: nat
  agent :: 'a

definition getd :: "nat \<Rightarrow> ('a, 'z) plat_scheme \<Rightarrow> device res" where
  "getd p s = (case devs s p of None \<Rightarrow> Inl NullDeref | Some d \<Rightarrow> Inr d)"

definition setd :: "nat \<Rightarrow> device \<Rightarrow> ('a, 'z) plat_scheme \<Rightarrow> ('a, 'z) plat_scheme" where
  "setd p d s = s\<lparr>devs := (devs s)(p \<mapsto> d)\<rparr>"

definition new_dev :: "device \<Rightarrow> ('a, 'z) plat_scheme \<Rightarrow> ('a, 'z) plat_scheme \<times> nat" where
  "new_dev d s = (s\<lparr>devs := (devs s)(next_dev s \<mapsto> d), next_dev := next_dev s + 1\<rparr>, next_dev s)"

definition sys :: "os \<Rightarrow> syscall \<Rightarrow> int \<Rightarrow> ('a, 'z) plat_scheme \<Rightarrow> ('a, 'z) plat_scheme \<times> bool" where
  "sys os c fd s = (s\<lparr>clock := clock s + 1\<rparr>, os_ok os (clock s) c fd)"

text \<open>\<open>CHECK(x)\<close>: a failing call ends the process.\<close>

definition sys_CHECK :: "os \<Rightarrow> syscall \<Rightarrow> int \<Rightarrow> ('a, 'z) plat_scheme \<Rightarrow> ('a, 'z) plat_scheme res" where
  "sys_CHECK os c fd s = (let (s, ok) = sys os c fd s in if ok then Inr s else Inl (ExitProcess (-1)))"

definition ioc_disable :: "int \<Rightarrow> ('a, 'z) plat_scheme \<Rightarrow> ('a, 'z) plat_scheme" where
  "ioc_disable fd s = (if fd \<in> open_fds s then s\<lparr>running := (running s)(fd := False)\<rparr> else s)"

definition ioc_refresh :: "int \<Rightarrow> ('a, 'z) plat_scheme \<Rightarrow> ('a, 'z) plat_scheme" where
  "ioc_refresh fd s = (if fd \<in> open_fds s then s\<lparr>running := (running s)(fd := True)\<rparr> else s)"

definition close_fd :: "int \<Rightarrow> ('a, 'z) plat_scheme \<Rightarrow> ('a, 'z) plat_scheme" where
  "close_fd fd s = s\<lparr>open_fds := open_fds s - {fd}, running := (running s)(fd := False)\<rparr>"

section \<open>The ordered maps\<close>

definition omap_put :: "int \<times> int \<Rightarrow> nat \<Rightarrow> ((int \<times> int) \<times> nat) list \<Rightarrow> ((int \<times> int) \<times> nat) list" where
  "omap_put k v xs = insort_key fst (k, v) (AList.delete k xs)"

definition equal_range :: "int \<Rightarrow> (int \<times> int) list \<Rightarrow> int list" where
  "equal_range s xs = map snd (filter (\<lambda>e. fst e = s) xs)"

section \<open>Device operations\<close>

definition disable_device :: "'a agent_ops \<Rightarrow> nat \<Rightarrow> ('a, 'z) plat_scheme \<Rightarrow> ('a, 'z) plat_scheme res" where
  "disable_device A p s =
     rbind (getd p s) (\<lambda>d.
       if deviceType d = BPDEVICE
       then (let (a, done) = ag_pauseDevice A (bp_view_of d) (agent s); s = s\<lparr>agent := a\<rparr>
             in Inr (if done then s else ioc_disable (deviceFileId d) s))
       else Inr (ioc_disable (deviceFileId d) s))"

definition enable_device :: "'a agent_ops \<Rightarrow> nat \<Rightarrow> ('a, 'z) plat_scheme \<Rightarrow> ('a, 'z) plat_scheme res" where
  "enable_device A p s =
     rbind (getd p s) (\<lambda>d.
       if deviceType d = BPDEVICE
       then (let (a, done) = ag_resumeDevice A (bp_view_of d) (agent s); s = s\<lparr>agent := a\<rparr>
             in Inr (if done then s else ioc_refresh (deviceFileId d) s))
       else Inr (ioc_refresh (deviceFileId d) s))"

definition start_device :: "nat \<Rightarrow> ('a, 'z) plat_scheme \<Rightarrow> ('a, 'z) plat_scheme res" where
  "start_device p s = rbind (getd p s) (\<lambda>d.
     Inr (ioc_refresh (deviceFileId d) (setd p (d\<lparr>isDisabled := False\<rparr>) s)))"

definition end_device :: "'a agent_ops \<Rightarrow> nat \<Rightarrow> ('a, 'z) plat_scheme \<Rightarrow> ('a, 'z) plat_scheme res" where
  "end_device A p s = rbind (getd p s) (\<lambda>d. disable_device A p (setd p (d\<lparr>isDisabled := True\<rparr>) s))"

definition unRegisterDevice :: "'a agent_ops \<Rightarrow> os \<Rightarrow> nat \<Rightarrow> ('a, 'z) plat_scheme \<Rightarrow> ('a, 'z) plat_scheme res" where
  "unRegisterDevice A os p s =
     rbind (getd p s) (\<lambda>d.
     rbind (sys_CHECK os Munmap (deviceFileId d) s) (\<lambda>s.
     rbind (sys_CHECK os Close (deviceFileId d) s) (\<lambda>s.
       let s = close_fd (deviceFileId d) s;
           d = d\<lparr>mmapBuffer := False, isDisabled := False\<rparr>;
           s = setd p d s
       in Inr (s\<lparr>agent := ag_unRegisterDevice A (bp_view_of d) (agent s)\<rparr>))))"

text \<open>
  Moving a breakpoint: the agent first, then the kernel's fast path (built when the headers define
  \<^verbatim>\<open>FAST_BP_IOC_FLAG\<close>).
\<close>

definition updateBPAddress ::
  "'a agent_ops \<Rightarrow> os \<Rightarrow> dev_cfg \<Rightarrow> bool \<Rightarrow> nat \<Rightarrow> int \<Rightarrow> int \<Rightarrow> u64 \<Rightarrow> ('a, 'z) plat_scheme \<Rightarrow>
    (('a, 'z) plat_scheme \<times> bool) res" where
  "updateBPAddress A os cfg fast p len bpType addr s =
     rbind (getd p s) (\<lambda>d.
       let (a, done) = ag_updateBPAddress A (deviceFileId d) len bpType addr (agent s);
           s = s\<lparr>agent := a\<rparr>;
           d' = d\<lparr>isDisabled := False, bp_length := len, bp_address := addr, bp_type := bpType\<rparr>
       in if done then Inr (setd p d' s, True)
          else let attr = (BP_registerThisDevice cfg (isAgentKVM A) d attr0)
                     \<lparr>pa_bp_len := len, pa_bp_addr := addr, pa_bp_type := bpType\<rparr>
               in if fast
                  then let (s, ok) = sys os UpdateBreakpoint (deviceFileId d) s
                       in if ok then Inr (setd p (d'\<lparr>pe_attr := attr\<rparr>) s, True) else Inr (s, False)
                  else Inr (s, False))"

section \<open>Lemmas on the ordered maps\<close>

lemma map_of_insort: "k \<notin> fst ` set xs \<Longrightarrow> map_of (insort_key fst (k, v) xs) = (map_of xs)(k \<mapsto> v)"
  by (induction xs) (auto simp: fun_upd_twist)

lemma delete_insort: "k \<notin> fst ` set xs \<Longrightarrow> AList.delete k (insort_key fst (k, v) xs) = xs"
  by (induction xs) (auto simp: delete_simps delete_id)

lemma set_omap_put: "set (omap_put k v xs) = insert (k, v) (set (AList.delete k xs))"
  by (simp add: omap_put_def set_insort_key)

lemma set_delete: "set (AList.delete k xs) = {e \<in> set xs. fst e \<noteq> k}"
  by (auto simp: AList.delete_eq)

lemma map_of_omap_put: "map_of (omap_put k v xs) = (map_of xs)(k \<mapsto> v)"
proof -
  have "k \<notin> fst ` set (AList.delete k xs)" by (auto simp: set_delete)
  from map_of_insort [OF this, of v] show ?thesis
    unfolding omap_put_def by (intro ext) simp
qed

lemma delete_omap_put: "k \<notin> fst ` set xs \<Longrightarrow> AList.delete k (omap_put k v xs) = xs"
  by (simp add: omap_put_def delete_insort)

lemma omap_put_fresh: "k \<notin> fst ` set xs \<Longrightarrow> set (omap_put k v xs) = insert (k, v) (set xs)"
  by (auto simp: set_omap_put set_delete image_iff)

lemma distinct_map_insort: "distinct (map g (insort_key f x xs)) = (g x \<notin> g ` set xs \<and> distinct (map g xs))"
  by (induction xs) (auto simp: set_insort_key)

lemma filter_split_insert:
  "filter P (takeWhile Q xs @ x # dropWhile Q xs) =
     filter P (takeWhile Q xs) @ (if P x then [x] else []) @ filter P (dropWhile Q xs)"
  "filter P (takeWhile Q xs) @ filter P (dropWhile Q xs) = filter P xs"
  by (simp, simp only: flip: filter_append, simp)

lemma equal_range_insert: "k \<noteq> k' \<Longrightarrow> equal_range k (mmap_insert k' d xs) = equal_range k xs"
  by (simp only: equal_range_def mmap_insert_def filter_split_insert) (simp add: filter_split_insert(2))

lemma set_equal_range: "set (equal_range k xs) = {d. (k, d) \<in> set xs}"
  by (force simp: equal_range_def)

lemma set_mmap_insert: "set (mmap_insert k d xs) = insert (k, d) (set xs)"
proof -
  have "set (takeWhile (\<lambda>e. fst e \<le> k) xs) \<union> set (dropWhile (\<lambda>e. fst e \<le> k) xs) = set xs"
    by (metis set_append takeWhile_dropWhile_id)
  then show ?thesis by (auto simp: mmap_insert_def)
qed

lemma filter_mmap_insert:
  "filter (\<lambda>e. fst e \<noteq> k) (mmap_insert k d xs) = filter (\<lambda>e. fst e \<noteq> k) xs"
  by (simp only: mmap_insert_def filter_split_insert) (simp add: filter_split_insert(2))

end
