(* ===== verification/Platform.thy ===== *)
theory Platform
  imports Devices
begin

text \<open>
  \<^verbatim>\<open>includes/platform/platform.hpp\<close> and \<^verbatim>\<open>src/platform/platform.cpp\<close>: session keys, the device maps,
  registering and removing devices, pausing and resuming them, and the signal handler with its two
  guards. \<open>tid\<close> is \<open>gettid()\<close> of the calling thread; a \<open>std::mutex\<close> locked while held is
  \<open>Deadlock\<close>.
\<close>

section \<open>Operations\<close>

definition plat_init :: "'a \<Rightarrow> 'a plat" where
  "plat_init a = \<lparr>sKey = 0, eKey = 0, sessionKey = (\<lambda>_. -1), inSignalHandler = (\<lambda>_. False),
     signalUnsafe = (\<lambda>_. False), mallocCount = 0, deviceMap = [], deviceSessionMultiMap = [],
     eventMap = Map.empty, threadSessionMap = Map.empty, devicemap_mtx = False, eventmap_mtx = False,
     threadSessionmap_mtx = False, devs = Map.empty, next_dev = 0, open_fds = {},
     running = (\<lambda>_. False), clock = 0, agent = a\<rparr>"

definition generate_session_key :: "int \<Rightarrow> ('a, 'z) plat_scheme \<Rightarrow> ('a, 'z) plat_scheme res" where
  "generate_session_key tid s =
     (if threadSessionmap_mtx s then Inl Deadlock
      else Inr (s\<lparr>sessionKey := (sessionKey s)(tid := sKey s), sKey := to_i32 (sKey s + 1),
                  threadSessionMap := (threadSessionMap s)(tid \<mapsto> sKey s)\<rparr>))"

definition destroy_session_key :: "int \<Rightarrow> ('a, 'z) plat_scheme \<Rightarrow> ('a, 'z) plat_scheme res" where
  "destroy_session_key threadId s =
     (if threadSessionmap_mtx s then Inl Deadlock
      else Inr (s\<lparr>threadSessionMap := (threadSessionMap s)(threadId \<mapsto> -1)\<rparr>))"

text \<open>\<open>operator[]\<close> inserts 0 for a thread that has no entry.\<close>

definition get_session_key_from_threadId ::
  "int \<Rightarrow> ('a, 'z) plat_scheme \<Rightarrow> (('a, 'z) plat_scheme \<times> int) res" where
  "get_session_key_from_threadId threadId s =
     (if threadSessionmap_mtx s then Inl Deadlock
      else let k = idx0 (threadSessionMap s) threadId
           in Inr (s\<lparr>threadSessionMap := (threadSessionMap s)(threadId \<mapsto> k)\<rparr>, k))"

definition get_session_key :: "int \<Rightarrow> ('a, 'z) plat_scheme \<Rightarrow> int" where
  "get_session_key tid s = sessionKey s tid"

definition generate_event_key :: "('a, 'z) plat_scheme \<Rightarrow> ('a, 'z) plat_scheme \<times> int" where
  "generate_event_key s = (s\<lparr>eKey := to_i32 (eKey s + 1)\<rparr>, eKey s)"

definition isInSignalHandler :: "int \<Rightarrow> ('a, 'z) plat_scheme \<Rightarrow> ('a, 'z) plat_scheme \<times> bool" where
  "isInSignalHandler tid s = (s\<lparr>inSignalHandler := (inSignalHandler s)(tid := True)\<rparr>, inSignalHandler s tid)"

definition exitingSignalHandler :: "int \<Rightarrow> ('a, 'z) plat_scheme \<Rightarrow> ('a, 'z) plat_scheme" where
  "exitingSignalHandler tid s = s\<lparr>inSignalHandler := (inSignalHandler s)(tid := False)\<rparr>"

definition lockDevice :: "('a, 'z) plat_scheme \<Rightarrow> ('a, 'z) plat_scheme res" where
  "lockDevice s = (if devicemap_mtx s then Inl Deadlock else Inr (s\<lparr>devicemap_mtx := True\<rparr>))"

definition unlockDevice :: "('a, 'z) plat_scheme \<Rightarrow> ('a, 'z) plat_scheme" where
  "unlockDevice s = s\<lparr>devicemap_mtx := False\<rparr>"

definition add_new_event :: "int \<Rightarrow> nat \<Rightarrow> ('a, 'z) plat_scheme \<Rightarrow> ('a, 'z) plat_scheme res" where
  "add_new_event evid ev s =
     (if eventmap_mtx s then Inl Deadlock else Inr (s\<lparr>eventMap := (eventMap s)(evid \<mapsto> ev)\<rparr>))"

definition remove_event :: "int \<Rightarrow> ('a, 'z) plat_scheme \<Rightarrow> ('a, 'z) plat_scheme res" where
  "remove_event evid s =
     (if eventmap_mtx s then Inl Deadlock else Inr (s\<lparr>eventMap := (eventMap s)(evid := None)\<rparr>))"

definition get_event :: "int \<Rightarrow> ('a, 'z) plat_scheme \<Rightarrow> nat option res" where
  "get_event evid s = (if eventmap_mtx s then Inl Deadlock else Inr (eventMap s evid))"

text \<open>A function body between \<open>devicemap_mtx.lock()\<close> and \<open>unlock()\<close>.\<close>

definition with_devices ::
  "(('a, 'z) plat_scheme \<Rightarrow> ('a, 'z) plat_scheme res) \<Rightarrow> ('a, 'z) plat_scheme \<Rightarrow> ('a, 'z) plat_scheme res" where
  "with_devices f s = rbind (lockDevice s) (\<lambda>s. rbind (f s) (\<lambda>s. Inr (unlockDevice s)))"

definition add_new_device :: "int \<Rightarrow> int \<Rightarrow> nat \<Rightarrow> ('a, 'z) plat_scheme \<Rightarrow> ('a, 'z) plat_scheme res" where
  "add_new_device tid fd dev =
     with_devices (\<lambda>s. Inr (s\<lparr>deviceMap := omap_put (tid, fd) dev (deviceMap s)\<rparr>))"

definition add_new_device_to_session :: "int \<Rightarrow> int \<Rightarrow> ('a, 'z) plat_scheme \<Rightarrow> ('a, 'z) plat_scheme res" where
  "add_new_device_to_session fd sessionId =
     with_devices (\<lambda>s. Inr (s\<lparr>deviceSessionMultiMap := mmap_insert sessionId fd (deviceSessionMultiMap s)\<rparr>))"

definition remove_device ::
  "'a agent_ops \<Rightarrow> os \<Rightarrow> int \<Rightarrow> int \<Rightarrow> bool \<Rightarrow> ('a, 'z) plat_scheme \<Rightarrow> ('a, 'z) plat_scheme res" where
  "remove_device A os tid fd removeSessionMap s =
     (case map_of (deviceMap s) (tid, fd) of
        None \<Rightarrow> Inr s
      | Some p \<Rightarrow>
          rbind (getd p s) (\<lambda>d.
            let s = (if removeSessionMap
                     then s\<lparr>deviceSessionMultiMap := remove1 (dev_sessionId d, fd) (deviceSessionMultiMap s)\<rparr>
                     else s)
            in rbind (end_device A p s) (\<lambda>s.
               rbind (unRegisterDevice A os p s) (\<lambda>s.
                 Inr (s\<lparr>deviceMap := AList.delete (tid, fd) (deviceMap s)\<rparr>)))))"

definition remove_device_by_session ::
  "'a agent_ops \<Rightarrow> os \<Rightarrow> int \<Rightarrow> int \<Rightarrow> ('a, 'z) plat_scheme \<Rightarrow> ('a, 'z) plat_scheme res" where
  "remove_device_by_session A os tid sessionId =
     with_devices (\<lambda>s.
       rbind (rfold (\<lambda>fd. remove_device A os tid fd False)
                (equal_range sessionId (deviceSessionMultiMap s)) s) (\<lambda>s.
         Inr (s\<lparr>deviceSessionMultiMap := filter (\<lambda>e. fst e \<noteq> sessionId) (deviceSessionMultiMap s)\<rparr>)))"

definition get_device :: "int \<Rightarrow> int \<Rightarrow> ('a, 'z) plat_scheme \<Rightarrow> nat option res" where
  "get_device threadId fd s = rbind (lockDevice s) (\<lambda>s. Inr (map_of (deviceMap s) (threadId, fd)))"

definition pause_all_devices :: "'a agent_ops \<Rightarrow> ('a, 'z) plat_scheme \<Rightarrow> ('a, 'z) plat_scheme res" where
  "pause_all_devices A = with_devices (\<lambda>s. rfold (disable_device A) (map snd (deviceMap s)) s)"

text \<open>One turn of the loop over a session's devices: look the device up for this thread, and act on it
  unless it is missing or disabled.\<close>

definition on_session_device ::
  "(nat \<Rightarrow> ('a, 'z) plat_scheme \<Rightarrow> ('a, 'z) plat_scheme res) \<Rightarrow> int \<Rightarrow> int \<Rightarrow>
    ('a, 'z) plat_scheme \<Rightarrow> ('a, 'z) plat_scheme res" where
  "on_session_device f tid fd s =
     (case map_of (deviceMap s) (tid, fd) of
        None \<Rightarrow> Inr s
      | Some p \<Rightarrow> rbind (getd p s) (\<lambda>d. if isDisabled d then Inr s else f p s))"

definition pause_devices_by_session ::
  "'a agent_ops \<Rightarrow> int \<Rightarrow> int \<Rightarrow> ('a, 'z) plat_scheme \<Rightarrow> ('a, 'z) plat_scheme res" where
  "pause_devices_by_session A tid sessionId =
     with_devices (\<lambda>s. rfold (on_session_device (disable_device A) tid)
                          (equal_range sessionId (deviceSessionMultiMap s)) s)"

definition resume_one :: "'a agent_ops \<Rightarrow> nat \<Rightarrow> ('a, 'z) plat_scheme \<Rightarrow> ('a, 'z) plat_scheme res" where
  "resume_one A p s = rbind (getd p s) (\<lambda>d. if isDisabled d then Inr s else enable_device A p s)"

definition resume_all_devices :: "'a agent_ops \<Rightarrow> ('a, 'z) plat_scheme \<Rightarrow> ('a, 'z) plat_scheme res" where
  "resume_all_devices A = with_devices (\<lambda>s. rfold (resume_one A) (map snd (deviceMap s)) s)"

definition resume_devices_by_session ::
  "'a agent_ops \<Rightarrow> int \<Rightarrow> int \<Rightarrow> ('a, 'z) plat_scheme \<Rightarrow> ('a, 'z) plat_scheme res" where
  "resume_devices_by_session A tid sessionId =
     with_devices (\<lambda>s. rfold (on_session_device (enable_device A) tid)
                          (equal_range sessionId (deviceSessionMultiMap s)) s)"

section \<open>Registering\<close>

text \<open>
  \<open>Device::registerDevice\<close>: 0, or \<open>-1\<close> when \<open>perf_event_open\<close>, \<open>mmap\<close>, \<open>sigaction\<close> or
  \<open>F_SETOWN_EX\<close> fails; the other calls end the process when they fail.
\<close>

definition register_open ::
  "'a agent_ops \<Rightarrow> os \<Rightarrow> dev_cfg \<Rightarrow> int \<Rightarrow> nat \<Rightarrow> ('a, 'z) plat_scheme \<Rightarrow> (('a, 'z) plat_scheme \<times> bool) res" where
  "register_open A os cfg sId p s =
     rbind (getd p s) (\<lambda>d.
       let attr = registerThisDevice cfg (isAgentKVM A) d attr0;
           fd = perf_event_open os (clock s) (open_fds s) attr;
           d = d\<lparr>pe_attr := attr, dev_sessionId := sId, deviceFileId := fd\<rparr>;
           s = setd p d (s\<lparr>clock := clock s + 1\<rparr>)
       in if fd = -1 then Inr (s, False)
          else let s = s\<lparr>open_fds := insert fd (open_fds s), running := (running s)(fd := \<not> pa_disabled attr)\<rparr>;
                   (s, ok) = sys os Mmap fd s
               in if ok then Inr (setd p (d\<lparr>mmapBuffer := True\<rparr>) s, True)
                  else rbind (sys_CHECK os Close fd (setd p (d\<lparr>mmapBuffer := False\<rparr>) s)) (\<lambda>s.
                         Inr (close_fd fd s, False)))"

definition register_signals :: "os \<Rightarrow> int \<Rightarrow> ('a, 'z) plat_scheme \<Rightarrow> (('a, 'z) plat_scheme \<times> bool) res" where
  "register_signals os fd s =
     rbind (sys_CHECK os SetAsync fd s) (\<lambda>s.
       let (s, ok) = sys os Sigaction fd s
       in if \<not> ok then Inr (s, False)
          else rbind (sys_CHECK os SetSig fd s) (\<lambda>s.
                 let (s, ok) = sys os SetOwn fd s in Inr (s, ok)))"

definition registerDevice ::
  "'a agent_ops \<Rightarrow> os \<Rightarrow> dev_cfg \<Rightarrow> int \<Rightarrow> int \<Rightarrow> nat \<Rightarrow> ('a, 'z) plat_scheme \<Rightarrow>
    (('a, 'z) plat_scheme \<times> int) res" where
  "registerDevice A os cfg tid sId p s =
     rbind (register_open A os cfg sId p s) (\<lambda>(s, ok).
     if \<not> ok then Inr (s, -1) else
     rbind (getd p s) (\<lambda>d.
     rbind (register_signals os (deviceFileId d) s) (\<lambda>(s, ok).
     if \<not> ok then Inr (s, -1) else
     rbind (add_new_device tid (deviceFileId d) p s) (\<lambda>s.
     rbind (add_new_device_to_session (deviceFileId d) sId s) (\<lambda>s.
       Inr (s\<lparr>agent := ag_registerDevice A (bp_view_of d) (agent s)\<rparr>, 0))))))"

text \<open>
  \<open>getMaxDevices\<close>: registers devices of one type until it fails or 128 are open, then removes
  them. \<open>n\<close> counts down from \<open>MAX_POSSIBLE_DEVICES\<close>; \<open>dummyWP\<close> is the address of the array of
  \<open>int\<close>s that breakpoints are set on.
\<close>

definition probe_device :: "int \<Rightarrow> nat \<Rightarrow> u64 \<Rightarrow> device" where
  "probe_device type count dummyWP =
     (if type = PEBSDEVICE then new_PEBSDevice STORE
      else if type = BPDEVICE then new_BPDevice 1 2 (dummyWP + 4 * of_nat count)
      else new_EBSDevice)"

fun probe_devices ::
  "'a agent_ops \<Rightarrow> os \<Rightarrow> dev_cfg \<Rightarrow> int \<Rightarrow> int \<Rightarrow> int \<Rightarrow> u64 \<Rightarrow> nat \<Rightarrow> nat \<Rightarrow> ('a, 'z) plat_scheme \<Rightarrow>
    (('a, 'z) plat_scheme \<times> nat) res" where
  "probe_devices A os cfg tid sId type dummyWP 0 count s = Inr (s, count)"
| "probe_devices A os cfg tid sId type dummyWP (Suc n) count s =
     (let (s, p) = new_dev (probe_device type count dummyWP) s
      in rbind (registerDevice A os cfg tid sId p s) (\<lambda>(s, ret).
           if ret = 0 then probe_devices A os cfg tid sId type dummyWP n (count + 1) s
           else Inr (s, count)))"

definition getMaxDevices ::
  "'a agent_ops \<Rightarrow> os \<Rightarrow> dev_cfg \<Rightarrow> int \<Rightarrow> int \<Rightarrow> u64 \<Rightarrow> ('a, 'z) plat_scheme \<Rightarrow>
    (('a, 'z) plat_scheme \<times> nat) res" where
  "getMaxDevices A os cfg tid type dummyWP s =
     rbind (generate_session_key tid s) (\<lambda>s.
       if type \<noteq> PEBSDEVICE \<and> type \<noteq> BPDEVICE \<and> type \<noteq> EBSDEVICE then Inr (s, 0)
       else rbind (probe_devices A os cfg tid (get_session_key tid s) type dummyWP
                     MAX_POSSIBLE_DEVICES 0 s) (\<lambda>(s1, count).
            rbind (remove_device_by_session A os tid (get_session_key tid s) s1) (\<lambda>s2.
              Inr (s2, count))))"

section \<open>The signal handler\<close>

definition entering_signal_unsafe :: "int \<Rightarrow> ('a, 'z) plat_scheme \<Rightarrow> ('a, 'z) plat_scheme" where
  "entering_signal_unsafe tid s = s\<lparr>signalUnsafe := (signalUnsafe s)(tid := True)\<rparr>"

definition exiting_signal_unsafe :: "int \<Rightarrow> ('a, 'z) plat_scheme \<Rightarrow> ('a, 'z) plat_scheme" where
  "exiting_signal_unsafe tid s = s\<lparr>signalUnsafe := (signalUnsafe s)(tid := False)\<rparr>"

definition monitor_pre_malloc :: "int \<Rightarrow> ('a, 'z) plat_scheme \<Rightarrow> ('a, 'z) plat_scheme" where
  "monitor_pre_malloc tid s =
     (entering_signal_unsafe tid s)\<lparr>mallocCount := to_i32 (mallocCount s + 1)\<rparr>"

text \<open>\<open>body\<close> is the handler of the device the signal is for (\<open>Device::dev_signal_handler\<close>).\<close>

definition generic_dev_signal_handler ::
  "'a agent_ops \<Rightarrow> (nat \<Rightarrow> ('a, 'z) plat_scheme \<Rightarrow> ('a, 'z) plat_scheme res) \<Rightarrow> int \<Rightarrow> int \<Rightarrow>
    ('a, 'z) plat_scheme \<Rightarrow> ('a, 'z) plat_scheme res" where
  "generic_dev_signal_handler A body tid fd s =
     (let pause = (\<lambda>s. if requestWillBeNotified A then Inr s else pause_all_devices A s);
          resume = (\<lambda>s. if requestWillBeNotified A then Inr s else resume_all_devices A s)
      in rbind (pause s) (\<lambda>s.
           let unsafe = signalUnsafe s tid; s = entering_signal_unsafe tid s
           in if unsafe then resume s
              else let s = exiting_signal_unsafe tid s; (s, busy) = isInSignalHandler tid s
                   in if busy then resume s
                      else rbind (get_device tid fd s) (\<lambda>dev.
                           rbind (case dev of None \<Rightarrow> Inr s | Some p \<Rightarrow> body p s) (\<lambda>s.
                             resume (exitingSignalHandler tid s)))))"

end
