(* ===== verification/Registry.thy ===== *)
theory Registry
  imports Platform
begin

text \<open>
  The invariant of the device registry and what the operations of the platform do to it. The
  lemmas are proved inside the interface \<open>bp_agent\<close>, for any agent that keeps its laws, and the
  properties use them at the KVM agent and at the native one.
\<close>

section \<open>Invariant\<close>

definition fds_of :: "('a, 'z) plat_scheme \<Rightarrow> int set" where
  "fds_of s = (\<lambda>e. snd (fst e)) ` set (deviceMap s)"

text \<open>An entry of the device map points to a live device that is open, mapped and registered with
  the agent.\<close>

definition dev_ok :: "('a \<Rightarrow> int \<Rightarrow> bool \<Rightarrow> bool) \<Rightarrow> ('a, 'z) plat_scheme \<Rightarrow> (int \<times> int) \<times> nat \<Rightarrow> bool" where
  "dev_ok reg s e \<longleftrightarrow> (case devs s (snd e) of None \<Rightarrow> False
     | Some d \<Rightarrow> deviceFileId d = snd (fst e) \<and> 1 \<le> deviceFileId d \<and> mmapBuffer d \<and>
         deviceFileId d \<in> open_fds s \<and> reg (agent s) (deviceFileId d) (deviceType d = BPDEVICE))"

text \<open>Descriptors name one device each, and the agent keeps nothing for a descriptor that is not in
  the map.\<close>

definition plat_ok ::
  "('a \<Rightarrow> bool) \<Rightarrow> ('a \<Rightarrow> int \<Rightarrow> bool \<Rightarrow> bool) \<Rightarrow> ('a \<Rightarrow> int \<Rightarrow> bool) \<Rightarrow> ('a, 'z) plat_scheme \<Rightarrow> bool" where
  "plat_ok ainv reg free s \<longleftrightarrow> ainv (agent s) \<and> (\<forall>e \<in> set (deviceMap s). dev_ok reg s e) \<and>
     distinct (map (\<lambda>e. snd (fst e)) (deviceMap s)) \<and>
     (\<forall>fd. 1 \<le> fd \<longrightarrow> fd \<notin> fds_of s \<longrightarrow> free (agent s) fd)"

lemma plat_okD:
  assumes "plat_ok ainv reg free s" and "((t, fd), p) \<in> set (deviceMap s)"
  obtains d where "devs s p = Some d" and "deviceFileId d = fd" and "1 \<le> fd" and "mmapBuffer d"
    and "fd \<in> open_fds s" and "reg (agent s) fd (deviceType d = BPDEVICE)" and "ainv (agent s)"
  using assms unfolding plat_ok_def dev_ok_def by (fastforce split: option.splits)

lemma fds_ofI: "((t, fd), p) \<in> set (deviceMap s) \<Longrightarrow> fd \<in> fds_of s"
  by (force simp: fds_of_def)

text \<open>A descriptor determines its entry, and a device its descriptor.\<close>

lemma fd_unique:
  assumes "plat_ok ainv reg free s" and "((t, fd), p) \<in> set (deviceMap s)" and "((t', fd), p') \<in> set (deviceMap s)"
  shows "t' = t \<and> p' = p"
proof -
  have "inj_on (\<lambda>e. snd (fst e)) (set (deviceMap s))"
    using assms(1) by (simp add: plat_ok_def distinct_map)
  from inj_onD [OF this _ assms(2,3)] show ?thesis by simp
qed

lemma dev_unique:
  assumes "plat_ok ainv reg free s" and "((t, fd), p) \<in> set (deviceMap s)" and "((t', fd'), p) \<in> set (deviceMap s)"
  shows "t' = t \<and> fd' = fd"
proof -
  from assms(1,2) obtain d where "devs s p = Some d" "deviceFileId d = fd" by (rule plat_okD)
  moreover from assms(1,3) obtain d' where "devs s p = Some d'" "deviceFileId d' = fd'" by (rule plat_okD)
  ultimately have "fd' = fd" by simp
  with fd_unique [OF assms(1,2)] assms(3) show ?thesis by blast
qed

lemma keys_distinct: "plat_ok ainv reg free s \<Longrightarrow> distinct (map fst (deviceMap s))"
  by (auto simp: plat_ok_def distinct_map inj_on_def)

lemma map_of_mem: "plat_ok ainv reg free s \<Longrightarrow> map_of (deviceMap s) k = Some p \<longleftrightarrow> (k, p) \<in> set (deviceMap s)"
  using keys_distinct [of ainv reg free s] by simp

section \<open>Switching devices on and off\<close>

text \<open>Everything but the agent and the counters of registered devices is as it was.\<close>

definition switched :: "('a, 'z) plat_scheme \<Rightarrow> ('a, 'z) plat_scheme \<Rightarrow> bool" where
  "switched s s' \<longleftrightarrow> s' = s\<lparr>agent := agent s', running := running s'\<rparr> \<and>
     (\<forall>fd. fd \<notin> fds_of s \<longrightarrow> running s' fd = running s fd)"

lemma switched_refl [simp]: "switched s s"
  by (simp add: switched_def)

lemma switchedD:
  assumes "switched s s'"
  shows "deviceMap s' = deviceMap s" and "devs s' = devs s" and "open_fds s' = open_fds s"
    and "deviceSessionMultiMap s' = deviceSessionMultiMap s" and "fds_of s' = fds_of s"
    and "devicemap_mtx s' = devicemap_mtx s" and "signalUnsafe s' = signalUnsafe s"
    and "inSignalHandler s' = inSignalHandler s" and "next_dev s' = next_dev s"
proof -
  have s': "s' = s\<lparr>agent := agent s', running := running s'\<rparr>" using assms by (simp add: switched_def)
  show "deviceMap s' = deviceMap s" "devs s' = devs s" "open_fds s' = open_fds s"
    "deviceSessionMultiMap s' = deviceSessionMultiMap s"
    "devicemap_mtx s' = devicemap_mtx s" "signalUnsafe s' = signalUnsafe s"
    "inSignalHandler s' = inSignalHandler s" "next_dev s' = next_dev s"
    by (subst s', simp)+
  then show "fds_of s' = fds_of s" by (simp add: fds_of_def)
qed

lemma switched_trans:
  assumes "switched s t" and "switched t u"
  shows "switched s u"
proof -
  have t: "t = s\<lparr>agent := agent t, running := running t\<rparr>" and u: "u = t\<lparr>agent := agent u, running := running u\<rparr>"
    using assms by (simp_all add: switched_def)
  have "u = s\<lparr>agent := agent u, running := running u\<rparr>" by (subst u, subst t) simp
  with assms switchedD(5) [OF assms(1)] show ?thesis by (simp add: switched_def)
qed

lemma switchedI:
  "(\<And>x. x \<notin> fds_of s \<Longrightarrow> r x = running s x) \<Longrightarrow> switched s (s\<lparr>agent := a, running := r\<rparr>)"
  by (simp add: switched_def)

lemma switch_ok:
  assumes "plat_ok ainv reg free s" and "ainv a" and "\<And>x b. reg a x b = reg (agent s) x b"
    and "\<And>x. free a x = free (agent s) x"
  shows "plat_ok ainv reg free (s\<lparr>agent := a, running := r\<rparr>)"
  using assms by (simp add: plat_ok_def dev_ok_def fds_of_def cong: option.case_cong)

text \<open>The agent never switches this device itself.\<close>

definition kernel_driven :: "'a agent_ops \<Rightarrow> device \<Rightarrow> bool" where
  "kernel_driven A d \<longleftrightarrow> deviceType d \<noteq> BPDEVICE \<or>
     (\<forall>v a. \<not> snd (ag_pauseDevice A v a) \<and> \<not> snd (ag_resumeDevice A v a))"

text \<open>What one switch of device \<open>p\<close> (descriptor \<open>fd\<close>) to \<open>on\<close> does.\<close>

definition switches ::
  "'a agent_ops \<Rightarrow> nat \<Rightarrow> int \<Rightarrow> bool \<Rightarrow> ('a, 'z) plat_scheme \<Rightarrow> ('a, 'z) plat_scheme \<Rightarrow> bool" where
  "switches A p fd on s s' \<longleftrightarrow> switched s s' \<and> (\<forall>x. x \<noteq> fd \<longrightarrow> running s' x = running s x) \<and>
     (running s' fd = running s fd \<or> running s' fd = on) \<and>
     (\<forall>d. devs s p = Some d \<longrightarrow> kernel_driven A d \<longrightarrow> running s' fd = on)"

lemma switchesI:
  assumes "fd \<in> fds_of s" and "devs s p = Some d" and "kernel_driven A d \<longrightarrow> b"
  shows "switches A p fd on s (s\<lparr>agent := a, running := if b then (running s)(fd := on) else running s\<rparr>)"
proof -
  have "switched s (s\<lparr>agent := a, running := if b then (running s)(fd := on) else running s\<rparr>)"
    by (rule switchedI) (use assms(1) in auto)
  with assms(2,3) show ?thesis by (simp add: switches_def)
qed

lemma update_running_id: "s\<lparr>agent := a\<rparr> = s\<lparr>agent := a, running := running s\<rparr>"
  "s\<lparr>running := r\<rparr> = s\<lparr>agent := agent s, running := r\<rparr>"
  by simp_all

context bp_agent
begin

lemma disable_ok:
  assumes ok: "plat_ok ainv reg free s" and e: "((t, fd), p) \<in> set (deviceMap s)"
  shows "\<exists>s'. disable_device A p s = Inr s' \<and> plat_ok ainv reg free s' \<and> switches A p fd False s s'"
proof -
  from ok e obtain d where d: "devs s p = Some d" "deviceFileId d = fd" "fd \<in> open_fds s"
    "reg (agent s) fd (deviceType d = BPDEVICE)" "ainv (agent s)" by (rule plat_okD)
  define b where "b \<longleftrightarrow> \<not> (deviceType d = BPDEVICE \<and> snd (ag_pauseDevice A (bp_view_of d) (agent s)))"
  define a where "a = (if deviceType d = BPDEVICE then fst (ag_pauseDevice A (bp_view_of d) (agent s)) else agent s)"
  have "disable_device A p s = Inr (s\<lparr>agent := a, running := if b then (running s)(fd := False) else running s\<rparr>)"
    using d by (simp add: disable_device_def getd_def a_def b_def ioc_disable_def split: prod.split)
  moreover have "plat_ok ainv reg free (s\<lparr>agent := a, running := if b then (running s)(fd := False) else running s\<rparr>)"
    using d pause_inv [of "agent s" "bp_view_of d"] pause_reg [of "agent s" "bp_view_of d"]
      pause_free [of "agent s" "bp_view_of d"]
    by (cases "deviceType d = BPDEVICE"; intro switch_ok [OF ok]) (simp_all add: a_def bp_view_of_def)
  moreover have "kernel_driven A d \<longrightarrow> b" by (auto simp: kernel_driven_def b_def)
  ultimately show ?thesis using switchesI [OF fds_ofI [OF e] d(1)] by blast
qed

lemma enable_ok:
  assumes ok: "plat_ok ainv reg free s" and e: "((t, fd), p) \<in> set (deviceMap s)"
  shows "\<exists>s'. enable_device A p s = Inr s' \<and> plat_ok ainv reg free s' \<and> switches A p fd True s s'"
proof -
  from ok e obtain d where d: "devs s p = Some d" "deviceFileId d = fd" "fd \<in> open_fds s"
    "reg (agent s) fd (deviceType d = BPDEVICE)" "ainv (agent s)" by (rule plat_okD)
  define b where "b \<longleftrightarrow> \<not> (deviceType d = BPDEVICE \<and> snd (ag_resumeDevice A (bp_view_of d) (agent s)))"
  define a where "a = (if deviceType d = BPDEVICE then fst (ag_resumeDevice A (bp_view_of d) (agent s)) else agent s)"
  have "enable_device A p s = Inr (s\<lparr>agent := a, running := if b then (running s)(fd := True) else running s\<rparr>)"
    using d by (simp add: enable_device_def getd_def a_def b_def ioc_refresh_def split: prod.split)
  moreover have "plat_ok ainv reg free (s\<lparr>agent := a, running := if b then (running s)(fd := True) else running s\<rparr>)"
    using d resume_inv [of "agent s" "bp_view_of d"] resume_reg [of "agent s" "bp_view_of d"]
      resume_free [of "agent s" "bp_view_of d"]
    by (cases "deviceType d = BPDEVICE"; intro switch_ok [OF ok]) (simp_all add: a_def bp_view_of_def)
  moreover have "kernel_driven A d \<longrightarrow> b" by (auto simp: kernel_driven_def b_def)
  ultimately show ?thesis using switchesI [OF fds_ofI [OF e] d(1)] by blast
qed

end

section \<open>Loops over devices\<close>

text \<open>
  \<open>swept A want on E s s'\<close>: from \<open>s\<close> to \<open>s'\<close> the wanted devices among the entries \<open>E\<close> have been
  switched to \<open>on\<close>, and no other counter has changed.
\<close>

definition swept ::
  "'a agent_ops \<Rightarrow> (device \<Rightarrow> bool) \<Rightarrow> bool \<Rightarrow> ((int \<times> int) \<times> nat) set \<Rightarrow>
    ('a, 'z) plat_scheme \<Rightarrow> ('a, 'z) plat_scheme \<Rightarrow> bool" where
  "swept A want on E s s' \<longleftrightarrow> switched s s' \<and>
     (\<forall>fd. running s' fd = running s fd \<or> running s' fd = on) \<and>
     (\<forall>t fd p d. ((t, fd), p) \<in> E \<longrightarrow> devs s p = Some d \<longrightarrow> want d \<longrightarrow> kernel_driven A d \<longrightarrow>
        running s' fd = on) \<and>
     (\<forall>fd. (\<forall>t p d. ((t, fd), p) \<in> E \<longrightarrow> devs s p = Some d \<longrightarrow> \<not> want d) \<longrightarrow>
        running s' fd = running s fd)"

lemma swept_refl: "(\<And>t fd p d. ((t, fd), p) \<in> E \<Longrightarrow> devs s p = Some d \<Longrightarrow> \<not> want d) \<Longrightarrow> swept A want on E s s"
  by (auto simp: swept_def)

lemma swept_trans:
  assumes "swept A want on E s t" and "swept A want on F t u"
  shows "swept A want on (E \<union> F) s u"
proof -
  have sw: "switched s u" using assms switched_trans unfolding swept_def by blast
  have dv: "devs t = devs s" using assms(1) switchedD(2) unfolding swept_def by blast
  have E: "running t fd = running s fd \<or> running t fd = on"
    "((v, fd), p) \<in> E \<Longrightarrow> devs s p = Some d \<Longrightarrow> want d \<Longrightarrow> kernel_driven A d \<Longrightarrow> running t fd = on"
    "(\<forall>t p d. ((t, fd), p) \<in> E \<longrightarrow> devs s p = Some d \<longrightarrow> \<not> want d) \<Longrightarrow> running t fd = running s fd"
    for v fd p d using assms(1) unfolding swept_def by blast+
  have F: "running u fd = running t fd \<or> running u fd = on"
    "((v, fd), p) \<in> F \<Longrightarrow> devs s p = Some d \<Longrightarrow> want d \<Longrightarrow> kernel_driven A d \<Longrightarrow> running u fd = on"
    "(\<forall>t p d. ((t, fd), p) \<in> F \<longrightarrow> devs s p = Some d \<longrightarrow> \<not> want d) \<Longrightarrow> running u fd = running t fd"
    for v fd p d using assms(2) dv unfolding swept_def by auto
  show ?thesis unfolding swept_def
  proof (intro conjI allI impI)
    fix fd show "running u fd = running s fd \<or> running u fd = on" using E(1) F(1) by metis
  next
    fix v fd p d
    assume "((v, fd), p) \<in> E \<union> F" "devs s p = Some d" "want d" "kernel_driven A d"
    then show "running u fd = on" using E(2) F(1,2) by (metis Un_iff)
  next
    fix fd assume "\<forall>t p d. ((t, fd), p) \<in> E \<union> F \<longrightarrow> devs s p = Some d \<longrightarrow> \<not> want d"
    then show "running u fd = running s fd" using E(3) F(3) by (metis UnI1 UnI2)
  qed (rule sw)
qed

lemma swept_one:
  assumes "switches A p fd on s s'" and "devs s p = Some d" and "want d" and "((t, fd), p) \<in> E"
    and "\<And>t' fd' p'. ((t', fd'), p') \<in> E \<Longrightarrow> p' = p \<and> fd' = fd"
  shows "swept A want on E s s'"
proof -
  have sw: "switched s s'" and o: "x \<noteq> fd \<Longrightarrow> running s' x = running s x"
    and f: "running s' fd = running s fd \<or> running s' fd = on" "kernel_driven A d \<Longrightarrow> running s' fd = on" for x
    using assms(1,2) unfolding switches_def by blast+
  show ?thesis unfolding swept_def
  proof (intro conjI allI impI)
    fix x show "running s' x = running s x \<or> running s' x = on" using o f(1) by metis
  next
    fix v x q e
    assume "((v, x), q) \<in> E" "devs s q = Some e" "kernel_driven A e"
    with assms(2,5) f(2) show "running s' x = on" by fastforce
  next
    fix x assume "\<forall>t p d. ((t, x), p) \<in> E \<longrightarrow> devs s p = Some d \<longrightarrow> \<not> want d"
    with assms(2,3,4) have "x \<noteq> fd" by blast
    then show "running s' x = running s x" by (rule o)
  qed (rule sw)
qed

lemma swept_fold:
  assumes "P s" and "\<And>x s. x \<in> set xs \<Longrightarrow> P s \<Longrightarrow> \<exists>s'. f x s = Inr s' \<and> P s' \<and> swept A want on (E x) s s'"
  shows "\<exists>s'. rfold f xs s = Inr s' \<and> P s' \<and> swept A want on (\<Union>x \<in> set xs. E x) s s'"
  using assms
proof (induction xs arbitrary: s)
  case Nil
  then show ?case by (auto intro: swept_refl)
next
  case (Cons x xs)
  from Cons.prems obtain t where t: "f x s = Inr t" "P t" "swept A want on (E x) s t"
    by (meson list.set_intros(1))
  from Cons.IH [OF t(2)] Cons.prems(2) obtain u where
    u: "rfold f xs t = Inr u" "P u" "swept A want on (\<Union>x \<in> set xs. E x) t u"
    by (meson list.set_intros(2))
  have "swept A want on (\<Union>x \<in> set (x # xs). E x) s u" using swept_trans [OF t(3) u(3)] by simp
  with t u show ?case by auto
qed

text \<open>The lock around a loop.\<close>

lemma plat_ok_mtx [simp]: "plat_ok ainv reg free (s\<lparr>devicemap_mtx := b\<rparr>) = plat_ok ainv reg free s"
  by (simp add: plat_ok_def dev_ok_def fds_of_def cong: option.case_cong)

lemma swept_locked:
  assumes "swept A want on E (s\<lparr>devicemap_mtx := True\<rparr>) s'" and "\<not> devicemap_mtx s"
  shows "swept A want on E s (s'\<lparr>devicemap_mtx := False\<rparr>)"
proof -
  have "s' = s\<lparr>devicemap_mtx := True\<rparr>\<lparr>agent := agent s', running := running s'\<rparr>"
    and o: "\<forall>fd. fd \<notin> fds_of s \<longrightarrow> running s' fd = running s fd"
    using assms(1) by (simp_all add: swept_def switched_def fds_of_def)
  then have "s'\<lparr>devicemap_mtx := False\<rparr> =
      s\<lparr>devicemap_mtx := True\<rparr>\<lparr>agent := agent s', running := running s'\<rparr>\<lparr>devicemap_mtx := False\<rparr>"
    by metis
  also have "\<dots> = s\<lparr>agent := agent s', running := running s'\<rparr>" using assms(2) by simp
  finally have "switched s (s'\<lparr>devicemap_mtx := False\<rparr>)" using o by (simp add: switched_def)
  with assms(1) show ?thesis by (simp add: swept_def)
qed

lemma with_devices_swept:
  assumes ok: "plat_ok ainv reg free s" and m: "\<not> devicemap_mtx s"
    and f: "\<And>s. plat_ok ainv reg free s \<Longrightarrow> deviceMap s = M \<Longrightarrow> deviceSessionMultiMap s = N \<Longrightarrow>
      \<exists>s'. f s = Inr s' \<and> plat_ok ainv reg free s' \<and> swept A want on E s s'"
    and M: "deviceMap s = M" "deviceSessionMultiMap s = N"
  shows "\<exists>s'. with_devices f s = Inr s' \<and> plat_ok ainv reg free s' \<and> swept A want on E s s'"
proof -
  from f [of "s\<lparr>devicemap_mtx := True\<rparr>"] ok M obtain s' where
    "f (s\<lparr>devicemap_mtx := True\<rparr>) = Inr s'" "plat_ok ainv reg free s'"
    "swept A want on E (s\<lparr>devicemap_mtx := True\<rparr>) s'" by auto
  with m swept_locked show ?thesis by (auto simp: with_devices_def lockDevice_def unlockDevice_def)
qed

definition entries_of :: "nat \<Rightarrow> ((int \<times> int) \<times> nat) list \<Rightarrow> ((int \<times> int) \<times> nat) set" where
  "entries_of p M = {e \<in> set M. snd e = p}"

lemma all_entries: "(\<Union>p \<in> set (map snd M). entries_of p M) = set M"
  by (auto simp: entries_of_def)

lemma entry_unique:
  assumes "plat_ok ainv reg free s" and "((t, fd), p) \<in> set (deviceMap s)"
    and "((t', fd'), p') \<in> entries_of p (deviceMap s)"
  shows "p' = p \<and> fd' = fd"
  using dev_unique [OF assms(1,2)] assms(3) unfolding entries_of_def by (metis (mono_tags, lifting) mem_Collect_eq snd_conv)

text \<open>The entries a loop over a session's descriptors looks at, for thread \<open>tid\<close>.\<close>

definition session_entries ::
  "int \<Rightarrow> int list \<Rightarrow> ((int \<times> int) \<times> nat) list \<Rightarrow> ((int \<times> int) \<times> nat) set" where
  "session_entries tid fds M = {e \<in> set M. fst (fst e) = tid \<and> snd (fst e) \<in> set fds}"

lemma session_entries_Union: "(\<Union>fd \<in> set fds. session_entries tid [fd] M) = session_entries tid fds M"
  by (auto simp: session_entries_def)

context bp_agent
begin

abbreviation "ok s \<equiv> plat_ok ainv reg free s"

lemma resume_one_ok:
  assumes o: "ok s" and e: "((t, fd), p) \<in> set (deviceMap s)"
  shows "\<exists>s'. resume_one A p s = Inr s' \<and> ok s' \<and>
    swept A (\<lambda>d. \<not> isDisabled d) True (entries_of p (deviceMap s)) s s'"
proof -
  from o e obtain d where d: "devs s p = Some d" by (rule plat_okD)
  note u = entry_unique [OF o e]
  have me: "((t, fd), p) \<in> entries_of p (deviceMap s)" using e by (simp add: entries_of_def)
  show ?thesis
  proof (cases "isDisabled d")
    case True
    have "swept A (\<lambda>d. \<not> isDisabled d) True (entries_of p (deviceMap s)) s s"
      by (rule swept_refl) (use u d True in fastforce)
    with d o True show ?thesis by (simp add: resume_one_def getd_def)
  next
    case False
    from enable_ok [OF o e] obtain s' where "enable_device A p s = Inr s'" "ok s'"
      and sw: "switches A p fd True s s'" by blast
    moreover have "swept A (\<lambda>d. \<not> isDisabled d) True (entries_of p (deviceMap s)) s s'"
      by (rule swept_one [OF sw d _ me u]) (use False in simp)
    ultimately show ?thesis using d False by (simp add: resume_one_def getd_def)
  qed
qed

lemma pause_one_ok:
  assumes o: "ok s" and e: "((t, fd), p) \<in> set (deviceMap s)"
  shows "\<exists>s'. disable_device A p s = Inr s' \<and> ok s' \<and>
    swept A (\<lambda>_. True) False (entries_of p (deviceMap s)) s s'"
proof -
  from o e obtain d where d: "devs s p = Some d" by (rule plat_okD)
  have me: "((t, fd), p) \<in> entries_of p (deviceMap s)" using e by (simp add: entries_of_def)
  from disable_ok [OF o e] obtain s' where "disable_device A p s = Inr s'" "ok s'"
    and sw: "switches A p fd False s s'" by blast
  moreover have "swept A (\<lambda>_. True) False (entries_of p (deviceMap s)) s s'"
    by (rule swept_one [OF sw d TrueI me entry_unique [OF o e]])
  ultimately show ?thesis by blast
qed

lemma over_all:
  assumes f: "\<And>s p t fd. ok s \<Longrightarrow> ((t, fd), p) \<in> set (deviceMap s) \<Longrightarrow>
      \<exists>s'. f p s = Inr s' \<and> ok s' \<and> swept A want on (entries_of p (deviceMap s)) s s'"
    and o: "ok s" and m: "\<not> devicemap_mtx s"
  shows "\<exists>s'. with_devices (\<lambda>s. rfold f (map snd (deviceMap s)) s) s = Inr s' \<and> ok s' \<and>
    swept A want on (set (deviceMap s)) s s'"
proof (rule with_devices_swept [OF o m _ refl refl])
  fix v :: "('a, 'b) plat_scheme"
  assume v: "ok v" "deviceMap v = deviceMap s"
  have "\<exists>s'. rfold f (map snd (deviceMap s)) v = Inr s' \<and> (ok s' \<and> deviceMap s' = deviceMap s) \<and>
      swept A want on (\<Union>p \<in> set (map snd (deviceMap s)). entries_of p (deviceMap s)) v s'"
  proof (rule swept_fold)
    show "ok v \<and> deviceMap v = deviceMap s" using v by simp
    fix p and u :: "('a, 'b) plat_scheme"
    assume "p \<in> set (map snd (deviceMap s))" and u: "ok u \<and> deviceMap u = deviceMap s"
    then obtain t fd where "((t, fd), p) \<in> set (deviceMap u)" by auto
    from f [OF _ this] u obtain s' where "f p u = Inr s'" "ok s'"
      "swept A want on (entries_of p (deviceMap s)) u s'" by auto
    moreover from this(3) have "deviceMap s' = deviceMap u" using switchedD(1) unfolding swept_def by blast
    ultimately show "\<exists>s'. f p u = Inr s' \<and> (ok s' \<and> deviceMap s' = deviceMap s) \<and>
        swept A want on (entries_of p (deviceMap s)) u s'" using u by simp
  qed
  then show "\<exists>s'. rfold f (map snd (deviceMap v)) v = Inr s' \<and> ok s' \<and>
      swept A want on (set (deviceMap s)) v s'"
    unfolding all_entries v(2) by blast
qed

lemma pause_all_ok:
  "ok s \<Longrightarrow> \<not> devicemap_mtx s \<Longrightarrow> \<exists>s'. pause_all_devices A s = Inr s' \<and> ok s' \<and>
     swept A (\<lambda>_. True) False (set (deviceMap s)) s s'"
  unfolding pause_all_devices_def by (rule over_all) (rule pause_one_ok)

lemma resume_all_ok:
  "ok s \<Longrightarrow> \<not> devicemap_mtx s \<Longrightarrow> \<exists>s'. resume_all_devices A s = Inr s' \<and> ok s' \<and>
     swept A (\<lambda>d. \<not> isDisabled d) True (set (deviceMap s)) s s'"
  unfolding resume_all_devices_def by (rule over_all) (rule resume_one_ok)

text \<open>The loops over the devices of a session.\<close>

lemma on_session_device_ok:
  assumes f: "\<And>s p t fd. ok s \<Longrightarrow> ((t, fd), p) \<in> set (deviceMap s) \<Longrightarrow>
      \<exists>s'. f p s = Inr s' \<and> ok s' \<and> switches A p fd on s s'"
    and o: "ok s"
  shows "\<exists>s'. on_session_device f tid fd s = Inr s' \<and> ok s' \<and>
    swept A (\<lambda>d. \<not> isDisabled d) on (session_entries tid [fd] (deviceMap s)) s s'"
proof (cases "map_of (deviceMap s) (tid, fd)")
  case None
  then have "session_entries tid [fd] (deviceMap s) = {}"
    by (force simp: session_entries_def map_of_eq_None_iff)
  with None o show ?thesis by (auto simp: on_session_device_def intro: swept_refl)
next
  case (Some p)
  then have e: "((tid, fd), p) \<in> set (deviceMap s)" using map_of_mem [OF o] by simp
  have me: "((tid, fd), p) \<in> session_entries tid [fd] (deviceMap s)" using e by (simp add: session_entries_def)
  have u: "p' = p \<and> fd' = fd" if "((t', fd'), p') \<in> session_entries tid [fd] (deviceMap s)" for t' fd' p'
    using that fd_unique [OF o e, of t' p'] by (auto simp: session_entries_def)
  from o e obtain d where d: "devs s p = Some d" by (rule plat_okD)
  show ?thesis
  proof (cases "isDisabled d")
    case True
    have "swept A (\<lambda>d. \<not> isDisabled d) on (session_entries tid [fd] (deviceMap s)) s s"
      by (rule swept_refl) (use u d True in fastforce)
    with d o True Some show ?thesis by (simp add: on_session_device_def getd_def)
  next
    case False
    from f [OF o e] obtain s' where "f p s = Inr s'" "ok s'" and sw: "switches A p fd on s s'" by blast
    moreover have "swept A (\<lambda>d. \<not> isDisabled d) on (session_entries tid [fd] (deviceMap s)) s s'"
      by (rule swept_one [OF sw d _ me u]) (use False in simp)
    ultimately show ?thesis using d False Some by (simp add: on_session_device_def getd_def)
  qed
qed

lemma over_session:
  assumes f: "\<And>s p t fd. ok s \<Longrightarrow> ((t, fd), p) \<in> set (deviceMap s) \<Longrightarrow>
      \<exists>s'. f p s = Inr s' \<and> ok s' \<and> switches A p fd on s s'"
    and o: "ok s" and m: "\<not> devicemap_mtx s"
  shows "\<exists>s'. with_devices (\<lambda>s. rfold (on_session_device f tid)
        (equal_range sid (deviceSessionMultiMap s)) s) s = Inr s' \<and> ok s' \<and>
    swept A (\<lambda>d. \<not> isDisabled d) on
      (session_entries tid (equal_range sid (deviceSessionMultiMap s)) (deviceMap s)) s s'"
proof (rule with_devices_swept [OF o m _ refl refl])
  fix v :: "('a, 'b) plat_scheme"
  let ?fds = "equal_range sid (deviceSessionMultiMap s)"
  assume v: "ok v" "deviceMap v = deviceMap s" "deviceSessionMultiMap v = deviceSessionMultiMap s"
  have "\<exists>s'. rfold (on_session_device f tid) ?fds v = Inr s' \<and> (ok s' \<and> deviceMap s' = deviceMap s) \<and>
      swept A (\<lambda>d. \<not> isDisabled d) on (\<Union>fd \<in> set ?fds. session_entries tid [fd] (deviceMap s)) v s'"
  proof (rule swept_fold)
    show "ok v \<and> deviceMap v = deviceMap s" using v by simp
    fix fd and u :: "('a, 'b) plat_scheme"
    assume u: "ok u \<and> deviceMap u = deviceMap s"
    then have "\<exists>s'. on_session_device f tid fd u = Inr s' \<and> ok s' \<and>
        swept A (\<lambda>d. \<not> isDisabled d) on (session_entries tid [fd] (deviceMap u)) u s'"
      by (intro on_session_device_ok f) simp_all
    with u obtain s' where "on_session_device f tid fd u = Inr s'" "ok s'"
      "swept A (\<lambda>d. \<not> isDisabled d) on (session_entries tid [fd] (deviceMap s)) u s'" by auto
    moreover from this(3) have "deviceMap s' = deviceMap u" using switchedD(1) unfolding swept_def by blast
    ultimately show "\<exists>s'. on_session_device f tid fd u = Inr s' \<and> (ok s' \<and> deviceMap s' = deviceMap s) \<and>
        swept A (\<lambda>d. \<not> isDisabled d) on (session_entries tid [fd] (deviceMap s)) u s'" using u by simp
  qed
  then show "\<exists>s'. rfold (on_session_device f tid) (equal_range sid (deviceSessionMultiMap v)) v = Inr s' \<and>
      ok s' \<and> swept A (\<lambda>d. \<not> isDisabled d) on (session_entries tid ?fds (deviceMap s)) v s'"
    unfolding session_entries_Union v(3) by blast
qed

lemma pause_session_ok:
  "ok s \<Longrightarrow> \<not> devicemap_mtx s \<Longrightarrow> \<exists>s'. pause_devices_by_session A tid sid s = Inr s' \<and> ok s' \<and>
     swept A (\<lambda>d. \<not> isDisabled d) False
       (session_entries tid (equal_range sid (deviceSessionMultiMap s)) (deviceMap s)) s s'"
  unfolding pause_devices_by_session_def by (rule over_session) (rule disable_ok)

lemma resume_session_ok:
  "ok s \<Longrightarrow> \<not> devicemap_mtx s \<Longrightarrow> \<exists>s'. resume_devices_by_session A tid sid s = Inr s' \<and> ok s' \<and>
     swept A (\<lambda>d. \<not> isDisabled d) True
       (session_entries tid (equal_range sid (deviceSessionMultiMap s)) (deviceMap s)) s s'"
  unfolding resume_devices_by_session_def by (rule over_session) (rule enable_ok)

end

section \<open>Removing devices\<close>

text \<open>Device \<open>p\<close>, \<open>(tid, fd)\<close>, is gone and nothing else has changed.\<close>

definition removed :: "int \<Rightarrow> int \<Rightarrow> nat \<Rightarrow> ('a, 'z) plat_scheme \<Rightarrow> ('a, 'z) plat_scheme \<Rightarrow> bool" where
  "removed tid fd p s s' \<longleftrightarrow>
     s' = s\<lparr>agent := agent s', running := running s', devs := devs s', open_fds := open_fds s - {fd},
       clock := clock s', deviceMap := AList.delete (tid, fd) (deviceMap s)\<rparr> \<and>
     (\<forall>q. q \<noteq> p \<longrightarrow> devs s' q = devs s q) \<and> (\<forall>x. x \<noteq> fd \<longrightarrow> running s' x = running s x) \<and>
     \<not> running s' fd"

lemma removedD:
  assumes "removed tid fd p s s'"
  shows "deviceMap s' = AList.delete (tid, fd) (deviceMap s)" and "next_dev s' = next_dev s"
    and "deviceSessionMultiMap s' = deviceSessionMultiMap s"
    and "sessionKey s' = sessionKey s \<and> sKey s' = sKey s \<and> threadSessionmap_mtx s' = threadSessionmap_mtx s \<and>
      threadSessionMap s' = threadSessionMap s"
    and "\<And>x. x \<noteq> p \<Longrightarrow> devs s' x = devs s x" and "\<And>x. x \<noteq> fd \<Longrightarrow> running s' x = running s x"
proof -
  obtain a r dv c where "s' = s\<lparr>agent := a, running := r, devs := dv, open_fds := open_fds s - {fd}, clock := c,
      deviceMap := AList.delete (tid, fd) (deviceMap s)\<rparr>"
    using assms unfolding removed_def by blast
  then show "deviceMap s' = AList.delete (tid, fd) (deviceMap s)" and "next_dev s' = next_dev s"
    and "deviceSessionMultiMap s' = deviceSessionMultiMap s"
    and "sessionKey s' = sessionKey s \<and> sKey s' = sKey s \<and> threadSessionmap_mtx s' = threadSessionmap_mtx s \<and>
      threadSessionMap s' = threadSessionMap s" by simp_all
qed (use assms in \<open>simp_all add: removed_def\<close>)

lemma plat_ok_setd:
  assumes "plat_ok ainv reg free s" and "devs s p = Some d" and "deviceFileId d' = deviceFileId d"
    and "mmapBuffer d' = mmapBuffer d" and "deviceType d' = deviceType d"
  shows "plat_ok ainv reg free (setd p d' s)"
proof -
  have "dev_ok reg (setd p d' s) e" if "e \<in> set (deviceMap s)" for e
  proof -
    obtain t x q where e: "e = ((t, x), q)" by (metis prod.collapse)
    from assms(1) that [unfolded e] obtain c where "devs s q = Some c" "deviceFileId c = x" "1 \<le> x" "mmapBuffer c"
      "x \<in> open_fds s" "reg (agent s) x (deviceType c = BPDEVICE)" by (rule plat_okD)
    with assms(2-5) show ?thesis by (auto simp: e dev_ok_def setd_def)
  qed
  with assms(1) show ?thesis by (auto simp: plat_ok_def setd_def fds_of_def)
qed

lemma setd_simps [simp]:
  "deviceMap (setd p d s) = deviceMap s" "agent (setd p d s) = agent s" "running (setd p d s) = running s"
  "open_fds (setd p d s) = open_fds s" "devs (setd p d s) = (devs s)(p \<mapsto> d)" "clock (setd p d s) = clock s"
  "deviceSessionMultiMap (setd p d s) = deviceSessionMultiMap s" "devicemap_mtx (setd p d s) = devicemap_mtx s"
  "fds_of (setd p d s) = fds_of s"
  by (simp_all add: setd_def fds_of_def)

definition closable :: "os \<Rightarrow> int \<Rightarrow> bool" where
  "closable os fd \<longleftrightarrow> (\<forall>n. os_ok os n Munmap fd \<and> os_ok os n Close fd)"

lemma unRegister_eq:
  assumes "devs s p = Some d" and "closable os (deviceFileId d)"
  shows "unRegisterDevice A os p s = Inr (s\<lparr>agent := ag_unRegisterDevice A (bp_view_of d) (agent s),
    running := (running s)(deviceFileId d := False),
    devs := (devs s)(p \<mapsto> d\<lparr>mmapBuffer := False, isDisabled := False\<rparr>),
    open_fds := open_fds s - {deviceFileId d}, clock := clock s + 2\<rparr>)"
  using assms by (simp add: unRegisterDevice_def getd_def sys_CHECK_def sys_def closable_def close_fd_def
      setd_def bp_view_of_def Let_def)

context bp_agent
begin

lemma unregister_ok:
  assumes o: "ok s" and e: "((tid, fd), p) \<in> set (deviceMap s)" and c: "closable os fd"
  shows "\<exists>s'. rbind (unRegisterDevice A os p s) (\<lambda>s. Inr (s\<lparr>deviceMap := AList.delete (tid, fd) (deviceMap s)\<rparr>)) = Inr s' \<and>
    ok s' \<and> removed tid fd p s s'"
proof -
  from o e obtain d where d: "devs s p = Some d" "deviceFileId d = fd" "1 \<le> fd" "mmapBuffer d" "fd \<in> open_fds s"
    "reg (agent s) fd (deviceType d = BPDEVICE)" "ainv (agent s)" by (rule plat_okD)
  let ?v = "bp_view_of d"
  have v: "bv_fd ?v = fd" "bv_is_bp ?v = (deviceType d = BPDEVICE)" using d by (simp_all add: bp_view_of_def)
  define s' where "s' = s\<lparr>agent := ag_unRegisterDevice A ?v (agent s), running := (running s)(fd := False),
    devs := (devs s)(p \<mapsto> d\<lparr>mmapBuffer := False, isDisabled := False\<rparr>), open_fds := open_fds s - {fd},
    clock := clock s + 2, deviceMap := AList.delete (tid, fd) (deviceMap s)\<rparr>"
  have f: "fst e' \<noteq> (tid, fd) \<Longrightarrow> e' \<in> set (deviceMap s) \<Longrightarrow> snd (fst e') \<noteq> fd \<and> snd e' \<noteq> p" for e'
    using fd_unique [OF o e] dev_unique [OF o e] by (metis prod.collapse)
  note ag = unregister_inv [of "agent s" ?v] unregister_free [of "agent s" ?v] unregister_other [of "agent s" ?v]
  have dv: "dev_ok reg s' e'" if "e' \<in> set (deviceMap s')" for e'
  proof -
    from that have m: "e' \<in> set (deviceMap s)" "fst e' \<noteq> (tid, fd)" by (simp_all add: s'_def set_delete)
    from f [OF m(2,1)] have n: "snd (fst e') \<noteq> fd" "snd e' \<noteq> p" by simp_all
    obtain t x q where e': "e' = ((t, x), q)" by (metis prod.collapse)
    from o m(1) [unfolded e'] obtain d' where "devs s q = Some d'" "deviceFileId d' = x" "1 \<le> x" "mmapBuffer d'"
      "x \<in> open_fds s" "reg (agent s) x (deviceType d' = BPDEVICE)" by (rule plat_okD)
    with n ag(3) [of x] d v show ?thesis by (simp add: e' dev_ok_def s'_def)
  qed
  have fr: "free (agent s') x" if x: "1 \<le> x" "x \<notin> fds_of s'" for x
  proof (cases "x = fd")
    case True
    with ag(2) d v show ?thesis by (simp add: s'_def)
  next
    case False
    have "x \<notin> fds_of s"
    proof
      assume "x \<in> fds_of s"
      then obtain t q where "((t, x), q) \<in> set (deviceMap s)" by (auto simp: fds_of_def)
      with False have "((t, x), q) \<in> set (deviceMap s')" by (simp add: s'_def set_delete)
      with x(2) fds_ofI show False by blast
    qed
    with o x(1) have "free (agent s) x" by (simp add: plat_ok_def)
    with ag(3) [of x] d v False x(1) show ?thesis by (simp add: s'_def)
  qed
  have "distinct (map (\<lambda>e. snd (fst e)) (deviceMap s'))"
    using o by (simp add: s'_def plat_ok_def AList.delete_eq distinct_map_filter)
  moreover have "ainv (agent s')" using ag(1) d v by (simp add: s'_def)
  ultimately have "ok s'" using dv fr by (simp add: plat_ok_def)
  moreover have "removed tid fd p s s'" by (simp add: removed_def s'_def)
  ultimately show ?thesis using unRegister_eq [OF d(1), of os A] d(2) c by (simp add: s'_def)
qed

end

lemma removed_after_switch:
  assumes sw: "switches A p fd on (setd p d s) t" and r: "removed tid fd p t s'"
  shows "removed tid fd p s s'"
proof -
  have t: "t = (setd p d s)\<lparr>agent := agent t, running := running t\<rparr>"
    and tr: "x \<noteq> fd \<Longrightarrow> running t x = running s x" for x
    using sw by (simp_all add: switches_def switched_def)
  have s': "s' = t\<lparr>agent := agent s', running := running s', devs := devs s', open_fds := open_fds t - {fd},
       clock := clock s', deviceMap := AList.delete (tid, fd) (deviceMap t)\<rparr>"
    and r': "q \<noteq> p \<Longrightarrow> devs s' q = devs t q" "x \<noteq> fd \<Longrightarrow> running s' x = running t x" "\<not> running s' fd" for q x
    using r unfolding removed_def by blast+
  have d: "q \<noteq> p \<Longrightarrow> devs t q = devs s q" for q by (subst t) simp
  have "open_fds t = open_fds s" "deviceMap t = deviceMap s" by (subst t, simp)+
  with s' have "s' = (setd p d s)\<lparr>agent := agent t, running := running t\<rparr>\<lparr>agent := agent s', running := running s',
      devs := devs s', open_fds := open_fds s - {fd}, clock := clock s',
      deviceMap := AList.delete (tid, fd) (deviceMap s)\<rparr>"
    using t by metis
  also have "\<dots> = s\<lparr>agent := agent s', running := running s', devs := devs s', open_fds := open_fds s - {fd},
       clock := clock s', deviceMap := AList.delete (tid, fd) (deviceMap s)\<rparr>" by (simp add: setd_def)
  finally show ?thesis using r' d tr unfolding removed_def by metis
qed

text \<open>The devices \<open>fds\<close> of thread \<open>tid\<close> are gone, as far as there were any.\<close>

definition other_entry :: "int \<Rightarrow> int list \<Rightarrow> (int \<times> int) \<times> nat \<Rightarrow> bool" where
  "other_entry tid fds e \<longleftrightarrow> \<not> (fst (fst e) = tid \<and> snd (fst e) \<in> set fds)"

definition removed_all :: "int \<Rightarrow> int list \<Rightarrow> ('a, 'z) plat_scheme \<Rightarrow> ('a, 'z) plat_scheme \<Rightarrow> bool" where
  "removed_all tid fds s s' \<longleftrightarrow>
     s' = s\<lparr>agent := agent s', running := running s', devs := devs s',
       open_fds := open_fds s - (\<lambda>e. snd (fst e)) ` session_entries tid fds (deviceMap s),
       clock := clock s', deviceMap := filter (other_entry tid fds) (deviceMap s)\<rparr> \<and>
     (\<forall>q. q \<notin> snd ` session_entries tid fds (deviceMap s) \<longrightarrow> devs s' q = devs s q) \<and>
     (\<forall>x. x \<notin> (\<lambda>e. snd (fst e)) ` session_entries tid fds (deviceMap s) \<longrightarrow> running s' x = running s x)"

lemma removed_all_maps:
  assumes "removed_all tid fds s s'"
  shows "deviceMap s' = filter (other_entry tid fds) (deviceMap s)"
    and "open_fds s' = open_fds s - (\<lambda>e. snd (fst e)) ` session_entries tid fds (deviceMap s)"
    and "deviceSessionMultiMap s' = deviceSessionMultiMap s"
    and "next_dev s' = next_dev s" and "devicemap_mtx s' = devicemap_mtx s"
proof -
  obtain a r dv c where "s' = s\<lparr>agent := a, running := r, devs := dv,
       open_fds := open_fds s - (\<lambda>e. snd (fst e)) ` session_entries tid fds (deviceMap s),
       clock := c, deviceMap := filter (other_entry tid fds) (deviceMap s)\<rparr>"
    using assms unfolding removed_all_def by blast
  then show "deviceMap s' = filter (other_entry tid fds) (deviceMap s)"
    and "open_fds s' = open_fds s - (\<lambda>e. snd (fst e)) ` session_entries tid fds (deviceMap s)"
    and "deviceSessionMultiMap s' = deviceSessionMultiMap s"
    and "next_dev s' = next_dev s" and "devicemap_mtx s' = devicemap_mtx s" by simp_all
qed

lemma removed_all_Nil: "removed_all tid [] s s"
  by (simp add: removed_all_def session_entries_def other_entry_def)

lemma delete_filter: "AList.delete (tid, fd) M = filter (other_entry tid [fd]) M"
  by (auto simp: AList.delete_eq other_entry_def intro: filter_cong)

lemma removed_all_step:
  assumes e: "((tid, fd), p) \<in> set (deviceMap s)" and u: "\<And>q. ((tid, fd), q) \<in> set (deviceMap s) \<Longrightarrow> q = p"
    and r: "removed tid fd p s t" and rs: "removed_all tid fds t s'"
  shows "removed_all tid (fd # fds) s s'"
proof -
  have t: "t = s\<lparr>agent := agent t, running := running t, devs := devs t, open_fds := open_fds s - {fd},
       clock := clock t, deviceMap := AList.delete (tid, fd) (deviceMap s)\<rparr>"
    and t1: "q \<noteq> p \<Longrightarrow> devs t q = devs s q" "x \<noteq> fd \<Longrightarrow> running t x = running s x" for q x
    using r unfolding removed_def by blast+
  have m: "deviceMap t = AList.delete (tid, fd) (deviceMap s)" "open_fds t = open_fds s - {fd}"
    by (subst t, simp)+
  have E: "session_entries tid (fd # fds) (deviceMap s) =
      insert ((tid, fd), p) (session_entries tid fds (deviceMap t))"
    by (auto simp: session_entries_def m set_delete intro: e dest: u)
  have F: "filter (other_entry tid fds) (deviceMap t) = filter (other_entry tid (fd # fds)) (deviceMap s)"
    by (auto simp: m delete_filter other_entry_def intro: filter_cong)
  have "s' = t\<lparr>agent := agent s', running := running s', devs := devs s',
       open_fds := open_fds t - (\<lambda>e. snd (fst e)) ` session_entries tid fds (deviceMap t),
       clock := clock s', deviceMap := filter (other_entry tid fds) (deviceMap t)\<rparr>"
    and o: "\<forall>q. q \<notin> snd ` session_entries tid fds (deviceMap t) \<longrightarrow> devs s' q = devs t q"
      "\<forall>x. x \<notin> (\<lambda>e. snd (fst e)) ` session_entries tid fds (deviceMap t) \<longrightarrow> running s' x = running t x"
    using rs unfolding removed_all_def by blast+
  from this(1) have "s' = s\<lparr>agent := agent t, running := running t, devs := devs t, open_fds := open_fds s - {fd},
       clock := clock t, deviceMap := AList.delete (tid, fd) (deviceMap s)\<rparr>\<lparr>agent := agent s', running := running s', devs := devs s',
       open_fds := open_fds t - (\<lambda>e. snd (fst e)) ` session_entries tid fds (deviceMap t),
       clock := clock s', deviceMap := filter (other_entry tid fds) (deviceMap t)\<rparr>"
    using t by metis
  also have "\<dots> = s\<lparr>agent := agent s', running := running s', devs := devs s',
       open_fds := open_fds s - (\<lambda>e. snd (fst e)) ` session_entries tid (fd # fds) (deviceMap s),
       clock := clock s', deviceMap := filter (other_entry tid (fd # fds)) (deviceMap s)\<rparr>"
  proof -
    have "open_fds s - {fd} - X = open_fds s - insert fd X" for X by blast
    then show ?thesis unfolding F E m(2) by simp
  qed
  finally have "s' = s\<lparr>agent := agent s', running := running s', devs := devs s',
       open_fds := open_fds s - (\<lambda>e. snd (fst e)) ` session_entries tid (fd # fds) (deviceMap s),
       clock := clock s', deviceMap := filter (other_entry tid (fd # fds)) (deviceMap s)\<rparr>" .
  moreover have "devs s' q = devs s q" if "q \<notin> snd ` session_entries tid (fd # fds) (deviceMap s)" for q
    using that o(1) t1(1) [of q] by (simp add: E)
  moreover have "running s' x = running s x"
    if "x \<notin> (\<lambda>e. snd (fst e)) ` session_entries tid (fd # fds) (deviceMap s)" for x
    using that o(2) t1(2) [of x] by (simp add: E)
  ultimately show ?thesis unfolding removed_all_def by blast
qed

context bp_agent
begin

lemma remove_device_ok:
  assumes o: "ok s" and e: "((tid, fd), p) \<in> set (deviceMap s)" and c: "closable os fd"
  shows "\<exists>s'. remove_device A os tid fd False s = Inr s' \<and> ok s' \<and> removed tid fd p s s'"
proof -
  from o e obtain d where d: "devs s p = Some d" by (rule plat_okD)
  let ?s = "setd p (d\<lparr>isDisabled := True\<rparr>) s"
  have o1: "ok ?s" by (rule plat_ok_setd [OF o d]) simp_all
  from disable_ok [OF o1] e obtain t where t: "disable_device A p ?s = Inr t" "ok t"
    and sw: "switches A p fd False ?s t" by force
  have m: "deviceMap t = deviceMap s" using switchedD(1) sw unfolding switches_def by (metis setd_simps(1))
  with unregister_ok [OF t(2), of tid fd p os] e c obtain s' where
    s': "rbind (unRegisterDevice A os p t) (\<lambda>s. Inr (s\<lparr>deviceMap := AList.delete (tid, fd) (deviceMap s)\<rparr>)) = Inr s'"
    "ok s'" "removed tid fd p t s'" by auto
  have "remove_device A os tid fd False s = Inr s'"
    using map_of_mem [OF o, of "(tid, fd)" p] e d t(1) s'(1)
    by (simp add: remove_device_def end_device_def getd_def)
  with s' removed_after_switch [OF sw s'(3)] show ?thesis by blast
qed

lemma remove_absent: "ok s \<Longrightarrow> (\<And>p. ((tid, fd), p) \<notin> set (deviceMap s)) \<Longrightarrow> remove_device A os tid fd b s = Inr s"
  by (auto simp: remove_device_def split: option.split dest: map_of_SomeD)

lemma remove_all_ok:
  assumes "ok s" and "\<And>fd. fd \<in> set fds \<Longrightarrow> closable os fd"
  shows "\<exists>s'. rfold (\<lambda>fd. remove_device A os tid fd False) fds s = Inr s' \<and> ok s' \<and> removed_all tid fds s s'"
  using assms
proof (induction fds arbitrary: s)
  case Nil
  then show ?case by (simp add: removed_all_Nil)
next
  case (Cons fd fds)
  show ?case
  proof (cases "\<exists>p. ((tid, fd), p) \<in> set (deviceMap s)")
    case True
    then obtain p where p: "((tid, fd), p) \<in> set (deviceMap s)" ..
    from remove_device_ok [OF Cons.prems(1) p] Cons.prems(2) obtain t where
      t: "remove_device A os tid fd False s = Inr t" "ok t" "removed tid fd p s t" by auto
    from Cons.IH [OF t(2)] Cons.prems(2) obtain s' where
      s': "rfold (\<lambda>fd. remove_device A os tid fd False) fds t = Inr s'" "ok s'" "removed_all tid fds t s'" by auto
    have "removed_all tid (fd # fds) s s'"
      by (rule removed_all_step [OF p _ t(3) s'(3)]) (use fd_unique [OF Cons.prems(1) p] in blast)
    with t s' show ?thesis by auto
  next
    case False
    then have r: "remove_device A os tid fd False s = Inr s"
      by (intro remove_absent Cons.prems(1)) blast
    from Cons.IH [OF Cons.prems(1)] Cons.prems(2) obtain s' where
      s': "rfold (\<lambda>fd. remove_device A os tid fd False) fds s = Inr s'" "ok s'" "removed_all tid fds s s'" by auto
    have "session_entries tid (fd # fds) (deviceMap s) = session_entries tid fds (deviceMap s)"
      "filter (other_entry tid (fd # fds)) (deviceMap s) = filter (other_entry tid fds) (deviceMap s)"
      using False by (auto simp: session_entries_def other_entry_def intro!: filter_cong)
    with s' r show ?thesis by (simp add: removed_all_def)
  qed
qed

end

section \<open>Removing by session, and registering\<close>

lemma plat_ok_frame:
  assumes "plat_ok ainv reg free s" and "agent s' = agent s" and "deviceMap s' = deviceMap s"
    and "\<And>q. q \<in> snd ` set (deviceMap s) \<Longrightarrow> devs s' q = devs s q" and "open_fds s \<subseteq> open_fds s'"
  shows "plat_ok ainv reg free s'"
proof -
  have "dev_ok reg s' e" if "e \<in> set (deviceMap s)" for e
  proof -
    obtain t x q where e: "e = ((t, x), q)" by (metis prod.collapse)
    from assms(1) that [unfolded e] obtain c where "devs s q = Some c" "deviceFileId c = x" "1 \<le> x" "mmapBuffer c"
      "x \<in> open_fds s" "reg (agent s) x (deviceType c = BPDEVICE)" by (rule plat_okD)
    moreover have "devs s' q = devs s q" using assms(4) that e by force
    ultimately show ?thesis using assms(2,5) by (auto simp: e dev_ok_def)
  qed
  with assms(1-3) show ?thesis by (auto simp: plat_ok_def fds_of_def)
qed

text \<open>What opening a device changes; \<open>fd\<close> is the new descriptor.\<close>

definition opened :: "nat \<Rightarrow> int \<Rightarrow> ('a, 'z) plat_scheme \<Rightarrow> ('a, 'z) plat_scheme \<Rightarrow> bool" where
  "opened p fd s s' \<longleftrightarrow> agent s' = agent s \<and> deviceMap s' = deviceMap s \<and>
     deviceSessionMultiMap s' = deviceSessionMultiMap s \<and> devicemap_mtx s' = devicemap_mtx s \<and>
     next_dev s' = next_dev s \<and> clock s < clock s' \<and> (\<forall>q. q \<noteq> p \<longrightarrow> devs s' q = devs s q) \<and>
     open_fds s \<subseteq> open_fds s' \<and>
     (\<forall>x. x \<noteq> fd \<longrightarrow> running s' x = running s x)"

lemma register_open_cases:
  assumes d: "devs s p = Some d"
    and fd: "fd = perf_event_open os (clock s) (open_fds s) (registerThisDevice cfg (isAgentKVM A) d attr0)"
    and new: "fd \<noteq> -1 \<longrightarrow> 1 \<le> fd \<and> fd \<notin> open_fds s"
  shows "(\<exists>s'. register_open A os cfg sId p s = Inr (s', False) \<and> opened p fd s s' \<and> open_fds s' = open_fds s) \<or>
    (\<exists>s' d'. register_open A os cfg sId p s = Inr (s', True) \<and> opened p fd s s' \<and> fd \<noteq> -1 \<and>
       open_fds s' = insert fd (open_fds s) \<and> devs s' p = Some d' \<and> deviceFileId d' = fd \<and>
       mmapBuffer d' \<and> deviceType d' = deviceType d \<and> dev_sessionId d' = sId \<and>
       pe_attr d' = registerThisDevice cfg (isAgentKVM A) d attr0) \<or>
    register_open A os cfg sId p s = Inl (ExitProcess (-1))"
proof (cases "fd = -1")
  case True
  with d show ?thesis
    by (intro disjI1) (simp add: register_open_def getd_def opened_def setd_def Let_def flip: fd)
next
  case False
  show ?thesis
  proof (cases "os_ok os (clock s + 1) Mmap fd")
    case True
    with False d show ?thesis
      by (intro disjI2 disjI1) (auto simp: register_open_def getd_def opened_def setd_def Let_def sys_def simp flip: fd)
  next
    case F: False
    with False d new show ?thesis
      by (cases "os_ok os (clock s + 2) Close fd")
        (auto simp: register_open_def getd_def opened_def setd_def Let_def sys_def sys_CHECK_def close_fd_def
          simp flip: fd)
  qed
qed

lemma register_signals_cases:
  "(\<exists>n b. register_signals os fd s = Inr (s\<lparr>clock := n\<rparr>, b) \<and> clock s \<le> n) \<or> register_signals os fd s = Inl (ExitProcess (-1))"
  by (auto simp: register_signals_def sys_CHECK_def sys_def Let_def)

text \<open>The device is in the map and in its session, and known to the agent.\<close>

definition added :: "int \<Rightarrow> int \<Rightarrow> int \<Rightarrow> nat \<Rightarrow> ('a, 'z) plat_scheme \<Rightarrow> ('a, 'z) plat_scheme \<Rightarrow> bool" where
  "added tid sId fd p s s' \<longleftrightarrow> deviceMap s' = omap_put (tid, fd) p (deviceMap s) \<and>
     deviceSessionMultiMap s' = mmap_insert sId fd (deviceSessionMultiMap s) \<and>
     open_fds s' = insert fd (open_fds s) \<and> devicemap_mtx s' = devicemap_mtx s \<and> next_dev s' = next_dev s \<and>
     clock s < clock s' \<and>
     (\<forall>q. q \<noteq> p \<longrightarrow> devs s' q = devs s q) \<and> (\<forall>x. x \<noteq> fd \<longrightarrow> running s' x = running s x)"

context bp_agent
begin

lemma add_device_ok:
  assumes o: "ok s" and d: "devs s p = Some d" "deviceFileId d = fd" "mmapBuffer d" and fd: "1 \<le> fd" "fd \<in> open_fds s"
    and n: "fd \<notin> fds_of s"
  shows "ok (s\<lparr>deviceMap := omap_put (tid, fd) p (deviceMap s), deviceSessionMultiMap := M,
    agent := ag_registerDevice A (bp_view_of d) (agent s)\<rparr>)" (is "ok ?s")
proof -
  let ?v = "bp_view_of d"
  have v: "bv_fd ?v = fd" "bv_is_bp ?v = (deviceType d = BPDEVICE)" using d by (simp_all add: bp_view_of_def)
  have i: "ainv (agent s)" "free (agent s) fd" using o fd n by (simp_all add: plat_ok_def)
  note ag = register_inv [of "agent s" ?v] register_reg [of "agent s" ?v] register_other [of "agent s" ?v]
  have k: "(tid, fd) \<notin> fst ` set (deviceMap s)" using n by (force simp: fds_of_def)
  have M: "set (omap_put (tid, fd) p (deviceMap s)) = insert ((tid, fd), p) (set (deviceMap s))"
    by (rule omap_put_fresh [OF k])
  have F: "fds_of ?s = insert fd (fds_of s)" by (simp add: fds_of_def M)
  have dv: "dev_ok reg ?s e" if e: "e \<in> set (deviceMap s)" for e
  proof -
    obtain t x q where e': "e = ((t, x), q)" by (metis prod.collapse)
    from o e [unfolded e'] obtain c where "devs s q = Some c" "deviceFileId c = x" "1 \<le> x" "mmapBuffer c"
      "x \<in> open_fds s" "reg (agent s) x (deviceType c = BPDEVICE)" by (rule plat_okD)
    moreover have "x \<noteq> fd" using n fds_ofI e e' by blast
    ultimately show ?thesis using ag(3) [of x] i v fd by (simp add: e' dev_ok_def)
  qed
  have "dev_ok reg ?s ((tid, fd), p)" using d fd ag(2) i v by (simp add: dev_ok_def)
  moreover have "distinct (map (\<lambda>e. snd (fst e)) (deviceMap ?s))"
    using o n by (simp add: plat_ok_def omap_put_def delete_id [OF k] distinct_map_insort fds_of_def)
  moreover have "free (agent ?s) x" if "1 \<le> x" "x \<notin> fds_of ?s" for x
    using that o ag(3) [of x] i v fd by (simp add: F plat_ok_def)
  moreover have "ainv (agent ?s)" using ag(1) i v fd by simp
  ultimately show ?thesis using dv by (simp add: plat_ok_def M)
qed

lemma register_ok:
  fixes s :: "('a, 'b) plat_scheme"
  assumes o: "ok s" and m: "\<not> devicemap_mtx s" and d: "devs s p = Some d" and p: "p \<notin> snd ` set (deviceMap s)"
    and fd: "fd = perf_event_open os (clock s) (open_fds s) (registerThisDevice cfg (isAgentKVM A) d attr0)"
    and new: "fd \<noteq> -1 \<longrightarrow> 1 \<le> fd \<and> fd \<notin> open_fds s"
  shows "registerDevice A os cfg tid sId p s = Inl (ExitProcess (-1)) \<or>
    (\<exists>s'. registerDevice A os cfg tid sId p s = Inr (s', 0) \<and> ok s' \<and> added tid sId fd p s s' \<and> fd \<noteq> -1) \<or>
    (\<exists>s'. registerDevice A os cfg tid sId p s = Inr (s', -1) \<and> ok s' \<and> opened p fd s s')"
proof -
  have keep: "ok s'" if "opened p fd s s'" for s' :: "('a, 'b) plat_scheme"
    by (rule plat_ok_frame [OF o]) (use that p in \<open>auto simp: opened_def\<close>)
  from register_open_cases [OF d fd new, of sId]
  show ?thesis
  proof (elim disjE exE conjE)
    fix s' assume "register_open A os cfg sId p s = Inr (s', False)" "opened p fd s s'"
    with keep show ?thesis by (simp add: registerDevice_def)
  next
    assume "register_open A os cfg sId p s = Inl (ExitProcess (-1))"
    then show ?thesis by (simp add: registerDevice_def)
  next
    fix s1 d'
    assume r: "register_open A os cfg sId p s = Inr (s1, True)" "opened p fd s s1" "fd \<noteq> -1"
      "open_fds s1 = insert fd (open_fds s)"
      and d': "devs s1 p = Some d'" "deviceFileId d' = fd" "mmapBuffer d'"
    note k = keep [OF r(2)]
    from register_signals_cases [of os fd s1] show ?thesis
    proof (elim disjE exE conjE)
      assume "register_signals os fd s1 = Inl (ExitProcess (-1))"
      with r(1) d' show ?thesis by (simp add: registerDevice_def getd_def)
    next
      fix n b assume g: "register_signals os fd s1 = Inr (s1\<lparr>clock := n\<rparr>, b)" "clock s1 \<le> n"
      have o2: "ok (s1\<lparr>clock := n\<rparr>)" by (rule plat_ok_frame [OF k]) simp_all
      show ?thesis
      proof (cases b)
        case False
        with r(1,2) d' g o2 show ?thesis by (simp add: registerDevice_def getd_def opened_def)
      next
        case True
        have nf: "fd \<notin> fds_of (s1\<lparr>clock := n\<rparr>)"
        proof
          assume "fd \<in> fds_of (s1\<lparr>clock := n\<rparr>)"
          then obtain t q where "((t, fd), q) \<in> set (deviceMap s)" using r(2) by (auto simp: fds_of_def opened_def)
          from plat_okD [OF o this] new r(3) show False by blast
        qed
        have "devs (s1\<lparr>clock := n\<rparr>) p = Some d'" "fd \<in> open_fds (s1\<lparr>clock := n\<rparr>)" "1 \<le> fd"
          using d' r new by simp_all
        note a = add_device_ok [OF o2 this(1) d'(2,3) this(3,2) nf, where tid = tid]
        have "\<not> devicemap_mtx s1" using r(2) m by (simp add: opened_def)
        with r d' g True have "registerDevice A os cfg tid sId p s = Inr (s1\<lparr>clock := n,
            deviceMap := omap_put (tid, fd) p (deviceMap s1),
            deviceSessionMultiMap := mmap_insert sId fd (deviceSessionMultiMap s1),
            agent := ag_registerDevice A (bp_view_of d') (agent s1)\<rparr>, 0)"
          by (simp add: registerDevice_def getd_def add_new_device_def add_new_device_to_session_def
              with_devices_def lockDevice_def unlockDevice_def)
        then show ?thesis using a [where M = "mmap_insert sId fd (deviceSessionMultiMap s1)"] r(2,3,4) g(2)
          by (simp add: added_def opened_def)
      qed
    qed
  qed
qed

lemma remove_by_session_ok:
  assumes o: "ok s" and m: "\<not> devicemap_mtx s"
    and c: "\<And>fd. fd \<in> set (equal_range sid (deviceSessionMultiMap s)) \<Longrightarrow> closable os fd"
  shows "\<exists>s' t. remove_device_by_session A os tid sid s = Inr s' \<and> ok s' \<and>
    removed_all tid (equal_range sid (deviceSessionMultiMap s)) s t \<and>
    s' = t\<lparr>deviceSessionMultiMap := filter (\<lambda>e. fst e \<noteq> sid) (deviceSessionMultiMap s)\<rparr>"
proof -
  let ?fds = "equal_range sid (deviceSessionMultiMap s)"
  let ?l = "s\<lparr>devicemap_mtx := True\<rparr>"
  have "ok ?l" using o by simp
  from remove_all_ok [OF this, of ?fds os tid] c obtain t where
    t: "rfold (\<lambda>fd. remove_device A os tid fd False) ?fds ?l = Inr t" "ok t" "removed_all tid ?fds ?l t" by auto
  have mm: "deviceSessionMultiMap t = deviceSessionMultiMap s" using removed_all_maps(3) [OF t(3)] by simp
  define u where "u = t\<lparr>devicemap_mtx := False\<rparr>"
  have "removed_all tid ?fds s u"
  proof -
    have "t = ?l\<lparr>agent := agent t, running := running t, devs := devs t,
       open_fds := open_fds ?l - (\<lambda>e. snd (fst e)) ` session_entries tid ?fds (deviceMap ?l),
       clock := clock t, deviceMap := filter (other_entry tid ?fds) (deviceMap ?l)\<rparr>"
      using t(3) unfolding removed_all_def by blast
    then have "u = ?l\<lparr>agent := agent t, running := running t, devs := devs t,
       open_fds := open_fds ?l - (\<lambda>e. snd (fst e)) ` session_entries tid ?fds (deviceMap ?l),
       clock := clock t, deviceMap := filter (other_entry tid ?fds) (deviceMap ?l)\<rparr>\<lparr>devicemap_mtx := False\<rparr>"
      unfolding u_def by metis
    also have "\<dots> = s\<lparr>agent := agent u, running := running u, devs := devs u,
       open_fds := open_fds s - (\<lambda>e. snd (fst e)) ` session_entries tid ?fds (deviceMap s),
       clock := clock u, deviceMap := filter (other_entry tid ?fds) (deviceMap s)\<rparr>"
      using m by (simp add: u_def)
    finally show ?thesis using t(3) by (simp add: removed_all_def u_def)
  qed
  moreover have "remove_device_by_session A os tid sid s =
      Inr (u\<lparr>deviceSessionMultiMap := filter (\<lambda>e. fst e \<noteq> sid) (deviceSessionMultiMap s)\<rparr>)"
    using t(1) m mm by (simp add: remove_device_by_session_def with_devices_def lockDevice_def unlockDevice_def u_def)
  moreover have "ok (u\<lparr>deviceSessionMultiMap := filter (\<lambda>e. fst e \<noteq> sid) (deviceSessionMultiMap s)\<rparr>)"
    by (rule plat_ok_frame [OF t(2)]) (simp_all add: u_def)
  ultimately show ?thesis by blast
qed

end

section \<open>Probing for devices\<close>

text \<open>
  What the registry relies on: \<open>perf_event_open\<close> answers \<open>-1\<close> or a descriptor that is not open,
  descriptors can be closed, and the device objects of the map are allocated.
\<close>

definition fresh_os :: "os \<Rightarrow> bool" where
  "fresh_os os \<longleftrightarrow> (\<forall>n F a. perf_event_open os n F a \<noteq> -1 \<longrightarrow>
     1 \<le> perf_event_open os n F a \<and> perf_event_open os n F a \<notin> F)"

definition allocated :: "('a, 'z) plat_scheme \<Rightarrow> bool" where
  "allocated s \<longleftrightarrow> (\<forall>e \<in> set (deviceMap s). snd e < next_dev s)"

text \<open>Without the devices of session \<open>sid\<close> the maps of \<open>t\<close> are those of \<open>s\<close>.\<close>

definition only_added :: "int \<Rightarrow> int \<Rightarrow> ('a, 'z) plat_scheme \<Rightarrow> ('a, 'z) plat_scheme \<Rightarrow> bool" where
  "only_added tid sid s t \<longleftrightarrow>
     filter (other_entry tid (equal_range sid (deviceSessionMultiMap t))) (deviceMap t) = deviceMap s \<and>
     filter (\<lambda>e. fst e \<noteq> sid) (deviceSessionMultiMap t) = deviceSessionMultiMap s"

lemma only_added_step:
  assumes "only_added tid sid s t" and "added tid sid fd p t u" and "(tid, fd) \<notin> fst ` set (deviceMap t)"
  shows "only_added tid sid s u"
proof -
  have M: "deviceMap u = omap_put (tid, fd) p (deviceMap t)"
    and N: "deviceSessionMultiMap u = mmap_insert sid fd (deviceSessionMultiMap t)"
    using assms(2) by (simp_all add: added_def)
  have "set (equal_range sid (deviceSessionMultiMap u)) =
      insert fd (set (equal_range sid (deviceSessionMultiMap t)))"
    by (auto simp: set_equal_range N set_mmap_insert)
  then have "other_entry tid (equal_range sid (deviceSessionMultiMap u)) e =
      (other_entry tid [fd] e \<and> other_entry tid (equal_range sid (deviceSessionMultiMap t)) e)" for e
    by (auto simp: other_entry_def)
  then have "filter (other_entry tid (equal_range sid (deviceSessionMultiMap u))) (deviceMap u) =
      filter (other_entry tid (equal_range sid (deviceSessionMultiMap t))) (filter (other_entry tid [fd]) (deviceMap u))"
    by (auto intro: filter_cong)
  also have "filter (other_entry tid [fd]) (deviceMap u) = deviceMap t"
    using delete_omap_put [OF assms(3), of p] by (simp add: M delete_filter)
  finally show ?thesis using assms(1) by (simp add: only_added_def N filter_mmap_insert)
qed

lemma only_added_opened: "only_added tid sid s t \<Longrightarrow> opened p fd t u \<Longrightarrow> only_added tid sid s u"
  by (simp add: only_added_def opened_def)

lemma new_dev_simps:
  assumes "new_dev d s = (t, p)"
  shows "p = next_dev s" and "devs t p = Some d" and "deviceMap t = deviceMap s" and "clock t = clock s"
    and "deviceSessionMultiMap t = deviceSessionMultiMap s" and "devicemap_mtx t = devicemap_mtx s"
    and "next_dev t = Suc (next_dev s)" and "open_fds t = open_fds s" and "agent t = agent s"
    and "q \<noteq> p \<Longrightarrow> devs t q = devs s q"
  using assms by (auto simp: new_dev_def)

lemma new_dev_ok:
  assumes o: "plat_ok ainv reg free s" and a: "allocated s" and n: "new_dev d s = (t, p)"
  shows "plat_ok ainv reg free t" and "p \<notin> snd ` set (deviceMap t)" and "allocated t"
    and "only_added tid sid s' s \<Longrightarrow> only_added tid sid s' t"
proof -
  note m = new_dev_simps [OF n]
  show p: "p \<notin> snd ` set (deviceMap t)" using a m by (force simp: allocated_def)
  show "plat_ok ainv reg free t"
  proof (rule plat_ok_frame [OF o])
    fix q assume "q \<in> snd ` set (deviceMap s)"
    with p m(3) have "q \<noteq> p" by auto
    then show "devs t q = devs s q" by (rule m(10))
  qed (use m in simp_all)
  show "allocated t" using a m by (auto simp: allocated_def less_SucI)
  show "only_added tid sid s' t" if "only_added tid sid s' s" using that m by (simp add: only_added_def)
qed

context bp_agent
begin

lemma probe_ok:
  fixes t :: "('a, 'b) plat_scheme"
  assumes "ok t" and "\<not> devicemap_mtx t" and "allocated t" and "fresh_os os" and "only_added tid sid s t"
  shows "probe_devices A os cfg tid sid type wp n count t = Inl (ExitProcess (-1)) \<or>
    (\<exists>u k. probe_devices A os cfg tid sid type wp n count t = Inr (u, k) \<and> count \<le> k \<and> k \<le> count + n \<and>
       ok u \<and> \<not> devicemap_mtx u \<and> only_added tid sid s u)"
  using assms
proof (induction n arbitrary: count t)
  case 0
  then show ?case by simp
next
  case (Suc n)
  obtain v p where v: "new_dev (probe_device type count wp) t = (v, p)" by (cases "new_dev (probe_device type count wp) t")
  note nd = new_dev_simps [OF v] and nk = new_dev_ok [OF Suc.prems(1,3) v]
  let ?d = "probe_device type count wp"
  define fd where "fd = perf_event_open os (clock v) (open_fds v) (registerThisDevice cfg (isAgentKVM A) ?d attr0)"
  have new: "fd \<noteq> -1 \<longrightarrow> 1 \<le> fd \<and> fd \<notin> open_fds v"
    using Suc.prems(4) unfolding fd_def fresh_os_def by auto
  have m: "\<not> devicemap_mtx v" using Suc.prems(2) nd(6) by simp
  from register_ok [OF nk(1) m nd(2) nk(2) fd_def new, of tid sid] show ?case
  proof (elim disjE exE conjE)
    assume "registerDevice A os cfg tid sid p v = Inl (ExitProcess (-1))"
    with v show ?thesis by simp
  next
    fix u assume "registerDevice A os cfg tid sid p v = Inr (u, -1)" "ok u" and op: "opened p fd v u"
    moreover have "only_added tid sid s u" by (rule only_added_opened [OF nk(4) op]) (rule Suc.prems(5))
    moreover have "\<not> devicemap_mtx u" using op m by (simp add: opened_def)
    ultimately show ?thesis using v by simp
  next
    fix u assume u: "registerDevice A os cfg tid sid p v = Inr (u, 0)" "ok u" "added tid sid fd p v u" "fd \<noteq> -1"
    have k: "(tid, fd) \<notin> fst ` set (deviceMap v)"
    proof
      assume "(tid, fd) \<in> fst ` set (deviceMap v)"
      then obtain q where "((tid, fd), q) \<in> set (deviceMap v)" by auto
      from plat_okD [OF nk(1) this] new u(4) show False by blast
    qed
    have al: "allocated u"
      using nk(3) nd(1,7) u(3) by (auto simp: allocated_def added_def omap_put_fresh [OF k])
    have oa: "only_added tid sid s u" by (rule only_added_step [OF nk(4) u(3) k]) (rule Suc.prems(5))
    have mu: "\<not> devicemap_mtx u" using u(3) m by (simp add: added_def)
    from Suc.IH [OF u(2) mu al Suc.prems(4) oa, of "count + 1"] show ?thesis using v u(1) by auto
  qed
qed

lemma max_ok:
  fixes s :: "('a, 'b) plat_scheme"
  assumes o: "ok s" and m: "\<not> devicemap_mtx s" "\<not> threadSessionmap_mtx s" and al: "allocated s"
    and fr: "fresh_os os" and cl: "\<And>fd. closable os fd"
    and new: "\<forall>e \<in> set (deviceSessionMultiMap s). fst e \<noteq> sKey s"
  shows "getMaxDevices A os cfg tid type wp s = Inl (ExitProcess (-1)) \<or>
    (\<exists>s' k. getMaxDevices A os cfg tid type wp s = Inr (s', k) \<and> k \<le> MAX_POSSIBLE_DEVICES \<and> ok s' \<and>
       deviceMap s' = deviceMap s \<and> deviceSessionMultiMap s' = deviceSessionMultiMap s)"
proof -
  define t where "t = s\<lparr>sessionKey := (sessionKey s)(tid := sKey s), sKey := to_i32 (sKey s + 1),
    threadSessionMap := (threadSessionMap s)(tid \<mapsto> sKey s)\<rparr>"
  have g: "generate_session_key tid s = Inr t" using m by (simp add: generate_session_key_def t_def)
  have t: "ok t" by (rule plat_ok_frame [OF o]) (simp_all add: t_def)
  have "equal_range (sKey s) (deviceSessionMultiMap t) = []"
    using new by (auto simp: equal_range_def t_def filter_empty_conv)
  then have oa: "only_added tid (sKey s) s t"
    using new by (auto simp: only_added_def other_entry_def t_def intro: filter_True)
  have k: "get_session_key tid t = sKey s" by (simp add: get_session_key_def t_def)
  show ?thesis
  proof (cases "type \<noteq> PEBSDEVICE \<and> type \<noteq> BPDEVICE \<and> type \<noteq> EBSDEVICE")
    case True
    with g t show ?thesis by (simp add: getMaxDevices_def) (simp add: t_def)
  next
    case False
    have "\<not> devicemap_mtx t" "allocated t"
      using m al by (simp_all add: t_def allocated_def)
    from probe_ok [OF t this fr oa, of cfg type wp MAX_POSSIBLE_DEVICES 0] show ?thesis
    proof (elim disjE exE conjE)
      assume "probe_devices A os cfg tid (sKey s) type wp MAX_POSSIBLE_DEVICES 0 t = Inl (ExitProcess (-1))"
      with g k False show ?thesis by (auto simp: getMaxDevices_def)
    next
      fix u n
      assume u: "probe_devices A os cfg tid (sKey s) type wp MAX_POSSIBLE_DEVICES 0 t = Inr (u, n)"
        "n \<le> 0 + MAX_POSSIBLE_DEVICES" "ok u" "\<not> devicemap_mtx u" "only_added tid (sKey s) s u"
      from remove_by_session_ok [OF u(3,4), of "sKey s" os tid] cl obtain s' r where
        r: "remove_device_by_session A os tid (sKey s) u = Inr s'" "ok s'"
          "removed_all tid (equal_range (sKey s) (deviceSessionMultiMap u)) u r"
          "s' = r\<lparr>deviceSessionMultiMap := filter (\<lambda>e. fst e \<noteq> sKey s) (deviceSessionMultiMap u)\<rparr>" by blast
      from removed_all_maps(1) [OF r(3)] have "deviceMap s' = deviceMap s"
        "deviceSessionMultiMap s' = deviceSessionMultiMap s"
        using u(5) by (simp_all add: only_added_def r(4))
      moreover have "getMaxDevices A os cfg tid type wp s = Inr (s', n)"
        using g k False u(1) r(1) by (simp only: getMaxDevices_def rbind_simps prod.case if_False)
      ultimately show ?thesis using r(2) u(2) by simp
    qed
  qed
qed

end

end
