(* ===== verification/Platform_Props.thy ===== *)
theory Platform_Props
  imports Registry
begin

text \<open>
  The properties of the platform: what the operations of the registry do, at the KVM agent and at
  the native one, the reachable registries, the session keys and the signal handler.
\<close>

section \<open>Concrete inputs\<close>

text \<open>Every system call succeeds; the \<open>n\<close>th descriptor is \<open>n + 10\<close>, none after \<open>limit\<close>.\<close>

definition demo_os :: "nat \<Rightarrow> os" where
  "demo_os limit = \<lparr>perf_event_open = (\<lambda>n F a. if n < limit \<and> int n + 10 \<notin> F then int n + 10 else -1), os_ok = (\<lambda>_ _ _. True)\<rparr>"

definition demo_cfg :: dev_cfg where
  "demo_cfg = \<lparr>attr_size = 120, PEBS_SAMPLING_PERIOD = None, PEBS_SAMPLING_L1_LOAD_MISS = False,
     PEBS_SAMPLING_LLC_LOAD_MISS = False\<rparr>"

definition demo_dev :: "int \<Rightarrow> device" where
  "demo_dev fd = (new_PEBSDevice STORE)\<lparr>deviceFileId := fd, dev_sessionId := 3, mmapBuffer := True\<rparr>"

text \<open>Thread 1 has devices 5 and 6 in session 3, thread 2 has device 7 in it; 6 is disabled.\<close>

definition demo_plat :: "'a \<Rightarrow> 'a plat" where
  "demo_plat a = (plat_init a)\<lparr>deviceMap := [((1, 5), 0), ((1, 6), 1), ((2, 7), 2)],
     deviceSessionMultiMap := [(3, 5), (3, 6), (3, 7)],
     devs := [0 \<mapsto> demo_dev 5, 1 \<mapsto> (demo_dev 6)\<lparr>isDisabled := True\<rparr>, 2 \<mapsto> demo_dev 7],
     next_dev := 3, open_fds := {5, 6, 7}, running := (\<lambda>fd. fd = 5 \<or> fd = 7)\<rparr>"

abbreviation "native_ok \<equiv> plat_ok (\<lambda>_. True) (\<lambda>_ _ _. True) (\<lambda>_ _. True)"

lemma demo_plat_ok: "native_ok (demo_plat ())"
  by (simp add: plat_ok_def dev_ok_def demo_plat_def plat_init_def demo_dev_def new_PEBSDevice_def
      new_BPDevice_def)

lemma demo_closable: "closable (demo_os n) fd"
  by (simp add: closable_def demo_os_def)

text \<open>With the native agent every device is switched by the kernel.\<close>

lemma native_kernel_driven [simp]: "kernel_driven native_ops d"
  by (simp add: kernel_driven_def native_pauseDevice_def native_resumeDevice_def)

section \<open>Pausing and resuming\<close>

text \<open>Descriptor \<open>fd\<close> is an enabled device of session \<open>sid\<close> that belongs to thread \<open>tid\<close>.\<close>

definition own_enabled :: "int \<Rightarrow> int \<Rightarrow> ('a, 'z) plat_scheme \<Rightarrow> int \<Rightarrow> bool" where
  "own_enabled tid sid s fd \<longleftrightarrow> (\<exists>p d. ((tid, fd), p) \<in> set (deviceMap s) \<and>
     (sid, fd) \<in> set (deviceSessionMultiMap s) \<and> devs s p = Some d \<and> \<not> isDisabled d)"

lemma session_sweep:
  assumes sw: "swept native_ops (\<lambda>d. \<not> isDisabled d) on
      (session_entries tid (equal_range sid (deviceSessionMultiMap s)) (deviceMap s)) s v"
  shows "v = s\<lparr>running := (\<lambda>fd. if own_enabled tid sid s fd then on else running s fd)\<rparr>"
proof -
  let ?E = "session_entries tid (equal_range sid (deviceSessionMultiMap s)) (deviceMap s)"
  have E: "((t, fd), p) \<in> ?E \<longleftrightarrow> t = tid \<and> ((tid, fd), p) \<in> set (deviceMap s) \<and>
      (sid, fd) \<in> set (deviceSessionMultiMap s)" for t fd p
    by (auto simp: session_entries_def set_equal_range)
  have "running v fd = (if own_enabled tid sid s fd then on else running s fd)" for fd
  proof (cases "own_enabled tid sid s fd")
    case True
    then obtain p d where "((tid, fd), p) \<in> ?E" "devs s p = Some d" "\<not> isDisabled d"
      unfolding own_enabled_def E by blast
    with sw True show ?thesis unfolding swept_def by auto
  next
    case False
    then have "\<forall>t p d. ((t, fd), p) \<in> ?E \<longrightarrow> devs s p = Some d \<longrightarrow> \<not> \<not> isDisabled d"
      unfolding own_enabled_def E by blast
    with sw have "running v fd = running s fd" unfolding swept_def by blast
    with False show ?thesis by simp
  qed
  then have r: "running v = (\<lambda>fd. if own_enabled tid sid s fd then on else running s fd)" by (rule ext)
  have "v = s\<lparr>agent := agent v, running := running v\<rparr>" using sw by (simp add: swept_def switched_def)
  moreover have "s\<lparr>agent := agent v, running := running v\<rparr> = s\<lparr>running := running v\<rparr>" by (cases s) simp
  ultimately have "v = s\<lparr>running := running v\<rparr>" by metis
  with r show ?thesis by simp
qed



section \<open>Removing a session's devices\<close>

abbreviation "kvm_plat_ok \<equiv> plat_ok kvm_inv kvm_reg unheld"

definition demo_kvm_plat :: "kvm_agent plat" where
  "demo_kvm_plat = demo_plat (kvm_init\<lparr>hyPerfDev := Some demo_hv, deviceVCPUMap := [5 \<mapsto> 2, 6 \<mapsto> 2, 7 \<mapsto> 2]\<rparr>)"

lemma demo_kvm_plat_ok: "kvm_plat_ok demo_kvm_plat"
  by (auto simp: plat_ok_def dev_ok_def demo_kvm_plat_def demo_plat_def plat_init_def demo_dev_def
      new_PEBSDevice_def new_BPDevice_def kvm_inv_def kvm_ok_def kvm_init_def demo_hv_def kvm_reg_def unheld_def
      PEBSDEVICE_def BPDEVICE_def)

text \<open>C32: Removing a session closes and unregisters exactly the devices the calling thread has in it;
  every other device stays registered, and the session's entries are dropped.\<close>

theorem remove_session_exact:
  fixes s :: "(kvm_agent, 'z) plat_scheme"
  assumes "kvm_plat_ok s" and "\<not> devicemap_mtx s" and c: "\<And>fd. closable os fd"
  shows "\<exists>s'. remove_device_by_session kvm_ops os tid sid s = Inr s' \<and> kvm_plat_ok s' \<and>
    deviceMap s' = filter (\<lambda>e. \<not> (fst (fst e) = tid \<and> (sid, snd (fst e)) \<in> set (deviceSessionMultiMap s)))
      (deviceMap s) \<and>
    deviceSessionMultiMap s' = filter (\<lambda>e. fst e \<noteq> sid) (deviceSessionMultiMap s) \<and>
    open_fds s' = open_fds s -
      {fd. (sid, fd) \<in> set (deviceSessionMultiMap s) \<and> (tid, fd) \<in> fst ` set (deviceMap s)}"
proof -
  let ?fds = "equal_range sid (deviceSessionMultiMap s)"
  from kvm_agent.remove_by_session_ok [OF assms(1,2) c, where sid = sid and tid = tid] obtain s' t where
    r: "remove_device_by_session kvm_ops os tid sid s = Inr s'" "kvm_plat_ok s'" "removed_all tid ?fds s t"
      "s' = t\<lparr>deviceSessionMultiMap := filter (\<lambda>e. fst e \<noteq> sid) (deviceSessionMultiMap s)\<rparr>" by blast
  have "other_entry tid ?fds = (\<lambda>e. \<not> (fst (fst e) = tid \<and> (sid, snd (fst e)) \<in> set (deviceSessionMultiMap s)))"
    by (simp add: other_entry_def set_equal_range fun_eq_iff)
  moreover have "(\<lambda>e. snd (fst e)) ` session_entries tid ?fds (deviceMap s) =
      {fd. (sid, fd) \<in> set (deviceSessionMultiMap s) \<and> (tid, fd) \<in> fst ` set (deviceMap s)}"
    by (force simp: session_entries_def set_equal_range)
  ultimately show ?thesis using r removed_all_maps [OF r(3)] by simp
qed

theorem remove_session_exact_witness:
  "\<exists>s'. remove_device_by_session kvm_ops (demo_os 0) 1 3 demo_kvm_plat = Inr s' \<and>
     deviceMap s' = [((2, 7), 2)] \<and> open_fds s' = {7}"
proof -
  have "\<not> devicemap_mtx demo_kvm_plat" by (simp add: demo_kvm_plat_def demo_plat_def plat_init_def)
  from remove_session_exact [OF demo_kvm_plat_ok this demo_closable, of 0 1 3] show ?thesis
    by (auto simp: demo_kvm_plat_def demo_plat_def plat_init_def)
qed

text \<open>Removing a session drops the session's entries of every thread, but removes only the
  devices of the calling thread: a device another thread has in the session stays in the device map,
  open, with no session left that lists it.\<close>

theorem remove_session_strands_other_threads:
  fixes s :: "(kvm_agent, 'z) plat_scheme"
  assumes ok: "kvm_plat_ok s" and m: "\<not> devicemap_mtx s" and c: "\<And>fd. closable os fd"
    and e: "((t, fd), p) \<in> set (deviceMap s)" "t \<noteq> tid"
    and only: "\<And>k. (k, fd) \<in> set (deviceSessionMultiMap s) \<Longrightarrow> k = sid"
  shows "\<exists>s'. remove_device_by_session kvm_ops os tid sid s = Inr s' \<and> ((t, fd), p) \<in> set (deviceMap s') \<and>
    fd \<in> open_fds s' \<and> (\<forall>k. (k, fd) \<notin> set (deviceSessionMultiMap s'))"
proof -
  let ?fds = "equal_range sid (deviceSessionMultiMap s)"
  from kvm_agent.remove_by_session_ok [OF ok m c, where sid = sid and tid = tid] obtain s' u where
    r: "remove_device_by_session kvm_ops os tid sid s = Inr s'" "kvm_plat_ok s'" "removed_all tid ?fds s u"
      "s' = u\<lparr>deviceSessionMultiMap := filter (\<lambda>e. fst e \<noteq> sid) (deviceSessionMultiMap s)\<rparr>" by blast
  have m': "((t, fd), p) \<in> set (deviceMap s')" using e r(4) removed_all_maps(1) [OF r(3)] by (simp add: other_entry_def)
  from plat_okD [OF r(2) this] have "fd \<in> open_fds s'" by blast
  moreover have "\<forall>k. (k, fd) \<notin> set (deviceSessionMultiMap s')" using only r(4) by auto
  ultimately show ?thesis using r(1) m' by blast
qed

theorem remove_session_strands_other_threads_witness:
  "\<exists>s'. remove_device_by_session kvm_ops (demo_os 0) 1 3 demo_kvm_plat = Inr s' \<and>
     ((2, 7), 2) \<in> set (deviceMap s') \<and> 7 \<in> open_fds s' \<and> (\<forall>k. (k, 7) \<notin> set (deviceSessionMultiMap s'))"
proof -
  have "\<not> devicemap_mtx demo_kvm_plat" by (simp add: demo_kvm_plat_def demo_plat_def plat_init_def)
  moreover have "((2, 7), 2) \<in> set (deviceMap demo_kvm_plat)"
    by (simp add: demo_kvm_plat_def demo_plat_def plat_init_def)
  moreover have "(k, 7) \<in> set (deviceSessionMultiMap demo_kvm_plat) \<Longrightarrow> k = 3" for k
    by (simp add: demo_kvm_plat_def demo_plat_def plat_init_def)
  ultimately show ?thesis
    by (intro remove_session_strands_other_threads [OF demo_kvm_plat_ok _ demo_closable]) simp_all
qed

section \<open>Registering and probing\<close>

text \<open>C33: Registering a device either adds it under its thread, its descriptor and its session, or
  answers \<open>-1\<close> and leaves both maps and the agent as they were; the registry stays consistent. A
  system call that must not fail ends the process instead.\<close>

theorem register_all_or_nothing:
  fixes s :: "(kvm_agent, 'z) plat_scheme"
  assumes "kvm_plat_ok s" and "\<not> devicemap_mtx s" and "devs s p = Some d" and "p \<notin> snd ` set (deviceMap s)"
    and "fd = perf_event_open os (clock s) (open_fds s) (registerThisDevice cfg True d attr0)"
    and "fd \<noteq> -1 \<longrightarrow> 1 \<le> fd \<and> fd \<notin> open_fds s"
  shows "case registerDevice kvm_ops os cfg tid sid p s of
      Inl f \<Rightarrow> f = ExitProcess (-1)
    | Inr (s', r) \<Rightarrow> kvm_plat_ok s' \<and>
        (if r = 0
         then fd \<noteq> -1 \<and> deviceMap s' = omap_put (tid, fd) p (deviceMap s) \<and>
           deviceSessionMultiMap s' = mmap_insert sid fd (deviceSessionMultiMap s) \<and>
           open_fds s' = insert fd (open_fds s)
         else r = -1 \<and> deviceMap s' = deviceMap s \<and>
           deviceSessionMultiMap s' = deviceSessionMultiMap s \<and> agent s' = agent s)"
proof -
  have "fd = perf_event_open os (clock s) (open_fds s) (registerThisDevice cfg (isAgentKVM kvm_ops) d attr0)"
    using assms(5) by simp
  from kvm_agent.register_ok [OF assms(1-4) this assms(6), of tid sid] show ?thesis
    by (auto simp: added_def opened_def)
qed

theorem register_all_or_nothing_witness:
  "case registerDevice kvm_ops (demo_os 2) demo_cfg 1 4 3 (setd 3 (new_BPDevice 4 3 4096) demo_kvm_plat) of
     Inl f \<Rightarrow> f = ExitProcess (-1)
   | Inr (s', r) \<Rightarrow> kvm_plat_ok s' \<and> (if r = 0 then map_of (deviceMap s') (1, 10) = Some 3
       else deviceMap s' = deviceMap demo_kvm_plat)"
proof -
  let ?s = "setd 3 (new_BPDevice 4 3 4096) demo_kvm_plat"
  have s: "deviceMap demo_kvm_plat = [((1, 5), 0), ((1, 6), 1), ((2, 7), 2)]" "open_fds demo_kvm_plat = {5, 6, 7}"
    "\<not> devicemap_mtx demo_kvm_plat" "clock demo_kvm_plat = 0"
    by (simp_all add: demo_kvm_plat_def demo_plat_def plat_init_def)
  have "kvm_plat_ok ?s"
    by (rule plat_ok_frame [OF demo_kvm_plat_ok]) (auto simp: s)
  from register_all_or_nothing [OF this, of 3 "new_BPDevice 4 3 4096" 10 "demo_os 2" demo_cfg 1 4] show ?thesis
    by (cases "registerDevice kvm_ops (demo_os 2) demo_cfg 1 4 3 ?s")
      (auto simp: s demo_os_def map_of_omap_put split: if_splits)
qed

text \<open>C28: \<open>getMaxDevices\<close> answers at most 128 and leaves the device map and the session map as it
  found them, whichever device type is probed and however many can be opened.\<close>

theorem getMaxDevices_restores:
  fixes s :: "(kvm_agent, 'z) plat_scheme"
  assumes "kvm_plat_ok s" and "\<not> devicemap_mtx s" and "\<not> threadSessionmap_mtx s" and "allocated s"
    and "fresh_os os" and "\<And>fd. closable os fd"
    and "\<forall>e \<in> set (deviceSessionMultiMap s). fst e \<noteq> sKey s"
  shows "case getMaxDevices kvm_ops os cfg tid type wp s of
      Inl f \<Rightarrow> f = ExitProcess (-1)
    | Inr (s', k) \<Rightarrow> k \<le> 128 \<and> kvm_plat_ok s' \<and> deviceMap s' = deviceMap s \<and>
        deviceSessionMultiMap s' = deviceSessionMultiMap s"
  using kvm_agent.max_ok [OF assms, of cfg tid type wp] by (auto simp: MAX_POSSIBLE_DEVICES_def)

theorem getMaxDevices_restores_witness:
  "case getMaxDevices kvm_ops (demo_os 3) demo_cfg 1 BPDEVICE 4096 demo_kvm_plat of
     Inl f \<Rightarrow> f = ExitProcess (-1) | Inr (s', k) \<Rightarrow> k \<le> 128 \<and> deviceMap s' = deviceMap demo_kvm_plat"
proof -
  have "fresh_os (demo_os 3)" by (simp add: fresh_os_def demo_os_def)
  moreover have "allocated demo_kvm_plat" "\<not> devicemap_mtx demo_kvm_plat" "\<not> threadSessionmap_mtx demo_kvm_plat"
    "\<forall>e \<in> set (deviceSessionMultiMap demo_kvm_plat). fst e \<noteq> sKey demo_kvm_plat"
    by (simp_all add: allocated_def demo_kvm_plat_def demo_plat_def plat_init_def)
  ultimately show ?thesis
    using getMaxDevices_restores [OF demo_kvm_plat_ok, of "demo_os 3" demo_cfg 1 BPDEVICE 4096] demo_closable
    by (simp split: sum.splits prod.splits)
qed

section \<open>Session keys\<close>

text \<open>The keys two threads generate one after the other are different and are found under the
  thread's id; \<open>get_session_key_from_threadId\<close> for a thread without a key answers 0, which is the key
  of the first session of the process, and no error.\<close>

theorem session_keys:
  assumes "\<not> threadSessionmap_mtx s" and "0 \<le> sKey s" and "sKey s < 2 ^ 31 - 1" and "t \<noteq> u"
    and "threadSessionMap s v = None" and "v \<noteq> t" and "v \<noteq> u"
  shows "\<exists>s1 s2. generate_session_key t s = Inr s1 \<and> generate_session_key u s1 = Inr s2 \<and>
    get_session_key t s2 \<noteq> get_session_key u s2 \<and>
    get_session_key_from_threadId t s2 = Inr (s2, get_session_key t s2) \<and>
    get_session_key_from_threadId u s2 = Inr (s2, get_session_key u s2) \<and>
    (\<exists>s3. get_session_key_from_threadId v s2 = Inr (s3, 0))"
  using assms by (simp add: generate_session_key_def get_session_key_def get_session_key_from_threadId_def idx0_def
      Let_def fun_upd_twist)

theorem session_keys_witness:
  "\<exists>s1 s2 s3. generate_session_key 1 (plat_init ()) = Inr s1 \<and> generate_session_key 2 s1 = Inr s2 \<and>
     get_session_key 1 s2 \<noteq> get_session_key 2 s2 \<and> get_session_key_from_threadId 3 s2 = Inr (s3, 0)"
  using session_keys [of "plat_init ()" 1 2 3] by (auto simp: plat_init_def)

section \<open>The signal handler\<close>

text \<open>Every device of the map runs exactly when it is not disabled.\<close>

definition enabled_run :: "('a, 'z) plat_scheme \<Rightarrow> bool" where
  "enabled_run s \<longleftrightarrow> (\<forall>t fd p d. ((t, fd), p) \<in> set (deviceMap s) \<longrightarrow> devs s p = Some d \<longrightarrow>
     running s fd = (\<not> isDisabled d))"

lemma swept_switched: "swept A want on E s s' \<Longrightarrow> switched s s'"
  by (simp add: swept_def)

lemma flags_ok [simp]:
  "plat_ok ainv reg free (entering_signal_unsafe tid s) = plat_ok ainv reg free s"
  "plat_ok ainv reg free (exiting_signal_unsafe tid s) = plat_ok ainv reg free s"
  "plat_ok ainv reg free (s\<lparr>inSignalHandler := f\<rparr>) = plat_ok ainv reg free s"
  by (simp_all add: plat_ok_def dev_ok_def fds_of_def entering_signal_unsafe_def exiting_signal_unsafe_def
      cong: option.case_cong)

text \<open>After every device has been stopped, resuming starts exactly the enabled ones.\<close>

lemma resume_after_pause:
  fixes s :: "(unit, 'z) plat_scheme"
  assumes ok: "native_ok s" and m: "\<not> devicemap_mtx s"
    and off: "\<And>t fd p. ((t, fd), p) \<in> set (deviceMap s) \<Longrightarrow> \<not> running s fd"
  shows "\<exists>s'. resume_all_devices native_ops s = Inr s' \<and> native_ok s' \<and> switched s s' \<and> enabled_run s'"
proof -
  from native_agent.resume_all_ok [OF ok m] obtain s' where
    s': "resume_all_devices native_ops s = Inr s'" "native_ok s'"
      and sw: "swept native_ops (\<lambda>d. \<not> isDisabled d) True (set (deviceMap s)) s s'" by blast
  note sd = switchedD [OF swept_switched [OF sw]]
  have "enabled_run s'"
    unfolding enabled_run_def sd
  proof (intro allI impI)
    fix t fd p d assume e: "((t, fd), p) \<in> set (deviceMap s)" and d: "devs s p = Some d"
    show "running s' fd = (\<not> isDisabled d)"
    proof (cases "isDisabled d")
      case True
      have "\<forall>t p d. ((t, fd), p) \<in> set (deviceMap s) \<longrightarrow> devs s p = Some d \<longrightarrow> \<not> \<not> isDisabled d"
        using fd_unique [OF ok e] d True by (metis option.inject)
      with sw have "running s' fd = running s fd" unfolding swept_def by blast
      with off [OF e] True show ?thesis by simp
    next
      case False
      with sw e d show ?thesis unfolding swept_def by auto
    qed
  qed
  with s' swept_switched [OF sw] show ?thesis by blast
qed

lemma pause_all_stops:
  fixes s :: "(unit, 'z) plat_scheme"
  assumes ok: "native_ok s" and m: "\<not> devicemap_mtx s"
  shows "\<exists>s'. pause_all_devices native_ops s = Inr s' \<and> native_ok s' \<and> switched s s' \<and>
    (\<forall>t fd p. ((t, fd), p) \<in> set (deviceMap s) \<longrightarrow> \<not> running s' fd)"
proof -
  from native_agent.pause_all_ok [OF ok m] obtain s' where
    s': "pause_all_devices native_ops s = Inr s'" "native_ok s'"
      and sw: "swept native_ops (\<lambda>_. True) False (set (deviceMap s)) s s'" by blast
  have "\<not> running s' fd" if e: "((t, fd), p) \<in> set (deviceMap s)" for t fd p
  proof -
    from plat_okD [OF ok e] obtain d where "devs s p = Some d" by blast
    with sw e show ?thesis unfolding swept_def by (metis native_kernel_driven)
  qed
  with s' swept_switched [OF sw] show ?thesis by blast
qed

text \<open>A signal that arrives while the thread is inside an allocation hook or already handles a
  signal does not reach the device's handler: whatever that handler would do, the generic handler
  returns with both flags as they were and with exactly the enabled devices running.\<close>

theorem handler_ignores_nested_signal:
  fixes s :: "(unit, 'z) plat_scheme"
  assumes ok: "native_ok s" and m: "\<not> devicemap_mtx s" and busy: "signalUnsafe s tid \<or> inSignalHandler s tid"
  shows "\<exists>s'. (\<forall>body. generic_dev_signal_handler native_ops body tid fd s = Inr s') \<and> native_ok s' \<and>
    enabled_run s' \<and> signalUnsafe s' tid = signalUnsafe s tid \<and>
    inSignalHandler s' tid = inSignalHandler s tid \<and> deviceMap s' = deviceMap s"
proof -
  from pause_all_stops [OF ok m] obtain s1 where s1: "pause_all_devices native_ops s = Inr s1" "native_ok s1"
    "switched s s1" "\<And>t fd p. ((t, fd), p) \<in> set (deviceMap s) \<Longrightarrow> \<not> running s1 fd" by blast
  note sd = switchedD [OF s1(3)]
  define u where "u = (if signalUnsafe s tid then entering_signal_unsafe tid s1
    else fst (isInSignalHandler tid (exiting_signal_unsafe tid (entering_signal_unsafe tid s1))))"
  have u: "native_ok u" "deviceMap u = deviceMap s" "running u = running s1" "\<not> devicemap_mtx u"
    "signalUnsafe u tid = signalUnsafe s tid" "inSignalHandler u tid = inSignalHandler s tid"
    using s1 m busy by (auto simp: u_def isInSignalHandler_def sd)
      (auto simp: entering_signal_unsafe_def exiting_signal_unsafe_def sd)
  from resume_after_pause [OF u(1,4)] u(2,3) s1(4) obtain s' where
    s': "resume_all_devices native_ops u = Inr s'" "native_ok s'" "switched u s'" "enabled_run s'" by auto
  note su = switchedD [OF s'(3)]
  have "generic_dev_signal_handler native_ops body tid fd s = Inr s'" for body
    using s1(1) s'(1) busy sd(7,8)
    by (auto simp: generic_dev_signal_handler_def Let_def u_def isInSignalHandler_def)
      (auto simp: entering_signal_unsafe_def exiting_signal_unsafe_def)
  with s'(2,4) su u show ?thesis by (intro exI [of _ s']) simp
qed

theorem handler_ignores_nested_signal_witness:
  "\<exists>s'. generic_dev_signal_handler native_ops (\<lambda>_ _. Inl UseAfterFree) 1 5
      (entering_signal_unsafe 1 (demo_plat ())) = Inr s' \<and> enabled_run s'"
proof -
  have "native_ok (entering_signal_unsafe 1 (demo_plat ()))" using demo_plat_ok by simp
  from handler_ignores_nested_signal [OF this, of 1 5] show ?thesis
    by (auto simp: entering_signal_unsafe_def demo_plat_def plat_init_def)
qed



text \<open>With an agent that is not notified afterwards, a signal that interrupts a thread while it
  holds the device mutex deadlocks that thread: the handler pauses every device before it looks at
  either guard.\<close>

theorem handler_deadlocks_on_device_mutex:
  fixes s :: "('a, 'z) plat_scheme"
  assumes "\<not> requestWillBeNotified A" and "devicemap_mtx s"
  shows "generic_dev_signal_handler A body tid fd s = Inl Deadlock"
  using assms by (simp add: generic_dev_signal_handler_def pause_all_devices_def with_devices_def lockDevice_def)

theorem handler_deadlocks_on_device_mutex_witness:
  "generic_dev_signal_handler native_ops (\<lambda>_. Inr) 1 5 ((demo_plat ())\<lparr>devicemap_mtx := True\<rparr>) = Inl Deadlock"
  by (rule handler_deadlocks_on_device_mutex) simp_all

end
