(* ===== verification/Platform_Reach.thy ===== *)
theory Platform_Reach
  imports Platform_Props
begin

text \<open>
  The platform and its signal handling as step relations: the registries that sequences of
  operations reach, and the interleavings of a thread with the signals it receives.
\<close>

section \<open>Reachable registries\<close>

text \<open>
  One call of the platform by thread \<open>tid\<close>. Each call may see other answers of the system (\<open>os\<close>);
  a device is created and registered in one step, as the tools do.
\<close>

inductive plat_step :: "'a agent_ops \<Rightarrow> dev_cfg \<Rightarrow> 'a plat \<Rightarrow> 'a plat \<Rightarrow> bool" for A cfg where
  session: "generate_session_key tid s = Inr s' \<Longrightarrow> plat_step A cfg s s'"
| end_session: "destroy_session_key tid s = Inr s' \<Longrightarrow> plat_step A cfg s s'"
| register: "new_dev d s = (s1, p) \<Longrightarrow>
    fd = perf_event_open os (clock s1) (open_fds s1) (registerThisDevice cfg (isAgentKVM A) d attr0) \<Longrightarrow>
    fd \<noteq> -1 \<longrightarrow> 1 \<le> fd \<and> fd \<notin> open_fds s1 \<Longrightarrow>
    registerDevice A os cfg tid sid p s1 = Inr (s', r) \<Longrightarrow> plat_step A cfg s s'"
| remove: "(\<And>fd. closable os fd) \<Longrightarrow> remove_device_by_session A os tid sid s = Inr s' \<Longrightarrow> plat_step A cfg s s'"
| pause: "pause_devices_by_session A tid sid s = Inr s' \<Longrightarrow> plat_step A cfg s s'"
| resume: "resume_devices_by_session A tid sid s = Inr s' \<Longrightarrow> plat_step A cfg s s'"
| pause_all: "pause_all_devices A s = Inr s' \<Longrightarrow> plat_step A cfg s s'"
| resume_all: "resume_all_devices A s = Inr s' \<Longrightarrow> plat_step A cfg s s'"

inductive plat_reach :: "'a agent_ops \<Rightarrow> dev_cfg \<Rightarrow> 'a \<Rightarrow> 'a plat \<Rightarrow> bool" for A cfg a where
  start: "plat_reach A cfg a (plat_init a)"
| step: "plat_reach A cfg a s \<Longrightarrow> plat_step A cfg s s' \<Longrightarrow> plat_reach A cfg a s'"

lemma swept_allocated:
  assumes "swept A want on E s s'"
  shows "allocated s' = allocated s" and "devicemap_mtx s' = devicemap_mtx s"
  using switchedD [OF swept_switched [OF assms]] by (simp_all add: allocated_def)

context bp_agent
begin

definition "reg_ok s \<longleftrightarrow> ok s \<and> \<not> devicemap_mtx s \<and> allocated s"

lemma swept_reg_ok:
  assumes "reg_ok s" and "res = Inr s'" and "\<exists>t. res = Inr t \<and> ok t \<and> swept A want on E s t"
  shows "reg_ok s'"
  using assms swept_allocated by (fastforce simp: reg_ok_def)

lemma step_reg_ok:
  assumes "plat_step A cfg s s'" and "reg_ok s"
  shows "reg_ok s'"
  using assms(1)
proof cases
  case (session tid)
  then have "s' = s\<lparr>sessionKey := (sessionKey s)(tid := sKey s), sKey := to_i32 (sKey s + 1),
      threadSessionMap := (threadSessionMap s)(tid \<mapsto> sKey s)\<rparr>"
    by (simp add: generate_session_key_def split: if_splits)
  with assms(2) plat_ok_frame [of ainv reg free s s'] show ?thesis by (simp add: reg_ok_def allocated_def)
next
  case (end_session tid)
  then have "s' = s\<lparr>threadSessionMap := (threadSessionMap s)(tid \<mapsto> -1)\<rparr>"
    by (simp add: destroy_session_key_def split: if_splits)
  with assms(2) plat_ok_frame [of ainv reg free s s'] show ?thesis by (simp add: reg_ok_def allocated_def)
next
  case (register d s1 p fd os tid sid r)
  have o: "ok s" "\<not> devicemap_mtx s" "allocated s" using assms(2) by (simp_all add: reg_ok_def)
  note nd = new_dev_simps [OF register(1)] and nk = new_dev_ok [OF o(1,3) register(1)]
  have m: "\<not> devicemap_mtx s1" using o(2) nd by simp
  from register_ok [OF nk(1) m nd(2) nk(2) register(2,3), of tid sid] register(4) have
    "ok s' \<and> (added tid sid fd p s1 s' \<or> opened p fd s1 s')" by auto
  with m nk(3) nd(1,7) show ?thesis
    by (fastforce simp: reg_ok_def added_def opened_def allocated_def set_omap_put set_delete)
next
  case (remove os tid sid)
  have o: "ok s" "\<not> devicemap_mtx s" "allocated s" using assms(2) by (simp_all add: reg_ok_def)
  from remove_by_session_ok [OF o(1,2), of sid os tid] remove obtain t where
    t: "ok s'" "removed_all tid (equal_range sid (deviceSessionMultiMap s)) s t"
      "s' = t\<lparr>deviceSessionMultiMap := filter (\<lambda>e. fst e \<noteq> sid) (deviceSessionMultiMap s)\<rparr>" by auto
  from removed_all_maps [OF t(2)] t(1,3) o show ?thesis by (simp add: reg_ok_def allocated_def)
next
  case (pause tid sid)
  show ?thesis by (rule swept_reg_ok [OF assms(2) pause pause_session_ok]) (use assms(2) in \<open>simp_all add: reg_ok_def\<close>)
next
  case (resume tid sid)
  show ?thesis by (rule swept_reg_ok [OF assms(2) resume resume_session_ok]) (use assms(2) in \<open>simp_all add: reg_ok_def\<close>)
next
  case pause_all
  show ?thesis by (rule swept_reg_ok [OF assms(2) pause_all pause_all_ok]) (use assms(2) in \<open>simp_all add: reg_ok_def\<close>)
next
  case resume_all
  show ?thesis by (rule swept_reg_ok [OF assms(2) resume_all resume_all_ok]) (use assms(2) in \<open>simp_all add: reg_ok_def\<close>)
qed

lemma reach_reg_ok:
  assumes "plat_reach A cfg a s" and "ainv a" and "\<And>fd. 1 \<le> fd \<Longrightarrow> free a fd"
  shows "reg_ok s"
  using assms
proof (induction rule: plat_reach.induct)
  case start
  then show ?case by (simp add: reg_ok_def plat_ok_def plat_init_def allocated_def fds_of_def)
next
  case (step s s')
  then show ?case using step_reg_ok by blast
qed

end


definition demo_kvm_start :: kvm_agent where
  "demo_kvm_start = kvm_init\<lparr>hyPerfDev := Some demo_hv\<rparr>"


section \<open>A thread and its signals\<close>

text \<open>
  The places in \<open>generic_dev_signal_handler\<close> at which another signal matters: before the test of
  \<open>signalUnsafe\<close>, between it and the release, before \<open>isInSignalHandler()\<close>, and in the device's
  handler. A signal pushes an activation that runs before what it interrupted goes on; the
  allocation hooks set and clear \<open>signalUnsafe\<close> of the interrupted code (\<open>allocating\<close>).
\<close>

datatype handler_pc = AtUnsafe | AtRelease | AtGuard | InBody

record thread_st =
  activations :: "handler_pc list"
  unsafe :: bool
  busy :: bool
  allocating :: bool

inductive handler_step :: "thread_st \<Rightarrow> thread_st \<Rightarrow> bool" where
  signal: "handler_step s (s\<lparr>activations := AtUnsafe # activations s\<rparr>)"
| ignored: "activations s = AtUnsafe # st \<Longrightarrow> unsafe s \<Longrightarrow> handler_step s (s\<lparr>activations := st\<rparr>)"
| safe: "activations s = AtUnsafe # st \<Longrightarrow> \<not> unsafe s \<Longrightarrow>
    handler_step s (s\<lparr>activations := AtRelease # st, unsafe := True\<rparr>)"
| release: "activations s = AtRelease # st \<Longrightarrow>
    handler_step s (s\<lparr>activations := AtGuard # st, unsafe := False\<rparr>)"
| reentered: "activations s = AtGuard # st \<Longrightarrow> busy s \<Longrightarrow> handler_step s (s\<lparr>activations := st\<rparr>)"
| enter: "activations s = AtGuard # st \<Longrightarrow> \<not> busy s \<Longrightarrow>
    handler_step s (s\<lparr>activations := InBody # st, busy := True\<rparr>)"
| leave: "activations s = InBody # st \<Longrightarrow> handler_step s (s\<lparr>activations := st, busy := False\<rparr>)"
| pre_alloc: "activations s = [] \<Longrightarrow> \<not> allocating s \<Longrightarrow> handler_step s (s\<lparr>unsafe := True, allocating := True\<rparr>)"
| post_alloc: "activations s = [] \<Longrightarrow> allocating s \<Longrightarrow> handler_step s (s\<lparr>unsafe := False, allocating := False\<rparr>)"

inductive thread_reach :: "thread_st \<Rightarrow> bool" where
  start: "thread_reach \<lparr>activations = [], unsafe = False, busy = False, allocating = False\<rparr>"
| step: "thread_reach s \<Longrightarrow> handler_step s s' \<Longrightarrow> thread_reach s'"

definition thread_ok :: "thread_st \<Rightarrow> bool" where
  "thread_ok s \<longleftrightarrow> length (filter ((=) InBody) (activations s)) = (if busy s then 1 else 0) \<and>
     (AtRelease \<in> set (activations s) \<longrightarrow> unsafe s) \<and>
     length (filter ((=) AtRelease) (activations s)) \<le> 1 \<and>
     (allocating s \<longrightarrow> set (activations s) \<subseteq> {AtUnsafe} \<and> unsafe s)"

lemma handler_step_ok: "handler_step s s' \<Longrightarrow> thread_ok s \<Longrightarrow> thread_ok s'"
  by (induction rule: handler_step.induct)
    (auto simp: thread_ok_def filter_empty_conv split: if_splits)



end
