(* ===== verification/Symbols.thy ===== *)
theory Symbols
  imports Prelude "HOL-Library.Multiset"
begin

text \<open>
  The symbol tables of the agents: \<^verbatim>\<open>src/agent/nativeAgent/symbol.cpp\<close> (the Python agent's is the same)
  and \<^verbatim>\<open>src/agent/kvmAgent/symbol.cpp\<close>. The BFD library is a parameter: what it answers for the file.
\<close>

section \<open>The tables\<close>

record asymbol =
  asym_name :: string
  asym_value :: int
  asym_base :: int
  asym_section_size :: int

text \<open>
  \<open>bfd_openr\<close> is null or not; \<open>bfd_get_symtab_upper_bound\<close>; the symbols that
  \<open>bfd_canonicalize_symtab\<close> stores, \<open>None\<close> when it answers a negative number.
\<close>

record bfd =
  openr_ok :: bool
  symtab_upper_bound :: int
  canonicalize_symtab :: "asymbol list option"

record symbols =
  isBfdInit :: bool
  symbolMap :: "(int \<times> string) list"

record kvm_symbols = symbols +
  symbolSectionEnd :: "(int \<times> int) list"

definition add_symbol :: "asymbol \<Rightarrow> symbols \<Rightarrow> symbols" where
  "add_symbol a s = s\<lparr>symbolMap := mmap_insert (to_i64 (asym_value a)) (asym_name a) (symbolMap s)\<rparr>"

text \<open>The end of the section a symbol lies in, converted to \<open>long\<close>.\<close>

definition kvm_add_symbol :: "asymbol \<Rightarrow> kvm_symbols \<Rightarrow> kvm_symbols" where
  "kvm_add_symbol a s =
     s\<lparr>symbolMap := mmap_insert (to_i64 (asym_value a)) (asym_name a) (symbolMap s),
       symbolSectionEnd := mmap_insert (to_i64 (asym_value a)) (to_i64 (asym_base a + asym_section_size a))
         (symbolSectionEnd s)\<rparr>"

section \<open>\<open>Symbol::Load\<close>\<close>

text \<open>
  The file is read at most once in the life of the process, for whichever table asks first: a later
  call answers true and leaves its table as it is.
\<close>

definition native_Load :: "bfd \<Rightarrow> symbols \<Rightarrow> symbols \<times> bool" where
  "native_Load b s =
     (if isBfdInit s then (s, True)
      else let s = s\<lparr>isBfdInit := True\<rparr>
           in if \<not> openr_ok b \<or> symtab_upper_bound b \<le> 0 then (s, False)
              else case canonicalize_symtab b of None \<Rightarrow> (s, False)
                   | Some syms \<Rightarrow> (fold add_symbol syms s, True))"

definition kvm_Load :: "bfd \<Rightarrow> kvm_symbols \<Rightarrow> kvm_symbols \<times> bool" where
  "kvm_Load b s =
     (if isBfdInit s then (s, True)
      else let s = s\<lparr>isBfdInit := True\<rparr>
           in if \<not> openr_ok b \<or> symtab_upper_bound b \<le> 0 then (s, False)
              else case canonicalize_symtab b of None \<Rightarrow> (s, False)
                   | Some syms \<Rightarrow> (fold kvm_add_symbol syms s, True))"

section \<open>Lookups\<close>

definition native_getStartAddress :: "int \<Rightarrow> symbols \<Rightarrow> int res" where
  "native_getStartAddress addr s =
     (let m = symbolMap s; itfound = lower_bound addr m
      in if itfound = 0 then Inr addr
         else if itfound = length m then Inr (-1)
         else if addr \<in> fst ` set m then rbind (iter_get m itfound) (\<lambda>e. Inr (fst e))
         else rbind (iter_prev itfound) (\<lambda>i. rbind (iter_get m i) (\<lambda>e. Inr (fst e))))"

definition kvm_getStartAddress :: "int \<Rightarrow> kvm_symbols \<Rightarrow> int res" where
  "kvm_getStartAddress addr s =
     (let m = symbolMap s; itfound = lower_bound addr m; sectionfound = lower_bound addr (symbolSectionEnd s)
      in if itfound = 0 then Inr addr
         else if itfound = length m then Inr (-1)
         else if addr \<in> fst ` set m
         then rbind (iter_get (symbolSectionEnd s) sectionfound) (\<lambda>e.
                if snd e \<ge> addr then rbind (iter_get m itfound) (\<lambda>e. Inr (fst e)) else Inr (-1))
         else rbind (iter_prev itfound) (\<lambda>itfound. rbind (iter_prev sectionfound) (\<lambda>sectionfound.
              rbind (iter_get (symbolSectionEnd s) sectionfound) (\<lambda>e.
                if snd e \<ge> addr then rbind (iter_get m itfound) (\<lambda>e. Inr (fst e)) else Inr (-1)))))"

definition getFunctionName :: "int \<Rightarrow> kvm_symbols \<Rightarrow> string res" where
  "getFunctionName addr s =
     (let m = symbolMap s; itfound = lower_bound addr m
      in if itfound = 0 then rbind (iter_get m itfound) (\<lambda>e. Inr (snd e))
         else if itfound = length m then Inr ''''
         else rbind (iter_get m itfound) (\<lambda>e. Inr (snd e)))"

section \<open>What is loaded\<close>

definition sym_entry :: "asymbol \<Rightarrow> int \<times> string" where
  "sym_entry a = (to_i64 (asym_value a), asym_name a)"

definition sym_section :: "asymbol \<Rightarrow> int \<times> int" where
  "sym_section a = (to_i64 (asym_value a), to_i64 (asym_base a + asym_section_size a))"

definition sym_ok :: "symbols \<Rightarrow> bool" where
  "sym_ok s \<longleftrightarrow> sorted (map fst (symbolMap s))"

definition kvm_sym_ok :: "kvm_symbols \<Rightarrow> bool" where
  "kvm_sym_ok s \<longleftrightarrow> sorted (map fst (symbolMap s)) \<and> map fst (symbolSectionEnd s) = map fst (symbolMap s)"

lemma mset_mmap_insert [simp]: "mset (mmap_insert s d xs) = add_mset (s, d) (mset xs)"
proof -
  have "mset (takeWhile P xs) + mset (dropWhile P xs) = mset xs" for P
    by (metis mset_append takeWhile_dropWhile_id)
  then show ?thesis by (simp add: mmap_insert_def)
qed

lemma add_symbols:
  "sym_ok s \<Longrightarrow> sym_ok (fold add_symbol syms s) \<and>
     mset (symbolMap (fold add_symbol syms s)) = mset (map sym_entry syms) + mset (symbolMap s)"
  by (induction syms arbitrary: s)
    (simp_all add: sym_ok_def add_symbol_def sym_entry_def sorted_mmap_insert)

lemma kvm_add_symbols:
  "kvm_sym_ok s \<Longrightarrow> kvm_sym_ok (fold kvm_add_symbol syms s) \<and>
     mset (symbolMap (fold kvm_add_symbol syms s)) = mset (map sym_entry syms) + mset (symbolMap s) \<and>
     mset (symbolSectionEnd (fold kvm_add_symbol syms s)) = mset (map sym_section syms) + mset (symbolSectionEnd s)"
proof (induction syms arbitrary: s)
  case (Cons a syms)
  from Cons.prems have "kvm_sym_ok (kvm_add_symbol a s)"
    using sorted_mmap_insert [of "symbolMap s"] keys_mmap_insert
    by (simp add: kvm_sym_ok_def kvm_add_symbol_def) (simp only: keys_mmap_insert)
  from Cons.IH [OF this] show ?case
    by (simp add: kvm_add_symbol_def [of a] sym_entry_def [of a] sym_section_def [of a])
qed simp

text \<open>The keys of a table in order, and the entry at a position.\<close>

lemma keys_nth: "k \<in> fst ` set m \<longleftrightarrow> (\<exists>i < length m. fst (m ! i) = k)"
  unfolding set_conv_nth by auto

section \<open>What is found\<close>

text \<open>The position of the greatest key not above an address, in a sorted table.\<close>

lemma start_at:
  assumes "sorted (map fst m)" and "lower_bound addr m \<noteq> 0" and "lower_bound addr m \<noteq> length m"
  obtains i where "i < length m" and "fst (m ! i) = Max {k \<in> fst ` set m. k \<le> addr}"
    and "lower_bound addr m = (if addr \<in> fst ` set m then i else Suc i)"
proof -
  let ?n = "lower_bound addr m"
  have n: "?n < length m" using lower_bound_split(1) [OF assms(1), of addr] assms(3) by simp
  note below = lower_bound_split(2) [OF assms(1), of _ addr] and above = lower_bound_split(3) [OF assms(1), of addr]
  show thesis
  proof (cases "addr \<in> fst ` set m")
    case True
    then obtain i where i: "i < length m" "fst (m ! i) = addr" using keys_nth [of _ m] by blast
    then have "?n \<le> i" using below [of i] by (meson less_irrefl not_le_imp_less)
    then have "fst (m ! ?n) \<le> addr" using sorted_nth_mono [OF assms(1), of ?n i] i n by simp
    with above [of ?n] n have "fst (m ! ?n) = addr" by simp
    moreover have "Max {k \<in> fst ` set m. k \<le> addr} = addr" by (rule Max_eqI) (use True in auto)
    ultimately show ?thesis using that [of ?n] True n by simp
  next
    case False
    obtain j where j: "?n = Suc j" using assms(2) by (cases ?n) simp_all
    have "Max {k \<in> fst ` set m. k \<le> addr} = fst (m ! j)"
    proof (rule Max_eqI)
      fix k assume "k \<in> {k \<in> fst ` set m. k \<le> addr}"
      then obtain i where i: "i < length m" "fst (m ! i) = k" "k \<le> addr" using keys_nth [of _ m] by blast
      with False keys_nth [of addr m] have "k < addr" using le_less by blast
      with i above [of i] have "i < ?n" by (meson not_le not_le_imp_less)
      with j i n show "k \<le> fst (m ! j)" using sorted_nth_mono [OF assms(1), of i j] by simp
    qed (use below [of j] j n in auto)
    with that [of j] False j n show ?thesis by simp
  qed
qed

text \<open>Below and above all keys.\<close>

lemma lower_bound_ends:
  assumes "sorted (map fst m)"
  shows "lower_bound addr m = 0 \<longleftrightarrow> (\<forall>k \<in> fst ` set m. addr \<le> k)"
    and "lower_bound addr m = length m \<longleftrightarrow> (\<forall>k \<in> fst ` set m. k < addr)"
proof -
  let ?n = "lower_bound addr m"
  note le = lower_bound_split(1) [OF assms, of addr]
  note below = lower_bound_split(2) [OF assms, of _ addr] and above = lower_bound_split(3) [OF assms, of addr]
  have key: "i < length m \<Longrightarrow> fst (m ! i) \<in> fst ` set m" for i by simp
  show "?n = 0 \<longleftrightarrow> (\<forall>k \<in> fst ` set m. addr \<le> k)"
    using below [of 0] above key [of 0] le keys_nth [of _ m] by (metis gr0I le0 not_le order_less_le_trans)
  show "?n = length m \<longleftrightarrow> (\<forall>k \<in> fst ` set m. k < addr)"
    using below above [of ?n] key [of ?n] le keys_nth [of _ m] by (metis le_neq_implies_less not_le order_refl)
qed

text \<open>The start of an address among the starts \<open>K\<close>.\<close>

definition start_of :: "int set \<Rightarrow> int \<Rightarrow> int" where
  "start_of K addr = (if \<forall>k \<in> K. addr \<le> k then addr
     else if \<forall>k \<in> K. k < addr then -1 else Max {k \<in> K. k \<le> addr})"

lemma start_cases:
  assumes "sorted (map fst m)"
  obtains "lower_bound addr m = 0" and "start_of (fst ` set m) addr = addr" and "\<forall>k \<in> fst ` set m. addr \<le> k"
  | "lower_bound addr m \<noteq> 0" and "lower_bound addr m = length m" and "start_of (fst ` set m) addr = -1"
    and "\<not> (\<forall>k \<in> fst ` set m. addr \<le> k)"
  | i where "i < length m" and "lower_bound addr m \<noteq> 0" and "lower_bound addr m \<noteq> length m"
    and "start_of (fst ` set m) addr = fst (m ! i)" and "\<not> (\<forall>k \<in> fst ` set m. addr \<le> k)"
    and "lower_bound addr m = (if addr \<in> fst ` set m then i else Suc i)"
proof -
  note ends = lower_bound_ends [OF assms, of addr]
  consider (below) "lower_bound addr m = 0" | (above) "lower_bound addr m \<noteq> 0" "lower_bound addr m = length m"
    | (inside) "lower_bound addr m \<noteq> 0" "lower_bound addr m \<noteq> length m" by blast
  then show thesis
  proof cases
    case below
    then have "start_of (fst ` set m) addr = addr" unfolding start_of_def using ends(1) by meson
    with that(1) below ends(1) show thesis by metis
  next
    case above
    then have "start_of (fst ` set m) addr = -1" unfolding start_of_def using ends by meson
    with that(2) above ends(1) show thesis by metis
  next
    case inside
    obtain i where i: "i < length m" "fst (m ! i) = Max {k \<in> fst ` set m. k \<le> addr}"
      "lower_bound addr m = (if addr \<in> fst ` set m then i else Suc i)" using start_at [OF assms inside] .
    have "start_of (fst ` set m) addr = fst (m ! i)" unfolding start_of_def i(2) using inside ends by meson
    with that(3) [OF i(1) inside] inside(1) ends(1) i(3) show thesis by metis
  qed
qed

lemma native_start:
  assumes "sym_ok s"
  shows "native_getStartAddress addr s = Inr (start_of (fst ` set (symbolMap s)) addr)"
proof -
  let ?m = "symbolMap s"
  have m: "sorted (map fst ?m)" using assms by (simp add: sym_ok_def)
  show ?thesis
  proof (cases rule: start_cases [OF m, of addr])
    case 1
    then show ?thesis by (simp add: native_getStartAddress_def Let_def)
  next
    case 2
    then show ?thesis by (simp add: native_getStartAddress_def Let_def)
  next
    case (3 i)
    then show ?thesis
      by (cases "addr \<in> fst ` set ?m") (simp_all add: native_getStartAddress_def Let_def iter_get_def iter_prev_def)
  qed
qed

text \<open>After the symbols of a file have been loaded, the start of an address is the greatest symbol not
  above it. An address not above any symbol is its own start, and one above all symbols has none,
  even if it lies in the last function.\<close>

theorem native_symbol_lookup:
  assumes "\<not> isBfdInit s0" and "symbolMap s0 = []" and "openr_ok b" and "0 < symtab_upper_bound b"
    and "canonicalize_symtab b = Some syms" and "K = (\<lambda>a. to_i64 (asym_value a)) ` set syms"
  shows "\<exists>s. native_Load b s0 = (s, True) \<and> (\<forall>addr. native_getStartAddress addr s = Inr
    (if \<forall>k \<in> K. addr \<le> k then addr else if \<forall>k \<in> K. k < addr then -1 else Max {k \<in> K. k \<le> addr}))"
proof -
  let ?s = "fold add_symbol syms (s0\<lparr>isBfdInit := True\<rparr>)"
  have m: "sym_ok ?s" "mset (symbolMap ?s) = mset (map sym_entry syms)"
    using add_symbols [of "s0\<lparr>isBfdInit := True\<rparr>" syms] assms(2) by (simp_all add: sym_ok_def)
  from m(2) have "set (symbolMap ?s) = set (map sym_entry syms)" by (rule mset_eq_setD)
  then have "fst ` set (symbolMap ?s) = K" by (simp add: assms(6) image_image sym_entry_def)
  with native_start [OF m(1)] assms show ?thesis by (simp add: native_Load_def start_of_def)
qed

definition demo_bfd :: bfd where
  "demo_bfd = \<lparr>openr_ok = True, symtab_upper_bound = 24, canonicalize_symtab = Some
     [\<lparr>asym_name = ''g'', asym_value = 64, asym_base = 16, asym_section_size = 100\<rparr>,
      \<lparr>asym_name = ''f'', asym_value = 16, asym_base = 16, asym_section_size = 100\<rparr>,
      \<lparr>asym_name = ''h'', asym_value = 128, asym_base = 128, asym_section_size = 0\<rparr>]\<rparr>"

theorem native_symbol_lookup_witness:
  "\<exists>s. native_Load demo_bfd \<lparr>isBfdInit = False, symbolMap = []\<rparr> = (s, True) \<and>
     native_getStartAddress 70 s = Inr 64 \<and> native_getStartAddress 8 s = Inr 8 \<and> native_getStartAddress 129 s = Inr (-1)"
proof -
  have "{k. (k = 64 \<or> k = 16 \<or> k = 128) \<and> k \<le> 70} = {64, 16 :: int}" by auto
  then have "Max {k. (k = 64 \<or> k = 16 \<or> k = 128) \<and> k \<le> (70 :: int)} = 64" by simp
  then show ?thesis
    using native_symbol_lookup [of "\<lparr>isBfdInit = False, symbolMap = []\<rparr>" demo_bfd
        "the (canonicalize_symtab demo_bfd)" "{64, 16, 128}"]
    by (auto simp: demo_bfd_def)
qed

text \<open>The entries at a position of the two tables of the KVM agent belong to the same symbol when starts
  are distinct.\<close>

lemma section_of:
  assumes "distinct (map fst m)" and "map fst n = map fst m" and "i < length m"
    and "set n = f ` A" and "\<And>a. a \<in> A \<Longrightarrow> fst (f a) = g a"
  shows "snd (n ! i) \<ge> x \<longleftrightarrow> (\<exists>a \<in> A. g a = fst (m ! i) \<and> x \<le> snd (f a))"
proof -
  have l: "length n = length m" using arg_cong [OF assms(2), of length] by simp
  have k: "fst (n ! j) = fst (m ! j)" if "j < length m" for j
    using arg_cong [OF assms(2), of "\<lambda>l. l ! j"] that l by simp
  obtain a where a: "a \<in> A" "n ! i = f a" using assms(3,4) l nth_mem [of i n] by auto
  show ?thesis
  proof
    show "snd (n ! i) \<ge> x \<Longrightarrow> \<exists>a \<in> A. g a = fst (m ! i) \<and> x \<le> snd (f a)"
      using a k [OF assms(3)] assms(5) [OF a(1)] by auto
  next
    assume "\<exists>a \<in> A. g a = fst (m ! i) \<and> x \<le> snd (f a)"
    then obtain c where c: "c \<in> A" "g c = fst (m ! i)" "x \<le> snd (f c)" by blast
    then have "f c \<in> set n" using assms(4) by blast
    then obtain j where j: "j < length n" "n ! j = f c" by (auto simp: in_set_conv_nth)
    then have "fst (m ! j) = fst (m ! i)" using k [of j] l assms(5) [OF c(1)] c(2) by simp
    then have "j = i" using assms(1,3) j(1) l nth_eq_iff_index_eq [of "map fst m" j i] by simp
    with j c(3) show "snd (n ! i) \<ge> x" by simp
  qed
qed

lemma kvm_start:
  assumes "kvm_sym_ok s" and "distinct (map fst (symbolMap s))"
    and "set (symbolSectionEnd s) = f ` A" and "\<And>a. a \<in> A \<Longrightarrow> fst (f a) = g a"
  shows "kvm_getStartAddress addr s = Inr (let K = fst ` set (symbolMap s); k = start_of K addr
    in if (\<forall>k \<in> K. addr \<le> k) \<or> (\<exists>a \<in> A. g a = k \<and> addr \<le> snd (f a)) then k else -1)"
proof -
  let ?m = "symbolMap s" and ?n = "symbolSectionEnd s"
  have m: "sorted (map fst ?m)" and k: "map fst ?n = map fst ?m" using assms(1) by (simp_all add: kvm_sym_ok_def)
  have lb: "lower_bound addr ?n = lower_bound addr ?m" by (rule lower_bound_keys [OF k])
  have l: "length ?n = length ?m" using arg_cong [OF k, of length] by simp
  show ?thesis
  proof (cases rule: start_cases [OF m, of addr])
    case 1
    then show ?thesis by (simp add: kvm_getStartAddress_def Let_def)
  next
    case 2
    then show ?thesis by (simp add: kvm_getStartAddress_def Let_def)
  next
    case (3 i)
    then have below: "(\<forall>k \<in> fst ` set ?m. addr \<le> k) = False" by blast
    have "(addr \<le> snd (?n ! i)) = (\<exists>a \<in> A. g a = fst (?m ! i) \<and> addr \<le> snd (f a))"
      by (rule section_of [OF assms(2) k 3(1) assms(3,4)])
    then have "(let K = fst ` set ?m; k = start_of K addr
        in if (\<forall>k \<in> K. addr \<le> k) \<or> (\<exists>a \<in> A. g a = k \<and> addr \<le> snd (f a)) then k else -1) =
        (if addr \<le> snd (?n ! i) then fst (?m ! i) else -1)"
      unfolding Let_def 3(4) below by meson
    moreover have "kvm_getStartAddress addr s = Inr (if addr \<le> snd (?n ! i) then fst (?m ! i) else -1)"
      using 3 lb l by (cases "addr \<in> fst ` set ?m") (simp_all add: kvm_getStartAddress_def Let_def iter_get_def iter_prev_def)
    ultimately show ?thesis by (simp only:)
  qed
qed



text \<open>The name of an address is not the name of its function: for an address strictly between two
  symbols the code answers the name of the next one.\<close>

theorem getFunctionName_names_next:
  assumes "kvm_sym_ok s" and "a \<in> fst ` set (symbolMap s)" and "a < addr"
    and "c \<in> fst ` set (symbolMap s)" and "addr < c" and "addr \<notin> fst ` set (symbolMap s)"
  shows "\<exists>name k. getFunctionName addr s = Inr name \<and> (k, name) \<in> set (symbolMap s) \<and>
    k = Min {k \<in> fst ` set (symbolMap s). addr < k} \<and> addr < k"
proof -
  let ?m = "symbolMap s" and ?n = "lower_bound addr (symbolMap s)"
  have m: "sorted (map fst ?m)" using assms(1) by (simp add: kvm_sym_ok_def)
  have "?n \<noteq> 0" "?n \<noteq> length ?m" using lower_bound_ends [OF m, of addr] assms(2-5) by force+
  then have n: "?n < length ?m" using lower_bound_split(1) [OF m, of addr] by simp
  have in_m: "fst (?m ! ?n) \<in> fst ` set ?m" using n by simp
  then have above: "addr < fst (?m ! ?n)" using lower_bound_split(3) [OF m, of addr ?n] n assms(6) by (metis le_less order_refl)
  have "fst (?m ! ?n) = Min {k \<in> fst ` set ?m. addr < k}"
  proof (rule Min_eqI [symmetric])
    fix k assume "k \<in> {k \<in> fst ` set ?m. addr < k}"
    then obtain i where i: "i < length ?m" "fst (?m ! i) = k" "addr < k" using keys_nth [of _ ?m] by blast
    then have "?n \<le> i" using lower_bound_split(2) [OF m, of i addr] by force
    then show "fst (?m ! ?n) \<le> k" using sorted_nth_mono [OF m, of ?n i] i n by simp
  qed (use above in_m in auto)
  moreover have "(fst (?m ! ?n), snd (?m ! ?n)) \<in> set ?m" using n by simp
  moreover have "getFunctionName addr s = Inr (snd (?m ! ?n))"
    using n \<open>?n \<noteq> 0\<close> by (simp add: getFunctionName_def Let_def iter_get_def)
  ultimately show ?thesis using above by blast
qed

theorem getFunctionName_names_next_witness:
  "getFunctionName 20 \<lparr>isBfdInit = True, symbolMap = [(16, ''f''), (64, ''g'')], symbolSectionEnd = [(16, 80), (64, 80)]\<rparr>
     \<noteq> Inr ''f''"
proof -
  let ?s = "\<lparr>isBfdInit = True, symbolMap = [(16, ''f''), (64, ''g'')], symbolSectionEnd = [(16, 80), (64, 80)]\<rparr> :: kvm_symbols"
  obtain name k where "getFunctionName 20 ?s = Inr name" "(k, name) \<in> set (symbolMap ?s)" "20 < k"
    using getFunctionName_names_next [of ?s 16 20 64] by (auto simp: kvm_sym_ok_def)
  then show ?thesis by auto
qed

end
