(* ===== verification/Decoder.thy ===== *)
theory Decoder
  imports Symbols Kvm_Agent
begin

text \<open>
  The instruction decoders of the agents, \<^verbatim>\<open>src/agent/nativeAgent/decoder.cpp\<close> and
  \<^verbatim>\<open>src/agent/kvmAgent/decoder.cpp\<close>: the registers the address computation reads, length and type of a
  memory access, and the instruction before an address by linear disassembly of its function. The XED
  library is a parameter. The native agent decodes the memory of the process; the KVM agent copies the
  memory of the guest first.
\<close>

section \<open>Registers\<close>

text \<open>
  The registers of \<^verbatim>\<open>xed_reg_enum_t\<close> by what the code makes of them: a general register with the part of
  it that is named (\<open>XED_REG_GPR RAX\<close> with \<open>W64\<close>, \<open>W32\<close>, \<open>W16\<close>, \<open>W8\<close>, \<open>H8\<close> is RAX, EAX, AX, AL, AH), the flags, the
  instruction pointer, the segments, and the rest.
\<close>

datatype gpr = RAX | RCX | RDX | RBX | RSP | RBP | RSI | RDI | R8 | R9 | R10 | R11 | R12 | R13 | R14 | R15

datatype part_of_reg = W64 | W32 | W16 | W8 | H8

datatype xed_reg = XED_REG_GPR gpr part_of_reg | XED_REG_EFLAGS | XED_REG_RIP part_of_reg
  | XED_REG_DS | XED_REG_ES | XED_REG_SS | XED_REG_CS | XED_REG_FS | XED_REG_GS | XED_REG_OTHER nat

text \<open>
  \<open>gregs\<close> of \<open>ucontext_t\<close> and \<open>struct kvm_regs\<close>; the word that holds CS, GS and FS is only in the first.
\<close>

record regs =
  gregs :: "gpr \<Rightarrow> u64"
  rflags :: u64
  rip :: u64
  csgsfs :: u64

text \<open>
  \<open>watchpointRegisterValueCallback\<close>: the value and the error flag. In the native agent the register
  file is behind the \<open>context\<close> pointer, which may be null. Of the low bytes only AL is named, of the
  high ones those that exist, with an assertion.
\<close>

definition greg :: "regs option \<Rightarrow> (regs \<Rightarrow> u64) \<Rightarrow> (u64 \<times> bool) res" where
  "greg ctxt r = (case ctxt of None \<Rightarrow> Inl NullDeref | Some c \<Rightarrow> Inr (r c, False))"

definition gpr_value :: "gpr \<Rightarrow> part_of_reg \<Rightarrow> (u64 \<times> bool) res \<Rightarrow> (u64 \<times> bool) res" where
  "gpr_value r w value =
     (if w = H8 \<and> r \<in> {RAX, RCX, RDX, RBX} then Inl AssertFailed
      else if w = H8 \<or> w = W8 \<and> r \<noteq> RAX then Inr (0, True) else value)"

primrec native_reg_value :: "regs option \<Rightarrow> xed_reg \<Rightarrow> (u64 \<times> bool) res" where
  "native_reg_value ctxt (XED_REG_GPR r w) = gpr_value r w (greg ctxt (\<lambda>c. gregs c r))"
| "native_reg_value ctxt XED_REG_EFLAGS = greg ctxt rflags"
| "native_reg_value ctxt (XED_REG_RIP w) = greg ctxt rip"
| "native_reg_value ctxt XED_REG_DS = Inl AssertFailed"
| "native_reg_value ctxt XED_REG_ES = Inl AssertFailed"
| "native_reg_value ctxt XED_REG_SS = Inl AssertFailed"
| "native_reg_value ctxt XED_REG_CS = greg ctxt (\<lambda>c. csgsfs c AND 0xFFFF)"
| "native_reg_value ctxt XED_REG_FS = greg ctxt (\<lambda>c. drop_bit 32 (csgsfs c) AND 0xFFFF)"
| "native_reg_value ctxt XED_REG_GS = greg ctxt (\<lambda>c. drop_bit 16 (csgsfs c) AND 0xFFFF)"
| "native_reg_value ctxt (XED_REG_OTHER n) = Inr (0, True)"

text \<open>In the KVM agent the cases of CS, FS and GS run into the default.\<close>

primrec kvm_reg_value :: "regs \<Rightarrow> xed_reg \<Rightarrow> (u64 \<times> bool) res" where
  "kvm_reg_value regs (XED_REG_GPR r w) = gpr_value r w (Inr (gregs regs r, False))"
| "kvm_reg_value regs XED_REG_EFLAGS = Inr (rflags regs, False)"
| "kvm_reg_value regs (XED_REG_RIP w) = Inr (rip regs, False)"
| "kvm_reg_value regs XED_REG_DS = Inl AssertFailed"
| "kvm_reg_value regs XED_REG_ES = Inl AssertFailed"
| "kvm_reg_value regs XED_REG_SS = Inl AssertFailed"
| "kvm_reg_value regs XED_REG_CS = Inr (0, True)"
| "kvm_reg_value regs XED_REG_FS = Inr (0, True)"
| "kvm_reg_value regs XED_REG_GS = Inr (0, True)"
| "kvm_reg_value regs (XED_REG_OTHER n) = Inr (0, True)"

section \<open>The XED library\<close>

datatype xed_element = XED_FLOAT16 | XED_SINGLE | XED_DOUBLE | XED_LONGDOUBLE | XED_LONGBCD | XED_ELEMENT_OTHER

datatype xed_category = XED_AES | XED_CONVERT | XED_PCLMULQDQ | XED_SSE | XED_AVX2 | XED_AVX | XED_MMX | XED_DATAXFER
  | XED_X87_ALU | XED_FCMOV | XED_XSAVE | XED_AVX2GATHER | XED_STRINGOP | XED_CATEGORY_OTHER

datatype xed_operand = XED_OPERAND_MEM0 | XED_OPERAND_OTHER

text \<open>What \<open>xed_decode\<close> makes of the bytes it is given: an instruction, an error, or it reads behind the last.\<close>

datatype 'i xed_result = XED_OK 'i | XED_FAILED | XED_READS_ON

text \<open>
  \<open>xed_agen\<close> gets the register callback and answers the address, \<open>None\<close> for an error; a fault of the
  callback is its fault.
\<close>

record 'i xed =
  xed_decode :: "u8 list \<Rightarrow> 'i xed_result"
  inst_length :: "'i \<Rightarrow> nat"
  number_of_memory_operands :: "'i \<Rightarrow> nat"
  mem_read :: "'i \<Rightarrow> nat \<Rightarrow> bool"
  mem_written :: "'i \<Rightarrow> nat \<Rightarrow> bool"
  memory_operand_length :: "'i \<Rightarrow> nat \<Rightarrow> int"
  inst_category :: "'i \<Rightarrow> xed_category"
  inst_operands :: "'i \<Rightarrow> xed_operand list"
  operand_element_type :: "'i \<Rightarrow> nat \<Rightarrow> xed_element"
  xed_agen :: "'i \<Rightarrow> nat \<Rightarrow> (xed_reg \<Rightarrow> (u64 \<times> bool) res) \<Rightarrow> u64 option res"

definition MAX_BYTES_TO_DECODE :: nat where "MAX_BYTES_TO_DECODE = 15"

definition decode :: "'i xed \<Rightarrow> u8 list \<Rightarrow> 'i option res" where
  "decode X bytes = (case xed_decode X (take MAX_BYTES_TO_DECODE bytes) of
     XED_OK i \<Rightarrow> Inr (Some i) | XED_FAILED \<Rightarrow> Inr None | XED_READS_ON \<Rightarrow> Inl OutOfBounds)"

text \<open>
  A buffer of \<open>cap\<close> zero bytes into which the agent has copied \<open>sz\<close> bytes of the guest; \<open>None\<close> when it
  reports a failure.
\<close>

definition guest_copy :: "kvm_agent \<Rightarrow> u64 \<Rightarrow> int \<Rightarrow> nat \<Rightarrow> u8 list option" where
  "guest_copy a addr sz cap =
     (case kvm_getValueAtAddress addr sz a of (ret, bytes) \<Rightarrow>
        if ret \<noteq> 0 then None
        else let got = take (nat sz) bytes in Some (got @ replicate (cap - length got) 0))"

section \<open>Accesses\<close>

definition float_length :: "xed_element \<Rightarrow> int" where
  "float_length e = (case e of XED_FLOAT16 \<Rightarrow> 2 | XED_SINGLE \<Rightarrow> 4 | XED_DOUBLE \<Rightarrow> 8 | XED_LONGDOUBLE \<Rightarrow> 10 | _ \<Rightarrow> 0)"

definition native_float_operation_length :: "'i xed \<Rightarrow> (u64 \<Rightarrow> u8 list) \<Rightarrow> u64 \<Rightarrow> nat \<Rightarrow> int res" where
  "native_float_operation_length X text ip op_idx =
     rbind (decode X (text ip)) (\<lambda>r. case r of None \<Rightarrow> Inr 0
       | Some i \<Rightarrow> Inr (float_length (operand_element_type X i op_idx)))"

text \<open>The KVM agent answers \<open>(xed_error_enum_t)-1\<close> as an \<open>unsigned int\<close> when the guest cannot be read.\<close>

definition kvm_float_operation_length :: "'i xed \<Rightarrow> kvm_agent \<Rightarrow> u64 \<Rightarrow> nat \<Rightarrow> int res" where
  "kvm_float_operation_length X a ip op_idx =
     (case guest_copy a ip 8 64 of None \<Rightarrow> Inr (2 ^ 32 - 1)
      | Some host_ip \<Rightarrow> rbind (decode X host_ip) (\<lambda>r. case r of None \<Rightarrow> Inr 0
          | Some i \<Rightarrow> Inr (float_length (operand_element_type X i op_idx))))"

definition rw_type :: "'i xed \<Rightarrow> 'i \<Rightarrow> AccessType" where
  "rw_type X i = (if number_of_memory_operands X i = 0 then UNKNOWN
     else if mem_read X i 0 \<and> mem_written X i 0 then LOAD_AND_STORE
     else if mem_read X i 0 then LOAD else STORE)"

definition native_get_access_type :: "'i xed \<Rightarrow> (u64 \<Rightarrow> u8 list) \<Rightarrow> u64 \<Rightarrow> AccessType res" where
  "native_get_access_type X text ip =
     rbind (decode X (text ip)) (\<lambda>r. Inr (case r of None \<Rightarrow> UNKNOWN | Some i \<Rightarrow> rw_type X i))"

definition kvm_get_access_type :: "'i xed \<Rightarrow> kvm_agent \<Rightarrow> u64 \<Rightarrow> AccessType res" where
  "kvm_get_access_type X a ip =
     (case guest_copy a ip 8 64 of None \<Rightarrow> Inr UNKNOWN
      | Some host_ip \<Rightarrow> rbind (decode X host_ip) (\<lambda>r. Inr (case r of None \<Rightarrow> UNKNOWN | Some i \<Rightarrow> rw_type X i)))"

text \<open>The variables behind the pointer arguments. \<open>floatTypeP\<close> and \<open>addressP\<close> say whether the pointers
  \<open>floatType\<close> and \<open>address\<close> are given or null.\<close>

record access =
  out_len :: int
  out_type :: AccessType
  out_float :: FloatType
  out_addr :: u64

definition access_of :: "'i xed \<Rightarrow> 'i \<Rightarrow> AccessType" where
  "access_of X i = (if mem_written X i 0 \<and> mem_read X i 0 then LOAD_AND_STORE
     else if mem_written X i 0 then STORE else if mem_read X i 0 then LOAD else UNKNOWN)"

definition float_of_element :: "xed_element \<Rightarrow> FloatType" where
  "float_of_element e = (case e of XED_FLOAT16 \<Rightarrow> ELEM_TYPE_FLOAT16 | XED_SINGLE \<Rightarrow> ELEM_TYPE_SINGLE
     | XED_DOUBLE \<Rightarrow> ELEM_TYPE_DOUBLE | XED_LONGDOUBLE \<Rightarrow> ELEM_TYPE_LONGDOUBLE
     | XED_LONGBCD \<Rightarrow> ELEM_TYPE_LONGBCD | XED_ELEMENT_OTHER \<Rightarrow> ELEM_TYPE_UNKNOWN)"

text \<open>The type of the memory operand; categories that are not listed leave the variable as it is.\<close>

definition mem_float :: "'i xed \<Rightarrow> 'i \<Rightarrow> int \<Rightarrow> FloatType \<Rightarrow> FloatType" where
  "mem_float X i len old =
     (let c = inst_category X i
      in if c \<in> {XED_AES, XED_CONVERT, XED_PCLMULQDQ, XED_SSE, XED_AVX2, XED_AVX, XED_MMX, XED_DATAXFER}
         then (if XED_OPERAND_MEM0 \<in> set (inst_operands X i)
               then float_of_element (operand_element_type X i
                      (length (takeWhile (\<lambda>p. p \<noteq> XED_OPERAND_MEM0) (inst_operands X i))))
               else ELEM_TYPE_UNKNOWN)
         else if c \<in> {XED_X87_ALU, XED_FCMOV}
         then (if len = 4 then ELEM_TYPE_SINGLE else if len = 8 then ELEM_TYPE_DOUBLE else ELEM_TYPE_UNKNOWN)
         else old)"

text \<open>The part both agents share, once the bytes are at hand.\<close>

definition mem_access_of ::
  "'i xed \<Rightarrow> (xed_reg \<Rightarrow> (u64 \<times> bool) res) \<Rightarrow> u8 list \<Rightarrow> bool \<Rightarrow> bool \<Rightarrow> access \<Rightarrow> (access \<times> bool) res" where
  "mem_access_of X reg bytes floatTypeP addressP out =
     rbind (decode X bytes) (\<lambda>r. case r of None \<Rightarrow> Inr (out, False)
       | Some i \<Rightarrow>
           if number_of_memory_operands X i \<noteq> 1 then Inr (out, False)
           else let len = memory_operand_length X i 0;
                    out = out\<lparr>out_len := len, out_type := access_of X i,
                              out_float := (if floatTypeP then mem_float X i len (out_float out) else out_float out)\<rparr>
                in if \<not> addressP then Inr (out, True)
                   else rbind (xed_agen X i 0 reg) (\<lambda>v. case v of None \<Rightarrow> Inr (out, False)
                          | Some v \<Rightarrow> Inr (out\<lparr>out_addr := v\<rparr>, True)))"

definition native_mem_access ::
  "'i xed \<Rightarrow> (u64 \<Rightarrow> u8 list) \<Rightarrow> regs option \<Rightarrow> u64 \<Rightarrow> bool \<Rightarrow> bool \<Rightarrow> access \<Rightarrow> (access \<times> bool) res" where
  "native_mem_access X text context ip = mem_access_of X (native_reg_value context) (text ip)"

text \<open>Length and type only: no float type, no context, no address.\<close>

definition get_mem_access_length_and_type ::
  "'i xed \<Rightarrow> (u64 \<Rightarrow> u8 list) \<Rightarrow> u64 \<Rightarrow> access \<Rightarrow> (access \<times> bool) res" where
  "get_mem_access_length_and_type X text ip out = native_mem_access X text None ip False False out"

text \<open>When the guest cannot be read the KVM agent returns \<open>-1\<close>, which as a \<open>bool\<close> is true.\<close>

definition kvm_mem_access ::
  "'i xed \<Rightarrow> kvm_agent \<Rightarrow> regs \<Rightarrow> u64 \<Rightarrow> bool \<Rightarrow> bool \<Rightarrow> access \<Rightarrow> (access \<times> bool) res" where
  "kvm_mem_access X a regs ip floatTypeP addressP out =
     (case guest_copy a ip 8 64 of None \<Rightarrow> Inr (out, True)
      | Some host_ip \<Rightarrow> mem_access_of X (kvm_reg_value regs) host_ip floatTypeP addressP out)"

section \<open>The previous instruction\<close>

text \<open>Whether an address being watched lies in \<open>[fn_start, ins)\<close>; the loop stops at the first.\<close>

definition excluded :: "u64 \<Rightarrow> u64 \<Rightarrow> u64 list \<Rightarrow> nat \<Rightarrow> bool res" where
  "excluded fn_start ins excludeList numExcludes =
     (if \<exists>x \<in> set (take numExcludes excludeList). fn_start \<le> x \<and> x < ins then Inr True
      else if length excludeList < numExcludes then Inl OutOfBounds else Inr False)"

fun native_sweep :: "nat \<Rightarrow> 'i xed \<Rightarrow> (u64 \<Rightarrow> u8 list) \<Rightarrow> u64 \<Rightarrow> u64 \<Rightarrow> u64 option res" where
  "native_sweep 0 X text ins pins = Inl OutOfFuel"
| "native_sweep (Suc n) X text ins pins =
     (if \<not> pins \<le> ins then Inr None
      else rbind (decode X (text pins)) (\<lambda>r. case r of None \<Rightarrow> native_sweep n X text ins (pins + 1)
        | Some i \<Rightarrow> let len = of_nat (inst_length X i)
                   in if pins + len = ins then Inr (Some pins) else native_sweep n X text ins (pins + len)))"

text \<open>One turn of the loop for each byte of the function up to \<open>ins\<close>, and two more, is enough fuel.\<close>

definition native_get_previous_instruction ::
  "'i xed \<Rightarrow> (u64 \<Rightarrow> u8 list) \<Rightarrow> symbols \<Rightarrow> u64 \<Rightarrow> u64 list \<Rightarrow> nat \<Rightarrow> u64 res" where
  "native_get_previous_instruction X text syms ins excludeList numExcludes =
     rbind (native_getStartAddress (sint ins) syms) (\<lambda>start.
       if start = -1 then Inr 0
       else let fn_start = word_of_int start
            in rbind (excluded fn_start ins excludeList numExcludes) (\<lambda>e.
               if e then Inr 0
               else rbind (native_sweep (unat ins - unat fn_start + 2) X text ins fn_start) (\<lambda>r.
                    Inr (case r of None \<Rightarrow> 0 | Some p \<Rightarrow> p))))"

text \<open>The copy of the function up to the address; positions are offsets in it.\<close>

fun kvm_sweep :: "nat \<Rightarrow> 'i xed \<Rightarrow> u8 list \<Rightarrow> nat \<Rightarrow> nat \<Rightarrow> nat option res" where
  "kvm_sweep 0 X buf sz pins = Inl OutOfFuel"
| "kvm_sweep (Suc n) X buf sz pins =
     (if \<not> pins < sz then Inr None
      else rbind (decode X (drop pins buf)) (\<lambda>r. case r of None \<Rightarrow> kvm_sweep n X buf sz (pins + 1)
        | Some i \<Rightarrow> let len = inst_length X i
                   in if pins + len = sz then Inr (Some pins) else kvm_sweep n X buf sz (pins + len)))"

text \<open>
  The distance is an \<open>int\<close>. For a negative one \<open>calloc\<close> fails, and what is copied goes to a null
  pointer. The exclude list is not looked at.
\<close>

definition kvm_get_previous_instruction ::
  "'i xed \<Rightarrow> kvm_agent \<Rightarrow> kvm_symbols \<Rightarrow> u64 \<Rightarrow> u64 list \<Rightarrow> nat \<Rightarrow> u64 res" where
  "kvm_get_previous_instruction X a syms ins excludeList numExcludes =
     rbind (kvm_getStartAddress (sint ins) syms) (\<lambda>start.
       let fn_start = word_of_int start :: u64; sz = to_i32 (uint (ins - fn_start))
       in if start = -1 \<or> fn_start = ins then Inr 0
          else if sz = 0 then Inr fn_start
          else case guest_copy a fn_start sz (8 * nat sz) of None \<Rightarrow> Inr 0
               | Some buf \<Rightarrow>
                   if sz < 0 then Inl NullDeref
                   else rbind (kvm_sweep (nat sz + 1) X buf (nat sz) 0) (\<lambda>r.
                        Inr (case r of None \<Rightarrow> 0 | Some offset \<Rightarrow> fn_start + of_nat offset)))"

end
