(* ===== verification/Tool_State.thy ===== *)
theory Tool_State
  imports Witch_Logic Platform_Reach Decoder
begin

text \<open>
  The state of the witch tool: the platform it inherits from, the watchpoint slots of each thread
  (\<^verbatim>\<open>includes/tools/witchTool/watchpoint-lib/watchpoint_util.h\<close>), the heap of events and the five
  detectors; with \<open>fixIP\<close> (\<^verbatim>\<open>src/tools/witchTool/mytool.cpp\<close>) and the checks it uses from
  \<^verbatim>\<open>watchpoint.cpp\<close>. An \<open>Event*\<close> is a key of the event heap, a \<open>WP_RegisterInfo_t*\<close> a slot number
  of the calling thread \<open>tid\<close>.
\<close>

section \<open>Types\<close>

datatype WP_Access = WP_READ | WP_WRITE | WP_RW | WP_INST | WP_INVALID

datatype WP_ReplacementPolicy = WP_REPLACEMENT_AUTO | WP_REPLACEMENT_EMPTY_SLOT
  | WP_REPLACEMENT_OLDEST | WP_REPLACEMENT_NEWEST

datatype WP_Victim = WP_VICTIM_EMPTY_SLOT | WP_VICTIM_NON_EMPTY_SLOT | WP_VICTIM_NONE_AVAILABLE

datatype WitchLogicType = DEADSPY | REDSPY | LOADSPY | DUPSPY | FALSESHARE

text \<open>The members the code reads or writes after initialisation. \<open>sampledEvent\<close> is \<open>None\<close> for null.\<close>

record WP_RegisterInfo =
  va :: u64
  wpLength :: int
  startTime :: int
  fileHandle :: int
  wp_threadId :: int
  isActive :: bool
  wp_mmapBuffer :: bool
  sampledEvent :: "nat option"
  wp_samplePostFull :: int

record WP_ThreadData =
  td_samplePostFull :: int
  randBuffer :: "48 word"
  watchPointArray :: "WP_RegisterInfo list"

record WP_Config =
  isWPModifyEnabled :: bool
  replacementPolicy :: WP_ReplacementPolicy
  maxWP :: int
  userPerfPause :: "nat option"
  userPerfResume :: "nat option"

record spies =
  sp_dead :: dead_spy
  sp_red :: red_spy
  sp_load :: red_spy
  sp_dup :: red_spy
  sp_false :: dead_spy

text \<open>
  \<open>WP_ThreadData_key\<close> maps a thread to what \<open>pthread_getspecific\<close> answers it; \<open>evs\<close> holds the
  allocated events.
\<close>

record 'a tool =
  pl :: "'a plat"
  wpConfig :: WP_Config
  WPInitFlag :: bool
  WP_ThreadData_key :: "int \<rightharpoonup> WP_ThreadData"
  oldBadAddress :: u64
  evs :: "nat \<rightharpoonup> Event"
  next_ev :: nat
  spies :: spies

text \<open>
  What the tool is built with and runs on. The decoder is that of the agent (\<open>native_get_previous_instruction\<close>
  and so on in \<open>Decoder\<close>): the previous instruction of an address, given the array of excluded addresses
  and their number, and the access at an address, given whether \<open>floatType\<close> and \<open>address\<close> are passed. \<open>value_at\<close> is \<open>getValueAtAddress\<close> of the agent: its return value and what it wrote.
  \<open>fresh_mem n\<close> is what \<open>malloc\<close>ed memory of \<open>n\<close> bytes holds.
\<close>

record 'a env =
  ops :: "'a agent_ops"
  sysos :: os
  devcfg :: dev_cfg
  fast_bp :: bool
  spycfg :: spy_cfg
  logicType :: WitchLogicType
  AVOID_PUSH :: bool
  AVOID_CALLQ :: bool
  AVOID_LOCK :: bool
  get_previous_instruction :: "u64 \<Rightarrow> u64 list \<Rightarrow> nat \<Rightarrow> 'a \<Rightarrow> u64 res"
  mem_access :: "u64 \<Rightarrow> bool \<Rightarrow> bool \<Rightarrow> access \<Rightarrow> 'a \<Rightarrow> (access \<times> bool) res"
  value_at :: "u64 \<Rightarrow> int \<Rightarrow> 'a \<Rightarrow> int \<times> u8 list"
  fresh_mem :: "int \<Rightarrow> u8 list"

section \<open>Access to slots and events\<close>

definition TD_GET :: "int \<Rightarrow> 'a tool \<Rightarrow> WP_ThreadData res" where
  "TD_GET tid s = (case WP_ThreadData_key s tid of None \<Rightarrow> Inl NullDeref | Some t \<Rightarrow> Inr t)"

definition set_td :: "int \<Rightarrow> WP_ThreadData \<Rightarrow> 'a tool \<Rightarrow> 'a tool" where
  "set_td tid t s = s\<lparr>WP_ThreadData_key := (WP_ThreadData_key s)(tid \<mapsto> t)\<rparr>"

definition slot_at :: "WP_RegisterInfo list \<Rightarrow> int \<Rightarrow> WP_RegisterInfo res" where
  "slot_at arr i = (if 0 \<le> i \<and> i < int (length arr) then Inr (arr ! nat i) else Inl OutOfBounds)"

definition wpi_get :: "int \<Rightarrow> int \<Rightarrow> 'a tool \<Rightarrow> WP_RegisterInfo res" where
  "wpi_get tid i s = rbind (TD_GET tid s) (\<lambda>t. slot_at (watchPointArray t) i)"

definition wpi_upd :: "int \<Rightarrow> int \<Rightarrow> (WP_RegisterInfo \<Rightarrow> WP_RegisterInfo) \<Rightarrow> 'a tool \<Rightarrow> 'a tool res" where
  "wpi_upd tid i f s =
     rbind (TD_GET tid s) (\<lambda>t. rbind (slot_at (watchPointArray t) i) (\<lambda>w.
       Inr (set_td tid (t\<lparr>watchPointArray := (watchPointArray t)[nat i := f w]\<rparr>) s)))"

definition get_ev :: "nat \<Rightarrow> 'a tool \<Rightarrow> Event res" where
  "get_ev e s = (case evs s e of None \<Rightarrow> Inl UseAfterFree | Some ev \<Rightarrow> Inr ev)"

text \<open>Following \<open>sampledEvent\<close> of a slot.\<close>

definition sampled :: "WP_RegisterInfo \<Rightarrow> 'a tool \<Rightarrow> Event res" where
  "sampled w s = (case sampledEvent w of None \<Rightarrow> Inl NullDeref | Some e \<Rightarrow> get_ev e s)"

definition set_ev :: "nat \<Rightarrow> Event \<Rightarrow> 'a tool \<Rightarrow> 'a tool" where
  "set_ev e ev s = s\<lparr>evs := (evs s)(e \<mapsto> ev)\<rparr>"

text \<open>\<open>delete event\<close>; the frames an event owns are the subject of \<open>destroy_Event\<close>.\<close>

definition del_ev :: "nat \<Rightarrow> 'a tool \<Rightarrow> 'a tool res" where
  "del_ev e s = (if evs s e = None then Inl DoubleFree else Inr (s\<lparr>evs := (evs s)(e := None)\<rparr>))"

text \<open>The loop over the slots \<open>is\<close> for the first that passes the test.\<close>

fun first_slot :: "(WP_RegisterInfo \<Rightarrow> bool res) \<Rightarrow> WP_RegisterInfo list \<Rightarrow> nat list \<Rightarrow> nat option res" where
  "first_slot P arr [] = Inr None"
| "first_slot P arr (i # is) =
     rbind (slot_at arr (int i)) (\<lambda>w. rbind (P w) (\<lambda>b. if b then Inr (Some i) else first_slot P arr is))"

definition wp_slots :: "WP_Config \<Rightarrow> nat list" where
  "wp_slots c = [0..<nat (maxWP c)]"

section \<open>The detector of the build\<close>

definition spy_wl :: "WitchLogicType \<Rightarrow> spies \<Rightarrow> wlogic" where
  "spy_wl l s = (case l of DEADSPY \<Rightarrow> ds_wl (sp_dead s) | REDSPY \<Rightarrow> rs_wl (sp_red s)
     | LOADSPY \<Rightarrow> rs_wl (sp_load s) | DUPSPY \<Rightarrow> rs_wl (sp_dup s) | FALSESHARE \<Rightarrow> ds_wl (sp_false s))"

definition spy_set_wl :: "WitchLogicType \<Rightarrow> wlogic \<Rightarrow> spies \<Rightarrow> spies" where
  "spy_set_wl l w s = (case l of
       DEADSPY \<Rightarrow> s\<lparr>sp_dead := (sp_dead s)\<lparr>ds_wl := w\<rparr>\<rparr>
     | REDSPY \<Rightarrow> s\<lparr>sp_red := (sp_red s)\<lparr>rs_wl := w\<rparr>\<rparr>
     | LOADSPY \<Rightarrow> s\<lparr>sp_load := (sp_load s)\<lparr>rs_wl := w\<rparr>\<rparr>
     | DUPSPY \<Rightarrow> s\<lparr>sp_dup := (sp_dup s)\<lparr>rs_wl := w\<rparr>\<rparr>
     | FALSESHARE \<Rightarrow> s\<lparr>sp_false := (sp_false s)\<lparr>ds_wl := w\<rparr>\<rparr>)"

text \<open>The virtual call \<open>wl->Witch_OnWP_Callback\<close>.\<close>

definition spy_OnWP ::
  "WitchLogicType \<Rightarrow> spy_cfg \<Rightarrow> Event \<Rightarrow> Event \<Rightarrow> WP_TriggerInfo \<Rightarrow> spies \<Rightarrow> (spies \<times> WP_TriggerAction) res" where
  "spy_OnWP l cfg cur sam wpt s = (case l of
       DEADSPY \<Rightarrow> rbind (DeadStore_OnWP cfg cur sam wpt (sp_dead s)) (\<lambda>(d, a). Inr (s\<lparr>sp_dead := d\<rparr>, a))
     | REDSPY \<Rightarrow> rbind (RedSpy_OnWP cfg cur sam wpt (sp_red s)) (\<lambda>(d, a). Inr (s\<lparr>sp_red := d\<rparr>, a))
     | LOADSPY \<Rightarrow> rbind (LoadSpy_OnWP cfg cur sam wpt (sp_load s)) (\<lambda>(d, a). Inr (s\<lparr>sp_load := d\<rparr>, a))
     | DUPSPY \<Rightarrow> rbind (DupSpy_OnWP cfg cur sam wpt (sp_dup s)) (\<lambda>(d, a). Inr (s\<lparr>sp_dup := d\<rparr>, a))
     | FALSESHARE \<Rightarrow> rbind (FalseSharing_OnWP cur sam wpt (sp_false s)) (\<lambda>(d, a). Inr (s\<lparr>sp_false := d\<rparr>, a)))"

text \<open>\<open>Witch_OnSample_Callback\<close>, which the detectors inherit.\<close>

definition spy_OnSample :: "WitchLogicType \<Rightarrow> Event \<Rightarrow> spies \<Rightarrow> (spies \<times> bool) res" where
  "spy_OnSample l ev s =
     rbind (Witch_OnSample_Callback ev (spy_wl l s)) (\<lambda>(w, b). Inr (spy_set_wl l w s, b))"

lemmas dead_laws = dead_store.held dead_store.after dead_store.returns
lemmas false_laws = false_sharing.held false_sharing.after false_sharing.returns
lemmas red_laws = red_spy.held red_spy.after red_spy.returns
lemmas load_laws = load_spy.held load_spy.after load_spy.returns
lemmas dup_laws = dup_spy.held dup_spy.after dup_spy.returns

interpretation spy: witch_logic "spy_OnWP l cfg" "spy_wl l" for l cfg
proof
  fix s cur sam wpt assume "contextTree_mtx (spy_wl l s)"
  then show "spy_OnWP l cfg cur sam wpt s = Inl Deadlock"
    by (cases l) (simp_all add: spy_OnWP_def spy_wl_def dead_laws(1) false_laws(1) red_laws(1) load_laws(1)
        dup_laws(1))
next
  fix s s' cur sam wpt a
  assume "wl_ok (spy_wl l s)" "\<not> contextTree_mtx (spy_wl l s)" "spy_OnWP l cfg cur sam wpt s = Inr (s', a)"
  then show "after_hit sam (spy_wl l s) (spy_wl l s') a"
    by (cases l) (auto simp: spy_OnWP_def spy_wl_def rbind_Inr
        intro: dead_laws(2) false_laws(2) red_laws(2) load_laws(2) dup_laws(2))
next
  fix s cur sam wpt
  assume h: "safe_hit cur sam wpt" "wl_ok (spy_wl l s)" "\<not> contextTree_mtx (spy_wl l s)"
  show "\<exists>r. spy_OnWP l cfg cur sam wpt s = Inr r"
  proof (cases l)
    case DEADSPY
    with dead_laws(3) [OF h(1), of "sp_dead s" cfg] h show ?thesis by (auto simp: spy_OnWP_def spy_wl_def)
  next
    case REDSPY
    with red_laws(3) [OF h(1), of "sp_red s" cfg] h show ?thesis by (auto simp: spy_OnWP_def spy_wl_def)
  next
    case LOADSPY
    with load_laws(3) [OF h(1), of "sp_load s" cfg] h show ?thesis by (auto simp: spy_OnWP_def spy_wl_def)
  next
    case DUPSPY
    with dup_laws(3) [OF h(1), of "sp_dup s" cfg] h show ?thesis by (auto simp: spy_OnWP_def spy_wl_def)
  next
    case FALSESHARE
    with false_laws(3) [OF h(1), of "sp_false s"] h show ?thesis by (auto simp: spy_OnWP_def spy_wl_def)
  qed
qed

section \<open>Fixing the instruction pointer\<close>

text \<open>The pointer difference counts in units of \<open>uint64_t\<close>: 8 bytes.\<close>

definition IsPCSane :: "u64 \<Rightarrow> u64 \<Rightarrow> bool" where
  "IsPCSane contextPC possiblePC \<longleftrightarrow>
     \<not> (possiblePC = 0 \<or> possiblePC > contextPC \<or> addr_diff contextPC possiblePC div 8 > 15)"

text \<open>\<open>excludeList\<close> has room for \<open>MAX_WP_SLOTS\<close> addresses, initialised with null.\<close>

definition GetPatchedIP :: "'a env \<Rightarrow> int \<Rightarrow> u64 \<Rightarrow> 'a tool \<Rightarrow> u64 res" where
  "GetPatchedIP E tid contextIP s =
     (let slots = wp_slots (wpConfig s)
      in if slots = [] then get_previous_instruction E contextIP (replicate MAX_WP_SLOTS 0) 0 (agent (pl s))
         else rbind (TD_GET tid s) (\<lambda>t.
              rbind (rfold (\<lambda>i l. rbind (slot_at (watchPointArray t) (int i)) (\<lambda>w.
                       Inr (if isActive w then l @ [va w] else l))) slots []) (\<lambda>ex.
                get_previous_instruction E contextIP (ex @ replicate (MAX_WP_SLOTS - length ex) 0)
                  (length ex) (agent (pl s)))))"

definition GetFloorWPLength :: "int \<Rightarrow> int" where
  "GetFloorWPLength accessLen =
     (if accessLen = 8 then 8
      else if accessLen = 7 \<or> accessLen = 6 \<or> accessLen = 5 \<or> accessLen = 4 then 4
      else if accessLen = 3 \<or> accessLen = 2 then 2
      else if accessLen = 1 then 1 else 8)"

text \<open>A buffer of \<open>n\<close> bytes from \<open>malloc\<close> after \<open>bytes\<close> have been written to its start.\<close>

definition written :: "'a env \<Rightarrow> int \<Rightarrow> u8 list \<Rightarrow> u8 list" where
  "written E n bytes = bytes @ drop (length bytes) (fresh_mem E n)"

text \<open>
  The device of an event and the address its instruction pointer is patched to. The type of the
  breakpoint is read through \<open>dynamic_cast<BPDevice*>\<close>.
\<close>

definition patch_ip :: "'a env \<Rightarrow> int \<Rightarrow> Event \<Rightarrow> device \<Rightarrow> 'a tool \<Rightarrow> u64 res" where
  "patch_ip E tid ev d s =
     (if deviceType d = PEBSDEVICE then Inr (h_ip_addr ev)
      else if deviceType d \<noteq> BPDEVICE then Inl NullDeref
      else if bp_type d = 4 then Inr (h_ip_addr ev)
      else GetPatchedIP E tid (h_ip_addr ev) s)"

text \<open>
  Length, type and, for breakpoints, address of the access; the flag is false when the decoder fails.
  An outer \<open>addr\<close> is shadowed by one that starts as \<open>-1\<close> and stays so when the type was known.
\<close>

definition fix_access :: "'a env \<Rightarrow> bool \<Rightarrow> Event \<Rightarrow> 'a \<Rightarrow> (Event \<times> bool) res" where
  "fix_access E bp ev a =
     (if accessType ev \<noteq> UNKNOWN then Inr (if bp then ev\<lparr>h_data_addr := -1, data_addr := -1\<rparr> else ev, True)
      else rbind (mem_access E (h_ip_addr ev) True bp
             \<lparr>out_len = accessLength ev, out_type = accessType ev, out_float = floatType ev, out_addr = -1\<rparr> a)
        (\<lambda>(out, ok).
           let ev = ev\<lparr>accessLength := out_len out, accessType := out_type out, floatType := out_float out\<rparr>
           in Inr (if \<not> ok then (ev\<lparr>accessType := UNKNOWN\<rparr>, False)
                   else (if bp then ev\<lparr>h_data_addr := out_addr out, data_addr := out_addr out\<rparr> else ev, True))))"

text \<open>The value at the data address, the first byte of the instruction, and the innermost frame.\<close>

definition fix_values :: "'a env \<Rightarrow> Event \<Rightarrow> 'a \<Rightarrow> Event \<times> bool" where
  "fix_values E ev a =
     (case value_at E (data_addr ev) (accessLength ev) a of (ret, bytes) \<Rightarrow>
        let ev = ev\<lparr>valueAtEvent := Some (written E (8 * accessLength ev) bytes)\<rparr>
        in if ret < 0 then (ev, False)
           else (case value_at E (fixedIP ev) 4 a of (ret, ins) \<Rightarrow>
             if ret < 0 then (ev, False)
             else let ev = ev\<lparr>inst := le_val (take 8 (written E 8 ins)) AND 0xFF\<rparr>
                  in (case eventContext_agent ev of [] \<Rightarrow> ev
                      | cf # fs \<Rightarrow> ev\<lparr>eventContext_agent := cf\<lparr>binary_addr := uint (h_ip_addr ev)\<rparr> # fs\<rparr>, True)))"

definition fix_event :: "'a env \<Rightarrow> bool \<Rightarrow> u64 \<Rightarrow> Event \<Rightarrow> 'a \<Rightarrow> (Event \<times> bool) res" where
  "fix_event E bp patchedIP ev a =
     rbind (fix_access E bp (ev\<lparr>h_ip_addr := patchedIP, fixedIP := patchedIP\<rparr>) a) (\<lambda>(ev, ok).
       Inr (if ok then fix_values E ev a else (ev, False)))"

definition fixIP :: "'a env \<Rightarrow> int \<Rightarrow> nat \<Rightarrow> 'a tool \<Rightarrow> ('a tool \<times> bool) res" where
  "fixIP E tid e s =
     rbind (get_ev e s) (\<lambda>ev.
     rbind (get_device (h_tId ev) (Event.deviceFileId ev) (pl s)) (\<lambda>dev.
       case dev of None \<Rightarrow> Inr (s, False)
       | Some p \<Rightarrow>
           rbind (getd p (pl s)) (\<lambda>d.
           rbind (patch_ip E tid ev d s) (\<lambda>patchedIP.
             if \<not> IsPCSane (h_ip_addr ev) patchedIP then Inr (s, False)
             else rbind (fix_event E (deviceType d = BPDEVICE) patchedIP ev (agent (pl s))) (\<lambda>(ev, ok).
                  Inr (set_ev e ev s, ok))))))"

text \<open>What \<open>fixIP\<close> may change: the one event, and in it neither identity nor owner.\<close>

lemma fix_values_id: "fix_values E ev a = (ev', b) \<Longrightarrow> eventId ev' = eventId ev"
  by (auto simp: fix_values_def Let_def split: prod.splits list.splits if_splits)

lemma fix_access_id: "fix_access E bp ev a = Inr (ev', b) \<Longrightarrow> eventId ev' = eventId ev"
  by (auto simp: fix_access_def Let_def rbind_Inr split: if_splits)

lemma fix_event_id:
  assumes "fix_event E bp ip ev a = Inr (ev', b)"
  shows "eventId ev' = eventId ev"
proof -
  from assms obtain ev1 c where 1: "fix_access E bp (ev\<lparr>h_ip_addr := ip, fixedIP := ip\<rparr>) a = Inr (ev1, c)"
    and 2: "(if c then fix_values E ev1 a else (ev1, False)) = (ev', b)"
    by (auto simp: fix_event_def rbind_Inr)
  from 2 have "eventId ev' = eventId ev1" by (cases c) (simp_all add: fix_values_id)
  with fix_access_id [OF 1] show ?thesis by simp
qed

lemma fixIP_frame:
  assumes "fixIP E tid e s = Inr (s', b)"
  shows "\<exists>ev ev'. evs s e = Some ev \<and> s' = s\<lparr>evs := (evs s)(e \<mapsto> ev')\<rparr> \<and> eventId ev' = eventId ev"
proof -
  from assms obtain ev dev where ev: "evs s e = Some ev"
    and dev: "get_device (h_tId ev) (Event.deviceFileId ev) (pl s) = Inr dev"
    by (auto simp: fixIP_def get_ev_def rbind_Inr split: option.splits)
  have same: "s = s\<lparr>evs := (evs s)(e \<mapsto> ev)\<rparr>" using ev by (simp add: fun_upd_idem)
  show ?thesis
  proof (cases dev)
    case None
    with assms ev dev have "s' = s" by (simp add: fixIP_def get_ev_def)
    with ev same show ?thesis by metis
  next
    case (Some p)
    with assms ev dev obtain d ip where d: "getd p (pl s) = Inr d" "patch_ip E tid ev d s = Inr ip"
      by (auto simp: fixIP_def get_ev_def rbind_Inr)
    let ?r = "fix_event E (deviceType d = BPDEVICE) ip ev (agent (pl s))"
    have f: "fixIP E tid e s = (if IsPCSane (h_ip_addr ev) ip then rbind ?r (\<lambda>(ev, ok). Inr (set_ev e ev s, ok)) else Inr (s, False))"
      using ev dev Some d by (simp add: fixIP_def get_ev_def)
    show ?thesis
    proof (cases "IsPCSane (h_ip_addr ev) ip")
      case True
      with assms obtain ev' where "?r = Inr (ev', b)" "s' = set_ev e ev' s" unfolding f by (auto simp: rbind_Inr)
      with ev fix_event_id [of E _ ip ev] show ?thesis unfolding set_ev_def by blast
    next
      case False
      with assms have "s' = s" unfolding f by simp
      with ev same show ?thesis by metis
    qed
  qed
qed

end
