(* ===== verification/Watchpoint.thy ===== *)
theory Watchpoint
  imports Tool_State
begin

text \<open>
  \<^verbatim>\<open>src/tools/witchTool/watchpoint-lib/src/watchpoint.cpp\<close>: arming, moving and removing the
  watchpoints of a thread, the replacement policy and the handler of a watchpoint that fires.
  \<open>tid\<close> is the calling thread, \<open>now\<close> what \<open>rdtsc\<close> answers. \<open>drand48\<close> and its relatives are the
  48-bit congruential generator that POSIX specifies.
\<close>

section \<open>Random numbers\<close>

definition srand48 :: "int \<Rightarrow> 48 word" where
  "srand48 seed = push_bit 16 (word_of_int (take_bit 32 seed)) OR 0x330E"

definition next48 :: "48 word \<Rightarrow> 48 word" where
  "next48 x = 0x5DEECE66D * x + 0xB"

definition lrand48 :: "48 word \<Rightarrow> 48 word \<times> nat" where
  "lrand48 x = (let x = next48 x in (x, unat (drop_bit 17 x)))"

definition drand48 :: "48 word \<Rightarrow> 48 word \<times> rat" where
  "drand48 x = (let x = next48 x in (x, of_int (uint x) / 2 ^ 48))"

section \<open>Checks\<close>

definition ValidateWPData :: "u64 \<Rightarrow> int \<Rightarrow> bool" where
  "ValidateWPData a len =
     (if len = 0 then False
      else if len = 1 \<or> len = 2 \<or> len = 4 \<or> len = 8 then IS_ALIGNED a len
      else False)"

definition IsOveralpped :: "u64 \<Rightarrow> int \<Rightarrow> WP_Config \<Rightarrow> WP_ThreadData option \<Rightarrow> bool res" where
  "IsOveralpped a len c td =
     (case td of None \<Rightarrow> Inr False
      | Some t \<Rightarrow> rbind (first_slot (\<lambda>w. Inr (isActive w \<and> ADDRESSES_OVERLAP (va w) (wpLength w) a len))
            (watchPointArray t) (wp_slots c)) (\<lambda>r. Inr (r \<noteq> None)))"

section \<open>One watchpoint\<close>

definition EnableWatchpoint :: "int \<Rightarrow> int \<Rightarrow> 'a tool \<Rightarrow> 'a tool res" where
  "EnableWatchpoint threadId fd s =
     rbind (get_device threadId fd (pl s)) (\<lambda>dev.
       case dev of None \<Rightarrow> Inr s
       | Some p \<Rightarrow> rbind (start_device p (pl s)) (\<lambda>q. Inr (s\<lparr>pl := q\<rparr>)))"

definition DisableWatchpoint :: "'a env \<Rightarrow> int \<Rightarrow> int \<Rightarrow> 'a tool \<Rightarrow> 'a tool res" where
  "DisableWatchpoint E tid i s =
     rbind (wpi_get tid i s) (\<lambda>w.
       if fileHandle w = -1 then Inl AssertFailed
       else rbind (get_device (wp_threadId w) (fileHandle w) (pl s)) (\<lambda>dev.
         case dev of None \<Rightarrow> Inr s
         | Some p \<Rightarrow> rbind (end_device (ops E) p (pl s)) (\<lambda>q.
             wpi_upd tid i (\<lambda>w. w\<lparr>isActive := False\<rparr>) (s\<lparr>pl := q\<rparr>))))"

definition DisArm :: "'a env \<Rightarrow> int \<Rightarrow> int \<Rightarrow> 'a tool \<Rightarrow> 'a tool res" where
  "DisArm E tid i s =
     rbind (wpi_get tid i s) (\<lambda>w.
       if fileHandle w = -1 then Inl AssertFailed
       else rbind (lockDevice (pl s)) (\<lambda>q.
            rbind (remove_device (ops E) (sysos E) tid (fileHandle w) True q) (\<lambda>q.
              wpi_upd tid i (\<lambda>w. w\<lparr>wp_mmapBuffer := False, fileHandle := -1, isActive := False\<rparr>)
                (s\<lparr>pl := unlockDevice q\<rparr>))))"

definition DisableWatchpointWrapper :: "'a env \<Rightarrow> int \<Rightarrow> int \<Rightarrow> 'a tool \<Rightarrow> 'a tool res" where
  "DisableWatchpointWrapper E tid i s =
     (if isWPModifyEnabled (wpConfig s) then DisableWatchpoint E tid i s else DisArm E tid i s)"

definition bp_len_of :: "int \<Rightarrow> int option" where
  "bp_len_of watch_length =
     (if watch_length = 1 then Some 1 else if watch_length = 2 then Some 2
      else if watch_length = 4 then Some 4 else if watch_length = 8 then Some 8 else None)"

definition bp_type_of :: "WP_Access \<Rightarrow> int" where
  "bp_type_of watch_type =
     (case watch_type of WP_INST \<Rightarrow> 4 | WP_READ \<Rightarrow> 1 | WP_WRITE \<Rightarrow> 2 | _ \<Rightarrow> 3)"

text \<open>The end of \<open>CreateWatchPoint\<close>, reached when the device watches the address.\<close>

definition armed :: "u64 \<Rightarrow> int \<Rightarrow> nat option \<Rightarrow> int \<Rightarrow> WP_RegisterInfo \<Rightarrow> WP_RegisterInfo" where
  "armed a watch_length sampleEvent now w =
     w\<lparr>isActive := True, va := a, wpLength := watch_length,
       sampledEvent := (if sampleEvent = None then sampledEvent w else sampleEvent),
       startTime := to_i64 now\<rparr>"

definition modify_wp ::
  "'a env \<Rightarrow> int \<Rightarrow> int \<Rightarrow> int \<Rightarrow> int \<Rightarrow> u64 \<Rightarrow> 'a tool \<Rightarrow> ('a tool \<times> bool) res" where
  "modify_wp E tid i bp_len bp_typ a s =
     rbind (wpi_get tid i s) (\<lambda>w.
     if fileHandle w = -1 then Inl AssertFailed
     else rbind (DisableWatchpoint E tid i s) (\<lambda>s.
          rbind (get_device (wp_threadId w) (fileHandle w) (pl s)) (\<lambda>dev.
            case dev of None \<Rightarrow> Inr (s, False)
            | Some p \<Rightarrow>
                rbind (getd p (pl s)) (\<lambda>d.
                if deviceType d \<noteq> BPDEVICE then Inl NullDeref
                else rbind (updateBPAddress (ops E) (sysos E) (devcfg E) (fast_bp E) p bp_len bp_typ a (pl s)) (\<lambda>(q, ok).
                  let s = s\<lparr>pl := q\<rparr>
                  in if \<not> ok then Inr (s, False)
                     else rbind (wpi_get tid i s) (\<lambda>w.
                          if \<not> isActive w
                          then rbind (EnableWatchpoint (wp_threadId w) (fileHandle w) s) (\<lambda>s. Inr (s, True))
                          else Inr (s, True)))))))"

definition fresh_wp ::
  "'a env \<Rightarrow> int \<Rightarrow> int \<Rightarrow> int \<Rightarrow> int \<Rightarrow> u64 \<Rightarrow> 'a tool \<Rightarrow> ('a tool \<times> bool) res" where
  "fresh_wp E tid i bp_len bp_typ a s =
     (let (q, p) = new_dev (new_BPDevice bp_len bp_typ a) (pl s)
      in rbind (registerDevice (ops E) (sysos E) (devcfg E) tid (get_session_key tid q) p q) (\<lambda>(q, ret).
           let s = s\<lparr>pl := q\<rparr>
           in if ret \<noteq> 0 then rbind (wpi_upd tid i (\<lambda>w. w\<lparr>fileHandle := -1\<rparr>) s) (\<lambda>s. Inr (s, False))
              else rbind (getd p q) (\<lambda>d.
                   rbind (wpi_upd tid i (\<lambda>w. w\<lparr>fileHandle := device.deviceFileId d, wp_mmapBuffer := mmapBuffer d\<rparr>) s)
                     (\<lambda>s. Inr (s, True)))))"

definition CreateWatchPoint ::
  "'a env \<Rightarrow> int \<Rightarrow> int \<Rightarrow> int \<Rightarrow> int \<Rightarrow> WP_Access \<Rightarrow> u64 \<Rightarrow> bool \<Rightarrow> nat option \<Rightarrow> 'a tool \<Rightarrow> 'a tool res" where
  "CreateWatchPoint E tid now i watch_length watch_type a modify sampleEvent s =
     (case bp_len_of watch_length of None \<Rightarrow> Inl (ExitProcess 0)
      | Some bp_len \<Rightarrow>
          rbind ((if modify then modify_wp else fresh_wp) E tid i bp_len (bp_type_of watch_type) a s) (\<lambda>(s, set).
            if set then wpi_upd tid i (armed a watch_length sampleEvent now) s else Inr s))"

definition ArmWatchPoint ::
  "'a env \<Rightarrow> int \<Rightarrow> int \<Rightarrow> int \<Rightarrow> int \<Rightarrow> WP_Access \<Rightarrow> u64 \<Rightarrow> nat option \<Rightarrow> 'a tool \<Rightarrow> ('a tool \<times> bool) res" where
  "ArmWatchPoint E tid now i watch_length watch_type a sampleEvent s =
     rbind (wpi_get tid i s) (\<lambda>w.
       if isWPModifyEnabled (wpConfig s) \<and> fileHandle w \<noteq> -1
       then rbind (CreateWatchPoint E tid now i watch_length watch_type a True sampleEvent s) (\<lambda>s. Inr (s, True))
       else rbind (if isActive w then DisArm E tid i s else Inr s) (\<lambda>s.
            rbind (CreateWatchPoint E tid now i watch_length watch_type a False sampleEvent s) (\<lambda>s.
            rbind (wpi_get tid i s) (\<lambda>w. Inr (s, fileHandle w \<noteq> -1)))))"

section \<open>The replacement policy\<close>

definition bump :: "WP_RegisterInfo \<Rightarrow> WP_RegisterInfo" where
  "bump w = w\<lparr>wp_samplePostFull := to_u64 (wp_samplePostFull w + 1)\<rparr>"

text \<open>Increments \<open>samplePostFull\<close> of the slots \<open>is\<close> that pass the test.\<close>

definition bump_slots :: "(WP_RegisterInfo \<Rightarrow> bool) \<Rightarrow> nat list \<Rightarrow> WP_RegisterInfo list \<Rightarrow> WP_RegisterInfo list res" where
  "bump_slots P is = rfold (\<lambda>i arr. rbind (slot_at arr (int i)) (\<lambda>w.
     Inr (if P w then arr[i := bump w] else arr))) is"

definition shuffle_step :: "nat \<Rightarrow> nat \<Rightarrow> 48 word \<times> nat list \<Rightarrow> 48 word \<times> nat list" where
  "shuffle_step n i = (\<lambda>(rng, slots). let (rng, v) = lrand48 rng; v = v mod n
     in (rng, slots[i := slots ! v, v := slots ! i]))"

definition shuffle_slots :: "nat \<Rightarrow> 48 word \<Rightarrow> 48 word \<times> nat list" where
  "shuffle_slots n rng = fold (shuffle_step n) [0..<n] (rng, [0..<n])"

definition probabilityToReplace :: "int \<Rightarrow> rat" where
  "probabilityToReplace n = f64 (1 / f64 (1 + f64 (of_int n)))"

text \<open>The attempts to replace, in the order of the shuffled slots.\<close>

fun attempt :: "nat list \<Rightarrow> 48 word \<Rightarrow> WP_RegisterInfo list \<Rightarrow> (48 word \<times> WP_RegisterInfo list \<times> nat option) res" where
  "attempt [] rng arr = Inr (rng, arr, None)"
| "attempt (loc # rest) rng arr =
     rbind (slot_at arr (int loc)) (\<lambda>w.
       let (rng, randValue) = drand48 rng; arr = arr[loc := bump w]
       in if randValue \<le> probabilityToReplace (wp_samplePostFull w)
          then rbind (bump_slots (\<lambda>_. True) rest arr) (\<lambda>arr. Inr (rng, arr, Some loc))
          else attempt rest rng arr)"

text \<open>The slot with the largest (smallest) start time, starting from \<open>loc\<close> and the bound \<open>t\<close>.\<close>

definition extreme_slot :: "(int \<Rightarrow> int \<Rightarrow> bool) \<Rightarrow> WP_RegisterInfo list \<Rightarrow> nat list \<Rightarrow> int \<Rightarrow> int \<Rightarrow> int" where
  "extreme_slot better arr is loc t =
     fst (fold (\<lambda>i (loc, t). if better (startTime (arr ! i)) t then (int i, startTime (arr ! i)) else (loc, t))
            is (loc, t))"

text \<open>\<open>location\<close> is the value the caller's variable has before; \<open>slots[0]\<close> is read when nothing is replaced.\<close>

definition GetVictim :: "WP_Config \<Rightarrow> WP_ThreadData \<Rightarrow> int \<Rightarrow> (WP_ThreadData \<times> WP_Victim \<times> int) res" where
  "GetVictim c t location =
     (let arr = watchPointArray t; is = wp_slots c; n = nat (maxWP c)
      in rbind (first_slot (\<lambda>w. Inr (\<not> isActive w)) arr is) (\<lambda>r.
         case r of
           Some i \<Rightarrow> rbind (bump_slots isActive is arr) (\<lambda>arr.
             Inr (t\<lparr>watchPointArray := arr\<rparr>, WP_VICTIM_EMPTY_SLOT, int i))
         | None \<Rightarrow>
             (case replacementPolicy c of
                WP_REPLACEMENT_AUTO \<Rightarrow>
                  let (rng, slots) = shuffle_slots n (randBuffer t)
                  in rbind (attempt slots rng arr) (\<lambda>(rng, arr, found).
                     let t = t\<lparr>randBuffer := rng, watchPointArray := arr\<rparr>
                     in case found of
                          Some loc \<Rightarrow> Inr (t, WP_VICTIM_NON_EMPTY_SLOT, int loc)
                        | None \<Rightarrow> Inr (t, WP_VICTIM_NONE_AVAILABLE,
                                   case slots of [] \<Rightarrow> location | loc # _ \<Rightarrow> int loc))
              | WP_REPLACEMENT_NEWEST \<Rightarrow>
                  Inr (t, WP_VICTIM_NON_EMPTY_SLOT, extreme_slot (\<lambda>a b. b < a) arr is location 0)
              | WP_REPLACEMENT_OLDEST \<Rightarrow>
                  Inr (t, WP_VICTIM_NON_EMPTY_SLOT, extreme_slot (\<lambda>a b. a < b) arr is location (2 ^ 63 - 1))
              | WP_REPLACEMENT_EMPTY_SLOT \<Rightarrow> Inr (t, WP_VICTIM_NONE_AVAILABLE, location))))"

section \<open>The interface\<close>

text \<open>\<open>ok\<close> is whether \<open>pthread_key_create\<close> succeeds; the number of watchpoints is probed.\<close>

definition WP_Init :: "'a env \<Rightarrow> int \<Rightarrow> bool \<Rightarrow> u64 \<Rightarrow> 'a tool \<Rightarrow> ('a tool \<times> int) res" where
  "WP_Init E tid ok dummyWP s =
     (if \<not> ok then Inr (s, -1)
      else rbind (getMaxDevices (ops E) (sysos E) (devcfg E) tid BPDEVICE dummyWP (pl s)) (\<lambda>(q, n).
             Inr (s\<lparr>pl := q, wpConfig := \<lparr>isWPModifyEnabled = isAgentKVM (ops E) \<or> fast_bp E,
                     replacementPolicy = WP_REPLACEMENT_AUTO, maxWP = int n, userPerfPause = None, userPerfResume = None\<rparr>\<rparr>, 0)))"

text \<open>The callbacks are numbers of functions, \<open>None\<close> for a null pointer; nothing calls them. \<open>WP_Shutdown\<close> is empty.\<close>

definition WP_SetPerfPauseAndResumeFunctions :: "nat option \<Rightarrow> nat option \<Rightarrow> 'a tool \<Rightarrow> 'a tool" where
  "WP_SetPerfPauseAndResumeFunctions pause_fn resume_fn s =
     s\<lparr>wpConfig := (wpConfig s)\<lparr>userPerfPause := pause_fn, userPerfResume := resume_fn\<rparr>\<rparr>"

definition WP_Shutdown :: "'a tool \<Rightarrow> 'a tool" where "WP_Shutdown s = s"

text \<open>\<open>fresh\<close> is the \<open>malloc\<close>ed block, \<open>None\<close> when it fails; \<open>ok\<close> is \<open>pthread_setspecific\<close>, \<open>time\<close> the seed.\<close>

definition init_slot :: "int \<Rightarrow> WP_RegisterInfo \<Rightarrow> WP_RegisterInfo" where
  "init_slot tid w = w\<lparr>isActive := False, fileHandle := -1, startTime := 0,
     wp_samplePostFull := SAMPLES_POST_FULL_RESET_VAL, wp_threadId := tid\<rparr>"

definition WP_ThreadInit :: "int \<Rightarrow> WP_ThreadData option \<Rightarrow> bool \<Rightarrow> int \<Rightarrow> 'a tool \<Rightarrow> ('a tool \<times> int) res" where
  "WP_ThreadInit tid fresh ok time s =
     (case fresh of None \<Rightarrow> Inr (s, -1)
      | Some t \<Rightarrow>
          if \<not> ok then Inr (s, -1)
          else let t = t\<lparr>randBuffer := srand48 time, td_samplePostFull := SAMPLES_POST_FULL_RESET_VAL\<rparr>
               in rbind (rfold (\<lambda>i arr. rbind (slot_at arr (int i)) (\<lambda>w. Inr (arr[i := init_slot tid w])))
                          (wp_slots (wpConfig s)) (watchPointArray t)) (\<lambda>arr.
                    Inr (set_td tid (t\<lparr>watchPointArray := arr\<rparr>) s, 0)))"

text \<open>
  The thread's data is unhooked first; the slots are then released through the pointer still held,
  which the model keeps hooked until it is freed.
\<close>

definition WP_ThreadTerminate :: "'a env \<Rightarrow> int \<Rightarrow> 'a tool \<Rightarrow> 'a tool res" where
  "WP_ThreadTerminate E tid s =
     rbind (rfold (\<lambda>i s. rbind (wpi_get tid (int i) s) (\<lambda>w.
              if fileHandle w \<noteq> -1 then DisArm E tid (int i) s else Inr s)) (wp_slots (wpConfig s)) s) (\<lambda>s.
     rbind (TD_GET tid s) (\<lambda>_.
       Inr (s\<lparr>WP_ThreadData_key := (WP_ThreadData_key s)(tid := None)\<rparr>)))"

definition WP_Subscribe ::
  "'a env \<Rightarrow> int \<Rightarrow> int \<Rightarrow> u64 \<Rightarrow> int \<Rightarrow> WP_Access \<Rightarrow> nat option \<Rightarrow> 'a tool \<Rightarrow> ('a tool \<times> int) res" where
  "WP_Subscribe E tid now a watch_length watch_type sampleEvent s =
     (if watch_type \<noteq> WP_INST \<and> \<not> ValidateWPData a watch_length then Inr (s, -1)
      else rbind (IsOveralpped a watch_length (wpConfig s) (WP_ThreadData_key s tid)) (\<lambda>over.
        if over then Inr (s, -1)
        else case WP_ThreadData_key s tid of None \<Rightarrow> Inr (s, -1)
        | Some t \<Rightarrow>
            rbind (GetVictim (wpConfig s) t (-1)) (\<lambda>(t, r, loc).
              let s = set_td tid t s
              in if r = WP_VICTIM_NONE_AVAILABLE then Inr (s, -1)
                 else rbind (ArmWatchPoint E tid now loc watch_length watch_type a sampleEvent s) (\<lambda>(s, ok).
                      Inr (s, if ok then 0 else -1)))))"

section \<open>A watchpoint fires\<close>

text \<open>
  The slot the trigger belongs to: active, with this descriptor and with the address of the trigger;
  the sampled event is only followed when the first two hold.
\<close>

definition matches :: "WitchLogicType \<Rightarrow> int \<Rightarrow> Event \<Rightarrow> 'a tool \<Rightarrow> WP_RegisterInfo \<Rightarrow> bool res" where
  "matches logic fd ev s w =
     (if isActive w \<and> fd = fileHandle w
      then rbind (sampled w s) (\<lambda>sam.
        Inr (if logic = DUPSPY then ip_addr sam = ip_addr ev else data_addr sam = data_addr ev))
      else Inr False)"

text \<open>No slot matches: a message once per address, which follows every slot's event; then \<open>exit(0)\<close>.\<close>

definition no_match :: "'a env \<Rightarrow> Event \<Rightarrow> WP_ThreadData \<Rightarrow> 'a tool \<Rightarrow> 'a tool res" where
  "no_match E ev t s =
     rbind (if oldBadAddress s \<noteq> (if logicType E = DUPSPY then ip_addr ev else data_addr ev)
            then first_slot (\<lambda>w. rbind (sampled w s) (\<lambda>_. Inr False)) (watchPointArray t) (wp_slots (wpConfig s))
            else Inr None) (\<lambda>_. Inl (ExitProcess 0))"

definition reset_slot :: "int \<Rightarrow> int \<Rightarrow> 'a tool \<Rightarrow> 'a tool res" where
  "reset_slot tid i = wpi_upd tid i (\<lambda>w. w\<lparr>wp_samplePostFull := SAMPLES_POST_FULL_RESET_VAL\<rparr>)"

definition reset_td :: "int \<Rightarrow> 'a tool \<Rightarrow> 'a tool res" where
  "reset_td tid s = rbind (TD_GET tid s) (\<lambda>t.
     Inr (set_td tid (t\<lparr>td_samplePostFull := SAMPLES_POST_FULL_RESET_VAL\<rparr>) s))"

text \<open>The \<open>switch\<close> on the detector's answer; the flag tells whether the events are deleted.\<close>

definition wp_action :: "'a env \<Rightarrow> int \<Rightarrow> int \<Rightarrow> WP_TriggerAction \<Rightarrow> 'a tool \<Rightarrow> ('a tool \<times> bool) res" where
  "wp_action E tid i act s =
     rbind (wpi_get tid i s) (\<lambda>w.
     case act of
       WP_DISABLE \<Rightarrow>
         rbind (if isActive w then DisableWatchpointWrapper E tid i s else Inr s) (\<lambda>s.
         rbind (reset_td tid s) (\<lambda>s. rbind (reset_slot tid i s) (\<lambda>s. Inr (s, True))))
     | WP_DISABLE_ALL \<Rightarrow>
         rbind (rfold (\<lambda>i s. rbind (wpi_get tid (int i) s) (\<lambda>w.
                  rbind (if isActive w then DisableWatchpointWrapper E tid (int i) s else Inr s)
                    (reset_slot tid (int i)))) (wp_slots (wpConfig s)) s) (\<lambda>s.
         rbind (reset_td tid s) (\<lambda>s. Inr (s, True)))
     | WP_ALREADY_DISABLED \<Rightarrow>
         if isActive w then Inl AssertFailed
         else rbind (reset_td tid s) (\<lambda>s. rbind (reset_slot tid i s) (\<lambda>s. Inr (s, True)))
     | WP_RETAIN \<Rightarrow>
         if isActive w then Inr (s, False)
         else rbind (EnableWatchpoint tid (fileHandle w) s) (\<lambda>s.
              rbind (wpi_upd tid i (\<lambda>w. w\<lparr>isActive := True\<rparr>) s) (\<lambda>s. Inr (s, False))))"

text \<open>What the detector answers for the slot; a missing or unfixable instruction pointer disables it.\<close>

definition wp_callback ::
  "'a env \<Rightarrow> int \<Rightarrow> int \<Rightarrow> nat \<Rightarrow> 'a tool \<Rightarrow> ('a tool \<times> WP_TriggerAction) res" where
  "wp_callback E tid i e s =
     rbind (get_ev e s) (\<lambda>ev.
     if h_ip_addr ev = 0 then Inr (s, WP_DISABLE)
     else rbind (if isFixed ev then Inr (s, True) else fixIP E tid e s) (\<lambda>(s, fixed).
          if \<not> fixed then Inr (s, WP_DISABLE)
          else rbind (wpi_get tid i s) (\<lambda>w.
               rbind (get_ev e s) (\<lambda>ev.
               rbind (sampled w s) (\<lambda>sam.
               rbind (spy_OnWP (logicType E) (spycfg E) ev sam \<lparr>wpt_va = va w, wpt_watchLen = wpLength w\<rparr> (spies s))
                 (\<lambda>(sp, act). Inr (s\<lparr>spies := sp\<rparr>, act)))))))"

definition OnWatchPoint :: "'a env \<Rightarrow> int \<Rightarrow> int \<Rightarrow> nat \<Rightarrow> 'a tool \<Rightarrow> 'a tool res" where
  "OnWatchPoint E tid fd e s =
     (case WP_ThreadData_key s tid of None \<Rightarrow> del_ev e s
      | Some t \<Rightarrow>
          rbind (first_slot (\<lambda>w. Inr (fd = fileHandle w)) (watchPointArray t) (wp_slots (wpConfig s))) (\<lambda>_.
          rbind (slot_at (watchPointArray t) 0) (\<lambda>w0.
          rbind (sampled w0 s) (\<lambda>_.
          rbind (get_ev e s) (\<lambda>ev.
          rbind (first_slot (matches (logicType E) fd ev s) (watchPointArray t) (wp_slots (wpConfig s))) (\<lambda>location.
          case location of None \<Rightarrow> no_match E ev t s
          | Some i \<Rightarrow>
              rbind (wp_callback E tid (int i) e s) (\<lambda>(s, act).
              rbind (wp_action E tid (int i) act s) (\<lambda>(s, cleanup).
              if \<not> cleanup then Inr s
              else rbind (del_ev e s) (\<lambda>s.
                   rbind (wpi_get tid (int i) s) (\<lambda>w.
                     case sampledEvent w of None \<Rightarrow> Inr s | Some se \<Rightarrow> del_ev se s))))))))))"

end
