(* ===== verification/Wp_Devices.thy ===== *)
theory Wp_Devices
  imports Watchpoint
begin

text \<open>
  What the watchpoint library relies on of the platform and the agent: the locale \<open>wp_devices\<close>, a
  contract on the breakpoint devices of one thread, and its interpretations for the KVM and the
  native agent. \<open>bp_dev q tid fd\<close> says that the thread has a breakpoint device with descriptor
  \<open>fd\<close>; each operation keeps all such devices but the one it removes.
\<close>

section \<open>The interface\<close>

definition bp_dev :: "'a plat \<Rightarrow> int \<Rightarrow> int \<Rightarrow> bool" where
  "bp_dev q tid fd \<longleftrightarrow> (\<exists>p d. ((tid, fd), p) \<in> set (deviceMap q) \<and> devs q p = Some d \<and> deviceType d = BPDEVICE)"

definition keeps_bp :: "int \<Rightarrow> int set \<Rightarrow> 'a plat \<Rightarrow> 'a plat \<Rightarrow> bool" where
  "keeps_bp tid X q q' \<longleftrightarrow> (\<forall>fd. fd \<notin> X \<longrightarrow> bp_dev q tid fd \<longrightarrow> bp_dev q' tid fd)"

text \<open>\<open>lockDevice\<close>, \<open>remove_device\<close>, \<open>unlockDevice\<close>, as \<open>DisArm\<close> calls them.\<close>

definition drop_dev :: "'a env \<Rightarrow> int \<Rightarrow> int \<Rightarrow> 'a plat \<Rightarrow> 'a plat res" where
  "drop_dev E tid fd q = rbind (lockDevice q) (\<lambda>q.
     rbind (remove_device (ops E) (sysos E) tid fd True q) (\<lambda>q. Inr (unlockDevice q)))"

locale wp_devices =
  fixes E :: "'a env" and dinv :: "'a plat \<Rightarrow> bool" and tid :: int
  assumes find: "dinv q \<Longrightarrow> bp_dev q tid fd \<Longrightarrow>
      fd \<noteq> -1 \<and> (\<exists>p d. get_device tid fd q = Inr (Some p) \<and> getd p q = Inr d \<and> deviceType d = BPDEVICE)"
    and drop: "dinv q \<Longrightarrow> bp_dev q tid fd \<Longrightarrow>
      \<exists>q'. drop_dev E tid fd q = Inr q' \<and> dinv q' \<and> keeps_bp tid {fd} q q' \<and> \<not> bp_dev q' tid fd"
    and create: "dinv q \<Longrightarrow> new_dev (new_BPDevice len bt a) q = (q1, p) \<Longrightarrow> sid = get_session_key tid q1 \<Longrightarrow>
      registerDevice (ops E) (sysos E) (devcfg E) tid sid p q1 = Inl (ExitProcess (-1)) \<or>
      (\<exists>q'. registerDevice (ops E) (sysos E) (devcfg E) tid sid p q1 = Inr (q', -1) \<and> dinv q' \<and>
         keeps_bp tid {} q q') \<or>
      (\<exists>q' d. registerDevice (ops E) (sysos E) (devcfg E) tid sid p q1 = Inr (q', 0) \<and> dinv q' \<and>
         keeps_bp tid {} q q' \<and> getd p q' = Inr d \<and> \<not> bp_dev q tid (device.deviceFileId d) \<and>
         bp_dev q' tid (device.deviceFileId d))"
    and stop: "dinv q \<Longrightarrow> bp_dev q tid fd \<Longrightarrow> get_device tid fd q = Inr (Some p) \<Longrightarrow>
      \<exists>q'. end_device (ops E) p q = Inr q' \<and> dinv q' \<and> keeps_bp tid {} q q'"
    and start: "dinv q \<Longrightarrow> bp_dev q tid fd \<Longrightarrow> get_device tid fd q = Inr (Some p) \<Longrightarrow>
      \<exists>q'. start_device p q = Inr q' \<and> dinv q' \<and> keeps_bp tid {} q q'"
    and move: "dinv q \<Longrightarrow> bp_dev q tid fd \<Longrightarrow> get_device tid fd q = Inr (Some p) \<Longrightarrow>
      \<exists>q' b. updateBPAddress (ops E) (sysos E) (devcfg E) (fast_bp E) p len bt a q = Inr (q', b) \<and>
        dinv q' \<and> keeps_bp tid {} q q'"

section \<open>The platform provides it\<close>

lemma keeps_bpI:
  assumes "\<And>p fd. ((tid, fd), p) \<in> set (deviceMap q) \<Longrightarrow> fd \<notin> X \<Longrightarrow> ((tid, fd), p) \<in> set (deviceMap q')"
    and "\<And>p d fd. ((tid, fd), p) \<in> set (deviceMap q) \<Longrightarrow> fd \<notin> X \<Longrightarrow> devs q p = Some d \<Longrightarrow>
      \<exists>d'. devs q' p = Some d' \<and> deviceType d' = deviceType d"
  shows "keeps_bp tid X q q'"
  using assms unfolding keeps_bp_def bp_dev_def by metis

text \<open>The type of a device does not change when it is registered.\<close>

lemma register_type:
  assumes d: "devs s p = Some d" and r: "registerDevice A os cfg tid sId p s = Inr (s', 0)"
    and new: "fd = perf_event_open os (clock s) (open_fds s) (registerThisDevice cfg (isAgentKVM A) d attr0)"
      "fd \<noteq> -1 \<longrightarrow> 1 \<le> fd \<and> fd \<notin> open_fds s"
  shows "\<exists>d'. devs s' p = Some d' \<and> deviceType d' = deviceType d \<and> device.deviceFileId d' = fd"
proof -
  from register_open_cases [OF d new, of sId] r obtain s1 d' where
    s1: "register_open A os cfg sId p s = Inr (s1, True)" "devs s1 p = Some d'" "device.deviceFileId d' = fd"
      "deviceType d' = deviceType d"
    by (auto simp: registerDevice_def)
  obtain n b where n: "register_signals os fd s1 = Inr (s1\<lparr>clock := n\<rparr>, b)"
  proof -
    have "register_signals os fd s1 \<noteq> Inl (ExitProcess (-1))" using r s1 by (auto simp: registerDevice_def getd_def)
    with register_signals_cases [of os fd s1] that show thesis by blast
  qed
  have b
  proof (rule ccontr)
    assume "\<not> b"
    with r s1 n show False by (simp add: registerDevice_def getd_def)
  qed
  with r s1 n have "devs s' p = Some d'"
    by (auto simp: registerDevice_def getd_def rbind_Inr add_new_device_def add_new_device_to_session_def
        with_devices_def lockDevice_def unlockDevice_def split: if_splits)
  with s1 show ?thesis by simp
qed

context bp_agent
begin

text \<open>The registry's invariant, on an operating system that behaves as documented.\<close>

definition "dev_inv E q \<longleftrightarrow> ops E = A \<and> fresh_os (sysos E) \<and> (\<forall>fd. closable (sysos E) fd) \<and> reg_ok q"

lemma dev_invD:
  assumes "dev_inv E q"
  shows "ops E = A" "fresh_os (sysos E)" "closable (sysos E) fd" "ok q" "\<not> devicemap_mtx q" "allocated q"
  using assms by (auto simp: dev_inv_def reg_ok_def)

lemma dev_invI: "dev_inv E q \<Longrightarrow> ok q' \<Longrightarrow> \<not> devicemap_mtx q' \<Longrightarrow> allocated q' \<Longrightarrow> dev_inv E q'"
  by (simp add: dev_inv_def reg_ok_def)

lemma bp_entry:
  assumes "dev_inv E q" and "bp_dev q tid fd"
  obtains p d where "((tid, fd), p) \<in> set (deviceMap q)" and "devs q p = Some d" and "deviceType d = BPDEVICE"
    and "device.deviceFileId d = fd" and "1 \<le> fd" and "reg (agent q) fd True"
    and "get_device tid fd q = Inr (Some p)"
proof -
  from assms(2) obtain p d where p: "((tid, fd), p) \<in> set (deviceMap q)" "devs q p = Some d" "deviceType d = BPDEVICE"
    unfolding bp_dev_def by blast
  note o = dev_invD [OF assms(1)]
  from plat_okD [OF o(4) p(1)] p have "device.deviceFileId d = fd" "1 \<le> fd" "reg (agent q) fd True" by auto
  moreover have "get_device tid fd q = Inr (Some p)"
    using o(5) map_of_mem [OF o(4), of "(tid, fd)" p] p(1) by (simp add: get_device_def lockDevice_def)
  ultimately show thesis using p that by blast
qed

lemma the_entry:
  assumes "dev_inv E q" and "bp_dev q tid fd" and "get_device tid fd q = Inr (Some p)"
  obtains d where "((tid, fd), p) \<in> set (deviceMap q)" and "devs q p = Some d" and "deviceType d = BPDEVICE"
    and "device.deviceFileId d = fd" and "reg (agent q) fd True"
  by (rule bp_entry [OF assms(1,2)]) (use assms(3) that in auto)

lemma same_maps_ok:
  assumes "dev_inv E q" and "ok q'" and "deviceMap q' = deviceMap q" and "devicemap_mtx q' = devicemap_mtx q"
    and "next_dev q' = next_dev q" and "\<forall>x d. devs q x = Some d \<longrightarrow> (\<exists>d'. devs q' x = Some d' \<and> deviceType d' = deviceType d)"
  shows "dev_inv E q' \<and> keeps_bp tid {} q q'"
proof
  show "dev_inv E q'"
    by (rule dev_invI [OF assms(1,2)]) (use dev_invD(5,6) [OF assms(1)] assms(3-5) in \<open>simp_all add: allocated_def\<close>)
  show "keeps_bp tid {} q q'" by (rule keeps_bpI) (use assms(3,6) in auto)
qed

lemma stop_ok:
  assumes i: "dev_inv E q" "bp_dev q tid fd" "get_device tid fd q = Inr (Some p)"
  shows "\<exists>q'. end_device (ops E) p q = Inr q' \<and> dev_inv E q' \<and> keeps_bp tid {} q q'"
proof -
  obtain d where d: "((tid, fd), p) \<in> set (deviceMap q)" "devs q p = Some d" "deviceType d = BPDEVICE"
    by (rule the_entry [OF i])
  let ?s = "setd p (d\<lparr>isDisabled := True\<rparr>) q"
  have o1: "ok ?s" by (rule plat_ok_setd [OF dev_invD(4) [OF i(1)] d(2)]) simp_all
  from disable_ok [OF o1] d(1) obtain t where t: "disable_device A p ?s = Inr t" "ok t"
    and sw: "switched ?s t" by (force simp: switches_def)
  have e: "end_device (ops E) p q = Inr t" using t(1) d(2) dev_invD(1) [OF i(1)] by (simp add: end_device_def getd_def)
  have "next_dev t = next_dev q"
  proof -
    have "t = ?s\<lparr>agent := agent t, running := running t\<rparr>" using sw by (simp add: switched_def)
    then have "next_dev t = next_dev (?s\<lparr>agent := agent t, running := running t\<rparr>)" by metis
    then show ?thesis by (simp add: setd_def)
  qed
  note sm = switchedD [OF sw] this
  have "dev_inv E t \<and> keeps_bp tid {} q t"
    by (rule same_maps_ok [OF i(1) t(2)]) (use sm d(2) in \<open>auto simp: setd_def\<close>)
  with e show ?thesis by blast
qed

lemma start_ok:
  assumes i: "dev_inv E q" "bp_dev q tid fd" "get_device tid fd q = Inr (Some p)"
  shows "\<exists>q'. start_device p q = Inr q' \<and> dev_inv E q' \<and> keeps_bp tid {} q q'"
proof -
  obtain d where d: "((tid, fd), p) \<in> set (deviceMap q)" "devs q p = Some d" by (rule the_entry [OF i])
  let ?s = "setd p (d\<lparr>isDisabled := False\<rparr>) q"
  have o1: "ok ?s" by (rule plat_ok_setd [OF dev_invD(4) [OF i(1)] d(2)]) simp_all
  have o2: "ok (ioc_refresh x ?s)" for x by (rule plat_ok_frame [OF o1]) (auto simp: ioc_refresh_def)
  have e: "start_device p q = Inr (ioc_refresh (device.deviceFileId d) ?s)"
    using d(2) by (simp add: start_device_def getd_def)
  have "dev_inv E (ioc_refresh (device.deviceFileId d) ?s) \<and> keeps_bp tid {} q (ioc_refresh (device.deviceFileId d) ?s)"
    by (rule same_maps_ok [OF i(1) o2]) (use d(2) in \<open>auto simp: ioc_refresh_def setd_def\<close>)
  with e show ?thesis by blast
qed

lemma move_ok:
  assumes i: "dev_inv E q" "bp_dev q tid fd" "get_device tid fd q = Inr (Some p)"
  shows "\<exists>q' b. updateBPAddress (ops E) (sysos E) (devcfg E) (fast_bp E) p len bt a q = Inr (q', b) \<and>
    dev_inv E q' \<and> keeps_bp tid {} q q'"
proof -
  obtain d where d: "((tid, fd), p) \<in> set (deviceMap q)" "devs q p = Some d" "deviceType d = BPDEVICE"
    "device.deviceFileId d = fd" "reg (agent q) fd True" by (rule the_entry [OF i])
  note o = dev_invD [OF i(1)]
  have ai: "ainv (agent q)" using o(4) by (simp add: plat_ok_def)
  let ?u = "ag_updateBPAddress A fd len bt a (agent q)"
  note up = update_inv [OF ai d(5), of len bt a] update_reg [OF ai d(5), of len bt a]
    update_free [OF ai d(5), of len bt a]
  define q1 where "q1 = q\<lparr>agent := fst ?u, running := running q\<rparr>"
  have o1: "ok q1" unfolding q1_def by (rule switch_ok [OF o(4) up(1)]) (use up in simp_all)
  have d1: "devs q1 p = Some d" using d by (simp add: q1_def)
  let ?fin = "\<lambda>q2. dev_inv E q2 \<and> keeps_bp tid {} q q2"
  have fin1: "?fin (q1\<lparr>clock := n\<rparr>)" for n
    by (rule same_maps_ok [OF i(1) plat_ok_frame [OF o1]]) (simp_all add: q1_def)
  have fin2: "?fin (setd p d' (q1\<lparr>clock := n\<rparr>))"
    if "device.deviceFileId d' = device.deviceFileId d" "mmapBuffer d' = mmapBuffer d" "deviceType d' = deviceType d" for d' n
  proof -
    have "ok (q1\<lparr>clock := n\<rparr>)" using plat_ok_frame [OF o1, of "q1\<lparr>clock := n\<rparr>"] by simp
    from plat_ok_setd [OF this, of p d d'] d1 that have "ok (setd p d' (q1\<lparr>clock := n\<rparr>))" by simp
    then show ?thesis
      by (rule same_maps_ok [OF i(1)]) (use d that in \<open>auto simp: q1_def setd_def\<close>)
  qed
  have c0: "q1\<lparr>clock := clock q\<rparr> = q1" by (simp add: q1_def)
  obtain ag b where u: "?u = (ag, b)" by (cases ?u)
  have q1: "q\<lparr>agent := ag\<rparr> = q1" using u by (simp add: q1_def)
  show ?thesis
  proof (cases b)
    case True
    then have "\<exists>d'. updateBPAddress (ops E) (sysos E) (devcfg E) (fast_bp E) p len bt a q = Inr (setd p d' q1, True) \<and>
        device.deviceFileId d' = device.deviceFileId d \<and> mmapBuffer d' = mmapBuffer d \<and> deviceType d' = deviceType d"
      using d u q1 o(1)
      by (intro exI [of _ "d\<lparr>isDisabled := False, bp_length := len, bp_address := a, bp_type := bt\<rparr>"])
        (simp add: updateBPAddress_def getd_def)
    with fin2 [of _ "clock q"] c0 show ?thesis by auto
  next
    case False
    then have "updateBPAddress (ops E) (sysos E) (devcfg E) (fast_bp E) p len bt a q = Inr (q1, False) \<or>
        (\<exists>d' n. updateBPAddress (ops E) (sysos E) (devcfg E) (fast_bp E) p len bt a q = Inr (setd p d' (q1\<lparr>clock := n\<rparr>), True) \<and>
          device.deviceFileId d' = device.deviceFileId d \<and> mmapBuffer d' = mmapBuffer d \<and> deviceType d' = deviceType d) \<or>
        (\<exists>n. updateBPAddress (ops E) (sysos E) (devcfg E) (fast_bp E) p len bt a q = Inr (q1\<lparr>clock := n\<rparr>, False))"
      using d u q1 o(1) by (auto simp: updateBPAddress_def getd_def sys_def)
    with fin1 [of "clock q"] fin1 fin2 c0 show ?thesis by (elim disjE exE conjE) auto
  qed
qed

lemma drop_removed:
  assumes i: "dev_inv E q" "bp_dev q tid fd"
  obtains t p d where "drop_dev E tid fd q = Inr (unlockDevice t)" and "ok t"
    and "((tid, fd), p) \<in> set (deviceMap q)" and "devs q p = Some d" and "deviceType d = BPDEVICE"
    and "removed tid fd p (q\<lparr>devicemap_mtx := True,
      deviceSessionMultiMap := remove1 (dev_sessionId d, fd) (deviceSessionMultiMap q)\<rparr>) t"
proof -
  note o = dev_invD [OF i(1)]
  obtain p d where d: "((tid, fd), p) \<in> set (deviceMap q)" "devs q p = Some d" "deviceType d = BPDEVICE"
    by (rule bp_entry [OF i])
  define q1 where "q1 = q\<lparr>devicemap_mtx := True,
    deviceSessionMultiMap := remove1 (dev_sessionId d, fd) (deviceSessionMultiMap q)\<rparr>"
  have o1: "ok q1" by (rule plat_ok_frame [OF o(4)]) (simp_all add: q1_def)
  have e1: "((tid, fd), p) \<in> set (deviceMap q1)" using d by (simp add: q1_def)
  from remove_device_ok [OF o1 e1 o(3)] obtain t where
    t: "remove_device A (sysos E) tid fd False q1 = Inr t" "ok t" "removed tid fd p q1 t" by blast
  have m: "map_of (deviceMap q) (tid, fd) = Some p" using map_of_mem [OF o(4)] d by simp
  have "remove_device A (sysos E) tid fd True (q\<lparr>devicemap_mtx := True\<rparr>) = remove_device A (sysos E) tid fd False q1"
    using m d(2) by (simp add: remove_device_def getd_def q1_def)
  then have "drop_dev E tid fd q = Inr (unlockDevice t)"
    using o(1,5) t(1) by (simp add: drop_dev_def lockDevice_def)
  with t(2,3) d show thesis by (rule_tac that [of t p d]) (simp_all add: q1_def)
qed

lemma drop_ok:
  assumes i: "dev_inv E q" "bp_dev q tid fd"
  shows "\<exists>q'. drop_dev E tid fd q = Inr q' \<and> dev_inv E q' \<and> keeps_bp tid {fd} q q' \<and> \<not> bp_dev q' tid fd"
proof -
  note o = dev_invD [OF i(1)]
  obtain t p d where e: "drop_dev E tid fd q = Inr (unlockDevice t)" and t: "ok t"
    and d: "((tid, fd), p) \<in> set (deviceMap q)" and "devs q p = Some d" "deviceType d = BPDEVICE"
    and r: "removed tid fd p (q\<lparr>devicemap_mtx := True,
      deviceSessionMultiMap := remove1 (dev_sessionId d, fd) (deviceSessionMultiMap q)\<rparr>) t"
    by (rule drop_removed [OF i])
  note tm = removedD(1,2) [OF r, simplified] and td = removedD(5) [OF r, simplified]
  have "dev_inv E (unlockDevice t)"
    by (rule dev_invI [OF i(1)])
      (use t tm o(6) in \<open>auto simp: unlockDevice_def allocated_def set_delete\<close>)
  moreover have "keeps_bp tid {fd} q (unlockDevice t)"
  proof (rule keeps_bpI)
    fix x c assume "((tid, x), c) \<in> set (deviceMap q)" "x \<notin> {fd}"
    then show "((tid, x), c) \<in> set (deviceMap (unlockDevice t))"
      by (simp add: unlockDevice_def tm set_delete)
  next
    fix c d' x assume x: "((tid, x), c) \<in> set (deviceMap q)" "x \<notin> {fd}" "devs q c = Some d'"
    then have "c \<noteq> p" using dev_unique [OF o(4) d] by blast
    then show "\<exists>d''. devs (unlockDevice t) c = Some d'' \<and> deviceType d'' = deviceType d'"
      using td x by (simp add: unlockDevice_def)
  qed
  moreover have "\<not> bp_dev (unlockDevice t) tid fd"
    by (simp add: bp_dev_def unlockDevice_def tm set_delete)
  ultimately show ?thesis using e by blast
qed

lemma create_ok:
  assumes i: "dev_inv E q" and n: "new_dev (new_BPDevice len bt a) q = (q1, p)"
  shows "registerDevice (ops E) (sysos E) (devcfg E) tid sid p q1 = Inl (ExitProcess (-1)) \<or>
    (\<exists>q'. registerDevice (ops E) (sysos E) (devcfg E) tid sid p q1 = Inr (q', -1) \<and> dev_inv E q' \<and>
       keeps_bp tid {} q q') \<or>
    (\<exists>q' d. registerDevice (ops E) (sysos E) (devcfg E) tid sid p q1 = Inr (q', 0) \<and> dev_inv E q' \<and>
       keeps_bp tid {} q q' \<and> getd p q' = Inr d \<and> \<not> bp_dev q tid (device.deviceFileId d) \<and>
       bp_dev q' tid (device.deviceFileId d))"
proof -
  note o = dev_invD [OF i] and nd = new_dev_simps [OF n] and nk = new_dev_ok [OF dev_invD(4) [OF i] dev_invD(6) [OF i] n]
  let ?d = "new_BPDevice len bt a"
  define fd where "fd = perf_event_open (sysos E) (clock q1) (open_fds q1) (registerThisDevice (devcfg E) (isAgentKVM A) ?d attr0)"
  have new: "fd \<noteq> -1 \<longrightarrow> 1 \<le> fd \<and> fd \<notin> open_fds q1" using o(2) unfolding fd_def fresh_os_def by auto
  have m: "\<not> devicemap_mtx q1" using o(5) nd(6) by simp
  have old: "p \<noteq> x" if "(k, x) \<in> set (deviceMap q)" for k x
    using that nk(2) nd(3) by force
  have k1: "keeps_bp tid {} q q'" if "set (deviceMap q) \<subseteq> set (deviceMap q')" "\<forall>x. x \<noteq> p \<longrightarrow> devs q' x = devs q1 x" for q'
  proof (rule keeps_bpI)
    fix c d x assume x: "((tid, x), c) \<in> set (deviceMap q)" "devs q c = Some d"
    then have "devs q' c = Some d" using that(2) old [OF x(1)] nd(10) by metis
    then show "\<exists>d'. devs q' c = Some d' \<and> deviceType d' = deviceType d" by blast
  qed (use that in blast)
  from register_ok [OF nk(1) m nd(2) nk(2) fd_def new, of tid sid] show ?thesis
  proof (elim disjE exE conjE)
    assume "registerDevice A (sysos E) (devcfg E) tid sid p q1 = Inl (ExitProcess (-1))"
    with o(1) show ?thesis by simp
  next
    fix q' assume r: "registerDevice A (sysos E) (devcfg E) tid sid p q1 = Inr (q', -1)" "ok q'" "opened p fd q1 q'"
    have "dev_inv E q'"
      by (rule dev_invI [OF i r(2)]) (use r(3) m nk(3) in \<open>simp_all add: opened_def allocated_def\<close>)
    moreover have "keeps_bp tid {} q q'" by (rule k1) (use r(3) nd(3) in \<open>simp_all add: opened_def\<close>)
    ultimately show ?thesis using r(1) o(1) by simp
  next
    fix q' assume r: "registerDevice A (sysos E) (devcfg E) tid sid p q1 = Inr (q', 0)" "ok q'" "added tid sid fd p q1 q'" "fd \<noteq> -1"
    have fr: "x \<noteq> fd" if "((t, x), c) \<in> set (deviceMap q1)" for t x c
      using plat_okD [OF nk(1) that] new r(4) by blast
    then have k: "(tid, fd) \<notin> fst ` set (deviceMap q1)" by force
    have M: "set (deviceMap q') = insert ((tid, fd), p) (set (deviceMap q1))"
      using r(3) omap_put_fresh [OF k] by (simp add: added_def)
    have "dev_inv E q'"
      by (rule dev_invI [OF i r(2)]) (use r(3) m nk(3) nd M in \<open>auto simp: added_def allocated_def\<close>)
    moreover have "keeps_bp tid {} q q'" by (rule k1) (use r(3) nd(3) M in \<open>auto simp: added_def\<close>)
    moreover obtain d' where d': "devs q' p = Some d'" "deviceType d' = BPDEVICE" "device.deviceFileId d' = fd"
      using register_type [OF nd(2) r(1) fd_def new] by (auto simp: new_BPDevice_def)
    moreover have "\<not> bp_dev q tid fd" using fr nd(3) by (auto simp: bp_dev_def)
    moreover have "bp_dev q' tid fd" using M d' by (auto simp: bp_dev_def)
    ultimately show ?thesis using r(1) o(1) by (auto simp: getd_def)
  qed
qed

lemma find_ok:
  assumes "dev_inv E q" and "bp_dev q tid fd"
  shows "fd \<noteq> -1 \<and> (\<exists>p d. get_device tid fd q = Inr (Some p) \<and> getd p q = Inr d \<and> deviceType d = BPDEVICE)"
  by (rule bp_entry [OF assms]) (auto simp: getd_def)

lemma new_ok:
  "dev_inv E q \<Longrightarrow> new_dev (new_BPDevice len bt a) q = (q1, p) \<Longrightarrow> sid = get_session_key tid q1 \<Longrightarrow>
    registerDevice (ops E) (sysos E) (devcfg E) tid sid p q1 = Inl (ExitProcess (-1)) \<or>
    (\<exists>q'. registerDevice (ops E) (sysos E) (devcfg E) tid sid p q1 = Inr (q', -1) \<and> dev_inv E q' \<and>
       keeps_bp tid {} q q') \<or>
    (\<exists>q' d. registerDevice (ops E) (sysos E) (devcfg E) tid sid p q1 = Inr (q', 0) \<and> dev_inv E q' \<and>
       keeps_bp tid {} q q' \<and> getd p q' = Inr d \<and> \<not> bp_dev q tid (device.deviceFileId d) \<and>
       bp_dev q' tid (device.deviceFileId d))"
  by (rule create_ok)

lemmas wp_laws = find_ok drop_ok new_ok stop_ok start_ok move_ok

end

interpretation kvm_wp: wp_devices E "kvm_agent.dev_inv E" tid for E :: "kvm_agent env" and tid
  by unfold_locales (rule kvm_agent.wp_laws; assumption)+

interpretation native_wp: wp_devices E "native_agent.dev_inv E" tid for E :: "unit env" and tid
  by unfold_locales (rule native_agent.wp_laws; assumption)+

end
