(* ===== verification/Watch_Inv.thy ===== *)
theory Watch_Inv
  imports Wp_Devices
begin

text \<open>
  The invariant of a thread's watchpoint slots and what the operations on one slot do. An operation
  on slot \<open>i\<close> changes the platform and that slot only: its result is written \<open>put_slot tid i w q s\<close>,
  so that a sequence of such operations is again one \<open>put_slot\<close>.
\<close>

section \<open>Replacing one slot\<close>

definition put_slot :: "int \<Rightarrow> nat \<Rightarrow> WP_RegisterInfo \<Rightarrow> 'a plat \<Rightarrow> 'a tool \<Rightarrow> 'a tool" where
  "put_slot tid i w q s = (case WP_ThreadData_key s tid of None \<Rightarrow> s
     | Some t \<Rightarrow> set_td tid (t\<lparr>watchPointArray := (watchPointArray t)[i := w]\<rparr>) (s\<lparr>pl := q\<rparr>))"

lemma wpi_getE:
  assumes "wpi_get tid (int i) s = Inr w"
  obtains t where "WP_ThreadData_key s tid = Some t" and "i < length (watchPointArray t)"
    and "w = watchPointArray t ! i"
  using assms by (auto simp: wpi_get_def TD_GET_def slot_at_def split: option.splits if_splits)

lemma wpi_get_key:
  "WP_ThreadData_key s tid = Some t \<Longrightarrow> i < length (watchPointArray t) \<Longrightarrow>
     wpi_get tid (int i) s = Inr (watchPointArray t ! i)"
  by (simp add: wpi_get_def TD_GET_def slot_at_def)

named_theorems slot_simps

lemma put_slot_fields [slot_simps]:
  assumes "wpi_get tid (int i) s = Inr w"
  shows "pl (put_slot tid i w' q s) = q" "wpConfig (put_slot tid i w' q s) = wpConfig s"
    "evs (put_slot tid i w' q s) = evs s" "spies (put_slot tid i w' q s) = spies s"
    "next_ev (put_slot tid i w' q s) = next_ev s"
    "oldBadAddress (put_slot tid i w' q s) = oldBadAddress s"
  by (rule wpi_getE [OF assms], simp add: put_slot_def set_td_def)+

lemma put_slot_calc [slot_simps]:
  assumes "wpi_get tid (int i) s = Inr w"
  shows "wpi_get tid (int i) (put_slot tid i w' q s) = Inr w'"
    and "put_slot tid i w'' q' (put_slot tid i w' q s) = put_slot tid i w'' q' s"
    and "(put_slot tid i w' q s)\<lparr>pl := q'\<rparr> = put_slot tid i w' q' s"
    and "wpi_upd tid (int i) f (put_slot tid i w' q s) = Inr (put_slot tid i (f w') q s)"
    and "wpi_upd tid (int i) f s = Inr (put_slot tid i (f w) (pl s) s)"
    and "wpi_upd tid (int i) f (s\<lparr>pl := q\<rparr>) = Inr (put_slot tid i (f w) q s)"
  by (rule wpi_getE [OF assms], simp add: put_slot_def set_td_def wpi_get_def wpi_upd_def TD_GET_def slot_at_def)+

lemma put_slot_same:
  assumes "wpi_get tid (int i) s = Inr w"
  shows "put_slot tid i w (pl s) s = s" and "s\<lparr>pl := q\<rparr> = put_slot tid i w q s"
  by (rule wpi_getE [OF assms], simp add: put_slot_def set_td_def fun_upd_idem)+

section \<open>The invariant\<close>

text \<open>
  A slot without a device is not active; a slot with a device has a breakpoint device of its own
  thread; an active slot has the event it was sampled for. Two slots share neither a device nor,
  when active, bytes or the event.
\<close>

definition wpi_ok :: "'a plat \<Rightarrow> (nat \<rightharpoonup> Event) \<Rightarrow> int \<Rightarrow> WP_RegisterInfo \<Rightarrow> bool" where
  "wpi_ok q es tid w \<longleftrightarrow> wp_threadId w = tid \<and>
     (if fileHandle w = -1 then \<not> isActive w else bp_dev q tid (fileHandle w)) \<and>
     (isActive w \<longrightarrow> (case sampledEvent w of None \<Rightarrow> False | Some e \<Rightarrow> es e \<noteq> None))"

definition wp_apart :: "WP_RegisterInfo \<Rightarrow> WP_RegisterInfo \<Rightarrow> bool" where
  "wp_apart w v \<longleftrightarrow> (fileHandle w \<noteq> -1 \<longrightarrow> fileHandle w \<noteq> fileHandle v) \<and>
     (isActive w \<and> isActive v \<longrightarrow> sampledEvent w \<noteq> sampledEvent v \<and>
        \<not> ADDRESSES_OVERLAP (va w) (wpLength w) (va v) (wpLength v))"

definition wp_slots_ok :: "'a plat \<Rightarrow> (nat \<rightharpoonup> Event) \<Rightarrow> int \<Rightarrow> nat \<Rightarrow> WP_RegisterInfo list \<Rightarrow> bool" where
  "wp_slots_ok q es tid n arr \<longleftrightarrow> n \<le> length arr \<and> (\<forall>i < n. wpi_ok q es tid (arr ! i)) \<and>
     (\<forall>i < n. \<forall>j < n. i \<noteq> j \<longrightarrow> wp_apart (arr ! i) (arr ! j))"

definition wp_ok :: "('a plat \<Rightarrow> bool) \<Rightarrow> int \<Rightarrow> 'a tool \<Rightarrow> bool" where
  "wp_ok dinv tid s \<longleftrightarrow> dinv (pl s) \<and> (case WP_ThreadData_key s tid of None \<Rightarrow> False
     | Some t \<Rightarrow> wp_slots_ok (pl s) (evs s) tid (nat (maxWP (wpConfig s))) (watchPointArray t))"

lemma wp_okE:
  assumes "wp_ok dinv tid s"
  obtains t where "dinv (pl s)" and "WP_ThreadData_key s tid = Some t"
    and "wp_slots_ok (pl s) (evs s) tid (nat (maxWP (wpConfig s))) (watchPointArray t)"
  using assms by (auto simp: wp_ok_def split: option.splits)

lemma wp_apart_sym: "wp_apart w v \<Longrightarrow> wp_apart v w"
  by (auto simp: wp_apart_def ADDRESSES_OVERLAP_def)

lemma wpi_ok_mono:
  "wpi_ok q es tid w \<Longrightarrow> keeps_bp tid X q q' \<Longrightarrow> fileHandle w \<notin> X \<Longrightarrow>
     (\<And>e. isActive w \<Longrightarrow> sampledEvent w = Some e \<Longrightarrow> es' e \<noteq> None) \<Longrightarrow> wpi_ok q' es' tid w"
  by (auto simp: wpi_ok_def keeps_bp_def split: option.splits if_splits)

lemma wp_slots_okD:
  assumes "wp_slots_ok q es tid n arr" and "i < n"
  shows "i < length arr" and "wpi_ok q es tid (arr ! i)" and "j < n \<Longrightarrow> j \<noteq> i \<Longrightarrow> wp_apart (arr ! i) (arr ! j)"
  using assms by (auto simp: wp_slots_ok_def)

lemma wpi_ok_event: "wpi_ok q es tid w \<Longrightarrow> isActive w \<Longrightarrow> sampledEvent w = Some e \<Longrightarrow> es e \<noteq> None"
  by (simp add: wpi_ok_def)

lemma wpi_ok_off:
  "wpi_ok q es tid w \<Longrightarrow> keeps_bp tid {} q q' \<Longrightarrow> wpi_ok q' es tid (w\<lparr>isActive := False\<rparr>)"
  by (simp add: wpi_ok_def keeps_bp_def)

lemma wp_apart_off: "wp_apart w v \<Longrightarrow> wp_apart (w\<lparr>isActive := False\<rparr>) v"
  by (simp add: wp_apart_def)

text \<open>The slot the invariant speaks of, and the one the code reads.\<close>

lemma wp_ok_slot:
  assumes "wp_ok dinv tid s" and "i < nat (maxWP (wpConfig s))" and "wpi_get tid (int i) s = Inr w"
  shows "wpi_ok (pl s) (evs s) tid w"
    and "WP_ThreadData_key s tid = Some t \<Longrightarrow> j < nat (maxWP (wpConfig s)) \<Longrightarrow> j \<noteq> i \<Longrightarrow>
      wp_apart w (watchPointArray t ! j)"
proof -
  obtain t where t: "WP_ThreadData_key s tid = Some t"
    "wp_slots_ok (pl s) (evs s) tid (nat (maxWP (wpConfig s))) (watchPointArray t)" by (rule wp_okE [OF assms(1)])
  have w: "w = watchPointArray t ! i" by (rule wpi_getE [OF assms(3)]) (use t in simp)
  show "wpi_ok (pl s) (evs s) tid w" unfolding w by (rule wp_slots_okD(2) [OF t(2) assms(2)])
  show "WP_ThreadData_key s tid = Some t \<Longrightarrow> j < nat (maxWP (wpConfig s)) \<Longrightarrow> j \<noteq> i \<Longrightarrow>
      wp_apart w (watchPointArray t ! j)" for t
    using t(1) w wp_slots_okD(3) [OF t(2) assms(2)] by simp
qed

lemma slots_upd:
  assumes ok: "wp_slots_ok q es tid n arr" and i: "i < n" and k: "keeps_bp tid X q q'"
    and X: "\<And>j. j < n \<Longrightarrow> j \<noteq> i \<Longrightarrow> fileHandle (arr ! j) \<notin> X"
    and es: "\<And>j e. j < n \<Longrightarrow> j \<noteq> i \<Longrightarrow> isActive (arr ! j) \<Longrightarrow> sampledEvent (arr ! j) = Some e \<Longrightarrow> es' e \<noteq> None"
    and w: "wpi_ok q' es' tid w" and ap: "\<And>j. j < n \<Longrightarrow> j \<noteq> i \<Longrightarrow> wp_apart w (arr ! j)"
  shows "wp_slots_ok q' es' tid n (arr[i := w])"
  unfolding wp_slots_ok_def
proof (intro conjI allI impI)
  show "n \<le> length (arr[i := w])" using ok by (simp add: wp_slots_ok_def)
  have len: "i < length arr" using ok i by (simp add: wp_slots_ok_def)
  fix j assume j: "j < n"
  show "wpi_ok q' es' tid (arr[i := w] ! j)"
  proof (cases "j = i")
    case True
    with w len show ?thesis by simp
  next
    case False
    have "wpi_ok q es tid (arr ! j)" using ok j by (simp add: wp_slots_ok_def)
    then have "wpi_ok q' es' tid (arr ! j)"
      by (rule wpi_ok_mono [OF _ k]) (use X es j False in blast)+
    with False show ?thesis by simp
  qed
  fix k assume k: "k < n" "j \<noteq> k"
  show "wp_apart (arr[i := w] ! j) (arr[i := w] ! k)"
  proof (cases "j = i \<or> k = i")
    case True
    with ap [OF j] ap [OF k(1)] k len wp_apart_sym show ?thesis by (auto simp: nth_list_update)
  next
    case False
    with ok j k show ?thesis by (simp add: wp_slots_ok_def)
  qed
qed

text \<open>The devices of the other slots are not the one of slot \<open>i\<close>.\<close>

lemma other_handle:
  "wp_slots_ok q es tid n arr \<Longrightarrow> i < n \<Longrightarrow> j < n \<Longrightarrow> j \<noteq> i \<Longrightarrow> fileHandle (arr ! i) \<noteq> -1 \<Longrightarrow>
     fileHandle (arr ! j) \<notin> {fileHandle (arr ! i)}"
  unfolding wp_slots_ok_def wp_apart_def by (metis singletonD)

lemma put_slot_ok:
  assumes ok: "wp_ok dinv tid s" and i: "i < nat (maxWP (wpConfig s))" and w: "wpi_get tid (int i) s = Inr w"
    and q: "dinv q" "keeps_bp tid X (pl s) q" "X \<subseteq> {fileHandle w}" "fileHandle w = -1 \<longrightarrow> X = {}"
    and w': "wpi_ok q (evs s) tid w'"
    and ap: "\<And>t j. WP_ThreadData_key s tid = Some t \<Longrightarrow> j < nat (maxWP (wpConfig s)) \<Longrightarrow> j \<noteq> i \<Longrightarrow>
      wp_apart w' (watchPointArray t ! j)"
  shows "wp_ok dinv tid (put_slot tid i w' q s)"
proof -
  from ok obtain t where t: "WP_ThreadData_key s tid = Some t"
    "wp_slots_ok (pl s) (evs s) tid (nat (maxWP (wpConfig s))) (watchPointArray t)" by (rule wp_okE)
  have wi: "w = watchPointArray t ! i" by (rule wpi_getE [OF w]) (use t in simp)
  have "wp_slots_ok q (evs s) tid (nat (maxWP (wpConfig s))) ((watchPointArray t)[i := w'])"
  proof (rule slots_upd [OF t(2) i q(2)])
    fix j assume j: "j < nat (maxWP (wpConfig s))" "j \<noteq> i"
    show "fileHandle (watchPointArray t ! j) \<notin> X"
      using other_handle [OF t(2) i j] q(3,4) wi by blast
    show "wp_apart w' (watchPointArray t ! j)" by (rule ap [OF t(1) j])
    fix e assume "isActive (watchPointArray t ! j)" "sampledEvent (watchPointArray t ! j) = Some e"
    then show "evs s e \<noteq> None" by (rule wpi_ok_event [OF wp_slots_okD(2) [OF t(2) j(1)]])
  qed (rule w')
  with q(1) t(1) show ?thesis by (simp add: wp_ok_def put_slot_def set_td_def)
qed

section \<open>Operations on one slot\<close>

context wp_devices
begin

text \<open>A slot of the calling thread that holds a device.\<close>

definition "owns s i w \<longleftrightarrow> dinv (pl s) \<and> wpi_get tid (int i) s = Inr w \<and> wp_threadId w = tid \<and>
  bp_dev (pl s) tid (fileHandle w)"

lemma Disable_slot:
  assumes "owns s i w"
  obtains q where "DisableWatchpoint E tid (int i) s = Inr (put_slot tid i (w\<lparr>isActive := False\<rparr>) q s)"
    and "dinv q" and "keeps_bp tid {} (pl s) q"
proof -
  from assms have h: "dinv (pl s)" "wpi_get tid (int i) s = Inr w" "wp_threadId w = tid"
    "bp_dev (pl s) tid (fileHandle w)" by (auto simp: owns_def)
  from find [OF h(1,4)] obtain p where p: "fileHandle w \<noteq> -1" "get_device tid (fileHandle w) (pl s) = Inr (Some p)"
    by blast
  from stop [OF h(1,4) p(2)] obtain q where "end_device (ops E) p (pl s) = Inr q" "dinv q" "keeps_bp tid {} (pl s) q"
    by blast
  with h p show thesis by (intro that) (simp_all add: DisableWatchpoint_def slot_simps)
qed

lemma DisArm_slot:
  assumes "owns s i w"
  obtains q where "DisArm E tid (int i) s =
      Inr (put_slot tid i (w\<lparr>wp_mmapBuffer := False, fileHandle := -1, isActive := False\<rparr>) q s)"
    and "dinv q" and "keeps_bp tid {fileHandle w} (pl s) q"
proof -
  from assms have h: "dinv (pl s)" "wpi_get tid (int i) s = Inr w" "bp_dev (pl s) tid (fileHandle w)"
    by (auto simp: owns_def)
  from drop [OF h(1,3)] obtain q where q: "drop_dev E tid (fileHandle w) (pl s) = Inr q" "dinv q"
    "keeps_bp tid {fileHandle w} (pl s) q" by blast
  have e: "DisArm E tid (int i) s = rbind (drop_dev E tid (fileHandle w) (pl s)) (\<lambda>q.
      Inr (put_slot tid i (w\<lparr>wp_mmapBuffer := False, fileHandle := -1, isActive := False\<rparr>) q s))"
    using h find [OF h(1,3)]
    by (simp add: DisArm_def drop_dev_def rbind_assoc slot_simps)
  show thesis by (rule that [of q]) (use q e in simp_all)
qed

lemma Wrapper_slot:
  assumes h: "owns s i w" and i: "i < nat (maxWP (wpConfig s))" and ok: "wp_ok dinv tid s"
  obtains q w' where "DisableWatchpointWrapper E tid (int i) s = Inr (put_slot tid i w' q s)"
    and "wp_ok dinv tid (put_slot tid i w' q s)"
    and "\<not> isActive w'" and "sampledEvent w' = sampledEvent w" and "wp_threadId w' = wp_threadId w"
    and "fileHandle w' \<in> {-1, fileHandle w}"
proof (cases "isWPModifyEnabled (wpConfig s)")
  case True
  from h obtain q where q: "DisableWatchpoint E tid (int i) s = Inr (put_slot tid i (w\<lparr>isActive := False\<rparr>) q s)"
    "dinv q" "keeps_bp tid {} (pl s) q" by (rule Disable_slot)
  have w: "wpi_get tid (int i) s = Inr w" using h by (simp add: owns_def)
  have k: "wp_ok dinv tid (put_slot tid i (w\<lparr>isActive := False\<rparr>) q s)"
    by (rule put_slot_ok [OF ok i w q(2,3)])
      (use wpi_ok_off [OF _ q(3)] wp_apart_off wp_ok_slot [OF ok i w] in auto)
  show thesis by (rule that [of "w\<lparr>isActive := False\<rparr>" q]) (use True q k in
      \<open>simp_all add: DisableWatchpointWrapper_def\<close>)
next
  case False
  let ?w = "w\<lparr>wp_mmapBuffer := False, fileHandle := -1, isActive := False\<rparr>"
  from h obtain q where q: "DisArm E tid (int i) s = Inr (put_slot tid i ?w q s)"
    "dinv q" "keeps_bp tid {fileHandle w} (pl s) q" by (rule DisArm_slot)
  have "fileHandle w \<noteq> -1" using find h by (auto simp: owns_def)
  then have k: "wp_ok dinv tid (put_slot tid i ?w q s)"
    by (intro put_slot_ok [OF ok i _ q(2,3)]) (use h in \<open>auto simp: owns_def wpi_ok_def wp_apart_def\<close>)
  show thesis by (rule that [of ?w q]) (use False q k in
      \<open>simp_all add: DisableWatchpointWrapper_def\<close>)
qed

text \<open>Creating the watchpoint of a slot: by moving its device, or with a new one.\<close>

lemma Enable_slot:
  assumes "dinv (pl s)" and "bp_dev (pl s) tid fd"
  obtains q where "EnableWatchpoint tid fd s = Inr (s\<lparr>pl := q\<rparr>)" and "dinv q" and "keeps_bp tid {} (pl s) q"
proof -
  from find [OF assms] obtain p where p: "get_device tid fd (pl s) = Inr (Some p)" by blast
  from start [OF assms p] obtain q where "start_device p (pl s) = Inr q" "dinv q" "keeps_bp tid {} (pl s) q" by blast
  with p that show thesis by (simp add: EnableWatchpoint_def)
qed

lemma keeps_bp_trans: "keeps_bp tid X q q1 \<Longrightarrow> keeps_bp tid {} q1 q2 \<Longrightarrow> keeps_bp tid X q q2"
  by (simp add: keeps_bp_def)

lemma modify_slot:
  assumes h: "owns s i w"
  obtains q b where "modify_wp E tid (int i) len bt a s = Inr (put_slot tid i (w\<lparr>isActive := False\<rparr>) q s, b)"
    and "dinv q" and "keeps_bp tid {} (pl s) q"
proof -
  let ?w = "w\<lparr>isActive := False\<rparr>" and ?fd = "fileHandle w"
  from h have w: "wpi_get tid (int i) s = Inr w" "wp_threadId w = tid" "bp_dev (pl s) tid ?fd"
    by (auto simp: owns_def)
  from h obtain q1 where 1: "DisableWatchpoint E tid (int i) s = Inr (put_slot tid i ?w q1 s)"
    "dinv q1" "keeps_bp tid {} (pl s) q1" by (rule Disable_slot)
  have b1: "bp_dev q1 tid ?fd" using 1(3) w(3) by (simp add: keeps_bp_def)
  from find [OF 1(2) b1] obtain p d where p: "?fd \<noteq> -1" "get_device tid ?fd q1 = Inr (Some p)" "getd p q1 = Inr d"
    "deviceType d = BPDEVICE" by blast
  from move [OF 1(2) b1 p(2)] obtain q2 b where 2:
    "updateBPAddress (ops E) (sysos E) (devcfg E) (fast_bp E) p len bt a q1 = Inr (q2, b)" "dinv q2"
    "keeps_bp tid {} q1 q2" by blast
  have k2: "keeps_bp tid {} (pl s) q2" by (rule keeps_bp_trans [OF 1(3) 2(3)])
  note ev = modify_wp_def w(2) 1(1) p 2(1) slot_simps [OF w(1)] w(1)
  show thesis
  proof (cases b)
    case False
    then have "modify_wp E tid (int i) len bt a s = Inr (put_slot tid i ?w q2 s, False)" by (simp add: ev)
    with that 2(2) k2 show thesis by blast
  next
    case True
    let ?s = "put_slot tid i ?w q2 s"
    have b2: "bp_dev (pl ?s) tid ?fd" "dinv (pl ?s)"
      using 2(2,3) b1 w(1) by (simp_all add: slot_simps keeps_bp_def)
    obtain q3 where 3: "EnableWatchpoint tid ?fd ?s = Inr (?s\<lparr>pl := q3\<rparr>)" "dinv q3" "keeps_bp tid {} q2 q3"
      using w(1) by (rule_tac Enable_slot [OF b2(2,1)]) (simp add: slot_simps)
    have "modify_wp E tid (int i) len bt a s = Inr (put_slot tid i ?w q3 s, True)"
      using True 3(1) by (simp add: ev)
    with that 3(2) keeps_bp_trans [OF k2 3(3)] show thesis by blast
  qed
qed

lemma fresh_slot:
  assumes "dinv (pl s)" and w: "wpi_get tid (int i) s = Inr w"
  shows "fresh_wp E tid (int i) len bt a s = Inl (ExitProcess (-1)) \<or>
    (\<exists>q. fresh_wp E tid (int i) len bt a s = Inr (put_slot tid i (w\<lparr>fileHandle := -1\<rparr>) q s, False) \<and>
       dinv q \<and> keeps_bp tid {} (pl s) q) \<or>
    (\<exists>q fd b. fresh_wp E tid (int i) len bt a s =
         Inr (put_slot tid i (w\<lparr>fileHandle := fd, wp_mmapBuffer := b\<rparr>) q s, True) \<and>
       dinv q \<and> keeps_bp tid {} (pl s) q \<and> \<not> bp_dev (pl s) tid fd \<and> bp_dev q tid fd)"
proof -
  obtain q1 p where n: "new_dev (new_BPDevice len bt a) (pl s) = (q1, p)" by fastforce
  from create [OF assms(1) n refl] show ?thesis
  proof (elim disjE exE conjE)
    fix q d assume r: "registerDevice (ops E) (sysos E) (devcfg E) tid (get_session_key tid q1) p q1 = Inr (q, 0)"
      "dinv q" "keeps_bp tid {} (pl s) q" "getd p q = Inr d" "\<not> bp_dev (pl s) tid (device.deviceFileId d)"
      "bp_dev q tid (device.deviceFileId d)"
    have "fresh_wp E tid (int i) len bt a s = Inr (put_slot tid i
        (w\<lparr>fileHandle := device.deviceFileId d, wp_mmapBuffer := mmapBuffer d\<rparr>) q s, True)"
      using n r(1,4) by (simp add: fresh_wp_def slot_simps [OF w])
    with r show ?thesis by blast
  qed (use n in \<open>auto simp: fresh_wp_def slot_simps [OF w]\<close>)
qed

lemma bp_len_same: "bp_len_of n = Some m \<Longrightarrow> m = n"
  by (simp add: bp_len_of_def split: if_splits)

text \<open>What arming slot \<open>w\<close> leaves in it: \<open>b\<close> is the answer, \<open>moved\<close> that its device was kept.\<close>

definition "arm_post s w moved a len e q w' b \<longleftrightarrow>
  dinv q \<and> keeps_bp tid ({fileHandle w} - {-1}) (pl s) q \<and> wpi_ok q (evs s) tid w' \<and>
  (\<forall>x. bp_dev (pl s) tid x \<longrightarrow> x \<noteq> fileHandle w \<longrightarrow> fileHandle w' \<noteq> x) \<and>
  (isActive w' \<longrightarrow> b \<and> va w' = a \<and> wpLength w' = len \<and> sampledEvent w' = Some e) \<and>
  (b \<longrightarrow> isActive w' \<or> moved)"

lemma keeps_weak: "keeps_bp tid {} q q' \<Longrightarrow> keeps_bp tid X q q'"
  by (simp add: keeps_bp_def)

lemma no_handle: "dinv q \<Longrightarrow> \<not> bp_dev q tid (-1)"
  using find by blast

lemma arm_moved:
  assumes h: "owns s i w" and m: "isWPModifyEnabled (wpConfig s)" and e: "evs s e \<noteq> None"
    and l: "bp_len_of len = Some bl"
  shows "\<exists>q w'. ArmWatchPoint E tid now (int i) len wt a (Some e) s = Inr (put_slot tid i w' q s, True) \<and>
    arm_post s w True a len e q w' True"
proof -
  from h have w: "wpi_get tid (int i) s = Inr w" "wp_threadId w = tid" "bp_dev (pl s) tid (fileHandle w)"
    "dinv (pl s)" by (auto simp: owns_def)
  then have fd: "fileHandle w \<noteq> -1" using no_handle by metis
  let ?w = "w\<lparr>isActive := False\<rparr>"
  obtain q b where 1: "modify_wp E tid (int i) bl (bp_type_of wt) a s = Inr (put_slot tid i ?w q s, b)"
    "dinv q" "keeps_bp tid {} (pl s) q" by (rule modify_slot [OF h])
  let ?w' = "if b then armed a len (Some e) now ?w else ?w"
  have "ArmWatchPoint E tid now (int i) len wt a (Some e) s = Inr (put_slot tid i ?w' q s, True)"
    using m fd 1(1) l by (simp add: ArmWatchPoint_def w(1) CreateWatchPoint_def slot_simps [OF w(1)])
  moreover have "arm_post s w True a len e q ?w' True"
    using w 1(2,3) e fd by (auto simp: arm_post_def wpi_ok_def armed_def keeps_bp_def)
  ultimately show ?thesis by blast
qed

lemma arm_new:
  assumes d: "dinv (pl s)" and w: "wpi_get tid (int i) s = Inr w" "wp_threadId w = tid" "\<not> isActive w"
    and e: "evs s e \<noteq> None" and l: "bp_len_of len = Some bl"
  shows "rbind (CreateWatchPoint E tid now (int i) len wt a False (Some e) s) (\<lambda>s.
      rbind (wpi_get tid (int i) s) (\<lambda>w. Inr (s, fileHandle w \<noteq> -1))) = Inl (ExitProcess (-1)) \<or>
    (\<exists>q w' b. rbind (CreateWatchPoint E tid now (int i) len wt a False (Some e) s) (\<lambda>s.
      rbind (wpi_get tid (int i) s) (\<lambda>w. Inr (s, fileHandle w \<noteq> -1))) = Inr (put_slot tid i w' q s, b) \<and>
      dinv q \<and> keeps_bp tid {} (pl s) q \<and> wpi_ok q (evs s) tid w' \<and>
      (\<forall>x. bp_dev (pl s) tid x \<longrightarrow> fileHandle w' \<noteq> x) \<and>
      (isActive w' \<longrightarrow> b \<and> va w' = a \<and> wpLength w' = len \<and> sampledEvent w' = Some e) \<and>
      (b \<longrightarrow> isActive w'))"
proof -
  note ev = CreateWatchPoint_def l slot_simps [OF w(1)]
  from fresh_slot [OF d w(1), of bl "bp_type_of wt" a] show ?thesis
  proof (elim disjE exE conjE)
    assume "fresh_wp E tid (int i) bl (bp_type_of wt) a s = Inl (ExitProcess (-1))"
    then show ?thesis by (simp add: ev)
  next
    fix q assume r: "fresh_wp E tid (int i) bl (bp_type_of wt) a s =
        Inr (put_slot tid i (w\<lparr>fileHandle := -1\<rparr>) q s, False)" "dinv q" "keeps_bp tid {} (pl s) q"
    show ?thesis
      by (intro disjI2 exI [of _ q] exI [of _ "w\<lparr>fileHandle := -1\<rparr>"] exI [of _ False])
        (use r w(2,3) no_handle [OF d] in \<open>auto simp: ev wpi_ok_def\<close>)
  next
    fix q fd b assume r: "fresh_wp E tid (int i) bl (bp_type_of wt) a s =
        Inr (put_slot tid i (w\<lparr>fileHandle := fd, wp_mmapBuffer := b\<rparr>) q s, True)"
      "dinv q" "keeps_bp tid {} (pl s) q" "\<not> bp_dev (pl s) tid fd" "bp_dev q tid fd"
    have "fd \<noteq> -1" using r(2,5) no_handle by metis
    then show ?thesis
      by (intro disjI2 exI [of _ q] exI [of _ "armed a len (Some e) now (w\<lparr>fileHandle := fd, wp_mmapBuffer := b\<rparr>)"]
          exI [of _ True]) (use r w(2) e in \<open>auto simp: ev wpi_ok_def armed_def\<close>)
  qed
qed

lemma Arm_slot:
  assumes d: "dinv (pl s)" and w: "wpi_get tid (int i) s = Inr w" and ok: "wpi_ok (pl s) (evs s) tid w"
    and e: "evs s e \<noteq> None" and l: "bp_len_of len = Some bl"
    and mv: "moved = (isWPModifyEnabled (wpConfig s) \<and> fileHandle w \<noteq> -1)"
  shows "ArmWatchPoint E tid now (int i) len wt a (Some e) s = Inl (ExitProcess (-1)) \<or>
    (\<exists>q w' b. ArmWatchPoint E tid now (int i) len wt a (Some e) s = Inr (put_slot tid i w' q s, b) \<and>
      arm_post s w moved a len e q w' b)"
proof -
  let ?rest = "\<lambda>s. rbind (CreateWatchPoint E tid now (int i) len wt a False (Some e) s) (\<lambda>s.
      rbind (wpi_get tid (int i) s) (\<lambda>w. Inr (s, fileHandle w \<noteq> -1)))"
  have t: "wp_threadId w = tid" using ok by (simp add: wpi_ok_def)
  consider (moved) moved | (busy) "\<not> moved" "isActive w" | (idle) "\<not> moved" "\<not> isActive w" by blast
  then show ?thesis
  proof cases
    case moved
    then have "owns s i w" using d w ok mv by (auto simp: owns_def wpi_ok_def)
    moreover have "isWPModifyEnabled (wpConfig s)" using moved mv by simp
    ultimately obtain q w' where "ArmWatchPoint E tid now (int i) len wt a (Some e) s = Inr (put_slot tid i w' q s, True)"
      "arm_post s w True a len e q w' True" using arm_moved [OF _ _ e l] by blast
    moreover have "moved = True" using moved by simp
    ultimately show ?thesis by blast
  next
    case idle
    then have "ArmWatchPoint E tid now (int i) len wt a (Some e) s = ?rest s"
      using mv by (auto simp: ArmWatchPoint_def w)
    then show ?thesis
      using arm_new [OF d w t idle(2) e l, of now wt a]
    proof (elim disjE exE conjE)
      fix q w' b
      assume r: "?rest s = Inr (put_slot tid i w' q s, b)" "dinv q" "keeps_bp tid {} (pl s) q" "wpi_ok q (evs s) tid w'"
        "\<forall>x. bp_dev (pl s) tid x \<longrightarrow> fileHandle w' \<noteq> x"
        "isActive w' \<longrightarrow> b \<and> va w' = a \<and> wpLength w' = len \<and> sampledEvent w' = Some e" "b \<longrightarrow> isActive w'"
        "ArmWatchPoint E tid now (int i) len wt a (Some e) s = ?rest s"
      have "arm_post s w moved a len e q w' b"
        using r keeps_weak [OF r(3)] by (simp add: arm_post_def)
      with r(1,8) show ?thesis by auto
    qed simp
  next
    case busy
    then have h: "owns s i w" using d w ok t by (auto simp: owns_def wpi_ok_def split: if_splits)
    have fd: "fileHandle w \<noteq> -1" using busy ok by (auto simp: wpi_ok_def)
    let ?w = "w\<lparr>wp_mmapBuffer := False, fileHandle := -1, isActive := False\<rparr>"
    from h obtain q1 where 1: "DisArm E tid (int i) s = Inr (put_slot tid i ?w q1 s)" "dinv q1"
      "keeps_bp tid {fileHandle w} (pl s) q1" by (rule DisArm_slot)
    let ?s = "put_slot tid i ?w q1 s"
    have A: "ArmWatchPoint E tid now (int i) len wt a (Some e) s = ?rest ?s"
      using mv busy 1(1) by (auto simp: ArmWatchPoint_def w)
    note sl = slot_simps [OF w]
    have s1: "dinv (pl ?s)" "wpi_get tid (int i) ?s = Inr ?w" "wp_threadId ?w = tid" "\<not> isActive ?w" "evs ?s e \<noteq> None"
      using 1(2) t e by (simp_all add: sl)
    from arm_new [OF s1 l, of now wt a, unfolded sl] show ?thesis
    proof (elim disjE exE conjE)
      fix q w' b
      assume r: "?rest ?s = Inr (put_slot tid i w' q s, b)" "dinv q" "keeps_bp tid {} q1 q" "wpi_ok q (evs s) tid w'"
        "\<forall>x. bp_dev q1 tid x \<longrightarrow> fileHandle w' \<noteq> x"
        "isActive w' \<longrightarrow> b \<and> va w' = a \<and> wpLength w' = len \<and> sampledEvent w' = Some e" "b \<longrightarrow> isActive w'"
      have "\<forall>x. bp_dev (pl s) tid x \<longrightarrow> x \<noteq> fileHandle w \<longrightarrow> fileHandle w' \<noteq> x"
        using r(5) 1(3) by (auto simp: keeps_bp_def)
      then have "arm_post s w moved a len e q w' b"
        using r keeps_bp_trans [OF 1(3) r(3)] fd by (simp add: arm_post_def)
      with r(1) A show ?thesis by auto
    qed (simp add: A)
  qed
qed

text \<open>The slot that is armed keeps the invariant, when nothing active overlaps the range.\<close>

lemma Arm_ok:
  assumes ok: "wp_ok dinv tid s" and i: "i < nat (maxWP (wpConfig s))" and w: "wpi_get tid (int i) s = Inr w"
    and post: "arm_post s w moved a len e q w' b"
    and free: "\<And>t j. WP_ThreadData_key s tid = Some t \<Longrightarrow> j < nat (maxWP (wpConfig s)) \<Longrightarrow> isActive (watchPointArray t ! j) \<Longrightarrow>
      sampledEvent (watchPointArray t ! j) \<noteq> Some e \<and>
      \<not> ADDRESSES_OVERLAP (va (watchPointArray t ! j)) (wpLength (watchPointArray t ! j)) a len"
  shows "wp_ok dinv tid (put_slot tid i w' q s)"
proof (rule put_slot_ok [OF ok i w])
  show "dinv q" "keeps_bp tid ({fileHandle w} - {-1}) (pl s) q" "wpi_ok q (evs s) tid w'"
    using post by (simp_all add: arm_post_def)
  show "{fileHandle w} - {-1} \<subseteq> {fileHandle w}" "fileHandle w = -1 \<longrightarrow> {fileHandle w} - {-1} = {}" by auto
  fix t j assume j: "WP_ThreadData_key s tid = Some t" "j < nat (maxWP (wpConfig s))" "j \<noteq> i"
  let ?v = "watchPointArray t ! j"
  have so: "wp_slots_ok (pl s) (evs s) tid (nat (maxWP (wpConfig s))) (watchPointArray t)"
    by (rule wp_okE [OF ok]) (use j in simp)
  have v: "wpi_ok (pl s) (evs s) tid ?v" by (rule wp_slots_okD(2) [OF so j(2)])
  have "fileHandle w' \<noteq> fileHandle ?v" if "fileHandle w' \<noteq> -1"
  proof (cases "fileHandle ?v = -1")
    case False
    have "fileHandle ?v \<noteq> fileHandle w" if "fileHandle w \<noteq> -1"
      using wp_ok_slot(2) [OF ok i w j] that by (auto simp: wp_apart_def)
    with False v post show ?thesis by (auto simp: arm_post_def wpi_ok_def)
  qed (use that in simp)
  moreover have "sampledEvent w' \<noteq> sampledEvent ?v \<and> \<not> ADDRESSES_OVERLAP (va w') (wpLength w') (va ?v) (wpLength ?v)"
    if "isActive w'" "isActive ?v"
    using that free [OF j(1,2)] post by (auto simp: arm_post_def ADDRESSES_OVERLAP_def)
  ultimately show "wp_apart w' ?v" by (simp add: wp_apart_def)
qed

end

end
