(* ===== verification/Watch_Victim.thy ===== *)
theory Watch_Victim
  imports Watch_Inv
begin

text \<open>
  The replacement policy: the shuffle is a permutation, an attempt to replace counts every slot
  once, and \<open>GetVictim\<close> picks the slot its policy names.
\<close>

section \<open>The loops\<close>

text \<open>\<open>arr'\<close> is \<open>arr\<close> with the sample counts of the slots \<open>B\<close> incremented.\<close>

definition counted_up :: "(nat \<Rightarrow> bool) \<Rightarrow> WP_RegisterInfo list \<Rightarrow> WP_RegisterInfo list \<Rightarrow> bool" where
  "counted_up B arr arr' \<longleftrightarrow> length arr' = length arr \<and>
     (\<forall>j < length arr. arr' ! j = (if B j then bump (arr ! j) else arr ! j))"

lemma counted_up_step:
  assumes "counted_up B (arr[i := x]) arr'" and "i < length arr" and "x = (if b then bump (arr ! i) else arr ! i)" "\<not> B i"
  shows "counted_up (\<lambda>j. if j = i then b else B j) arr arr'"
  using assms by (auto simp: counted_up_def nth_list_update)

lemma slot_at_nth: "i < length arr \<Longrightarrow> slot_at arr (int i) = Inr (arr ! i)"
  by (simp add: slot_at_def)

lemma bump_slots_counts:
  assumes "distinct is" and "\<forall>i \<in> set is. i < length arr"
  shows "\<exists>arr'. bump_slots P is arr = Inr arr' \<and> counted_up (\<lambda>j. j \<in> set is \<and> P (arr ! j)) arr arr'"
  using assms
proof (induction "is" arbitrary: arr)
  case Nil
  then show ?case by (simp add: bump_slots_def counted_up_def)
next
  case (Cons i "is")
  let ?a = "if P (arr ! i) then arr[i := bump (arr ! i)] else arr"
  have "\<forall>j \<in> set is. j < length ?a" using Cons.prems by simp
  from Cons.IH [OF _ this] Cons.prems obtain arr' where a: "bump_slots P is ?a = Inr arr'"
    "counted_up (\<lambda>j. j \<in> set is \<and> P (?a ! j)) ?a arr'" by auto
  have "bump_slots P (i # is) arr = bump_slots P is ?a"
    using Cons.prems by (simp add: bump_slots_def slot_at_nth)
  moreover have "counted_up (\<lambda>j. j \<in> set (i # is) \<and> P (arr ! j)) arr arr'"
    using a(2) Cons.prems by (auto simp: counted_up_def nth_list_update split: if_splits)
  ultimately show ?case using a(1) by metis
qed

lemma attempt_counts:
  assumes "distinct is" and "\<forall>i \<in> set is. i < length arr"
  shows "\<exists>rng' arr' found. attempt is rng arr = Inr (rng', arr', found) \<and>
    counted_up (\<lambda>j. j \<in> set is) arr arr' \<and> (case found of None \<Rightarrow> True | Some i \<Rightarrow> i \<in> set is)"
  using assms
proof (induction "is" arbitrary: arr rng)
  case Nil
  then show ?case by (simp add: counted_up_def)
next
  case (Cons i "is")
  let ?a = "arr[i := bump (arr ! i)]"
  obtain rng1 v where rng: "drand48 rng = (rng1, v)" by fastforce
  have i: "i < length arr" "i \<notin> set is" "\<forall>j \<in> set is. j < length ?a" "distinct is" using Cons.prems by simp_all
  have up: "counted_up (\<lambda>j. j \<in> set (i # is)) arr arr'" if "counted_up (\<lambda>j. j \<in> set is) ?a arr'" for arr'
    using counted_up_step [OF that i(1), of True] i(2) by (simp add: counted_up_def)
  show ?case
  proof (cases "v \<le> probabilityToReplace (wp_samplePostFull (arr ! i))")
    case True
    from bump_slots_counts [OF i(4,3), of "\<lambda>_. True"] obtain arr' where
      "bump_slots (\<lambda>_. True) is ?a = Inr arr'" "counted_up (\<lambda>j. j \<in> set is) ?a arr'" by auto
    with True rng i up show ?thesis by (simp add: slot_at_nth)
  next
    case False
    from Cons.IH [OF i(4,3), of rng1] obtain rng' arr' found where
      "attempt is rng1 ?a = Inr (rng', arr', found)" "counted_up (\<lambda>j. j \<in> set is) ?a arr'"
      "case found of None \<Rightarrow> True | Some i \<Rightarrow> i \<in> set is" by blast
    with False rng i up show ?thesis by (auto simp: slot_at_nth split: option.splits)
  qed
qed

lemma shuffle_permutes:
  "distinct (snd (shuffle_slots n rng)) \<and> set (snd (shuffle_slots n rng)) = {0..<n}"
proof -
  have "length (snd (fold (shuffle_step n) is p)) = n \<and> distinct (snd (fold (shuffle_step n) is p)) \<and>
      set (snd (fold (shuffle_step n) is p)) = {0..<n}"
    if "\<forall>i \<in> set is. i < n" "length (snd p) = n" "distinct (snd p)" "set (snd p) = {0..<n}" for "is" p
    using that
  proof (induction "is" arbitrary: p)
    case Nil
    then show ?case by simp
  next
    case (Cons i "is")
    obtain rng slots where p: "p = (rng, slots)" by (cases p)
    obtain rng' v where r: "lrand48 rng = (rng', v)" by fastforce
    let ?v = "v mod n"
    have "i < n" "?v < n" using Cons.prems(1) by simp_all
    then have s: "length (slots[i := slots ! ?v, ?v := slots ! i]) = n"
      "distinct (slots[i := slots ! ?v, ?v := slots ! i])" "set (slots[i := slots ! ?v, ?v := slots ! i]) = {0..<n}"
      using Cons.prems p by simp_all
    have "shuffle_step n i p = (rng', slots[i := slots ! ?v, ?v := slots ! i])"
      by (simp add: shuffle_step_def p r Let_def)
    with Cons.IH [of "shuffle_step n i p"] Cons.prems(1) s show ?case by simp
  qed
  from this [of "[0..<n]" "(rng, [0..<n])"] show ?thesis by (simp add: shuffle_slots_def)
qed

lemma first_slot_cases:
  assumes "n \<le> length arr" and "\<forall>i < n. \<exists>b. P (arr ! i) = Inr b"
  shows "(\<exists>i < n. first_slot P arr [0..<n] = Inr (Some i) \<and> P (arr ! i) = Inr True \<and> (\<forall>j < i. P (arr ! j) = Inr False)) \<or>
    first_slot P arr [0..<n] = Inr None \<and> (\<forall>j < n. P (arr ! j) = Inr False)"
proof -
  have "(\<exists>i < n. k \<le> i \<and> first_slot P arr [k..<n] = Inr (Some i) \<and> P (arr ! i) = Inr True \<and>
        (\<forall>j. k \<le> j \<longrightarrow> j < i \<longrightarrow> P (arr ! j) = Inr False)) \<or>
      first_slot P arr [k..<n] = Inr None \<and> (\<forall>j. k \<le> j \<longrightarrow> j < n \<longrightarrow> P (arr ! j) = Inr False)" if "k \<le> n" for k
    using that
  proof (induction k rule: inc_induct)
    case base
    then show ?case by simp
  next
    case (step k)
    have sp: "first_slot P arr [k..<n] = rbind (P (arr ! k)) (\<lambda>b. if b then Inr (Some k) else first_slot P arr [Suc k..<n])"
      using step.hyps assms(1) by (simp add: upt_conv_Cons slot_at_nth)
    obtain b where b: "P (arr ! k) = Inr b" using assms(2) step.hyps by blast
    show ?case
    proof (cases b)
      case True
      then have "first_slot P arr [k..<n] = Inr (Some k)" "P (arr ! k) = Inr True" by (simp_all add: sp b)
      with step.hyps(2) show ?thesis by (intro disjI1 exI [of _ k]) auto
    next
      case False
      then have e: "first_slot P arr [k..<n] = first_slot P arr [Suc k..<n]" "P (arr ! k) = Inr False"
        by (simp_all add: sp b)
      have le: "k \<le> j \<longleftrightarrow> j = k \<or> Suc k \<le> j" for j by auto
      from step.IH show ?thesis
      proof (elim disjE exE conjE)
        fix i assume "i < n" "Suc k \<le> i" "first_slot P arr [Suc k..<n] = Inr (Some i)" "P (arr ! i) = Inr True"
          "\<forall>j. Suc k \<le> j \<longrightarrow> j < i \<longrightarrow> P (arr ! j) = Inr False"
        with e show ?thesis by (intro disjI1 exI [of _ i]) (auto simp: le)
      qed (use e in \<open>auto simp: le\<close>)
    qed
  qed
  from this [of 0] show ?thesis by simp
qed

text \<open>The scan for the largest or smallest start time.\<close>

lemma extreme_slot_spec:
  assumes tr: "\<And>a b c. better a b \<Longrightarrow> better b c \<Longrightarrow> better a c" and ir: "\<And>a. \<not> better a a"
  shows "(\<forall>i < n. \<not> better (startTime (arr ! i)) t) \<and> extreme_slot better arr [0..<n] loc t = loc \<or>
    (\<exists>i < n. extreme_slot better arr [0..<n] loc t = int i \<and>
       (\<forall>j < n. \<not> better (startTime (arr ! j)) (startTime (arr ! i))))"
proof -
  let ?f = "\<lambda>i (loc, t). if better (startTime (arr ! i)) t then (int i, startTime (arr ! i)) else (loc, t)"
  have "(\<forall>i < n. \<not> better (startTime (arr ! i)) t) \<and> fold ?f [0..<n] (loc, t) = (loc, t) \<or>
    (\<exists>i < n. fold ?f [0..<n] (loc, t) = (int i, startTime (arr ! i)) \<and> better (startTime (arr ! i)) t \<and>
       (\<forall>j < n. \<not> better (startTime (arr ! j)) (startTime (arr ! i))))"
  proof (induction n)
    case 0
    then show ?case by simp
  next
    case (Suc n)
    let ?x = "startTime (arr ! n)"
    from Suc.IH show ?case
    proof (elim disjE exE conjE)
      assume h: "\<forall>i < n. \<not> better (startTime (arr ! i)) t" "fold ?f [0..<n] (loc, t) = (loc, t)"
      show ?thesis
      proof (cases "better ?x t")
        case True
        then have "fold ?f [0..<Suc n] (loc, t) = (int n, ?x)" using h(2) by simp
        moreover have "\<forall>j < Suc n. \<not> better (startTime (arr ! j)) ?x"
          using h(1) True tr ir by (metis less_Suc_eq)
        ultimately show ?thesis using True by blast
      qed (use h in \<open>auto simp: less_Suc_eq\<close>)
    next
      fix i assume h: "i < n" "fold ?f [0..<n] (loc, t) = (int i, startTime (arr ! i))" "better (startTime (arr ! i)) t"
        "\<forall>j < n. \<not> better (startTime (arr ! j)) (startTime (arr ! i))"
      show ?thesis
      proof (cases "better ?x (startTime (arr ! i))")
        case True
        then have "fold ?f [0..<Suc n] (loc, t) = (int n, ?x)" using h(2) by simp
        moreover have "\<forall>j < Suc n. \<not> better (startTime (arr ! j)) ?x"
          using h(4) True tr ir by (metis less_Suc_eq)
        ultimately show ?thesis using tr [OF True h(3)] by blast
      next
        case False
        then have "fold ?f [0..<Suc n] (loc, t) = (int i, startTime (arr ! i))" using h(2) by simp
        moreover have "\<forall>j < Suc n. \<not> better (startTime (arr ! j)) (startTime (arr ! i))"
          using h(4) False by (simp add: less_Suc_eq)
        ultimately show ?thesis using h(1,3) less_SucI by blast
      qed
    qed
  qed
  then show ?thesis unfolding extreme_slot_def by (elim disjE exE conjE) (simp, metis fst_conv)
qed

section \<open>The choice\<close>

text \<open>The answer \<open>r\<close>, the slot \<open>loc\<close> and the counts the policy allows.\<close>

definition victim_ok :: "WP_Config \<Rightarrow> WP_ThreadData \<Rightarrow> WP_ThreadData \<Rightarrow> WP_Victim \<Rightarrow> int \<Rightarrow> bool" where
  "victim_ok c t t' r loc \<longleftrightarrow>
    (let n = nat (maxWP c); arr = watchPointArray t; arr' = watchPointArray t'; st = \<lambda>i. startTime (arr ! i) in
      if \<exists>i < n. \<not> isActive (arr ! i)
      then r = WP_VICTIM_EMPTY_SLOT \<and> counted_up (\<lambda>j. j < n \<and> isActive (arr ! j)) arr arr' \<and>
        (\<exists>i < n. loc = int i \<and> \<not> isActive (arr ! i) \<and> (\<forall>j < i. isActive (arr ! j)))
      else case replacementPolicy c of
          WP_REPLACEMENT_AUTO \<Rightarrow> counted_up (\<lambda>j. j < n) arr arr' \<and>
            (r = WP_VICTIM_NONE_AVAILABLE \<or> r = WP_VICTIM_NON_EMPTY_SLOT \<and> (\<exists>i < n. loc = int i))
        | WP_REPLACEMENT_NEWEST \<Rightarrow> r = WP_VICTIM_NON_EMPTY_SLOT \<and> t' = t \<and>
            ((\<exists>i < n. 0 < st i) \<longrightarrow> (\<exists>i < n. loc = int i \<and> (\<forall>j < n. st j \<le> st i)))
        | WP_REPLACEMENT_OLDEST \<Rightarrow> r = WP_VICTIM_NON_EMPTY_SLOT \<and> t' = t \<and>
            ((\<exists>i < n. st i < 2 ^ 63 - 1) \<longrightarrow> (\<exists>i < n. loc = int i \<and> (\<forall>j < n. st i \<le> st j)))
        | WP_REPLACEMENT_EMPTY_SLOT \<Rightarrow> r = WP_VICTIM_NONE_AVAILABLE \<and> t' = t)"

lemma GetVictim_total:
  assumes "nat (maxWP c) \<le> length (watchPointArray t)"
  shows "\<exists>t' r loc. GetVictim c t loc0 = Inr (t', r, loc) \<and> victim_ok c t t' r loc"
proof -
  let ?n = "nat (maxWP c)" and ?arr = "watchPointArray t"
  have fs: "(\<exists>i < ?n. first_slot (\<lambda>w. Inr (\<not> isActive w)) ?arr [0..<?n] = Inr (Some i) \<and> \<not> isActive (?arr ! i) \<and>
      (\<forall>j < i. isActive (?arr ! j))) \<or>
    first_slot (\<lambda>w. Inr (\<not> isActive w)) ?arr [0..<?n] = Inr None \<and> (\<forall>j < ?n. isActive (?arr ! j))"
    using first_slot_cases [OF assms, of "\<lambda>w. Inr (\<not> isActive w)"] by simp
  show ?thesis
  proof (cases "\<exists>i < ?n. \<not> isActive (?arr ! i)")
    case True
    with fs obtain i where i: "i < ?n" "first_slot (\<lambda>w. Inr (\<not> isActive w)) ?arr [0..<?n] = Inr (Some i)"
      "\<not> isActive (?arr ! i)" "\<forall>j < i. isActive (?arr ! j)" by blast
    obtain arr' where a: "bump_slots isActive [0..<?n] ?arr = Inr arr'"
      "counted_up (\<lambda>j. j < ?n \<and> isActive (?arr ! j)) ?arr arr'"
      using bump_slots_counts [of "[0..<?n]" ?arr isActive] assms by auto
    have "GetVictim c t loc0 = Inr (t\<lparr>watchPointArray := arr'\<rparr>, WP_VICTIM_EMPTY_SLOT, int i)"
      using i(2) a(1) by (simp add: GetVictim_def wp_slots_def)
    then show ?thesis using i a(2) by (auto simp: Let_def victim_ok_def)
  next
    case False
    with fs have none: "first_slot (\<lambda>w. Inr (\<not> isActive w)) ?arr [0..<?n] = Inr None" by blast
    note ev = GetVictim_def wp_slots_def Let_def victim_ok_def none
    show ?thesis
    proof (cases "replacementPolicy c")
      case WP_REPLACEMENT_AUTO
      obtain rng slots where sh: "shuffle_slots ?n (randBuffer t) = (rng, slots)" by fastforce
      have p: "distinct slots" "set slots = {0..<?n}" using shuffle_permutes [of ?n "randBuffer t"] sh by simp_all
      then have "\<forall>i \<in> set slots. i < length ?arr" using assms by auto
      from attempt_counts [OF p(1) this, of rng] obtain rng' arr' found where
        a: "attempt slots rng ?arr = Inr (rng', arr', found)" "counted_up (\<lambda>j. j < ?n) ?arr arr'"
          "case found of None \<Rightarrow> True | Some i \<Rightarrow> i < ?n" using p(2) by (auto split: option.splits)
      show ?thesis
        using False a WP_REPLACEMENT_AUTO by (cases found) (auto simp: ev sh)
    next
      case WP_REPLACEMENT_EMPTY_SLOT
      with False show ?thesis by (auto simp: ev)
    next
      case WP_REPLACEMENT_OLDEST
      with False show ?thesis
        using extreme_slot_spec [of "(<)" ?n ?arr "2 ^ 63 - 1" loc0] by (auto simp: ev not_less)
    next
      case WP_REPLACEMENT_NEWEST
      with False show ?thesis
        using extreme_slot_spec [of "\<lambda>a b. b < a" ?n ?arr 0 loc0] by (auto simp: ev not_less)
    qed
  qed
qed

text \<open>C9: The slot to use is the first one that is not active, and then every active slot is counted
  once more. When all are active the policy decides: the reservoir policy counts every slot once more,
  whatever the random numbers are, and answers one of the slots or none; the policies by age answer a
  slot with the largest or smallest start time, provided one lies within the bound the scan starts
  from; the last policy never evicts.\<close>

theorem GetVictim_choice:
  assumes "nat (maxWP c) \<le> length (watchPointArray t)"
  shows "\<exists>t' r loc. GetVictim c t loc0 = Inr (t', r, loc) \<and>
    (let n = nat (maxWP c); arr = watchPointArray t; arr' = watchPointArray t'; st = \<lambda>i. startTime (arr ! i) in
      if \<exists>i < n. \<not> isActive (arr ! i)
      then r = WP_VICTIM_EMPTY_SLOT \<and> counted_up (\<lambda>j. j < n \<and> isActive (arr ! j)) arr arr' \<and>
        (\<exists>i < n. loc = int i \<and> \<not> isActive (arr ! i) \<and> (\<forall>j < i. isActive (arr ! j)))
      else case replacementPolicy c of
          WP_REPLACEMENT_AUTO \<Rightarrow> counted_up (\<lambda>j. j < n) arr arr' \<and>
            (r = WP_VICTIM_NONE_AVAILABLE \<or> r = WP_VICTIM_NON_EMPTY_SLOT \<and> (\<exists>i < n. loc = int i))
        | WP_REPLACEMENT_NEWEST \<Rightarrow> r = WP_VICTIM_NON_EMPTY_SLOT \<and> t' = t \<and>
            ((\<exists>i < n. 0 < st i) \<longrightarrow> (\<exists>i < n. loc = int i \<and> (\<forall>j < n. st j \<le> st i)))
        | WP_REPLACEMENT_OLDEST \<Rightarrow> r = WP_VICTIM_NON_EMPTY_SLOT \<and> t' = t \<and>
            ((\<exists>i < n. st i < 2 ^ 63 - 1) \<longrightarrow> (\<exists>i < n. loc = int i \<and> (\<forall>j < n. st i \<le> st j)))
        | WP_REPLACEMENT_EMPTY_SLOT \<Rightarrow> r = WP_VICTIM_NONE_AVAILABLE \<and> t' = t)"
  using GetVictim_total [OF assms, of loc0] unfolding victim_ok_def .

abbreviation two_slots :: "WP_ReplacementPolicy \<Rightarrow> WP_Config" where
  "two_slots policy \<equiv> \<lparr>isWPModifyEnabled = True, replacementPolicy = policy, maxWP = 2,
     userPerfPause = None, userPerfResume = None\<rparr>"

definition demo_slot :: "int \<Rightarrow> bool \<Rightarrow> nat \<Rightarrow> u64 \<Rightarrow> WP_RegisterInfo" where
  "demo_slot fd act e a = \<lparr>va = a, wpLength = 4, startTime = 5 + fd, fileHandle = fd, wp_threadId = 7,
     isActive = act, wp_mmapBuffer = True, sampledEvent = Some e, wp_samplePostFull = 1\<rparr>"

theorem GetVictim_choice_witness:
  "\<exists>t'. GetVictim (two_slots WP_REPLACEMENT_OLDEST)
     \<lparr>td_samplePostFull = 1, randBuffer = 0, watchPointArray = [demo_slot 4 True 0 64, demo_slot 3 True 1 128]\<rparr> (-1) =
     Inr (t', WP_VICTIM_NON_EMPTY_SLOT, 1)"
proof -
  have s: "(\<exists>i < Suc (Suc 0). P i) \<longleftrightarrow> P 0 \<or> P 1" "(\<forall>i < Suc (Suc 0). P i) \<longleftrightarrow> P 0 \<and> P 1" for P :: "nat \<Rightarrow> bool"
    by (auto simp: less_Suc_eq)
  show ?thesis
    using GetVictim_choice [of "two_slots WP_REPLACEMENT_OLDEST"
        "\<lparr>td_samplePostFull = 1, randBuffer = 0, watchPointArray = [demo_slot 4 True 0 64, demo_slot 3 True 1 128]\<rparr>" "-1"]
    by (auto simp: demo_slot_def Let_def s numeral_2_eq_2)
qed

end
