(* ===== verification/Watch_Props.thy ===== *)
theory Watch_Props
  imports Watch_Victim
begin

text \<open>
  Properties of the watchpoint library: subscribing keeps the slots of a thread apart, and a hit is
  handled with the slots intact.
\<close>

section \<open>Subscribing\<close>

text \<open>What a slot watches: its device and, when active, address, length and sampled event.\<close>

definition watch :: "WP_RegisterInfo \<Rightarrow> int \<times> (u64 \<times> int \<times> nat option) option" where
  "watch w = (fileHandle w, if isActive w then Some (va w, wpLength w, sampledEvent w) else None)"

definition watch_at :: "int \<Rightarrow> 'a tool \<Rightarrow> nat \<Rightarrow> int \<times> (u64 \<times> int \<times> nat option) option" where
  "watch_at tid s j = (case WP_ThreadData_key s tid of None \<Rightarrow> (-1, None)
     | Some t \<Rightarrow> watch (watchPointArray t ! j))"

lemma watch_at_key: "WP_ThreadData_key s tid = Some t \<Longrightarrow> watch_at tid s j = watch (watchPointArray t ! j)"
  by (simp add: watch_at_def)

lemma watch_at_put [slot_simps]:
  assumes "wpi_get tid (int i) s = Inr w"
  shows "watch_at tid (put_slot tid i w' q s) j = (if j = i then watch w' else watch_at tid s j)"
  by (rule wpi_getE [OF assms]) (simp add: watch_at_def put_slot_def set_td_def nth_list_update)

lemma watch_at_set_td: "watch_at tid (set_td tid t s) j = watch (watchPointArray t ! j)"
  by (simp add: watch_at_def set_td_def)

lemma bump_fields [simp]:
  "isActive (bump w) = isActive w" "fileHandle (bump w) = fileHandle w" "sampledEvent (bump w) = sampledEvent w"
  "va (bump w) = va w" "wpLength (bump w) = wpLength w" "wp_threadId (bump w) = wp_threadId w"
  "watch (bump w) = watch w" "wpi_ok q es tid (bump w) = wpi_ok q es tid w"
  by (simp_all add: bump_def watch_def wpi_ok_def)

lemma wp_apart_bump [simp]: "wp_apart (bump w) v = wp_apart w v" "wp_apart w (bump v) = wp_apart w v"
  by (simp_all add: wp_apart_def)

lemma counted_up_ok:
  assumes "wp_slots_ok q es tid n arr" and "counted_up B arr arr'"
  shows "wp_slots_ok q es tid n arr'" and "j < n \<Longrightarrow> watch (arr' ! j) = watch (arr ! j)"
  using assms by (auto simp: wp_slots_ok_def counted_up_def)

lemma IsOveralpped_scan:
  assumes "nat (maxWP c) \<le> length (watchPointArray t)"
  shows "\<exists>b. IsOveralpped a len c (Some t) = Inr b \<and> (\<not> b \<longrightarrow> (\<forall>j < nat (maxWP c).
    isActive (watchPointArray t ! j) \<longrightarrow>
      \<not> ADDRESSES_OVERLAP (va (watchPointArray t ! j)) (wpLength (watchPointArray t ! j)) a len))"
  using first_slot_cases [OF assms, of "\<lambda>w. Inr (isActive w \<and> ADDRESSES_OVERLAP (va w) (wpLength w) a len)"]
  by (auto simp: IsOveralpped_def wp_slots_def)

text \<open>The reservoir policy, or a free slot: a slot that exists is answered, or none.\<close>

lemma GetVictim_slot:
  assumes len: "nat (maxWP c) \<le> length (watchPointArray t)" and pol: "replacementPolicy c = WP_REPLACEMENT_AUTO"
  obtains t' r loc B where "GetVictim c t loc0 = Inr (t', r, loc)"
    and "counted_up B (watchPointArray t) (watchPointArray t')"
    and "r = WP_VICTIM_NONE_AVAILABLE \<or> (\<exists>i < nat (maxWP c). loc = int i)"
    and "(\<exists>i < nat (maxWP c). \<not> isActive (watchPointArray t ! i)) \<Longrightarrow>
      r = WP_VICTIM_EMPTY_SLOT \<and> (\<exists>i < nat (maxWP c). loc = int i \<and> \<not> isActive (watchPointArray t ! i))"
proof -
  let ?n = "nat (maxWP c)" and ?arr = "watchPointArray t"
  from GetVictim_total [OF len, of loc0] obtain t' r loc where
    g: "GetVictim c t loc0 = Inr (t', r, loc)" "victim_ok c t t' r loc" by blast
  show thesis
  proof (cases "\<exists>i < ?n. \<not> isActive (?arr ! i)")
    case True
    with g(2) have "r = WP_VICTIM_EMPTY_SLOT" "counted_up (\<lambda>j. j < ?n \<and> isActive (?arr ! j)) ?arr (watchPointArray t')"
      "\<exists>i < ?n. loc = int i \<and> \<not> isActive (?arr ! i)" by (auto simp: victim_ok_def Let_def)
    then show thesis using that [OF g(1)] by blast
  next
    case False
    with g(2) pol have "counted_up (\<lambda>j. j < ?n) ?arr (watchPointArray t')"
      "r = WP_VICTIM_NONE_AVAILABLE \<or> (\<exists>i < ?n. loc = int i)" by (auto simp: victim_ok_def Let_def)
    then show thesis using that [OF g(1)] False by blast
  qed
qed

text \<open>
  The outcome of a subscription: an exit because a system call fails, a refusal that leaves every
  slot watching what it watched, or one slot taken. The taken slot watches the new range, or is left
  inactive; in the latter case the answer is still 0 when the slot's device was to be moved.
\<close>

definition subscribed ::
  "('a plat \<Rightarrow> bool) \<Rightarrow> int \<Rightarrow> u64 \<Rightarrow> int \<Rightarrow> nat \<Rightarrow> 'a tool \<Rightarrow> 'a tool \<Rightarrow> int \<Rightarrow> bool" where
  "subscribed dinv tid a len e s s' r \<longleftrightarrow>
     (let n = nat (maxWP (wpConfig s)); old = watch_at tid s; new = watch_at tid s' in
       wp_ok dinv tid s' \<and> evs s' = evs s \<and> wpConfig s' = wpConfig s \<and> spies s' = spies s \<and>
       next_ev s' = next_ev s \<and> (r = 0 \<or> r = -1) \<and>
       ((\<forall>j < n. new j = old j) \<and> r = -1 \<or>
        (\<exists>i < n. (\<forall>j < n. j \<noteq> i \<longrightarrow> new j = old j) \<and>
           (snd (new i) = Some (a, len, Some e) \<and> r = 0 \<or>
            snd (new i) = None \<and> (r = 0 \<longrightarrow> isWPModifyEnabled (wpConfig s) \<and> fst (old i) \<noteq> -1)))))"

lemma bp_len_valid: "ValidateWPData a len \<Longrightarrow> bp_len_of len \<noteq> None"
  by (auto simp: ValidateWPData_def bp_len_of_def split: if_splits)

lemma set_td_fields [simp]:
  "pl (set_td tid t s) = pl s" "wpConfig (set_td tid t s) = wpConfig s" "evs (set_td tid t s) = evs s"
  "spies (set_td tid t s) = spies s" "next_ev (set_td tid t s) = next_ev s" "WP_ThreadData_key (set_td tid t s) tid = Some t"
  by (simp_all add: set_td_def)

context wp_devices
begin

lemma Arm_watch:
  assumes ok: "wp_ok dinv tid s" and i: "i < nat (maxWP (wpConfig s))" and e: "evs s e \<noteq> None"
    and l: "bp_len_of len = Some bl" and r: "ArmWatchPoint E tid now (int i) len wt a (Some e) s = r"
    and free: "\<And>t j. WP_ThreadData_key s tid = Some t \<Longrightarrow> j < nat (maxWP (wpConfig s)) \<Longrightarrow> isActive (watchPointArray t ! j) \<Longrightarrow>
      sampledEvent (watchPointArray t ! j) \<noteq> Some e \<and>
      \<not> ADDRESSES_OVERLAP (va (watchPointArray t ! j)) (wpLength (watchPointArray t ! j)) a len"
  shows "r = Inl (ExitProcess (-1)) \<or> (\<exists>s' b. r = Inr (s', b) \<and> wp_ok dinv tid s' \<and> evs s' = evs s \<and>
    wpConfig s' = wpConfig s \<and> spies s' = spies s \<and> next_ev s' = next_ev s \<and>
    (\<forall>j. j \<noteq> i \<longrightarrow> watch_at tid s' j = watch_at tid s j) \<and>
    (snd (watch_at tid s' i) = Some (a, len, Some e) \<and> b \<or>
     snd (watch_at tid s' i) = None \<and> (b \<longrightarrow> isWPModifyEnabled (wpConfig s) \<and> fst (watch_at tid s i) \<noteq> -1)))"
proof -
  obtain t where t: "WP_ThreadData_key s tid = Some t"
    "wp_slots_ok (pl s) (evs s) tid (nat (maxWP (wpConfig s))) (watchPointArray t)" and d: "dinv (pl s)"
    by (rule wp_okE [OF ok])
  have w: "wpi_get tid (int i) s = Inr (watchPointArray t ! i)"
    by (rule wpi_get_key [OF t(1)]) (use wp_slots_okD(1) [OF t(2) i] in simp)
  let ?w = "watchPointArray t ! i"
  from Arm_slot [OF d w wp_ok_slot(1) [OF ok i w] e l refl, of now wt a]
  show ?thesis
  proof (elim disjE exE conjE)
    fix q w' b assume a: "ArmWatchPoint E tid now (int i) len wt a (Some e) s = Inr (put_slot tid i w' q s, b)"
      and post: "arm_post s ?w (isWPModifyEnabled (wpConfig s) \<and> fileHandle ?w \<noteq> -1) a len e q w' b"
    have "wp_ok dinv tid (put_slot tid i w' q s)" by (rule Arm_ok [OF ok i w post free])
    moreover have "snd (watch w') = Some (a, len, Some e) \<and> b \<or>
        snd (watch w') = None \<and> (b \<longrightarrow> isWPModifyEnabled (wpConfig s) \<and> fileHandle ?w \<noteq> -1)"
      using post by (auto simp: arm_post_def watch_def)
    moreover have "fst (watch_at tid s i) = fileHandle ?w" by (simp add: watch_at_key [OF t(1)] watch_def)
    ultimately show ?thesis using a r by (auto simp: slot_simps [OF w])
  qed (use r in simp)
qed

lemma Subscribe_cases:
  assumes ok: "wp_ok dinv tid s" and pol: "replacementPolicy (wpConfig s) = WP_REPLACEMENT_AUTO"
    and e: "evs s e \<noteq> None" and new: "\<forall>j < nat (maxWP (wpConfig s)). \<forall>v l. snd (watch_at tid s j) \<noteq> Some (v, l, Some e)"
    and l: "wt = WP_INST \<longrightarrow> bp_len_of len \<noteq> None"
  shows "WP_Subscribe E tid now a len wt (Some e) s = Inl (ExitProcess (-1)) \<or>
    (\<exists>s' r. WP_Subscribe E tid now a len wt (Some e) s = Inr (s', r) \<and> subscribed dinv tid a len e s s' r)"
proof -
  let ?S = "WP_Subscribe E tid now a len wt (Some e) s" and ?n = "nat (maxWP (wpConfig s))"
  obtain t where t: "WP_ThreadData_key s tid = Some t" "wp_slots_ok (pl s) (evs s) tid ?n (watchPointArray t)"
    and d: "dinv (pl s)" by (rule wp_okE [OF ok])
  have len: "?n \<le> length (watchPointArray t)" using t(2) by (simp add: wp_slots_ok_def)
  have refuse: "subscribed dinv tid a len e s s (-1)" using ok by (simp add: subscribed_def Let_def)
  show ?thesis
  proof (cases "wt \<noteq> WP_INST \<and> \<not> ValidateWPData a len")
    case True
    with refuse show ?thesis by (auto simp: WP_Subscribe_def)
  next
    case valid: False
    then obtain bl where bl: "bp_len_of len = Some bl" using l bp_len_valid by blast
    from IsOveralpped_scan [OF len, of a len] obtain over where
      over: "IsOveralpped a len (wpConfig s) (Some t) = Inr over"
      "\<not> over \<longrightarrow> (\<forall>j < ?n. isActive (watchPointArray t ! j) \<longrightarrow>
        \<not> ADDRESSES_OVERLAP (va (watchPointArray t ! j)) (wpLength (watchPointArray t ! j)) a len)" by blast
    show ?thesis
    proof (cases over)
      case True
      with refuse over(1) valid t(1) show ?thesis by (auto simp: WP_Subscribe_def)
    next
      case False
      obtain t' r loc B where g: "GetVictim (wpConfig s) t (-1) = Inr (t', r, loc)"
        "counted_up B (watchPointArray t) (watchPointArray t')"
        "r = WP_VICTIM_NONE_AVAILABLE \<or> (\<exists>i < ?n. loc = int i)" by (rule GetVictim_slot [OF len pol])
      let ?s = "set_td tid t' s"
      note c = counted_up_ok [OF t(2) g(2)]
      have ok1: "wp_ok dinv tid ?s" using c(1) d by (simp add: wp_ok_def)
      have same: "watch_at tid ?s j = watch_at tid s j" if "j < ?n" for j
        using c(2) [OF that] by (simp add: watch_at_set_td watch_at_key [OF t(1)])
      have S: "?S = (if r = WP_VICTIM_NONE_AVAILABLE then Inr (?s, -1)
          else rbind (ArmWatchPoint E tid now loc len wt a (Some e) ?s) (\<lambda>(s, ok). Inr (s, if ok then 0 else -1)))"
        using valid over(1) False t(1) g(1) by (auto simp: WP_Subscribe_def)
      show ?thesis
      proof (cases "r = WP_VICTIM_NONE_AVAILABLE")
        case True
        with S have "?S = Inr (?s, -1)" by simp
        moreover have "subscribed dinv tid a len e s ?s (-1)"
          using ok1 same by (simp add: subscribed_def Let_def)
        ultimately show ?thesis by blast
      next
        case False
        with g(3) obtain i where i: "i < ?n" "loc = int i" by blast
        have free: "sampledEvent (watchPointArray t' ! j) \<noteq> Some e \<and>
            \<not> ADDRESSES_OVERLAP (va (watchPointArray t' ! j)) (wpLength (watchPointArray t' ! j)) a len"
          if "j < ?n" "isActive (watchPointArray t' ! j)" for j
          using c(2) [OF that(1)] that over(2) \<open>\<not> over\<close> new
          by (auto simp: watch_at_key [OF t(1)] watch_def split: if_splits)
        have "r = Inl (ExitProcess (-1)) \<or> (\<exists>s' b. r = Inr (s', b) \<and> wp_ok dinv tid s' \<and> evs s' = evs ?s \<and>
            wpConfig s' = wpConfig ?s \<and> spies s' = spies ?s \<and> next_ev s' = next_ev ?s \<and> (\<forall>j. j \<noteq> i \<longrightarrow> watch_at tid s' j = watch_at tid ?s j) \<and>
            (snd (watch_at tid s' i) = Some (a, len, Some e) \<and> b \<or> snd (watch_at tid s' i) = None \<and>
              (b \<longrightarrow> isWPModifyEnabled (wpConfig ?s) \<and> fst (watch_at tid ?s i) \<noteq> -1)))"
          if "ArmWatchPoint E tid now (int i) len wt a (Some e) ?s = r" for r
          by (rule Arm_watch [OF ok1 _ _ bl that]) (use i e free in auto)
        from this [OF refl] show ?thesis
        proof (elim disjE exE conjE)
          assume "ArmWatchPoint E tid now (int i) len wt a (Some e) ?s = Inl (ExitProcess (-1))"
          with S False i show ?thesis by simp
        qed (use S False i same in \<open>auto simp: subscribed_def Let_def\<close>)
      qed
    qed
  qed
qed

end

section \<open>A concrete state\<close>

text \<open>Thread 7 with breakpoint device 5, on which slot 0 watches 8 bytes for event 0, and a free slot.\<close>

definition demo_bp_plat :: "kvm_agent plat" where
  "demo_bp_plat = (plat_init (kvm_init\<lparr>hyPerfDev := Some demo_hv, deviceVCPUMap := [5 \<mapsto> -1]\<rparr>))\<lparr>
     deviceMap := [((7, 5), 0)], deviceSessionMultiMap := [(3, 5)], next_dev := 1, open_fds := {5},
     devs := [0 \<mapsto> (new_BPDevice 8 3 4096)\<lparr>deviceFileId := 5, dev_sessionId := 3, mmapBuffer := True\<rparr>]\<rparr>"

definition demo_env :: "bool \<Rightarrow> kvm_agent env" where
  "demo_env readable = \<lparr>ops = kvm_ops, sysos = demo_os 100, devcfg = demo_cfg, fast_bp = False, spycfg = demo_spy_cfg,
     logicType = DEADSPY, AVOID_PUSH = True, AVOID_CALLQ = True, AVOID_LOCK = False,
     get_previous_instruction = (\<lambda>ip _ _ _. Inr (ip - 4)),
     mem_access = (\<lambda>_ _ _ _ _. Inr (\<lparr>out_len = 8, out_type = STORE, out_float = ELEM_TYPE_UNKNOWN, out_addr = 4096\<rparr>, True)),
     value_at = (\<lambda>_ n _. if readable then (0, replicate (nat n) 1) else (-1, [])),
     fresh_mem = (\<lambda>n. replicate (nat n) 0)\<rparr>"

definition demo_td :: WP_ThreadData where
  "demo_td = \<lparr>td_samplePostFull = 1, randBuffer = 0,
     watchPointArray = [demo_slot 5 True 0 4096, demo_slot (-1) False 0 0]\<rparr>"

definition demo_tool :: "u64 \<Rightarrow> kvm_agent tool" where
  "demo_tool ip = \<lparr>pl = demo_bp_plat, wpConfig = two_slots WP_REPLACEMENT_AUTO,
     WPInitFlag = True, WP_ThreadData_key = [7 \<mapsto> demo_td], oldBadAddress = 0,
     evs = [0 \<mapsto> demo_event STORE 7, 3 \<mapsto> (demo_event LOAD 9)\<lparr>isFixed := True, h_ip_addr := ip\<rparr>],
     next_ev = 4, spies = \<lparr>sp_dead = demo_dead, sp_red = demo_red, sp_load = demo_red, sp_dup = demo_red,
     sp_false = demo_dead\<rparr>\<rparr>"

lemma demo_env_fields [simp]:
  "ops (demo_env b) = kvm_ops" "sysos (demo_env b) = demo_os 100" "logicType (demo_env b) = DEADSPY"
  "spycfg (demo_env b) = demo_spy_cfg"
  by (simp_all add: demo_env_def)

lemma demo_tool_fields [simp]:
  "pl (demo_tool ip) = demo_bp_plat" "WP_ThreadData_key (demo_tool ip) 7 = Some demo_td"
  "wpConfig (demo_tool ip) = two_slots WP_REPLACEMENT_AUTO"
  "evs (demo_tool ip) 0 = Some (demo_event STORE 7)" "sp_dead (spies (demo_tool ip)) = demo_dead"
  "evs (demo_tool ip) 3 = Some ((demo_event LOAD 9)\<lparr>isFixed := True, h_ip_addr := ip\<rparr>)"
  "watchPointArray demo_td = [demo_slot 5 True 0 4096, demo_slot (-1) False 0 0]"
  by (simp_all add: demo_tool_def demo_td_def)

lemma demo_dev_inv: "kvm_agent.dev_inv (demo_env b) demo_bp_plat"
proof -
  have "kvm_plat_ok demo_bp_plat"
    by (auto simp: plat_ok_def dev_ok_def demo_bp_plat_def plat_init_def
        new_BPDevice_def kvm_inv_def kvm_ok_def kvm_init_def demo_hv_def kvm_reg_def unheld_def)
  moreover have "fresh_os (demo_os 100)" by (simp add: fresh_os_def demo_os_def)
  ultimately show ?thesis
    using demo_closable
    by (simp add: kvm_agent.dev_inv_def kvm_agent.reg_ok_def allocated_def demo_bp_plat_def plat_init_def)
qed

lemma less_2: "(\<forall>i < 2. P i) \<longleftrightarrow> P 0 \<and> P (Suc 0)" for P :: "nat \<Rightarrow> bool"
  by (auto simp: numeral_2_eq_2 less_Suc_eq)

lemma demo_wp_ok: "wp_ok (kvm_agent.dev_inv (demo_env b)) 7 (demo_tool ip)"
  using demo_dev_inv
  by (auto simp: wp_ok_def wp_slots_ok_def less_2 wpi_ok_def wp_apart_def demo_slot_def bp_dev_def demo_bp_plat_def
      new_BPDevice_def)

section \<open>Subscribing keeps the slots in order\<close>

text \<open>C4: A subscription on a thread whose slots are in order, with the policy \<open>WP_Init\<close> sets and a
  sampled event no other slot holds, keeps them in order whatever the operating system answers: no
  two active slots overlap, none shares a device or an event, every active slot has a registered
  breakpoint device. At most one slot changes. It watches the requested range when the answer is 0,
  except that a device that could not be moved also answers 0 and leaves the slot inactive.\<close>

theorem WP_Subscribe_keeps_slots:
  assumes "wp_ok (kvm_agent.dev_inv E) tid s" and "replacementPolicy (wpConfig s) = WP_REPLACEMENT_AUTO"
    and "evs s e \<noteq> None" and "\<forall>j < nat (maxWP (wpConfig s)). \<forall>v l. snd (watch_at tid s j) \<noteq> Some (v, l, Some e)"
    and "wt = WP_INST \<longrightarrow> bp_len_of len \<noteq> None"
  shows "WP_Subscribe E tid now a len wt (Some e) s = Inl (ExitProcess (-1)) \<or>
    (\<exists>s' r. WP_Subscribe E tid now a len wt (Some e) s = Inr (s', r) \<and>
       subscribed (kvm_agent.dev_inv E) tid a len e s s' r)"
  by (rule kvm_wp.Subscribe_cases [OF assms])

theorem WP_Subscribe_keeps_slots_witness:
  "WP_Subscribe (demo_env True) 7 9 8192 8 WP_RW (Some 3) (demo_tool 64) = Inl (ExitProcess (-1)) \<or>
    (\<exists>s' r. WP_Subscribe (demo_env True) 7 9 8192 8 WP_RW (Some 3) (demo_tool 64) = Inr (s', r) \<and>
       subscribed (kvm_agent.dev_inv (demo_env True)) 7 8192 8 3 (demo_tool 64) s' r)"
  by (rule WP_Subscribe_keeps_slots [OF demo_wp_ok])
    (simp_all add: less_2 watch_at_key watch_def demo_slot_def)

section \<open>A hit\<close>

lemma wp_ok_evs:
  assumes "wp_ok dinv tid s" and "\<forall>j < nat (maxWP (wpConfig s)). \<forall>v l x. snd (watch_at tid s j) = Some (v, l, Some x) \<longrightarrow> es x \<noteq> None"
  shows "wp_ok dinv tid (s\<lparr>evs := es\<rparr>)"
proof -
  obtain t where t: "dinv (pl s)" "WP_ThreadData_key s tid = Some t"
    "wp_slots_ok (pl s) (evs s) tid (nat (maxWP (wpConfig s))) (watchPointArray t)" by (rule wp_okE [OF assms(1)])
  have "wpi_ok (pl s) es tid (watchPointArray t ! j)" if j: "j < nat (maxWP (wpConfig s))" for j
    using wp_slots_okD(2) [OF t(3) j] assms(2) j
    by (auto simp: wpi_ok_def watch_at_key [OF t(2)] watch_def split: option.splits if_splits)
  with t show ?thesis by (simp add: wp_ok_def wp_slots_ok_def)
qed

lemma reset_fields [simp]:
  "watch (w\<lparr>wp_samplePostFull := c\<rparr>) = watch w" "wpi_ok q es tid (w\<lparr>wp_samplePostFull := c\<rparr>) = wpi_ok q es tid w"
  "wp_apart (w\<lparr>wp_samplePostFull := c\<rparr>) v = wp_apart w v"
  by (simp_all add: watch_def wpi_ok_def wp_apart_def)

lemma keeps_bp_refl: "keeps_bp tid {} q q"
  by (simp add: keeps_bp_def)

text \<open>The slot a trigger with descriptor \<open>fd\<close> belongs to is the active one with that device.\<close>

lemma matching_slot:
  assumes ok: "wp_slots_ok q es tid n arr" and i: "i < n" "isActive (arr ! i)" "fileHandle (arr ! i) = fd"
    and m: "sampled (arr ! i) s = Inr sam"
      "if logic = DUPSPY then ip_addr sam = ip_addr ev else data_addr sam = data_addr ev"
  shows "first_slot (matches logic fd ev s) arr [0..<n] = Inr (Some i)"
proof -
  have fd: "fileHandle (arr ! i) \<noteq> -1" using wp_slots_okD(2) [OF ok i(1)] i(2) by (auto simp: wpi_ok_def)
  have other: "matches logic fd ev s (arr ! j) = Inr False" if "j < n" "j \<noteq> i" for j
    using other_handle [OF ok i(1) that fd] i(3) by (auto simp: matches_def)
  have self: "matches logic fd ev s (arr ! i) = Inr True" using i m by (simp add: matches_def)
  have len: "n \<le> length arr" using ok by (simp add: wp_slots_ok_def)
  have "\<forall>j < n. \<exists>b. matches logic fd ev s (arr ! j) = Inr b" using other self by metis
  from first_slot_cases [OF len this] show ?thesis
  proof (elim disjE exE conjE)
    fix k assume "k < n" "first_slot (matches logic fd ev s) arr [0..<n] = Inr (Some k)"
      "matches logic fd ev s (arr ! k) = Inr True"
    with other [of k] show ?thesis by (cases "k = i") auto
  qed (use self i(1) in auto)
qed

text \<open>The detector is asked at most once, and answers to disable or to retain.\<close>

lemma callback_cases:
  assumes ev: "evs s e = Some ev" and fix_ip: "(if isFixed ev then Inr (s, True) else fixIP E tid e s) = Inr (s1, b)"
    and w: "wpi_get tid (int i) s = Inr w" "sampledEvent w = Some se" "evs s se = Some sam" "se \<noteq> e"
    and safe: "\<And>ev1. b \<Longrightarrow> evs s1 e = Some ev1 \<Longrightarrow> safe_hit ev1 sam \<lparr>wpt_va = va w, wpt_watchLen = wpLength w\<rparr>"
    and wl: "wl_ok (spy_wl (logicType E) (spies s))" "\<not> contextTree_mtx (spy_wl (logicType E) (spies s))"
  obtains s' act ev' sp where "wp_callback E tid (int i) e s = Inr (s', act)" and "act \<in> {WP_DISABLE, WP_RETAIN}"
    and "s' = s\<lparr>evs := (evs s)(e \<mapsto> ev'), spies := sp\<rparr>"
    and "wl_ok (spy_wl (logicType E) sp)" and "\<not> contextTree_mtx (spy_wl (logicType E) sp)"
    and "h_ip_addr ev = 0 \<or> \<not> b \<longrightarrow> act = WP_DISABLE"
proof -
  have same: "s = s\<lparr>evs := (evs s)(e \<mapsto> ev), spies := spies s\<rparr>" using ev by (simp add: fun_upd_idem)
  obtain ev1 where s1: "s1 = s\<lparr>evs := (evs s)(e \<mapsto> ev1)\<rparr>"
  proof (cases "isFixed ev")
    case True
    with fix_ip have "s1 = s" by simp
    with that [of ev] ev show thesis by (simp add: fun_upd_idem)
  next
    case False
    with fix_ip have "fixIP E tid e s = Inr (s1, b)" by simp
    from fixIP_frame [OF this] that show thesis by blast
  qed
  have get: "get_ev e s = Inr ev" using ev by (simp add: get_ev_def)
  show thesis
  proof (cases "h_ip_addr ev = 0 \<or> \<not> b")
    case True
    then have "wp_callback E tid (int i) e s = Inr (if h_ip_addr ev = 0 then s else s1, WP_DISABLE)"
      using fix_ip by (auto simp: wp_callback_def get)
    moreover have "s1 = s\<lparr>evs := (evs s)(e \<mapsto> ev1), spies := spies s\<rparr>" using s1 by simp
    ultimately show thesis using wl same that [of "if h_ip_addr ev = 0 then s else s1" WP_DISABLE "spies s" "if h_ip_addr ev = 0 then ev else ev1"]
      by (cases "h_ip_addr ev = 0") auto
  next
    case False
    then have b: "b" "h_ip_addr ev \<noteq> 0" by simp_all
    let ?wpt = "\<lparr>wpt_va = va w, wpt_watchLen = wpLength w\<rparr>"
    have "safe_hit ev1 sam ?wpt" by (rule safe [OF b(1)]) (simp add: s1)
    with wl obtain sp act where sp: "spy_OnWP (logicType E) (spycfg E) ev1 sam ?wpt (spies s) = Inr (sp, act)"
      "after_hit sam (spy_wl (logicType E) (spies s)) (spy_wl (logicType E) sp) act"
      by (rule spy.one_hit)
    have g1: "wpi_get tid (int i) s1 = Inr w" "get_ev e s1 = Inr ev1" "sampled w s1 = Inr sam" "spies s1 = spies s"
      using w by (simp_all add: s1 wpi_get_def TD_GET_def get_ev_def sampled_def)
    have "wp_callback E tid (int i) e s = Inr (s1\<lparr>spies := sp\<rparr>, act)"
      using fix_ip b sp(1) by (simp add: wp_callback_def get g1)
    then show thesis using sp(2) b by (intro that) (auto simp: s1 after_hit_def)
  qed
qed

text \<open>
  How a hit in slot \<open>i\<close> ends: no other slot changes, and either slot \<open>i\<close> stays and both events live,
  or it is off and both events are freed, its pointer still set.
\<close>

definition handled :: "('a plat \<Rightarrow> bool) \<Rightarrow> int \<Rightarrow> nat \<Rightarrow> nat \<Rightarrow> nat \<Rightarrow> 'a tool \<Rightarrow> 'a tool \<Rightarrow> bool" where
  "handled dinv tid i e se s s' \<longleftrightarrow> wp_ok dinv tid s' \<and> wpConfig s' = wpConfig s \<and>
     (\<forall>j. j \<noteq> i \<longrightarrow> watch_at tid s' j = watch_at tid s j) \<and>
     (watch_at tid s' i = watch_at tid s i \<and> dom (evs s') = dom (evs s) \<or>
      snd (watch_at tid s' i) = None \<and> dom (evs s') = dom (evs s) - {e, se} \<and>
      (\<exists>w. wpi_get tid (int i) s' = Inr w \<and> sampledEvent w = Some se))"

context wp_devices
begin

lemma action_disable:
  assumes ok: "wp_ok dinv tid s" and i: "i < nat (maxWP (wpConfig s))" and w: "wpi_get tid (int i) s = Inr w" "isActive w"
  obtains s' w' where "wp_action E tid (int i) WP_DISABLE s = Inr (s', True)" and "wp_ok dinv tid s'"
    and "evs s' = evs s" and "spies s' = spies s" and "wpConfig s' = wpConfig s" and "next_ev s' = next_ev s"
    and "\<forall>j. j \<noteq> i \<longrightarrow> watch_at tid s' j = watch_at tid s j"
    and "wpi_get tid (int i) s' = Inr w'" and "\<not> isActive w'" and "sampledEvent w' = sampledEvent w"
proof -
  have "owns s i w"
    using wp_ok_slot(1) [OF ok i w(1)] w ok by (auto simp: owns_def wpi_ok_def wp_ok_def split: if_splits)
  then obtain q w' where 1: "DisableWatchpointWrapper E tid (int i) s = Inr (put_slot tid i w' q s)"
    "wp_ok dinv tid (put_slot tid i w' q s)" "\<not> isActive w'" "sampledEvent w' = sampledEvent w"
    using Wrapper_slot [OF _ i ok] by metis
  let ?s1 = "put_slot tid i w' q s"
  note sl = slot_simps [OF w(1)]
  obtain t1 where t1: "WP_ThreadData_key ?s1 tid = Some t1" by (rule wp_okE [OF 1(2)])
  let ?s2 = "set_td tid (t1\<lparr>td_samplePostFull := SAMPLES_POST_FULL_RESET_VAL\<rparr>) ?s1"
  have w2: "wpi_get tid (int i) ?s2 = Inr w'"
    using sl(7) [of w' q] t1 by (simp add: wpi_get_def TD_GET_def)
  have at2: "watch_at tid ?s2 j = watch_at tid ?s1 j" for j by (simp add: watch_at_set_td watch_at_key [OF t1])
  have ok2: "wp_ok dinv tid ?s2" using 1(2) t1 by (simp add: wp_ok_def)
  let ?w = "w'\<lparr>wp_samplePostFull := SAMPLES_POST_FULL_RESET_VAL\<rparr>"
  let ?s3 = "put_slot tid i ?w (pl ?s2) ?s2"
  have i2: "i < nat (maxWP (wpConfig ?s2))" using i by (simp add: sl)
  have "wp_ok dinv tid ?s3"
    by (rule put_slot_ok [OF ok2 i2 w2 _ keeps_bp_refl]) (use wp_ok_slot [OF ok2 i2 w2] ok2 in \<open>auto simp: wp_ok_def\<close>)
  moreover have "wp_action E tid (int i) WP_DISABLE s = Inr (?s3, True)"
    using w 1(1) t1 by (simp add: wp_action_def reset_td_def TD_GET_def reset_slot_def slot_simps(11) [OF w2])
  ultimately show thesis
    using 1(3,4) at2 w2 by (intro that [of ?s3 ?w]) (simp_all add: slot_simps [OF w2] sl)
qed

text \<open>What follows the detector's answer.\<close>

lemma hit_tail:
  assumes ok: "wp_ok dinv tid s" and t: "WP_ThreadData_key s tid = Some t" and i: "i < nat (maxWP (wpConfig s))"
    and w: "w = watchPointArray t ! i" "isActive w" "sampledEvent w = Some se"
    and ev: "evs s e = Some ev" "evs s se = Some sam"
    and new: "\<forall>j < nat (maxWP (wpConfig s)). \<forall>v l. snd (watch_at tid s j) \<noteq> Some (v, l, Some e)"
    and s2: "s2 = s\<lparr>evs := (evs s)(e \<mapsto> ev'), spies := sp\<rparr>" and act: "act \<in> {WP_DISABLE, WP_RETAIN}"
  shows "\<exists>s'. rbind (wp_action E tid (int i) act s2) (\<lambda>(s, cleanup).
      if \<not> cleanup then Inr s
      else rbind (del_ev e s) (\<lambda>s. rbind (wpi_get tid (int i) s) (\<lambda>w.
        case sampledEvent w of None \<Rightarrow> Inr s | Some se \<Rightarrow> del_ev se s))) = Inr s' \<and>
    handled dinv tid i e se s s' \<and> spies s' = sp \<and> next_ev s' = next_ev s \<and>
    (act = WP_DISABLE \<longrightarrow> snd (watch_at tid s' i) = None)"
    (is "\<exists>s'. ?T = Inr s' \<and> _")
proof -
  let ?n = "nat (maxWP (wpConfig s))" and ?arr = "watchPointArray t"
  have so: "wp_slots_ok (pl s) (evs s) tid ?n ?arr" by (rule wp_okE [OF ok]) (use t in simp)
  have len: "?n \<le> length ?arr" using so by (simp add: wp_slots_ok_def)
  have wg: "wpi_get tid (int i) s = Inr w" using wpi_get_key [OF t, of i] i len w(1) by simp
  have ne: "se \<noteq> e" using new i w by (auto simp: watch_at_key [OF t] watch_def)
  have ok2: "wp_ok dinv tid s2"
  proof -
    have "wp_ok dinv tid (s\<lparr>evs := (evs s)(e \<mapsto> ev')\<rparr>)"
      by (rule wp_ok_evs [OF ok])
        (use wpi_ok_event [OF wp_slots_okD(2) [OF so]] in \<open>auto simp: watch_at_key [OF t] watch_def split: if_splits\<close>)
    then show ?thesis by (simp add: s2 wp_ok_def t)
  qed
  have at2: "watch_at tid s2 j = watch_at tid s j" for j by (simp add: s2 watch_at_def)
  have w2: "wpi_get tid (int i) s2 = Inr w" using wg by (simp add: s2 wpi_get_def TD_GET_def)
  have d2: "dom (evs s2) = dom (evs s)" using ev(1) by (auto simp: s2)
  show ?thesis
  proof (cases "act = WP_RETAIN")
    case True
    then have "?T = Inr s2" using w(2) by (simp add: wp_action_def w2)
    then show ?thesis using ok2 at2 d2 True by (auto simp: handled_def s2)
  next
    case False
    have i2: "i < nat (maxWP (wpConfig s2))" using i by (simp add: s2)
    obtain s3 w3 where 3: "wp_action E tid (int i) WP_DISABLE s2 = Inr (s3, True)" "wp_ok dinv tid s3"
      "evs s3 = evs s2" "spies s3 = spies s2" "wpConfig s3 = wpConfig s2" "next_ev s3 = next_ev s2"
      "\<forall>j. j \<noteq> i \<longrightarrow> watch_at tid s3 j = watch_at tid s2 j"
      "wpi_get tid (int i) s3 = Inr w3" "\<not> isActive w3" "sampledEvent w3 = sampledEvent w"
      by (rule action_disable [OF ok2 i2 w2 w(2)])
    let ?es = "((evs s3)(e := None))(se := None)"
    let ?s' = "s3\<lparr>evs := ?es\<rparr>"
    have live: "evs s3 e \<noteq> None" "evs s3 se \<noteq> None" using ev ne by (simp_all add: 3(3) s2)
    have "?T = Inr ?s'"
      using False act 3(1,8,10) w(3) live ne
      by (simp add: del_ev_def wpi_get_def TD_GET_def split: option.splits)
    moreover have off: "snd (watch_at tid s3 i) = None"
      by (rule wpi_getE [OF 3(8)]) (use 3(9) in \<open>simp add: watch_at_def watch_def\<close>)
    have "wp_ok dinv tid ?s'"
    proof (rule wp_ok_evs [OF 3(2)], intro allI impI)
      fix j v l x assume j: "j < nat (maxWP (wpConfig s3))" "snd (watch_at tid s3 j) = Some (v, l, Some x)"
      then have ji: "j \<noteq> i" using off by auto
      have jn: "j < ?n" using j(1) by (simp add: 3(5) s2)
      have a: "watch_at tid s3 j = watch_at tid s j" using 3(7) ji at2 by simp
      have x: "isActive (?arr ! j)" "sampledEvent (?arr ! j) = Some x"
        using j(2) by (auto simp: a watch_at_key [OF t] watch_def split: if_splits)
      have "x \<noteq> se" using wp_slots_okD(3) [OF so i jn ji] x w by (auto simp: wp_apart_def)
      moreover have "x \<noteq> e" using new jn j(2) a by auto
      moreover have "evs s x \<noteq> None" by (rule wpi_ok_event [OF wp_slots_okD(2) [OF so jn] x])
      ultimately show "?es x \<noteq> None" by (simp add: 3(3) s2)
    qed
    moreover have "dom ?es = dom (evs s) - {e, se}" using d2 by (auto simp: 3(3))
    moreover have "wpi_get tid (int i) ?s' = Inr w3" using 3(8) by (simp add: wpi_get_def TD_GET_def)
    moreover have "watch_at tid ?s' j = watch_at tid s3 j" for j by (simp add: watch_at_def)
    ultimately show ?thesis
      using off 3(4,5,6,7,10) at2 w(3) by (auto simp: handled_def s2)
  qed
qed

lemma hit_slot:
  assumes ok: "wp_ok dinv tid s" and t: "WP_ThreadData_key s tid = Some t" and i: "i < nat (maxWP (wpConfig s))"
    and w: "w = watchPointArray t ! i" "isActive w" "fileHandle w = fd" "sampledEvent w = Some se"
    and ev: "evs s e = Some ev" "evs s se = Some sam"
    and new: "\<forall>j < nat (maxWP (wpConfig s)). \<forall>v l. snd (watch_at tid s j) \<noteq> Some (v, l, Some e)"
    and addr: "if logicType E = DUPSPY then ip_addr sam = ip_addr ev else data_addr sam = data_addr ev"
    and w0: "sampled (watchPointArray t ! 0) s = Inr x0"
    and fix_ip: "(if isFixed ev then Inr (s, True) else fixIP E tid e s) = Inr (s1, b)"
    and safe: "\<And>ev1. b \<Longrightarrow> evs s1 e = Some ev1 \<Longrightarrow> safe_hit ev1 sam \<lparr>wpt_va = va w, wpt_watchLen = wpLength w\<rparr>"
    and wl: "wl_ok (spy_wl (logicType E) (spies s))" "\<not> contextTree_mtx (spy_wl (logicType E) (spies s))"
  shows "\<exists>s'. OnWatchPoint E tid fd e s = Inr s' \<and> handled dinv tid i e se s s' \<and>
    wl_ok (spy_wl (logicType E) (spies s')) \<and> \<not> contextTree_mtx (spy_wl (logicType E) (spies s')) \<and>
    (h_ip_addr ev = 0 \<or> \<not> b \<longrightarrow> snd (watch_at tid s' i) = None)"
proof -
  let ?n = "nat (maxWP (wpConfig s))" and ?arr = "watchPointArray t"
  have so: "wp_slots_ok (pl s) (evs s) tid ?n ?arr" by (rule wp_okE [OF ok]) (use t in simp)
  have len: "?n \<le> length ?arr" using so by (simp add: wp_slots_ok_def)
  have wg: "wpi_get tid (int i) s = Inr w" using wpi_get_key [OF t, of i] i len w(1) by simp
  have ne: "se \<noteq> e" using new i w by (auto simp: watch_at_key [OF t] watch_def)
  have sw: "sampled w s = Inr sam" using w(4) ev(2) by (simp add: sampled_def get_ev_def)
  have m: "first_slot (matches (logicType E) fd ev s) ?arr [0..<?n] = Inr (Some i)"
    by (rule matching_slot [OF so i _ _ _ addr]) (use w sw in simp_all)
  obtain r where san: "first_slot (\<lambda>w. Inr (fd = fileHandle w)) ?arr [0..<?n] = Inr r"
    using first_slot_cases [OF len, of "\<lambda>w. Inr (fd = fileHandle w)"] by auto
  have z: "slot_at ?arr 0 = Inr (?arr ! 0)" using slot_at_nth [of 0 ?arr] i len by (cases ?arr) auto
  obtain s2 act ev' sp where cb: "wp_callback E tid (int i) e s = Inr (s2, act)" "act \<in> {WP_DISABLE, WP_RETAIN}"
    and s2: "s2 = s\<lparr>evs := (evs s)(e \<mapsto> ev'), spies := sp\<rparr>"
    and sp: "wl_ok (spy_wl (logicType E) sp)" "\<not> contextTree_mtx (spy_wl (logicType E) sp)"
    and dis: "h_ip_addr ev = 0 \<or> \<not> b \<longrightarrow> act = WP_DISABLE"
    by (rule callback_cases [OF ev(1) fix_ip wg w(4) ev(2) ne safe wl])
  have "OnWatchPoint E tid fd e s = rbind (wp_action E tid (int i) act s2) (\<lambda>(s, cleanup).
      if \<not> cleanup then Inr s
      else rbind (del_ev e s) (\<lambda>s. rbind (wpi_get tid (int i) s) (\<lambda>w.
        case sampledEvent w of None \<Rightarrow> Inr s | Some se \<Rightarrow> del_ev se s)))"
    using t san z w0 m cb(1) ev(1) by (simp add: OnWatchPoint_def wp_slots_def get_ev_def)
  with hit_tail [OF ok t i w(1,2,4) ev new s2 cb(2)] sp dis show ?thesis by auto
qed

end


lemma demo_safe: "safe_hit ((demo_event LOAD 9)\<lparr>isFixed := True, h_ip_addr := ip\<rparr>) (demo_event STORE 7)
    \<lparr>wpt_va = 4096, wpt_watchLen = 4\<rparr>"
  by (simp add: safe_hit_def value_ok_def demo_event_def)

lemma demo_data_addr [simp]: "data_addr (demo_event t b) = 4096"
  by (simp add: demo_event_def)

lemma demo_slot_fields [simp]:
  "va (demo_slot fd act e a) = a" "wpLength (demo_slot fd act e a) = 4" "fileHandle (demo_slot fd act e a) = fd"
  "isActive (demo_slot fd act e a) = act" "sampledEvent (demo_slot fd act e a) = Some e"
  by (simp_all add: demo_slot_def)

lemma demo_new: "\<forall>j < nat (maxWP (wpConfig (demo_tool ip))). \<forall>v l. snd (watch_at 7 (demo_tool ip) j) \<noteq> Some (v, l, Some 3)"
  by (simp add: less_2 watch_at_key watch_def)

lemma demo_spies_ok:
  "wl_ok (spy_wl DEADSPY (spies (demo_tool ip)))" "\<not> contextTree_mtx (spy_wl DEADSPY (spies (demo_tool ip)))"
  using demo_wl_ok by (simp_all add: spy_wl_def demo_dead_def)




end
