(* ===== verification/Watch_Grant.thy ===== *)
theory Watch_Grant
  imports Watch_Props
begin

text \<open>
  Progress of a subscription: when a slot without a device is free and the operating system grants
  the device, the requested range is watched when the call returns.
\<close>

section \<open>Registration that is granted\<close>

lemma register_granted:
  assumes d: "devs q p = Some d" and m: "\<not> devicemap_mtx q" and os: "\<forall>n c fd. os_ok os n c fd"
    and fd: "perf_event_open os (clock q) (open_fds q) (registerThisDevice cfg (isAgentKVM A) d attr0) \<noteq> -1"
  shows "\<exists>q'. registerDevice A os cfg tid sid p q = Inr (q', 0)"
  using assms
  by (simp add: registerDevice_def register_open_def register_signals_def getd_def setd_def Let_def sys_def sys_CHECK_def
      add_new_device_def add_new_device_to_session_def with_devices_def lockDevice_def unlockDevice_def)

text \<open>The hypothesis on the operating system: each call succeeds and the device's descriptor is opened.\<close>

definition grants :: "'a env \<Rightarrow> u64 \<Rightarrow> 'a plat \<Rightarrow> bool" where
  "grants E a q \<longleftrightarrow> (\<forall>n c fd. os_ok (sysos E) n c fd) \<and>
     (\<forall>bl bt. perf_event_open (sysos E) (clock q) (open_fds q)
        (registerThisDevice (devcfg E) (isAgentKVM (ops E)) (new_BPDevice bl bt a) attr0) \<noteq> -1)"

lemma grants_register:
  assumes "grants E a q" and "\<not> devicemap_mtx q" and n: "new_dev (new_BPDevice bl bt a) q = (q1, p)"
  shows "\<exists>q'. registerDevice (ops E) (sysos E) (devcfg E) tid sid p q1 = Inr (q', 0)"
  using new_dev_simps [OF n] assms by (intro register_granted) (auto simp: grants_def)

context wp_devices
begin

lemma Arm_granted:
  assumes d: "dinv (pl s)" and w: "wpi_get tid (int i) s = Inr w" "\<not> isActive w" "fileHandle w = -1"
    and l: "bp_len_of len = Some bl" and g: "grants E a (pl s)" "\<not> devicemap_mtx (pl s)"
  shows "\<exists>q w'. ArmWatchPoint E tid now (int i) len wt a (Some e) s = Inr (put_slot tid i w' q s, True) \<and>
    snd (watch w') = Some (a, len, Some e)"
proof -
  obtain q1 p where n: "new_dev (new_BPDevice bl (bp_type_of wt) a) (pl s) = (q1, p)" by fastforce
  from grants_register [OF g n] obtain q' where
    "registerDevice (ops E) (sysos E) (devcfg E) tid (get_session_key tid q1) p q1 = Inr (q', 0)" by blast
  then have nf: "fresh_wp E tid (int i) bl (bp_type_of wt) a s \<noteq> Inl (ExitProcess (-1)) \<and>
      (\<forall>x. fresh_wp E tid (int i) bl (bp_type_of wt) a s \<noteq> Inr (x, False))"
    by (auto simp: fresh_wp_def n getd_def rbind_def slot_simps [OF w(1)] split: option.splits)
  from fresh_slot [OF d w(1), of bl "bp_type_of wt" a] nf obtain q fd b where
    f: "fresh_wp E tid (int i) bl (bp_type_of wt) a s =
         Inr (put_slot tid i (w\<lparr>fileHandle := fd, wp_mmapBuffer := b\<rparr>) q s, True)" "dinv q" "bp_dev q tid fd" by blast
  have "fd \<noteq> -1" using f(2,3) no_handle by metis
  let ?w = "armed a len (Some e) now (w\<lparr>fileHandle := fd, wp_mmapBuffer := b\<rparr>)"
  have "ArmWatchPoint E tid now (int i) len wt a (Some e) s = Inr (put_slot tid i ?w q s, True)"
    using w f(1) l \<open>fd \<noteq> -1\<close> by (simp add: ArmWatchPoint_def CreateWatchPoint_def slot_simps [OF w(1)] armed_def)
  moreover have "snd (watch ?w) = Some (a, len, Some e)" by (simp add: watch_def armed_def)
  ultimately show ?thesis by blast
qed

lemma Subscribe_granted:
  assumes ok: "wp_ok dinv tid s" and pol: "replacementPolicy (wpConfig s) = WP_REPLACEMENT_AUTO"
    and e: "evs s e \<noteq> None" and new: "\<forall>j < nat (maxWP (wpConfig s)). \<forall>v l. snd (watch_at tid s j) \<noteq> Some (v, l, Some e)"
    and valid: "ValidateWPData a len" and k: "k < nat (maxWP (wpConfig s))" "snd (watch_at tid s k) = None"
    and free: "\<forall>j < nat (maxWP (wpConfig s)). snd (watch_at tid s j) = None \<longrightarrow> fst (watch_at tid s j) = -1"
    and apart: "\<forall>j < nat (maxWP (wpConfig s)). \<forall>v l x. snd (watch_at tid s j) = Some (v, l, x) \<longrightarrow> \<not> ADDRESSES_OVERLAP v l a len"
    and g: "grants E a (pl s)" "\<not> devicemap_mtx (pl s)"
  shows "\<exists>s' i. WP_Subscribe E tid now a len wt (Some e) s = Inr (s', 0) \<and> wp_ok dinv tid s' \<and>
    i < nat (maxWP (wpConfig s)) \<and> snd (watch_at tid s i) = None \<and> snd (watch_at tid s' i) = Some (a, len, Some e) \<and>
    (\<forall>j < nat (maxWP (wpConfig s)). j \<noteq> i \<longrightarrow> watch_at tid s' j = watch_at tid s j)"
proof -
  let ?n = "nat (maxWP (wpConfig s))"
  obtain t where t: "WP_ThreadData_key s tid = Some t" "wp_slots_ok (pl s) (evs s) tid ?n (watchPointArray t)"
    and d: "dinv (pl s)" by (rule wp_okE [OF ok])
  note at = watch_at_key [OF t(1)] watch_def
  have len: "?n \<le> length (watchPointArray t)" using t(2) by (simp add: wp_slots_ok_def)
  obtain bl where bl: "bp_len_of len = Some bl" using bp_len_valid [OF valid] by blast
  have over: "IsOveralpped a len (wpConfig s) (Some t) = Inr False"
    using first_slot_cases [OF len, of "\<lambda>w. Inr (isActive w \<and> ADDRESSES_OVERLAP (va w) (wpLength w) a len)"] apart
    by (auto simp: IsOveralpped_def wp_slots_def at)
  have ex: "\<exists>i < ?n. \<not> isActive (watchPointArray t ! i)" using k by (auto simp: at split: if_splits)
  obtain t' r loc B where v: "GetVictim (wpConfig s) t (-1) = Inr (t', r, loc)"
    "counted_up B (watchPointArray t) (watchPointArray t')" "r = WP_VICTIM_EMPTY_SLOT"
    "\<exists>i < ?n. loc = int i \<and> \<not> isActive (watchPointArray t ! i)"
    by (rule GetVictim_slot [OF len pol, of "-1"]) (use ex in blast)
  then obtain i where i: "i < ?n" "loc = int i" "\<not> isActive (watchPointArray t ! i)" by blast
  let ?s = "set_td tid t' s" and ?w = "watchPointArray t' ! i"
  note c = counted_up_ok [OF t(2) v(2)]
  have w: "wpi_get tid (int i) ?s = Inr ?w"
    by (rule wpi_get_key) (use c(1) i in \<open>simp_all add: wp_slots_ok_def\<close>)
  have off: "\<not> isActive ?w" "fileHandle ?w = -1"
    using c(2) [OF i(1)] i(1,3) free by (auto simp: watch_def watch_at_key [OF t(1)] split: if_splits)
  have d1: "dinv (pl ?s)" "grants E a (pl ?s)" "\<not> devicemap_mtx (pl ?s)" using d g by simp_all
  obtain q w' where a: "ArmWatchPoint E tid now (int i) len wt a (Some e) ?s = Inr (put_slot tid i w' q ?s, True)"
    "snd (watch w') = Some (a, len, Some e)"
    using Arm_granted [OF d1(1) w off bl d1(2,3), of now wt e] by blast
  have S: "WP_Subscribe E tid now a len wt (Some e) s = Inr (put_slot tid i w' q ?s, 0)"
    using valid over t(1) v(1,3) i(2) a(1) by (simp add: WP_Subscribe_def)
  have "wp_ok dinv tid (put_slot tid i w' q ?s)"
    using Subscribe_cases [OF ok pol e new, of wt len now a] S bl by (auto simp: subscribed_def Let_def)
  moreover have "watch_at tid (put_slot tid i w' q ?s) j = watch_at tid s j" if "j < ?n" "j \<noteq> i" for j
    using c(2) [OF that(1)] that(2) by (simp add: slot_simps [OF w] watch_at_set_td watch_at_key [OF t(1)])
  ultimately show ?thesis using S i a(2) by (auto simp: slot_simps [OF w] at)
qed

end

section \<open>Progress\<close>

text \<open>C8: When some slot is free, no free slot still holds a device, the requested range is aligned and
  overlaps nothing active, and the operating system grants the device, then a subscription returns 0
  and a slot that was free watches exactly the requested range for the given event, the others
  being untouched.\<close>

theorem WP_Subscribe_arms_free_slot:
  assumes "wp_ok (kvm_agent.dev_inv E) tid s" and "replacementPolicy (wpConfig s) = WP_REPLACEMENT_AUTO"
    and "evs s e \<noteq> None" and "\<forall>j < nat (maxWP (wpConfig s)). \<forall>v l. snd (watch_at tid s j) \<noteq> Some (v, l, Some e)"
    and "ValidateWPData a len" and "k < nat (maxWP (wpConfig s))" and "snd (watch_at tid s k) = None"
    and "\<forall>j < nat (maxWP (wpConfig s)). snd (watch_at tid s j) = None \<longrightarrow> fst (watch_at tid s j) = -1"
    and "\<forall>j < nat (maxWP (wpConfig s)). \<forall>v l x. snd (watch_at tid s j) = Some (v, l, x) \<longrightarrow>
      \<not> ADDRESSES_OVERLAP v l a len"
    and "grants E a (pl s)"
  shows "\<exists>s' i. WP_Subscribe E tid now a len wt (Some e) s = Inr (s', 0) \<and> wp_ok (kvm_agent.dev_inv E) tid s' \<and>
    i < nat (maxWP (wpConfig s)) \<and> snd (watch_at tid s i) = None \<and> snd (watch_at tid s' i) = Some (a, len, Some e) \<and>
    (\<forall>j < nat (maxWP (wpConfig s)). j \<noteq> i \<longrightarrow> watch_at tid s' j = watch_at tid s j)"
proof -
  have "\<not> devicemap_mtx (pl s)" by (rule wp_okE [OF assms(1)]) (rule kvm_agent.dev_invD(5))
  from kvm_wp.Subscribe_granted [OF assms this] show ?thesis .
qed

theorem WP_Subscribe_arms_free_slot_witness:
  "\<exists>s'. WP_Subscribe (demo_env True) 7 9 8192 8 WP_RW (Some 3) (demo_tool 64) = Inr (s', 0) \<and>
    snd (watch_at 7 s' 1) = Some (8192, 8, Some 3)"
proof -
  have "grants (demo_env True) 8192 demo_bp_plat"
    by (auto simp: grants_def demo_os_def demo_bp_plat_def plat_init_def)
  moreover have "ValidateWPData 8192 8" by (simp add: ValidateWPData_def IS_ALIGNED_def)
  moreover have "\<not> ADDRESSES_OVERLAP 4096 4 8192 8" by (simp add: ADDRESSES_OVERLAP_def)
  ultimately obtain s' i where s': "WP_Subscribe (demo_env True) 7 9 8192 8 WP_RW (Some 3) (demo_tool 64) = Inr (s', 0)"
    "i < 2" "snd (watch_at 7 (demo_tool 64) i) = None" "snd (watch_at 7 s' i) = Some (8192, 8, Some 3)"
    using WP_Subscribe_arms_free_slot [where E = "demo_env True" and tid = 7 and s = "demo_tool 64" and e = 3
        and k = 1 and a = 8192 and len = 8 and wt = WP_RW and now = 9] demo_wp_ok
    by (auto simp: less_2 watch_at_key watch_def)
  then have "i = 1" by (auto simp: less_2_cases_iff watch_at_key watch_def)
  with s' show ?thesis by blast
qed

end
