(* ===== verification/Perf_Parser.thy ===== *)
theory Perf_Parser
  imports Context_Types
begin

text \<open>
  \<^verbatim>\<open>src/platform/device/perf_parser.cpp\<close>: \<open>perf_mmap_read\<close> unrolls the ring buffer of a device into a
  heap buffer and walks the records in it. Modelled for the arguments its only caller passes
  (\<open>quiet = 1\<close>, \<open>validate = NULL\<close>, \<open>events_read = NULL\<close>), for which the printing code is dead. Every
  \<open>memcpy\<close> is a checked read of the heap buffer; memory exhaustion other than the \<open>malloc\<close> the code
  tests is not modelled. Record and sample layouts are those of \<^verbatim>\<open>linux/perf_event.h\<close>.
\<close>

section \<open>Reading fields\<close>

definition rd_bytes :: "u8 list \<Rightarrow> int \<Rightarrow> int \<Rightarrow> u8 list res" where
  "rd_bytes buf i n =
     (if 0 \<le> i \<and> 0 \<le> n \<and> i + n \<le> int (length buf) then Inr (take (nat n) (drop (nat i) buf))
      else Inl OutOfBounds)"

text \<open>\<open>memcpy\<close> of \<open>n\<close> bytes into a variable whose value is not used, and \<open>offset += n\<close>.\<close>

definition skip :: "u8 list \<Rightarrow> int \<Rightarrow> int \<Rightarrow> int res" where
  "skip data n off = rbind (rd_bytes data off n) (\<lambda>_. Inr (off + n))"

definition skips :: "u8 list \<Rightarrow> int list \<Rightarrow> int \<Rightarrow> int res" where
  "skips data = rfold (skip data)"

text \<open>A loop over \<open>n\<close> entries that skips \<open>k\<close> bytes for each.\<close>

fun skip_entries :: "u8 list \<Rightarrow> int \<Rightarrow> nat \<Rightarrow> int \<Rightarrow> int res" where
  "skip_entries data k 0 off = Inr off"
| "skip_entries data k (Suc n) off = rbind (skip data k off) (skip_entries data k n)"

definition rd_i64 :: "u8 list \<Rightarrow> int \<Rightarrow> int res" where
  "rd_i64 data off = rbind (rd_le 8 data off) (\<lambda>v. Inr (to_i64 v))"

definition rd_i32 :: "u8 list \<Rightarrow> int \<Rightarrow> int res" where
  "rd_i32 data off = rbind (rd_le 4 data off) (\<lambda>v. Inr (to_i32 v))"

definition counted :: "u8 list \<Rightarrow> int \<Rightarrow> int \<Rightarrow> int res" where
  "counted data k off = rbind (rd_i64 data off) (\<lambda>nr. skip_entries data k (nat nr) (off + 8))"

section \<open>Samples\<close>

text \<open>\<open>handle_struct_read_format\<close>: the offset behind the counter values.\<close>

definition handle_struct_read_format :: "u8 list \<Rightarrow> int \<Rightarrow> int \<Rightarrow> int res" where
  "handle_struct_read_format data rf off =
     (let times = (if rf AND 1 \<noteq> 0 then [8] else []) @ (if rf AND 2 \<noteq> 0 then [8] else []);
          ids = (if rf AND 4 \<noteq> 0 then [8] else [])
      in if rf AND 8 \<noteq> 0
         then rbind (rd_i64 data off) (\<lambda>nr.
              rbind (skips data times (off + 8)) (\<lambda>off.
                rfold (\<lambda>_. skips data (8 # ids)) (replicate (nat nr) ()) off))
         else skips data (8 # times @ ids) off)"

definition popcount :: "int \<Rightarrow> int" where
  "popcount m = int (length (filter (\<lambda>i. m AND 2 ^ i \<noteq> 0) [0..<64]))"

definition print_regs :: "int \<Rightarrow> int" where
  "print_regs reg_mask = 8 * popcount reg_mask"

text \<open>One part of a sample: where it starts and the event so far, to where it ends.\<close>

type_synonym part = "int \<times> Event \<Rightarrow> (int \<times> Event) res"

definition keep_ev :: "(int \<Rightarrow> int res) \<Rightarrow> part" where
  "keep_ev f = (\<lambda>(off, ev). rbind (f off) (\<lambda>off. Inr (off, ev)))"

definition part_ip :: "u8 list \<Rightarrow> part" where
  "part_ip data = (\<lambda>(off, ev). rbind (rd_le 8 data off) (\<lambda>v.
     Inr (off + 8, ev\<lparr>h_ip_addr := word_of_int v\<rparr>)))"

definition part_tid :: "u8 list \<Rightarrow> part" where
  "part_tid data = (\<lambda>(off, ev). rbind (rd_i32 data off) (\<lambda>pid. rbind (rd_i32 data (off + 4)) (\<lambda>tid.
     Inr (off + 8, ev\<lparr>h_pId := pid, h_tId := tid\<rparr>))))"

definition part_time :: "u8 list \<Rightarrow> part" where
  "part_time data = (\<lambda>(off, ev). rbind (rd_le 8 data off) (\<lambda>v. Inr (off + 8, ev\<lparr>event_time := v\<rparr>)))"

definition part_addr :: "u8 list \<Rightarrow> part" where
  "part_addr data = (\<lambda>(off, ev). rbind (rd_le 8 data off) (\<lambda>v.
     Inr (off + 8, ev\<lparr>h_data_addr := word_of_int v\<rparr>)))"

definition part_cpu :: "u8 list \<Rightarrow> part" where
  "part_cpu data = (\<lambda>(off, ev). rbind (rd_i32 data off) (\<lambda>c. rbind (rd_i32 data (off + 4)) (\<lambda>_.
     Inr (off + 8, ev\<lparr>h_cpu := c\<rparr>))))"

text \<open>\<open>PERF_SAMPLE_RAW\<close>: the size is added without a read.\<close>

definition part_raw :: "u8 list \<Rightarrow> part" where
  "part_raw data = keep_ev (\<lambda>off. rbind (rd_i32 data off) (\<lambda>size. Inr (off + 4 + size)))"

definition part_regs :: "u8 list \<Rightarrow> int \<Rightarrow> part" where
  "part_regs data reg_mask = keep_ev (\<lambda>off. rbind (skip data 8 off) (\<lambda>off. Inr (off + print_regs reg_mask)))"

definition part_stack :: "u8 list \<Rightarrow> part" where
  "part_stack data = keep_ev (\<lambda>off.
     rbind (rd_i64 data off) (\<lambda>size. rbind (skip data size (off + 8)) (skip data 8)))"

text \<open>The parts with the bit of \<open>sample_type\<close> that asks for them, in the order of the code.\<close>

definition parts :: "u8 list \<Rightarrow> int \<Rightarrow> int \<Rightarrow> (int \<times> part) list" where
  "parts data read_format reg_mask =
     [(0x1, part_ip data),
      (0x2, part_tid data),
      (0x4, part_time data),
      (0x8, part_addr data),
      (0x40, keep_ev (skip data 8)),
      (0x200, keep_ev (skip data 8)),
      (0x80, part_cpu data),
      (0x100, keep_ev (skip data 8)),
      (0x10, keep_ev (handle_struct_read_format data read_format)),
      (0x20, keep_ev (counted data 8)),
      (0x400, part_raw data),
      (0x800, keep_ev (counted data 24)),
      (0x1000, part_regs data reg_mask),
      (0x40000, part_regs data reg_mask),
      (0x2000, part_stack data),
      (0x4000, keep_ev (skip data 8)),
      (0x8000, keep_ev (skip data 8)),
      (0x10000, keep_ev (skip data 8)),
      (0x20000, keep_ev (skip data 8))]"

definition parse_sample :: "u8 list \<Rightarrow> int \<Rightarrow> int \<Rightarrow> int \<Rightarrow> part" where
  "parse_sample data sample_type read_format reg_mask =
     rfold (\<lambda>(m, f) s. if sample_type AND m \<noteq> 0 then f s else Inr s) (parts data read_format reg_mask)"

section \<open>Records\<close>

text \<open>Fixed part of a record and, for those with a name, the size of everything but the name.\<close>

definition with_name :: "u8 list \<Rightarrow> int list \<Rightarrow> int \<Rightarrow> int \<Rightarrow> int \<Rightarrow> int res" where
  "with_name data ns fixed base off =
     rbind (skips data ns off) (\<lambda>off. rbind (rd_le 2 data (base + 6)) (\<lambda>size. skip data (size - fixed) off))"

text \<open>The \<open>switch\<close> on the record type; \<open>base\<close> is the header, the fields start 8 bytes behind it.\<close>

definition parse_record :: "u8 list \<Rightarrow> int \<Rightarrow> int \<Rightarrow> int \<Rightarrow> part" where
  "parse_record data sample_type read_format reg_mask = (\<lambda>(base, ev).
     rbind (rd_le 4 data base) (\<lambda>type.
       let s = (base + 8, ev); go = (\<lambda>ns. keep_ev (skips data ns) s)
       in if type = 2 then go [8, 8]
          else if type = 3 then keep_ev (with_name data [4, 4] 16 base) s
          else if type = 7 then go [4, 4, 4, 4, 8]
          else if type = 1 then keep_ev (with_name data [4, 4, 8, 8, 8] 40 base) s
          else if type = 10 then keep_ev (with_name data [4, 4, 8, 8, 8, 4, 4, 8, 8, 4, 4] 72 base) s
          else if type = 4 then go [4, 4, 4, 4, 8]
          else if type = 5 \<or> type = 6 then go [8, 8, 8]
          else if type = 9 then parse_sample data sample_type read_format reg_mask s
          else if type = 11 then go [8, 8, 8, 8]
          else if type = 12 then go [4, 4]
          else if type = 13 then go [8, 8]
          else if type = 14 then go [8]
          else if type = 15 then go [4, 4, 8]
          else Inr s))"

text \<open>\<open>while (offset < size)\<close>, with at most \<open>n\<close> turns.\<close>

fun parse_records :: "nat \<Rightarrow> u8 list \<Rightarrow> int \<Rightarrow> int \<Rightarrow> int \<Rightarrow> int \<Rightarrow> part" where
  "parse_records n data st rf rm len (off, ev) =
     (if off < len
      then (case n of 0 \<Rightarrow> Inl OutOfFuel
            | Suc n \<Rightarrow> rbind (parse_record data st rf rm (off, ev)) (parse_records n data st rf rm len))
      else Inr (off, ev))"

declare parse_records.simps [simp del]

section \<open>The reader\<close>

text \<open>The control page and the payload behind it.\<close>

record mmap_page =
  data_head :: int
  data_tail :: int
  payload :: "u8 list"

text \<open>C's remainder, which has the sign of the dividend.\<close>

definition c_rem :: "int \<Rightarrow> int \<Rightarrow> int" where
  "c_rem a b = (if 0 \<le> a then a mod b else - ((- a) mod b))"

definition unroll :: "u8 list \<Rightarrow> int \<Rightarrow> int \<Rightarrow> u8 list res" where
  "unroll ring bytesize prev_head =
     (let w = c_rem prev_head bytesize
      in rbind (rd_bytes ring w (bytesize - w)) (\<lambda>a. rbind (rd_bytes ring 0 w) (\<lambda>b. Inr (a @ b))))"

definition perf_mmap_read ::
  "nat \<Rightarrow> int \<Rightarrow> bool \<Rightarrow> mmap_page option \<Rightarrow> int \<Rightarrow> int \<Rightarrow> int \<Rightarrow> int \<Rightarrow> int \<Rightarrow> Event \<Rightarrow>
    (int \<times> mmap_page option \<times> Event) res" where
  "perf_mmap_read n pagesize malloc_ok our_mmap mmap_size prev_head sample_type read_format reg_mask ev =
     (if mmap_size = 0 then Inr (0, our_mmap, ev)
      else case our_mmap of None \<Rightarrow> Inr (-1, our_mmap, ev)
      | Some page \<Rightarrow>
          let head = to_i64 (data_head page); size = to_i32 (head - prev_head);
              bytesize = mmap_size * pagesize
          in if \<not> malloc_ok then Inr (-1, our_mmap, ev)
             else rbind (unroll (payload page) bytesize prev_head) (\<lambda>data.
                  rbind (parse_records n data sample_type read_format reg_mask size (0, ev)) (\<lambda>(_, ev).
                    Inr (head, Some (page\<lparr>data_tail := head\<rparr>), ev))))"

section \<open>Progress\<close>

text \<open>Where a part ends: at its start, or further on inside the buffer.\<close>

definition advances :: "u8 list \<Rightarrow> (int \<Rightarrow> int res) \<Rightarrow> bool" where
  "advances data f \<longleftrightarrow> (\<forall>off off'. f off = Inr off' \<longrightarrow>
     off' = off \<or> off \<le> off' \<and> off' \<le> int (length data))"

definition part_advances :: "u8 list \<Rightarrow> part \<Rightarrow> bool" where
  "part_advances data f \<longleftrightarrow> (\<forall>off ev off' ev'. f (off, ev) = Inr (off', ev') \<longrightarrow>
     off' = off \<or> off \<le> off' \<and> off' \<le> int (length data))"

named_theorems advance_intros

lemma advances_bind [advance_intros]:
  assumes "advances data f" and "advances data g"
  shows "advances data (\<lambda>off. rbind (f off) g)"
  unfolding advances_def
proof (intro allI impI)
  fix a c assume "rbind (f a) g = Inr c"
  then obtain b where "f a = Inr b" "g b = Inr c" by (auto simp: rbind_Inr)
  with assms show "c = a \<or> a \<le> c \<and> c \<le> int (length data)"
    unfolding advances_def by (metis order_trans)
qed

lemma advances_Inr [advance_intros]: "advances data Inr"
  by (simp add: advances_def)

lemma advances_skip [advance_intros]: "advances data (skip data n)"
  by (auto simp: advances_def skip_def rd_bytes_def split: if_splits)

lemma advances_skips [advance_intros]: "advances data (skips data ns)"
proof (induction ns)
  case Nil
  then show ?case by (simp add: skips_def advances_def)
next
  case (Cons n ns)
  from advances_bind [OF advances_skip this] show ?case by (simp add: skips_def)
qed

lemma advances_entries [advance_intros]: "advances data (skip_entries data k n)"
proof (induction n)
  case 0
  then show ?case by (simp add: advances_def)
next
  case (Suc n)
  from advances_bind [OF advances_skip this] show ?case by simp
qed

lemma advances_repeat: "advances data f \<Longrightarrow> advances data (rfold (\<lambda>_. f) xs)"
proof (induction xs)
  case Nil
  then show ?case by (simp add: advances_def)
next
  case (Cons x xs)
  from advances_bind [OF Cons.prems Cons.IH [OF Cons.prems]] show ?case by simp
qed

text \<open>A read of 8 bytes in front of a part: the part starts 8 bytes further.\<close>

lemma advances_read:
  assumes "\<And>v. advances data (f v)"
  shows "advances data (\<lambda>off. rbind (rd_i64 data off) (\<lambda>v. f v (off + 8)))"
  unfolding advances_def
proof (intro allI impI)
  fix a c assume "rbind (rd_i64 data a) (\<lambda>v. f v (a + 8)) = Inr c"
  then obtain v where v: "f v (a + 8) = Inr c" and "rd_i64 data a \<noteq> Inl OutOfBounds"
    by (auto simp: rbind_Inr rd_i64_def)
  then have "a + 8 \<le> int (length data)" by (auto simp: rd_i64_def rd_le_def split: if_splits)
  with assms [of v] v show "c = a \<or> a \<le> c \<and> c \<le> int (length data)"
    unfolding advances_def by fastforce
qed

lemma advances_counted [advance_intros]: "advances data (counted data k)"
  unfolding counted_def by (rule advances_read) (rule advances_entries)

lemma advances_read_format [advance_intros]: "advances data (handle_struct_read_format data rf)"
proof -
  have "advances data (\<lambda>off. rbind (skips data ns off) (\<lambda>off. rfold (\<lambda>_. skips data ms) xs off))"
    for ns ms and xs :: "unit list"
    by (rule advances_bind) (rule advances_skips, rule advances_repeat, rule advances_skips)
  from advances_read [OF this] show ?thesis
    by (cases "rf AND 8 \<noteq> 0") (simp_all add: handle_struct_read_format_def [abs_def] Let_def advances_skips)
qed

lemma advances_stack:
  "advances data (\<lambda>off. rbind (rd_i64 data off) (\<lambda>size. rbind (skip data size (off + 8)) (skip data 8)))"
  by (rule advances_read) (intro advance_intros)

lemma advances_regs:
  "reg_mask = 0 \<Longrightarrow> advances data (\<lambda>off. rbind (skip data 8 off) (\<lambda>off. Inr (off + print_regs reg_mask)))"
  by (simp add: print_regs_def popcount_def) (intro advance_intros)

lemma part_keep [advance_intros]: "advances data f \<Longrightarrow> part_advances data (keep_ev f)"
  by (auto simp: advances_def part_advances_def keep_ev_def rbind_Inr)

lemma part_reads [advance_intros]:
  "part_advances data (part_ip data)" "part_advances data (part_tid data)" "part_advances data (part_time data)"
  "part_advances data (part_addr data)" "part_advances data (part_cpu data)"
  by (auto simp: part_advances_def part_ip_def part_tid_def part_time_def part_addr_def part_cpu_def
      rd_i32_def rd_le_def rbind_Inr split: if_splits)

lemma part_fold:
  assumes "\<And>x. x \<in> set xs \<Longrightarrow> part_advances data (f x)"
  shows "part_advances data (rfold f xs)"
  using assms
proof (induction xs)
  case Nil
  then show ?case by (simp add: part_advances_def)
next
  case (Cons x xs)
  have 1: "part_advances data (f x)" and 2: "part_advances data (rfold f xs)" using Cons by simp_all
  show ?case
    unfolding part_advances_def
  proof (intro allI impI)
    fix off ev off' ev' assume "rfold f (x # xs) (off, ev) = Inr (off', ev')"
    then obtain o1 e1 where "f x (off, ev) = Inr (o1, e1)" "rfold f xs (o1, e1) = Inr (off', ev')"
      by (auto simp: rbind_Inr)
    with 1 2 show "off' = off \<or> off \<le> off' \<and> off' \<le> int (length data)"
      unfolding part_advances_def by (metis order_trans)
  qed
qed

lemma sample_advances:
  assumes "sample_type AND 0x400 = 0" and "reg_mask = 0"
  shows "part_advances data (parse_sample data sample_type read_format reg_mask)"
  unfolding parse_sample_def
proof (rule part_fold)
  fix x assume "x \<in> set (parts data read_format reg_mask)"
  then have "x = (0x400, part_raw data) \<or> part_advances data (snd x)"
    unfolding parts_def part_regs_def part_stack_def
    by (auto intro!: advance_intros advances_regs [OF assms(2)] advances_stack)
  then show "part_advances data ((\<lambda>(m, f) s. if sample_type AND m \<noteq> 0 then f s else Inr s) x)"
    using assms(1) by (cases x) (auto simp: part_advances_def)
qed

lemma advances_name: "advances data (with_name data ns fixed base)"
proof -
  have "advances data (\<lambda>off. rbind (rd_le 2 data (base + 6)) (\<lambda>size. skip data (size - fixed) off))"
    using advances_skip by (cases "rd_le 2 data (base + 6)") (auto simp: advances_def)
  from advances_bind [OF advances_skips this] show ?thesis by (simp add: with_name_def [abs_def])
qed

text \<open>Every turn of the loop moves on by at least the header.\<close>

lemma record_advances:
  assumes "parse_record data st rf rm (off, ev) = Inr (off', ev')" and "st AND 0x400 = 0" and "rm = 0"
  shows "off + 8 \<le> off'" and "off' \<le> int (length data) + 4"
proof -
  let ?k = "\<lambda>f. keep_ev f (off + 8, ev) = Inr (off', ev')"
  from assms(1) have hd: "off + 4 \<le> int (length data)"
    by (auto simp: parse_record_def rd_le_def split: if_splits)
  from assms(1) have "(\<exists>ns. ?k (skips data ns)) \<or> (\<exists>fs n. ?k (with_name data fs n off)) \<or>
      parse_sample data st rf rm (off + 8, ev) = Inr (off', ev') \<or> (off', ev') = (off + 8, ev)"
    by (auto simp: parse_record_def rbind_Inr Let_def split: if_splits)
  then have "off' = off + 8 \<or> off + 8 \<le> off' \<and> off' \<le> int (length data)"
    using part_keep [OF advances_skips, of data] part_keep [OF advances_name, of data]
      sample_advances [OF assms(2,3)]
    unfolding part_advances_def by blast
  with hd show "off + 8 \<le> off'" and "off' \<le> int (length data) + 4" by auto
qed

section \<open>The only fault is a read outside the buffer\<close>

definition oob_only :: "('a \<Rightarrow> 'b res) \<Rightarrow> bool" where
  "oob_only f \<longleftrightarrow> (\<forall>x e. f x = Inl e \<longrightarrow> e = OutOfBounds)"

named_theorems oob_intros

lemma oob_bind2 [oob_intros]:
  "oob_only f \<Longrightarrow> (\<And>v. oob_only (\<lambda>x. g v x)) \<Longrightarrow> oob_only (\<lambda>x. rbind (f x) (\<lambda>v. g v x))"
  by (simp add: oob_only_def rbind_def split: sum.split)

lemma oob_bind: "oob_only f \<Longrightarrow> oob_only g \<Longrightarrow> oob_only (\<lambda>x. rbind (f x) g)"
  by (simp add: oob_only_def rbind_def split: sum.split)

lemma oob_simple [oob_intros]:
  "oob_only (\<lambda>x. Inr (h x))" "oob_only (\<lambda>x. rd_bytes data (i x) (k x))" "oob_only (\<lambda>x. rd_le n data (i x))"
  "oob_only (\<lambda>x. skip data (k x) (i x))" "oob_only (\<lambda>x. rd_i64 data (i x))" "oob_only (\<lambda>x. rd_i32 data (i x))"
  by (auto simp: oob_only_def rd_bytes_def rd_le_def skip_def rd_i64_def rd_i32_def split: if_splits)

lemma oob_comp: "oob_only f \<Longrightarrow> oob_only (\<lambda>x. f (i x))"
  by (simp add: oob_only_def)

lemma oob_fold: "(\<And>x. x \<in> set xs \<Longrightarrow> oob_only (f x)) \<Longrightarrow> oob_only (rfold f xs)"
proof (induction xs)
  case Nil
  then show ?case by (simp add: oob_only_def)
next
  case (Cons x xs)
  have "oob_only (f x)" "oob_only (rfold f xs)" using Cons by simp_all
  from oob_bind [OF this] show ?case by simp
qed

lemma oob_skips [oob_intros]: "oob_only (\<lambda>x. skips data ns (i x))"
  unfolding skips_def by (rule oob_comp, rule oob_fold) (rule oob_simple)

lemma oob_entries: "oob_only (skip_entries data k n)"
proof (induction n)
  case 0
  then show ?case by (simp add: oob_only_def)
next
  case (Suc n)
  from oob_bind [OF oob_simple(4) this] show ?case by simp
qed

lemma oob_counted: "oob_only (counted data k)"
  unfolding counted_def by (intro oob_intros oob_comp [OF oob_entries])

lemma oob_read_format: "oob_only (handle_struct_read_format data rf)"
proof -
  have 1: "oob_only (\<lambda>x. rfold (\<lambda>_. skips data ms) xs x)" for ms and xs :: "unit list"
    by (rule oob_fold) (rule oob_skips)
  have "oob_only (\<lambda>off. rbind (rd_i64 data off) (\<lambda>nr. rbind (skips data times (off + 8)) (\<lambda>off.
      rfold (\<lambda>_. skips data ms) (replicate (nat nr) ()) off)))" for times ms
    by (intro oob_intros oob_comp [OF 1])
  then show ?thesis
    by (cases "rf AND 8 \<noteq> 0") (simp_all add: handle_struct_read_format_def [abs_def] Let_def oob_skips)
qed

lemma oob_stack:
  "oob_only (\<lambda>off. rbind (rd_i64 data off) (\<lambda>size. rbind (skip data size (off + 8)) (skip data 8)))"
  by (intro oob_intros)

lemma oob_name: "oob_only (with_name data ns fixed base)"
  unfolding with_name_def by (intro oob_intros)

lemma oob_keep: "oob_only f \<Longrightarrow> oob_only (keep_ev f)"
  by (auto simp: oob_only_def keep_ev_def rbind_def split: sum.splits)

lemma oob_reads:
  "oob_only (part_ip data)" "oob_only (part_tid data)" "oob_only (part_time data)" "oob_only (part_addr data)"
  "oob_only (part_cpu data)" "oob_only (part_raw data)"
  unfolding part_ip_def part_tid_def part_time_def part_addr_def part_cpu_def part_raw_def keep_ev_def split_def
  by (intro oob_intros)+

lemma oob_sample: "oob_only (parse_sample data st rf rm)"
  unfolding parse_sample_def
proof (rule oob_fold)
  fix x assume "x \<in> set (parts data rf rm)"
  then have "oob_only (snd x)"
    unfolding parts_def part_regs_def part_stack_def
    by (auto intro!: oob_reads oob_keep oob_simple oob_counted oob_read_format oob_stack oob_bind2)
  then show "oob_only ((\<lambda>(m, f) s. if st AND m \<noteq> 0 then f s else Inr s) x)"
    by (cases x) (auto simp: oob_only_def)
qed

lemma record_fault:
  assumes "parse_record data st rf rm s = Inl e"
  shows "e = OutOfBounds"
proof -
  obtain off ev where s: "s = (off, ev)" by (cases s)
  show ?thesis
  proof (cases "rd_le 4 data off")
    case (Inl e')
    then show ?thesis using assms s by (auto simp: parse_record_def rd_le_def split: if_splits)
  next
    case (Inr type)
    let ?k = "\<lambda>f. keep_ev f (off + 8, ev) = Inl e"
    from assms s Inr have "(\<exists>ns. ?k (skips data ns)) \<or> (\<exists>fs n. ?k (with_name data fs n off)) \<or>
        parse_sample data st rf rm (off + 8, ev) = Inl e"
      by (auto simp: parse_record_def Let_def split: if_splits)
    then show ?thesis
      using oob_keep [OF oob_name, of data] oob_keep [OF oob_skips [where data = data and i = "\<lambda>x. x"]] oob_sample [of data st rf rm]
      unfolding oob_only_def by blast
  qed
qed

section \<open>The loop ends\<close>

lemma records_Suc:
  "off < len \<Longrightarrow> parse_records (Suc n) data st rf rm len (off, ev) =
     rbind (parse_record data st rf rm (off, ev)) (parse_records n data st rf rm len)"
  "off < len \<Longrightarrow> parse_records 0 data st rf rm len (off, ev) = Inl OutOfFuel"
  "\<not> off < len \<Longrightarrow> parse_records n data st rf rm len (off, ev) = Inr (off, ev)"
  by (simp_all add: parse_records.simps)

lemma records_fuel:
  assumes "st AND 0x400 = 0" and "len \<le> off + 8 * int n"
  shows "parse_records n data st rf 0 len (off, ev) \<noteq> Inl OutOfFuel \<and>
    (\<forall>m \<ge> n. parse_records m data st rf 0 len (off, ev) = parse_records n data st rf 0 len (off, ev))"
  using assms(2)
proof (induction n arbitrary: off ev)
  case 0
  then show ?case by (simp add: records_Suc)
next
  case (Suc n)
  show ?case
  proof (cases "off < len")
    case True
    show ?thesis
    proof (cases "parse_record data st rf 0 (off, ev)")
      case (Inl e)
      then have "parse_records (Suc k) data st rf 0 len (off, ev) = Inl OutOfBounds" for k
        using True record_fault by (simp add: records_Suc)
      then show ?thesis by (auto dest!: Suc_le_D)
    next
      case (Inr s)
      obtain off' ev' where s: "s = (off', ev')" by (cases s)
      have "off + 8 \<le> off'" using record_advances(1) [OF Inr [unfolded s] assms(1)] by simp
      with Suc.prems have "len \<le> off' + 8 * int n" by simp
      note IH = Suc.IH [OF this, of ev']
      have e: "parse_records (Suc k) data st rf 0 len (off, ev) = parse_records k data st rf 0 len (off', ev')" for k
        using True Inr s by (simp add: records_Suc)
      show ?thesis
      proof (intro conjI allI impI)
        show "parse_records (Suc n) data st rf 0 len (off, ev) \<noteq> Inl OutOfFuel" using IH e by metis
        fix m assume "Suc n \<le> m"
        then obtain k where "m = Suc k" "n \<le> k" by (auto dest!: Suc_le_D)
        with IH e show "parse_records m data st rf 0 len (off, ev) = parse_records (Suc n) data st rf 0 len (off, ev)"
          by metis
      qed
    qed
  next
    case False
    then show ?thesis by (simp add: records_Suc)
  qed
qed

lemma records_fault:
  "parse_records n data st rf rm len s = Inl e \<Longrightarrow> e = OutOfBounds \<or> e = OutOfFuel"
proof (induction n arbitrary: s)
  case 0
  then show ?case by (cases s) (auto simp: parse_records.simps split: if_splits)
next
  case (Suc n)
  obtain off ev where s: "s = (off, ev)" by (cases s)
  from Suc.prems s have "off < len" by (auto simp: records_Suc(3) intro: ccontr)
  with Suc.prems s Suc.IH record_fault show ?case
    by (cases "parse_record data st rf rm (off, ev)") (auto simp: records_Suc)
qed

lemma records_end:
  assumes "parse_records n data st rf 0 len (off, ev) = Inr (off', ev')" and "st AND 0x400 = 0" and "off < len"
  shows "len \<le> off' \<and> off' \<le> int (length data) + 4"
  using assms(1,3)
proof (induction n arbitrary: off ev)
  case 0
  then show ?case by (simp add: records_Suc)
next
  case (Suc n)
  from Suc.prems obtain o1 e1 where r: "parse_record data st rf 0 (off, ev) = Inr (o1, e1)"
    "parse_records n data st rf 0 len (o1, e1) = Inr (off', ev')" by (auto simp: records_Suc rbind_Inr)
  show ?case
  proof (cases "o1 < len")
    case True
    with Suc.IH r(2) show ?thesis by blast
  next
    case False
    with r(2) have "off' = o1" by (simp add: records_Suc)
    with False record_advances(2) [OF r(1) assms(2)] show ?thesis by simp
  qed
qed

end
