(* ===== verification/Perf_Props.thy ===== *)
theory Perf_Props
  imports Perf_Parser
begin

text \<open>
  The properties of \<open>perf_mmap_read\<close>: it ends, what it makes of the samples the kernel writes, and
  what happens when the kernel has overtaken the reader. An encoder of samples, with the layout of
  the kernel's ABI for the bits the devices ask for, is the specification of the round trip.
\<close>

section \<open>Bytes at a position\<close>

fun le_bytes :: "nat \<Rightarrow> int \<Rightarrow> u8 list" where
  "le_bytes 0 v = []"
| "le_bytes (Suc n) v = word_of_int v # le_bytes n (v div 256)"

lemma length_le_bytes [simp]: "length (le_bytes n v) = n"
  by (induction n arbitrary: v) simp_all

lemma le_val_bytes [simp]: "le_val (le_bytes n v) = v mod 256 ^ n"
proof (induction n arbitrary: v)
  case 0
  then show ?case by simp
next
  case (Suc n)
  have "uint (word_of_int v :: u8) = v mod 256" by (simp add: uint_word_of_int)
  moreover have "v mod 256 + 256 * (v div 256 mod 256 ^ n) = v mod (256 * 256 ^ n)"
    by (simp add: zmod_zmult2_eq)
  ultimately show ?case using Suc by simp
qed

text \<open>\<open>bs\<close> stands in \<open>data\<close> at offset \<open>off\<close>.\<close>

definition has_bytes :: "u8 list \<Rightarrow> int \<Rightarrow> u8 list \<Rightarrow> bool" where
  "has_bytes data off bs \<longleftrightarrow> (\<exists>pre post. data = pre @ bs @ post \<and> off = int (length pre))"

lemma at_appendD:
  assumes "has_bytes data off (a @ b)"
  shows "has_bytes data off a" and "has_bytes data (off + int (length a)) b"
proof -
  from assms obtain pre post where d: "data = pre @ (a @ b) @ post" "off = int (length pre)"
    unfolding has_bytes_def by blast
  then have "data = pre @ a @ (b @ post)" by simp
  with d(2) show "has_bytes data off a" unfolding has_bytes_def by blast
  from d have "data = (pre @ a) @ b @ post" "off + int (length a) = int (length (pre @ a))" by simp_all
  then show "has_bytes data (off + int (length a)) b" unfolding has_bytes_def by blast
qed

lemma at_rd_bytes: "has_bytes data off bs \<Longrightarrow> n = int (length bs) \<Longrightarrow> rd_bytes data off n = Inr bs"
  by (auto simp: has_bytes_def rd_bytes_def)

lemma at_skip: "has_bytes data off bs \<Longrightarrow> n = int (length bs) \<Longrightarrow> skip data n off = Inr (off + n)"
  by (simp add: skip_def at_rd_bytes)

lemma at_rd_le: "has_bytes data off (le_bytes n v) \<Longrightarrow> rd_le n data off = Inr (v mod 256 ^ n)"
  by (auto simp: has_bytes_def rd_le_def)

lemma at_entries: "has_bytes data off (concat (map (le_bytes k) vs)) \<Longrightarrow>
    skip_entries data (int k) (length vs) off = Inr (off + int k * int (length vs))"
proof (induction vs arbitrary: off)
  case Nil
  then show ?case by simp
next
  case (Cons v vs)
  have "has_bytes data off (le_bytes k v)" "has_bytes data (off + int k) (concat (map (le_bytes k) vs))"
    using at_appendD [of data off "le_bytes k v"] Cons.prems by simp_all
  with Cons.IH show ?case by (simp add: at_skip algebra_simps)
qed

section \<open>Samples as the kernel writes them\<close>

record smp =
  sm_ip :: u64
  sm_pid :: int
  sm_tid :: int
  sm_addr :: u64
  sm_id :: int
  sm_cpu :: int
  sm_chain :: "int list"
  sm_misc :: int

definition smp_ok :: "smp \<Rightarrow> bool" where
  "smp_ok s \<longleftrightarrow> 0 \<le> sm_pid s \<and> sm_pid s < 2 ^ 31 \<and> 0 \<le> sm_tid s \<and> sm_tid s < 2 ^ 31 \<and>
     0 \<le> sm_cpu s \<and> sm_cpu s < 2 ^ 31 \<and> length (sm_chain s) < 2 ^ 31"

text \<open>The sample types of breakpoint devices (\<open>0xAB\<close>) and of PEBS devices (\<open>0xEB\<close>: with an id).\<close>

definition enc_body :: "int \<Rightarrow> smp \<Rightarrow> u8 list" where
  "enc_body st s = le_bytes 8 (uint (sm_ip s)) @ le_bytes 4 (sm_pid s) @ le_bytes 4 (sm_tid s) @
     le_bytes 8 (uint (sm_addr s)) @ (if st = 0xEB then le_bytes 8 (sm_id s) else []) @
     le_bytes 4 (sm_cpu s) @ le_bytes 4 0 @
     le_bytes 8 (int (length (sm_chain s))) @ concat (map (le_bytes 8) (sm_chain s))"

definition enc_sample :: "int \<Rightarrow> smp \<Rightarrow> u8 list" where
  "enc_sample st s = le_bytes 4 9 @ le_bytes 2 (sm_misc s) @
     le_bytes 2 (8 + int (length (enc_body st s))) @ enc_body st s"

definition apply_sample :: "smp \<Rightarrow> Event \<Rightarrow> Event" where
  "apply_sample s ev = ev\<lparr>h_ip_addr := sm_ip s, h_pId := sm_pid s, h_tId := sm_tid s,
     h_data_addr := sm_addr s, h_cpu := sm_cpu s\<rparr>"

lemma u64_roundtrip: "word_of_int (uint (w :: u64) mod 256 ^ 8) = w"
proof -
  have "uint w mod 256 ^ 8 = uint w" using uint64_bounds [of w] by simp
  then show ?thesis by simp
qed

lemma i32_roundtrip: "0 \<le> v \<Longrightarrow> v < 2 ^ 31 \<Longrightarrow> to_i32 (v mod 256 ^ 4) = v"
  by (simp add: mod_pos_pos_trivial)

lemma sample_parsed:
  assumes a: "has_bytes data off (enc_sample st s)" and st: "st = 0xAB \<or> st = 0xEB" and ok: "smp_ok s"
  shows "parse_record data st rf rm (off, ev) = Inr (off + int (length (enc_sample st s)), apply_sample s ev)"
proof -
  let ?i = "if st = 0xEB then 8 else 0 :: int"
  note split = a [unfolded enc_sample_def]
  have hd: "rd_le 4 data off = Inr 9" using at_rd_le [OF at_appendD(1) [OF split]] by (simp add: algebra_simps)
  have "has_bytes data (off + 8) (enc_body st s)"
    using at_appendD(2) [OF at_appendD(2) [OF at_appendD(2) [OF split]]] by (simp add: algebra_simps)
  note b0 = this [unfolded enc_body_def]
  note b1 = at_appendD(2) [OF b0] note b2 = at_appendD(2) [OF b1] note b3 = at_appendD(2) [OF b2]
  note b4 = at_appendD(2) [OF b3] note b5 = at_appendD(2) [OF b4] note b6 = at_appendD(2) [OF b5]
  note b7 = at_appendD(2) [OF b6] note b8 = at_appendD(2) [OF b7]
  have ip: "rd_le 8 data (off + 8) = Inr (uint (sm_ip s) mod 256 ^ 8)" using at_rd_le [OF at_appendD(1) [OF b0]] .
  have pid: "rd_le 4 data (off + 16) = Inr (sm_pid s mod 256 ^ 4)" using at_rd_le [OF at_appendD(1) [OF b1]] by (simp add: algebra_simps)
  have tid: "rd_le 4 data (off + 20) = Inr (sm_tid s mod 256 ^ 4)" using at_rd_le [OF at_appendD(1) [OF b2]] by (simp add: algebra_simps)
  have addr: "rd_le 8 data (off + 24) = Inr (uint (sm_addr s) mod 256 ^ 8)"
    using at_rd_le [OF at_appendD(1) [OF b3]] by (simp add: algebra_simps)
  have id: "st = 0xEB \<Longrightarrow> skip data 8 (off + 32) = Inr (off + 40)"
    using at_skip [OF at_appendD(1) [OF b4]] by (simp add: algebra_simps)
  have cpu: "rd_le 4 data (off + 32 + ?i) = Inr (sm_cpu s mod 256 ^ 4)"
    using at_rd_le [OF at_appendD(1) [OF b5]] by (simp add: algebra_simps split: if_splits)
  have res: "rd_le 4 data (off + 36 + ?i) = Inr 0"
    using at_rd_le [OF at_appendD(1) [OF b6]] by (simp add: algebra_simps split: if_splits)
  have nr: "rd_le 8 data (off + 40 + ?i) = Inr (int (length (sm_chain s)) mod 256 ^ 8)"
    using at_rd_le [OF at_appendD(1) [OF b7]] by (simp add: algebra_simps split: if_splits)
  have len: "int (length (sm_chain s)) < 2 ^ 31" using ok by (simp add: smp_ok_def)
  then have nr': "rd_i64 data (off + 40 + ?i) = Inr (int (length (sm_chain s)))"
    by (simp add: rd_i64_def nr mod_pos_pos_trivial)
  have chain: "skip_entries data 8 (length (sm_chain s)) (off + 48 + ?i) =
      Inr (off + 48 + ?i + 8 * int (length (sm_chain s)))"
    using at_entries [where k = 8, OF b8 [simplified]] by (simp add: algebra_simps split: if_splits)
  have total: "int (length (enc_sample st s)) = 48 + ?i + 8 * int (length (sm_chain s))"
    by (simp add: enc_sample_def enc_body_def length_concat o_def sum_list_triv)
  have i32: "to_i32 (sm_pid s mod 256 ^ 4) = sm_pid s" "to_i32 (sm_tid s mod 256 ^ 4) = sm_tid s"
      "to_i32 (sm_cpu s mod 256 ^ 4) = sm_cpu s"
    using ok i32_roundtrip by (simp_all only: smp_ok_def)
  have p_ip: "part_ip data (off + 8, e) = Inr (off + 16, e\<lparr>h_ip_addr := sm_ip s\<rparr>)" for e
    using ip u64_roundtrip by (simp add: part_ip_def)
  have p_tid: "part_tid data (off + 16, e) = Inr (off + 24, e\<lparr>h_pId := sm_pid s, h_tId := sm_tid s\<rparr>)" for e
    using pid tid i32 by (simp add: part_tid_def rd_i32_def algebra_simps del: power_numeral)
  have p_addr: "part_addr data (off + 24, e) = Inr (off + 32, e\<lparr>h_data_addr := sm_addr s\<rparr>)" for e
    using addr u64_roundtrip by (simp add: part_addr_def)
  have p_id: "st = 0xEB \<Longrightarrow> keep_ev (skip data 8) (off + 32, e) = Inr (off + 40, e)" for e
    using id by (simp add: keep_ev_def)
  have p_cpu: "part_cpu data (off + 32 + ?i, e) = Inr (off + 40 + ?i, e\<lparr>h_cpu := sm_cpu s\<rparr>)" for e
    using cpu res i32 by (simp add: part_cpu_def rd_i32_def algebra_simps del: power_numeral split: if_splits)
  have p_chain: "keep_ev (counted data 8) (off + 40 + ?i, e) = Inr (off + int (length (enc_sample st s)), e)" for e
    using nr' chain total by (simp add: keep_ev_def counted_def algebra_simps split: if_splits)
  from st show ?thesis
  proof
    assume 1: "st = 0xAB"
    show ?thesis
      using p_cpu p_chain unfolding 1
      by (simp add: parse_record_def parse_sample_def parts_def hd p_ip p_tid p_addr apply_sample_def)
  next
    assume 2: "st = 0xEB"
    have c: "part_cpu data (off + 40, e) = Inr (off + 48, e\<lparr>h_cpu := sm_cpu s\<rparr>)"
      "keep_ev (counted data 8) (off + 48, e) = Inr (off + int (length (enc_sample 0xEB s)), e)" for e
      using p_cpu [of e] p_chain [of e] 2 by (simp_all add: algebra_simps)
    show ?thesis
      using p_id [OF 2] unfolding 2
      by (simp add: parse_record_def parse_sample_def parts_def hd p_ip p_tid p_addr c apply_sample_def)
  qed
qed

lemma enc_length: "8 \<le> length (enc_sample st s)"
  by (simp add: enc_sample_def)

lemma samples_parsed:
  assumes "has_bytes data off (concat (map (enc_sample st) ss))" and "st = 0xAB \<or> st = 0xEB"
    and "\<forall>s \<in> set ss. smp_ok s" and "length ss \<le> n"
    and "len = off + int (length (concat (map (enc_sample st) ss)))"
  shows "parse_records n data st rf rm len (off, ev) = Inr (len, fold apply_sample ss ev)"
  using assms
proof (induction ss arbitrary: off ev n)
  case Nil
  then show ?case by (simp add: records_Suc)
next
  case (Cons s ss)
  from Cons.prems(4) obtain k where k: "n = Suc k" "length ss \<le> k" by (auto simp: Suc_le_eq dest: less_imp_Suc_add)
  have a: "has_bytes data off (enc_sample st s)"
    "has_bytes data (off + int (length (enc_sample st s))) (concat (map (enc_sample st) ss))"
    using at_appendD [of data off "enc_sample st s"] Cons.prems(1) by simp_all
  have "smp_ok s" using Cons.prems(3) by simp
  note p = sample_parsed [OF a(1) Cons.prems(2) this]
  have "off < len" using Cons.prems(5) enc_length [of st s] by simp
  moreover have "parse_records k data st rf rm len (off + int (length (enc_sample st s)), apply_sample s ev) =
      Inr (len, fold apply_sample ss (apply_sample s ev))"
    by (rule Cons.IH [OF a(2) Cons.prems(2)]) (use Cons.prems(3,5) k in simp_all)
  ultimately show ?case using p k by (simp add: records_Suc)
qed

lemma last_sample: "ss \<noteq> [] \<Longrightarrow> fold apply_sample ss ev = apply_sample (last ss) ev"
proof (induction ss arbitrary: ev rule: rev_induct)
  case (snoc s ss)
  then show ?case by (cases "ss = []") (simp_all add: apply_sample_def)
qed simp

section \<open>The ring\<close>

text \<open>The kernel has written \<open>bs\<close> at stream position \<open>pos\<close>.\<close>

definition ring_holds :: "u8 list \<Rightarrow> int \<Rightarrow> u8 list \<Rightarrow> bool" where
  "ring_holds ring pos bs \<longleftrightarrow> length bs \<le> length ring \<and>
     (\<forall>i < length bs. ring ! nat ((pos + int i) mod int (length ring)) = bs ! i)"

lemma ring_unrolled:
  assumes "ring_holds ring pos bs" and w0: "pos mod int (length ring) = int w" and w: "w < length ring"
  shows "take (length bs) (drop w ring @ take w ring) = bs"
proof (rule nth_equalityI)
  let ?n = "int (length ring)"
  define data where "data = drop w ring @ take w ring"
  have "length data = length ring" using w by (simp add: data_def)
  then show "length (take (length bs) data) = length bs" using assms(1) by (simp add: ring_holds_def)
  fix i assume "i < length (take (length bs) data)"
  then have i: "i < length bs" "i < length ring"
    using \<open>length data = length ring\<close> by simp_all
  have "(pos + int i) mod ?n = (int w + int i) mod ?n" using w0 by (metis mod_add_left_eq)
  also have "\<dots> = (if w + i < length ring then int (w + i) else int (w + i - length ring))"
  proof (cases "w + i < length ring")
    case False
    then have "(int w + int i) mod ?n = (int w + int i - ?n) mod ?n" by simp
    also have "\<dots> = int w + int i - ?n"
      by (rule mod_pos_pos_trivial) (use False w i(2) in linarith)+
    finally show ?thesis using False by simp
  qed simp
  finally have "nat ((pos + int i) mod ?n) = (if w + i < length ring then w + i else w + i - length ring)"
    by (cases "w + i < length ring") (simp_all only: if_True if_False nat_int)
  then have "ring ! nat ((pos + int i) mod ?n) = data ! i"
    using w i(2) by (auto simp: data_def nth_append intro: arg_cong [where f = "nth ring"])
  then show "take (length bs) data ! i = bs ! i" using assms(1) i(1) by (simp add: ring_holds_def)
qed

lemma unroll_ok:
  assumes "0 \<le> pos" and "ring \<noteq> []" and "ring_holds ring pos bs"
  shows "\<exists>data. unroll ring (int (length ring)) pos = Inr data \<and> has_bytes data 0 bs"
proof -
  let ?n = "int (length ring)"
  have n: "0 < ?n" using assms(2) by simp
  have "0 \<le> pos mod ?n" using pos_mod_sign [OF n] .
  then obtain w where w0: "pos mod ?n = int w" using nonneg_int_cases by metis
  have w: "w < length ring" using pos_mod_bound [OF n, of pos] w0 by simp
  define data where "data = drop w ring @ take w ring"
  have u: "unroll ring ?n pos = Inr data"
    using w w0 assms(1) by (simp add: unroll_def c_rem_def rd_bytes_def Let_def data_def nat_diff_distrib)
  have "take (length bs) data = bs" unfolding data_def by (rule ring_unrolled [OF assms(3) w0 w])
  then have "data = [] @ bs @ drop (length bs) data" by (metis append_Nil append_take_drop_id)
  then have "has_bytes data 0 bs" unfolding has_bytes_def
    by (intro exI [of _ "[]"] exI [of _ "drop (length bs) data"]) simp
  with u show ?thesis by blast
qed

lemma unroll_fault: "unroll ring b pos = Inl e \<Longrightarrow> e = OutOfBounds"
  by (simp add: unroll_def Let_def rbind_def split: sum.splits) (simp_all add: rd_bytes_def split: if_splits)

lemma unroll_length:
  assumes "unroll ring b pos = Inr data"
  shows "int (length data) = b"
proof -
  from assms obtain x y where xy: "rd_bytes ring (c_rem pos b) (b - c_rem pos b) = Inr x"
    "rd_bytes ring 0 (c_rem pos b) = Inr y" "data = x @ y" by (auto simp: unroll_def Let_def rbind_Inr)
  then show ?thesis by (auto simp: rd_bytes_def split: if_splits)
qed

section \<open>Properties\<close>

text \<open>C12: The reader always returns when raw samples are not asked for. With one turn of the loop per
  8 new bytes it never runs out of fuel, more fuel changes nothing, and the outcome is either the new
  read position with the control page's tail moved there, or a read outside the unrolled buffer.\<close>

theorem perf_mmap_read_returns:
  assumes "st AND 0x400 = 0" and "to_i32 (to_i64 (data_head page) - prev_head) \<le> 8 * int n"
    and "mmap_size \<noteq> 0"
  shows "\<exists>r. (\<forall>m \<ge> n. perf_mmap_read m psz True (Some page) mmap_size prev_head st rf 0 ev = r) \<and>
    (r = Inl OutOfBounds \<or> (\<exists>ev'. r = Inr (to_i64 (data_head page),
       Some (page\<lparr>data_tail := to_i64 (data_head page)\<rparr>), ev')))"
proof (cases "unroll (payload page) (mmap_size * psz) prev_head")
  case (Inl e)
  then have "e = OutOfBounds" by (rule unroll_fault)
  with Inl assms(3) show ?thesis by (intro exI [of _ "Inl OutOfBounds"]) (simp add: perf_mmap_read_def)
next
  case (Inr data)
  let ?p = "\<lambda>m. parse_records m data st rf 0 (to_i32 (to_i64 (data_head page) - prev_head)) (0, ev)"
  have "to_i32 (to_i64 (data_head page) - prev_head) \<le> 0 + 8 * int n" using assms(2) by simp
  from records_fuel [OF assms(1) this, of data rf ev]
  have f: "?p n \<noteq> Inl OutOfFuel" "\<forall>m \<ge> n. ?p m = ?p n" by blast+
  have e: "perf_mmap_read m psz True (Some page) mmap_size prev_head st rf 0 ev =
      rbind (?p n) (\<lambda>(_, ev). Inr (to_i64 (data_head page),
        Some (page\<lparr>data_tail := to_i64 (data_head page)\<rparr>), ev))" if "n \<le> m" for m
  proof -
    have "?p m = ?p n" using f(2) that by blast
    with Inr assms(3) show ?thesis by (simp add: perf_mmap_read_def Let_def)
  qed
  show ?thesis
  proof (cases "?p n")
    case (Inl x)
    then have "x = OutOfBounds" using records_fault f(1) by blast
    with e Inl show ?thesis by (intro exI [of _ "Inl OutOfBounds"]) simp
  next
    case (Inr s)
    obtain o1 e1 where "s = (o1, e1)" by (cases s)
    with e Inr show ?thesis
      by (intro exI [of _ "Inr (to_i64 (data_head page), Some (page\<lparr>data_tail := to_i64 (data_head page)\<rparr>), e1)"])
        simp
  qed
qed

definition demo_smp :: smp where
  "demo_smp = \<lparr>sm_ip = 0xffffffff81000010, sm_pid = 7, sm_tid = 9, sm_addr = 0x1000, sm_id = 3, sm_cpu = 2,
     sm_chain = [5], sm_misc = 0\<rparr>"

text \<open>A ring of 64 bytes with one sample of 56 bytes that wraps at position 40.\<close>

definition demo_page :: mmap_page where
  "demo_page = \<lparr>data_head = 96, data_tail = 40,
     payload = drop 24 (enc_sample 0xAB demo_smp) @ replicate 8 0 @ take 24 (enc_sample 0xAB demo_smp)\<rparr>"

theorem perf_mmap_read_returns_witness:
  "\<exists>r. (\<forall>m \<ge> 7. perf_mmap_read m 64 True (Some demo_page) 1 40 0xAB 0 0 zero_Event = r) \<and>
    (r = Inl OutOfBounds \<or> (\<exists>ev'. r = Inr (to_i64 96, Some (demo_page\<lparr>data_tail := to_i64 96\<rparr>), ev')))"
  using perf_mmap_read_returns [where st = "0xAB" and page = demo_page and prev_head = 40 and n = 7 and mmap_size = 1
      and psz = 64 and rf = 0 and ev = zero_Event] by (simp add: demo_page_def)

text \<open>C5: What the kernel writes is what the tool sees. When the ring holds, from the old read position
  to the new head and possibly wrapped around, the encoding of samples of a breakpoint or PEBS device,
  the reader returns the head, frees the space, and the event carries instruction pointer, data address,
  process, thread and processor of the last of these samples; earlier ones leave no trace.\<close>

theorem perf_mmap_read_roundtrip:
  assumes "st = 0xAB \<or> st = 0xEB" and "ss \<noteq> []" and "\<forall>s \<in> set ss. smp_ok s"
    and "ring_holds (payload page) prev_head (concat (map (enc_sample st) ss))"
    and "0 \<le> prev_head" and "data_head page = prev_head + int (length (concat (map (enc_sample st) ss)))"
    and "data_head page < 2 ^ 63" and "int (length (payload page)) < 2 ^ 31"
    and "mmap_size * psz = int (length (payload page))" and "length ss \<le> n"
  shows "perf_mmap_read n psz True (Some page) mmap_size prev_head st rf rm ev =
    Inr (data_head page, Some (page\<lparr>data_tail := data_head page\<rparr>), apply_sample (last ss) ev)"
proof -
  let ?bs = "concat (map (enc_sample st) ss)"
  have "enc_sample st (hd ss) \<noteq> []" using enc_length [of st "hd ss"] by auto
  then have "?bs \<noteq> []" using assms(2) by (cases ss) simp_all
  then have ne: "payload page \<noteq> []" using assms(4) by (auto simp: ring_holds_def)
  from unroll_ok [OF assms(5) ne assms(4)] obtain data where
    u: "unroll (payload page) (int (length (payload page))) prev_head = Inr data" "has_bytes data 0 ?bs" by blast
  have l: "int (length ?bs) < 2 ^ 31" using assms(4,8) by (simp add: ring_holds_def)
  have h: "to_i64 (data_head page) = data_head page"
    by (rule to_i64_id) (use assms(5-7) in simp_all)
  have len: "to_i32 (data_head page - prev_head) = int (length ?bs)" using l assms(6) by simp
  have "mmap_size \<noteq> 0" using assms(9) ne by auto
  moreover have "parse_records n data st rf rm (int (length ?bs)) (0, ev) = Inr (int (length ?bs), fold apply_sample ss ev)"
    by (rule samples_parsed [OF u(2) assms(1,3,10)]) simp
  ultimately show ?thesis
    using u(1) assms(9) last_sample [OF assms(2)] by (simp add: perf_mmap_read_def Let_def h len)
qed

lemma demo_length: "length (enc_sample 0xAB demo_smp) = 56"
  by (simp add: enc_sample_def enc_body_def demo_smp_def)

lemma ring_holds_wrap:
  assumes "k \<le> length bs" and "0 \<le> pos" and "pos mod int (length bs + length zs) = int (length bs + length zs - k)"
  shows "ring_holds (drop k bs @ zs @ take k bs) pos bs"
  unfolding ring_holds_def
proof (intro conjI allI impI)
  let ?r = "drop k bs @ zs @ take k bs" and ?n = "length bs + length zs"
  have n: "length ?r = ?n" using assms(1) by simp
  then show "length bs \<le> length ?r" by simp
  fix i assume i: "i < length bs"
  have "(pos + int i) mod int ?n = (int (?n - k) + int i) mod int ?n"
    using assms(3) by (metis mod_add_left_eq)
  also have "\<dots> = (if i < k then int (?n - k + i) else int (i - k))"
  proof (cases "i < k")
    case False
    then have "(int (?n - k) + int i) mod int ?n = (int (i - k) + int ?n) mod int ?n"
      using assms(1) by (simp add: of_nat_diff algebra_simps)
    also have "\<dots> = int (i - k)" using i by simp
    finally show ?thesis using False by simp
  qed (use assms(1) i in simp)
  finally have "nat ((pos + int i) mod int (length ?r)) = (if i < k then ?n - k + i else i - k)"
    unfolding n by (cases "i < k") (simp_all only: if_True if_False nat_int)
  then show "?r ! nat ((pos + int i) mod int (length ?r)) = bs ! i"
    using assms(1) i by (auto simp: nth_append)
qed

theorem perf_mmap_read_roundtrip_witness:
  "perf_mmap_read 1 64 True (Some demo_page) 1 40 0xAB 0 0 zero_Event =
     Inr (96, Some (demo_page\<lparr>data_tail := 96\<rparr>), apply_sample demo_smp zero_Event)"
proof -
  have "ring_holds (payload demo_page) 40 (enc_sample 0xAB demo_smp)"
    unfolding demo_page_def mmap_page.simps
    by (rule ring_holds_wrap) (simp_all add: demo_length)
  moreover have "smp_ok demo_smp" by (simp add: smp_ok_def demo_smp_def)
  ultimately show ?thesis
    using perf_mmap_read_roundtrip [where st = "0xAB" and ss = "[demo_smp]" and page = demo_page and prev_head = 40
        and n = 1 and psz = 64 and mmap_size = 1 and rf = 0 and rm = 0 and ev = zero_Event]
    by (simp add: demo_page_def demo_length)
qed

text \<open>C39: When the kernel has written more than a buffer ahead of the reader, the code reports it and
  parses on: the walk leaves the heap buffer, so the call ends in a read outside it (a prefix of the
  records is never enough to stop it).\<close>

theorem perf_mmap_read_overrun:
  assumes "mmap_size * psz + 4 < to_i32 (to_i64 (data_head page) - prev_head)" and "mmap_size \<noteq> 0"
    and "st AND 0x400 = 0" and "to_i32 (to_i64 (data_head page) - prev_head) \<le> 8 * int n"
  shows "perf_mmap_read n psz True (Some page) mmap_size prev_head st rf 0 ev = Inl OutOfBounds"
proof (cases "unroll (payload page) (mmap_size * psz) prev_head")
  case (Inl e)
  then have "e = OutOfBounds" by (rule unroll_fault)
  with Inl assms(2) show ?thesis by (simp add: perf_mmap_read_def)
next
  case (Inr data)
  let ?len = "to_i32 (to_i64 (data_head page) - prev_head)"
  let ?p = "parse_records n data st rf 0 ?len (0, ev)"
  have d: "int (length data) = mmap_size * psz" using unroll_length [OF Inr] .
  have "0 < ?len" using d assms(1) by linarith
  have "?p = Inl OutOfBounds"
  proof (cases ?p)
    case (Inl x)
    have "?len \<le> 0 + 8 * int n" using assms(4) by simp
    from records_fuel [OF assms(3) this, of data rf ev] have "?p \<noteq> Inl OutOfFuel" by blast
    with Inl records_fault show ?thesis by blast
  next
    case (Inr s)
    then have "?p = Inr (fst s, snd s)" by simp
    from records_end [OF this assms(3) \<open>0 < ?len\<close>] d assms(1) show ?thesis by linarith
  qed
  with Inr assms(2) show ?thesis by (simp add: perf_mmap_read_def Let_def)
qed

theorem perf_mmap_read_overrun_witness:
  "perf_mmap_read 20 64 True (Some (demo_page\<lparr>data_head := 200\<rparr>)) 1 40 0xAB 0 0 zero_Event = Inl OutOfBounds"
  using perf_mmap_read_overrun [where mmap_size = 1 and psz = 64 and page = "demo_page\<lparr>data_head := 200\<rparr>"
      and prev_head = 40 and st = "0xAB" and n = 20 and rf = 0 and ev = zero_Event] by simp

text \<open>Asking for raw samples makes the reader loop forever on a record whose raw size is negative:
  the size is added to the offset unchecked, and with \<open>-12\<close> the walk is back at the record's header.
  No amount of fuel ends it.\<close>

theorem raw_size_loops_forever:
  "perf_mmap_read n 16 True (Some \<lparr>data_head = 12, data_tail = 0,
     payload = [9, 0, 0, 0, 0, 0, 12, 0, 244, 255, 255, 255, 0, 0, 0, 0]\<rparr>) 1 0 0x400 0 0 ev = Inl OutOfFuel"
proof -
  let ?d = "[9, 0, 0, 0, 0, 0, 12, 0, 244, 255, 255, 255, 0, 0, 0, 0] :: u8 list"
  have r: "parse_record ?d 0x400 0 0 (0, ev) = Inr (0, ev)"
    by (simp add: parse_record_def parse_sample_def parts_def part_raw_def keep_ev_def rd_i32_def rd_le_def
        to_i32_def)
  have "parse_records n ?d 0x400 0 0 12 (0, ev) = Inl OutOfFuel"
    by (induction n) (simp_all add: records_Suc r)
  then show ?thesis
    by (simp add: perf_mmap_read_def unroll_def c_rem_def rd_bytes_def)
qed

end
