(* ===== verification/Ring_Buffer.thy ===== *)
theory Ring_Buffer
  imports Perf_Props
begin

text \<open>
  \<^verbatim>\<open>src/tools/witchTool/watchpoint-lib/src/watchpoint_mmap.cpp\<close>: reading from the ring buffer of a
  watchpoint's device. The buffer is a queue of bytes: \<open>queued\<close> says which bytes wait in it, and the
  operations take bytes from its front. \<open>uint64_t\<close> counters are integers in the type's range.
\<close>

section \<open>Operations\<close>

text \<open>\<open>Inr (page, None)\<close> is the return value \<open>-1\<close>.\<close>

definition ReadMmapBuffer :: "int \<Rightarrow> int \<Rightarrow> mmap_page \<Rightarrow> (mmap_page \<times> u8 list option) res" where
  "ReadMmapBuffer sz pgsz hdr =
     (let pgmsk = pgsz - 1; tail = data_tail hdr AND pgmsk;
          avail_sz = to_u64 (data_head hdr - data_tail hdr)
      in if sz > avail_sz then Inr (hdr, None)
         else let c = pgmsk + 1 - tail; m = (if c < sz then c else sz)
              in rbind (rd_bytes (payload hdr) tail m) (\<lambda>a.
                 rbind (if sz > m then rd_bytes (payload hdr) 0 (sz - m) else Inr []) (\<lambda>b.
                   Inr (hdr\<lparr>data_tail := to_u64 (data_tail hdr + sz)\<rparr>, Some (a @ b)))))"

definition ConsumeAllRingBufferData :: "mmap_page \<Rightarrow> mmap_page" where
  "ConsumeAllRingBufferData hdr = hdr\<lparr>data_tail := data_head hdr\<rparr>"

text \<open>
  The trigger information: \<open>pc\<close>, \<open>pcPrecise\<close> and \<open>va\<close> of \<open>wpt\<close>; \<open>None\<close> is the return value false.
\<close>

definition WP_CollectTriggerInfo ::
  "u64 \<Rightarrow> int \<Rightarrow> mmap_page \<Rightarrow> (mmap_page \<times> (u64 \<times> bool \<times> u64) option) res" where
  "WP_CollectTriggerInfo va pgsz buf =
     rbind (ReadMmapBuffer 8 pgsz buf) (\<lambda>(buf, r).
     case r of None \<Rightarrow> Inr (buf, None)
     | Some hdr \<Rightarrow>
         rbind (rd_le 4 hdr 0) (\<lambda>type. rbind (rd_le 2 hdr 4) (\<lambda>misc.
         if type = 9
         then (if type AND 1 = 0 then Inl AssertFailed
               else rbind (ReadMmapBuffer 8 pgsz buf) (\<lambda>(buf, r).
                    case r of None \<Rightarrow> Inr (buf, None)
                    | Some ip \<Rightarrow> Inr (ConsumeAllRingBufferData buf,
                        Some (word_of_int (le_val ip), misc AND 0x4000 \<noteq> 0, va))))
         else Inr (ConsumeAllRingBufferData buf, None))))"

section \<open>The buffer as a queue of bytes\<close>

definition queued :: "mmap_page \<Rightarrow> u8 list \<Rightarrow> bool" where
  "queued hdr bs \<longleftrightarrow> ring_holds (payload hdr) (data_tail hdr) bs \<and> 0 \<le> data_tail hdr \<and>
     data_head hdr = data_tail hdr + int (length bs) \<and> data_head hdr < 2 ^ 64"

lemma ring_holds_drop:
  assumes "ring_holds ring pos bs" and "n \<le> length bs"
  shows "ring_holds ring (pos + int n) (drop n bs)"
proof -
  have "ring ! nat ((pos + int n + int i) mod int (length ring)) = bs ! (n + i)" if "i < length bs - n" for i
    using assms that by (auto simp: ring_holds_def add.assoc dest!: spec [of _ "n + i"])
  moreover have "length bs - n \<le> length ring" using assms(1) by (auto simp: ring_holds_def intro: le_trans [OF diff_le_self])
  ultimately show ?thesis using assms(2) by (simp add: ring_holds_def)
qed

lemma mask_mod: "0 \<le> t \<Longrightarrow> t AND (2 ^ k - 1) = t mod (2 ^ k :: int)"
  by (metis mask_eq_exp_minus_1 take_bit_eq_mask take_bit_eq_mod)

lemma read_front:
  assumes q: "queued hdr bs" and n: "n \<le> length bs" and pg: "length (payload hdr) = 2 ^ k"
  shows "ReadMmapBuffer (int n) (2 ^ k) hdr =
      Inr (hdr\<lparr>data_tail := data_tail hdr + int n\<rparr>, Some (take n bs))"
    and "queued (hdr\<lparr>data_tail := data_tail hdr + int n\<rparr>) (drop n bs)"
proof -
  let ?r = "payload hdr" and ?t = "data_tail hdr"
  have t: "0 \<le> ?t" and h: "data_head hdr = ?t + int (length bs)" "data_head hdr < 2 ^ 64"
    and rh: "ring_holds ?r ?t bs" using q by (simp_all add: queued_def)
  have len: "int (length ?r) = 2 ^ k" using pg by simp
  have pos: "0 < (2 :: int) ^ k" by simp
  from pos_mod_sign [OF pos, of ?t] obtain w where w0: "?t mod int (length ?r) = int w"
    using len nonneg_int_cases by metis
  have w: "w < length ?r" using pos_mod_bound [OF pos, of ?t] w0 unfolding len by (metis len of_nat_less_iff)
  have bl: "length bs \<le> length ?r" using rh by (simp add: ring_holds_def)
  have mask: "?t AND (2 ^ k - 1) = int w" using mask_mod [OF t] w0 len by simp
  have av: "to_u64 (data_head hdr - ?t) = int (length bs)" using h t by (simp add: to_u64_def)
  have ft: "to_u64 (?t + int n) = ?t + int n" using h t n by simp
  have un: "take n (drop w ?r @ take w ?r) = take n bs"
    using ring_unrolled [OF rh w0 w] n by (metis min.absorb1 take_take)
  show "queued (hdr\<lparr>data_tail := ?t + int n\<rparr>) (drop n bs)"
    using ring_holds_drop [OF rh n] h t n by (simp add: queued_def)
  show "ReadMmapBuffer (int n) (2 ^ k) hdr = Inr (hdr\<lparr>data_tail := ?t + int n\<rparr>, Some (take n bs))"
  proof (cases "n \<le> length ?r - w")
    case True
    then have "take n (drop w ?r) = take n bs" using un by simp
    moreover have "\<not> 2 ^ k - int w < int n" using True w len by linarith
    ultimately show ?thesis
      using n w True len by (simp add: ReadMmapBuffer_def Let_def mask av ft rd_bytes_def)
  next
    case False
    then have s: "drop w ?r @ take (n - (length ?r - w)) ?r = take n bs"
      using un n bl by (simp add: take_append min_def split: if_splits)
    have lt: "2 ^ k - int w < int n" using False w len by linarith
    have a: "rd_bytes ?r (int w) (2 ^ k - int w) = Inr (drop w ?r)"
      using w len by (simp add: rd_bytes_def nat_diff_distrib flip: len)
    have b: "rd_bytes ?r 0 (int n - (2 ^ k - int w)) = Inr (take (n - (length ?r - w)) ?r)"
    proof -
      have "int n - (2 ^ k - int w) = int (n - (length ?r - w))" using False w len by linarith
      moreover have "n - (length ?r - w) \<le> length ?r" using n bl by simp
      ultimately show ?thesis by (simp add: rd_bytes_def)
    qed
    show ?thesis using n lt a b s by (simp add: ReadMmapBuffer_def Let_def mask av ft)
  qed
qed

section \<open>Properties\<close>

text \<open>C11: The ring buffer of one page refines a queue of bytes, wherever the read position lies and
  however often it has wrapped: a read of at most as many bytes as wait returns them in order and leaves
  the queue without them; a larger read fails and changes nothing; consuming everything leaves the empty
  queue.\<close>

theorem ring_buffer_refines_queue:
  assumes "queued hdr bs" and "length (payload hdr) = 2 ^ k"
  shows "(n \<le> length bs \<longrightarrow> (\<exists>hdr'. ReadMmapBuffer (int n) (2 ^ k) hdr = Inr (hdr', Some (take n bs)) \<and>
      queued hdr' (drop n bs) \<and> payload hdr' = payload hdr)) \<and>
    (length bs < n \<longrightarrow> ReadMmapBuffer (int n) (2 ^ k) hdr = Inr (hdr, None)) \<and>
    queued (ConsumeAllRingBufferData hdr) []"
proof (intro conjI)
  show "n \<le> length bs \<longrightarrow> (\<exists>hdr'. ReadMmapBuffer (int n) (2 ^ k) hdr = Inr (hdr', Some (take n bs)) \<and>
      queued hdr' (drop n bs) \<and> payload hdr' = payload hdr)"
  proof
    assume "n \<le> length bs"
    from read_front [OF assms(1) this assms(2)]
    show "\<exists>hdr'. ReadMmapBuffer (int n) (2 ^ k) hdr = Inr (hdr', Some (take n bs)) \<and>
        queued hdr' (drop n bs) \<and> payload hdr' = payload hdr"
      by (intro exI [of _ "hdr\<lparr>data_tail := data_tail hdr + int n\<rparr>"]) simp
  qed
  have "to_u64 (data_head hdr - data_tail hdr) = int (length bs)"
    using assms(1) by (simp add: queued_def to_u64_def)
  then show "length bs < n \<longrightarrow> ReadMmapBuffer (int n) (2 ^ k) hdr = Inr (hdr, None)"
    by (simp add: ReadMmapBuffer_def)
  show "queued (ConsumeAllRingBufferData hdr) []"
    using assms(1) by (auto simp: queued_def ConsumeAllRingBufferData_def ring_holds_def)
qed

text \<open>A page of 4 bytes with 3 of them waiting, the last one wrapped around.\<close>

definition demo_ring :: mmap_page where
  "demo_ring = \<lparr>data_head = 9, data_tail = 6, payload = [3, 0, 1, 2]\<rparr>"

theorem ring_buffer_refines_queue_witness:
  "(\<exists>hdr'. ReadMmapBuffer 3 4 demo_ring = Inr (hdr', Some [1, 2, 3]) \<and> queued hdr' []) \<and>
   ReadMmapBuffer 4 4 demo_ring = Inr (demo_ring, None) \<and> queued (ConsumeAllRingBufferData demo_ring) []"
proof -
  have "queued demo_ring [1, 2, 3]"
    by (simp add: queued_def demo_ring_def ring_holds_def numeral_eq_Suc less_Suc_eq)
  moreover have "length (payload demo_ring) = 2 ^ 2" by (simp add: demo_ring_def)
  ultimately show ?thesis
    using ring_buffer_refines_queue [of demo_ring "[1, 2, 3]" 2 3] ring_buffer_refines_queue [of demo_ring "[1, 2, 3]" 2 4]
    by auto
qed

end
