(* ===== verification/Witch_Tool.thy ===== *)
theory Witch_Tool
  imports Watch_Grant Ring_Buffer
begin

text \<open>
  \<^verbatim>\<open>src/tools/witchTool/mytool.cpp\<close>: sessions, and what the tool does with an event of each device;
  the device handlers that lead to it (\<^verbatim>\<open>src/platform/device/device.cpp\<close>, \<^verbatim>\<open>src/agent/agent.cpp\<close>), the
  interface the hypervisor calls (\<^verbatim>\<open>src/agent/kvmAgent/kvminterface.cpp\<close>) and the backtrace of the
  native agent.
\<close>

section \<open>Sessions\<close>

definition WPInitOnce :: "'a env \<Rightarrow> int \<Rightarrow> bool \<Rightarrow> u64 \<Rightarrow> 'a tool \<Rightarrow> 'a tool res" where
  "WPInitOnce E tid ok dummyWP s =
     (if WPInitFlag s then Inr s
      else rbind (WP_Init E tid ok dummyWP (s\<lparr>WPInitFlag := True\<rparr>)) (\<lambda>(s, _). Inr s))"

definition sampled_access :: "'a env \<Rightarrow> AccessType" where
  "sampled_access E = (case logicType E of
       LOADSPY \<Rightarrow> LOAD
     | DUPSPY \<Rightarrow> if DUPSPY_LOAD (spycfg E) then LOAD else STORE
     | _ \<Rightarrow> STORE)"

text \<open>
  The results of \<open>WP_ThreadInit\<close> and \<open>registerDevice\<close> are not looked at. \<open>fresh\<close>, \<open>set_ok\<close> and \<open>time\<close> are
  the allocation, the success of \<open>pthread_setspecific\<close> and the seed.
\<close>

definition tool_sessionInit ::
  "'a env \<Rightarrow> int \<Rightarrow> bool \<Rightarrow> u64 \<Rightarrow> WP_ThreadData option \<Rightarrow> bool \<Rightarrow> int \<Rightarrow> 'a tool \<Rightarrow> 'a tool res" where
  "tool_sessionInit E tid ok dummyWP fresh set_ok time s =
     rbind (WPInitOnce E tid ok dummyWP s) (\<lambda>s.
     rbind (WP_ThreadInit tid fresh set_ok time s) (\<lambda>(s, _).
     rbind (generate_session_key tid (pl s)) (\<lambda>q.
       let sessionId = get_session_key tid q; (q, p) = new_dev (new_PEBSDevice (sampled_access E)) q
       in rbind (registerDevice (ops E) (sysos E) (devcfg E) tid sessionId p q) (\<lambda>(q, _).
            Inr (s\<lparr>pl := q\<rparr>)))))"

definition tool_sessionExit :: "'a env \<Rightarrow> int \<Rightarrow> 'a tool \<Rightarrow> 'a tool res" where
  "tool_sessionExit E tid s =
     rbind (WP_ThreadTerminate E tid s) (\<lambda>s.
     rbind (remove_device_by_session (ops E) (sysos E) tid (get_session_key tid (pl s)) (pl s)) (\<lambda>q.
       Inr (s\<lparr>pl := q\<rparr>)))"

section \<open>Events\<close>

text \<open>The instructions the build is told to leave alone, by their first byte.\<close>

definition avoided :: "'a env \<Rightarrow> Event \<Rightarrow> bool" where
  "avoided E ev \<longleftrightarrow> AVOID_PUSH E \<and> inst ev = 0x41 \<or> AVOID_CALLQ E \<and> inst ev = 0xE8 \<or> AVOID_LOCK E \<and> inst ev = 0xF0"

definition subscribe_sample :: "'a env \<Rightarrow> int \<Rightarrow> int \<Rightarrow> nat \<Rightarrow> Event \<Rightarrow> 'a tool \<Rightarrow> ('a tool \<times> int) res" where
  "subscribe_sample E tid now e ev s =
     (let watchLen = GetFloorWPLength (accessLength ev)
      in if logicType E = REDSPY then WP_Subscribe E tid now (h_data_addr ev) watchLen WP_WRITE (Some e) s
         else if logicType E = DUPSPY then WP_Subscribe E tid now (h_ip_addr ev) 8 WP_INST (Some e) s
         else WP_Subscribe E tid now (h_data_addr ev) watchLen WP_RW (Some e) s)"

definition kernel_ip :: "Event \<Rightarrow> bool" where
  "kernel_ip ev \<longleftrightarrow> h_data_addr ev \<noteq> 0 \<and> h_ip_addr ev \<noteq> 0 \<and> h_ip_addr ev > 0xfffff00000000000"

definition excluded_ip :: "Event \<Rightarrow> bool" where
  "excluded_ip ev \<longleftrightarrow> 0xffffffff810bb1f0 \<le> h_ip_addr ev \<and> h_ip_addr ev \<le> 0xffffffff811271a0"

definition tool_PEBSEventHandler :: "'a env \<Rightarrow> int \<Rightarrow> int \<Rightarrow> nat \<Rightarrow> 'a tool \<Rightarrow> 'a tool res" where
  "tool_PEBSEventHandler E tid now e s =
     rbind (get_ev e s) (\<lambda>ev.
     if \<not> kernel_ip ev then Inr s
     else rbind (if isFixed ev then Inr (s, True) else fixIP E tid e s) (\<lambda>(s, fixed).
     if \<not> fixed then Inr s
     else rbind (get_ev e s) (\<lambda>ev.
     if accessType ev = UNKNOWN \<or> excluded_ip ev then Inr s
     else if avoided E ev then del_ev e s
     else rbind (spy_OnSample (logicType E) ev (spies s)) (\<lambda>(sp, ok).
          let s = s\<lparr>spies := sp\<rparr>
          in if \<not> ok then Inr s
             else rbind (subscribe_sample E tid now e ev s) (\<lambda>(s, _). Inr s)))))"

definition tool_BPEventHandler :: "'a env \<Rightarrow> int \<Rightarrow> nat \<Rightarrow> device \<Rightarrow> 'a tool \<Rightarrow> 'a tool res" where
  "tool_BPEventHandler E tid e d s = OnWatchPoint E tid (device.deviceFileId d) e s"

definition tool_eventHandler :: "'a env \<Rightarrow> int \<Rightarrow> int \<Rightarrow> nat \<Rightarrow> nat \<Rightarrow> 'a tool \<Rightarrow> 'a tool res" where
  "tool_eventHandler E tid now e p s =
     rbind (getd p (pl s)) (\<lambda>d.
       if deviceType d = PEBSDEVICE then tool_PEBSEventHandler E tid now e s
       else if deviceType d = BPDEVICE then tool_BPEventHandler E tid e d s
       else Inr s)"

definition tool_doPostProcess :: "'a env \<Rightarrow> print_cfg \<Rightarrow> 'a tool \<Rightarrow> ('a tool \<times> out_line list) res" where
  "tool_doPostProcess E cfg s =
     (let sp = spies s
      in case logicType E of
           DEADSPY \<Rightarrow> rbind (DeadStore_printContextTree (spycfg E) cfg (sp_dead sp)) (\<lambda>(d, ls).
             Inr (s\<lparr>spies := sp\<lparr>sp_dead := d\<rparr>\<rparr>, ls))
         | LOADSPY \<Rightarrow> rbind (LoadSpy_printContextTree (spycfg E) cfg (sp_load sp)) (\<lambda>(d, ls).
             Inr (s\<lparr>spies := sp\<lparr>sp_load := d\<rparr>\<rparr>, ls))
         | REDSPY \<Rightarrow> rbind (RedSpy_printContextTree (spycfg E) cfg (sp_red sp)) (\<lambda>(d, ls).
             Inr (s\<lparr>spies := sp\<lparr>sp_red := d\<rparr>\<rparr>, ls))
         | DUPSPY \<Rightarrow> rbind (DupSpy_printContextTree (sp_dup sp)) (\<lambda>(d, ls).
             Inr (s\<lparr>spies := sp\<lparr>sp_dup := d\<rparr>\<rparr>, ls))
         | FALSESHARE \<Rightarrow> rbind (FalseSharing_printContextTree cfg (sp_false sp)) (\<lambda>(d, ls).
             Inr (s\<lparr>spies := sp\<lparr>sp_false := d\<rparr>\<rparr>, ls)))"

section \<open>A new event\<close>

text \<open>\<open>new Event()\<close>: the next key of the event heap.\<close>

definition alloc_ev :: "Event \<Rightarrow> 'a tool \<Rightarrow> 'a tool \<times> nat" where
  "alloc_ev ev s = (s\<lparr>evs := (evs s)(next_ev s \<mapsto> ev), next_ev := Suc (next_ev s)\<rparr>, next_ev s)"

text \<open>
  \<open>NUM_MMAP_PAGES\<close> pages of records behind the metadata page. \<open>page\<close> is the mapped buffer of the
  device and what the kernel has written there; the read moves its \<open>data_tail\<close>. \<open>fuel\<close> bounds the
  record loops as in \<open>perf_mmap_read\<close>.
\<close>

definition NUM_MMAP_PAGES :: int where "NUM_MMAP_PAGES = 8"

definition handle_perf_event ::
  "nat \<Rightarrow> int \<Rightarrow> bool \<Rightarrow> mmap_page option \<Rightarrow> Event \<Rightarrow> nat \<Rightarrow> 'a tool \<Rightarrow>
    ('a tool \<times> mmap_page option \<times> Event) res" where
  "handle_perf_event fuel pagesize malloc_ok page junk p s =
     rbind (getd p (pl s)) (\<lambda>d.
       let (q, k) = generate_event_key (pl s);
           ev = (new_Event junk)\<lparr>eventId := k, Event.deviceFileId := device.deviceFileId d\<rparr>
       in rbind (perf_mmap_read fuel pagesize malloc_ok page NUM_MMAP_PAGES (read_head d) (to_i32 (pa_sample_type (pe_attr d))) 0 0 ev)
            (\<lambda>(h, page, ev).
              let ev = (if sample_index ev \<noteq> 0 then ev\<lparr>eventId := to_i32 (sample_index ev)\<rparr> else ev)
              in Inr (s\<lparr>pl := setd p (d\<lparr>read_head := h\<rparr>) q\<rparr>, page, ev)))"

section \<open>The native agent\<close>

text \<open>
  \<open>steps\<close> are the frames libunwind answers, innermost first: the instruction pointer and whether it
  is a signal frame; \<open>start\<close> is \<open>Symbol::getStartAddress\<close> on a \<open>long\<close>. \<open>new_frame\<close> is the \<open>k\<close>-th frame allocated,
  with what a constructor leaves. Functions seen before are skipped, as are frames of unknown
  functions and all frames up to the signal frame.
\<close>

fun backtrace ::
  "(int \<Rightarrow> int) \<Rightarrow> (nat \<Rightarrow> ContextFrame) \<Rightarrow> u64 \<Rightarrow> nat \<Rightarrow> bool \<Rightarrow> int \<Rightarrow> int set \<Rightarrow> (int \<times> bool) list \<Rightarrow> ContextFrame list" where
  "backtrace start new_frame h_ip k inSignal parent seen_fns [] = []"
| "backtrace start new_frame h_ip k inSignal parent seen_fns ((ip, signal) # steps) =
     (let f = new_frame k;
          f = (if \<not> inSignal then f\<lparr>binary_addr := ip, method_name := '''', source_file := ''''\<rparr> else f);
          inSignal = (inSignal \<and> \<not> signal);
          f = (if signal then f\<lparr>binary_addr := uint h_ip, method_name := '''', source_file := ''''\<rparr> else f);
          fn_start = start (to_i64 ip)
      in if fn_start \<noteq> -1 \<and> \<not> inSignal \<and> parent \<noteq> to_i64 ip
         then if fn_start \<in> seen_fns then backtrace start new_frame h_ip (Suc k) inSignal parent seen_fns steps
              else f # backtrace start new_frame h_ip (Suc k) inSignal (to_i64 ip) (insert fn_start seen_fns) steps
         else backtrace start new_frame h_ip (Suc k) inSignal parent seen_fns steps)"

definition agent_retrieveBacktrace ::
  "(int \<Rightarrow> int) \<Rightarrow> (nat \<Rightarrow> ContextFrame) \<Rightarrow> (int \<times> bool) list \<Rightarrow> Event \<Rightarrow> Event" where
  "agent_retrieveBacktrace start new_frame steps ev =
     ev\<lparr>eventContext_host := eventContext_host ev @ backtrace start new_frame (h_ip_addr ev) 0 True (-1) {} steps\<rparr>"

definition native_processEvent :: "Event \<Rightarrow> Event" where
  "native_processEvent ev = ev\<lparr>ip_addr := h_ip_addr ev, data_addr := h_data_addr ev, cpu := h_cpu ev,
     pId := h_pId ev, tId := h_tId ev, eventContext_agent := eventContext_host ev\<rparr>"

text \<open>\<open>Device::dev_signal_handler\<close> with the native agent, the only one that has \<open>agent_retrieveBacktrace\<close>.\<close>

definition dev_signal_handler ::
  "'a env \<Rightarrow> int \<Rightarrow> int \<Rightarrow> (Event \<Rightarrow> Event) \<Rightarrow> nat \<Rightarrow> int \<Rightarrow> bool \<Rightarrow> mmap_page option \<Rightarrow> Event \<Rightarrow> nat \<Rightarrow>
    'a tool \<Rightarrow> ('a tool \<times> mmap_page option) res" where
  "dev_signal_handler E tid now retrieve fuel pagesize malloc_ok page junk p s =
     rbind (handle_perf_event fuel pagesize malloc_ok page junk p s) (\<lambda>(s, page, ev).
     rbind (getd p (pl s)) (\<lambda>d.
       let ev = (if deviceType d = BPDEVICE then ev\<lparr>fixSkid := True\<rparr> else ev);
           (s, e) = alloc_ev (native_processEvent (retrieve ev)) s
       in if requestWillBeNotified (ops E) then Inr (s, page)
          else rbind (tool_eventHandler E tid now e p s) (\<lambda>s. Inr (s, page))))"

section \<open>The KVM agent\<close>

text \<open>What \<open>processEvent\<close> sends to the hypervisor: the event's id and thread.\<close>

definition kvm_processEvent :: "Event \<Rightarrow> kvm_agent \<Rightarrow> (int \<times> int) list" where
  "kvm_processEvent ev a = (case hyPerfDev a of None \<Rightarrow> [] | Some hv \<Rightarrow> [(to_i32 (sample_index ev), h_tId ev)])"

definition postAgentProcessing :: "'a env \<Rightarrow> int \<Rightarrow> int \<Rightarrow> nat option \<Rightarrow> nat \<Rightarrow> int \<Rightarrow> 'a tool \<Rightarrow> 'a tool res" where
  "postAgentProcessing E tid now event p sessionId s =
     (if requestWillBeNotified (ops E)
      then rbind (case event of None \<Rightarrow> Inr s | Some e \<Rightarrow> tool_eventHandler E tid now e p s) (\<lambda>s.
           rbind (resume_devices_by_session (ops E) tid sessionId (pl s)) (\<lambda>q. Inr (s\<lparr>pl := q\<rparr>)))
      else Inr s)"

text \<open>The null pointer of a device that is not found is only reported before it is used.\<close>

definition done_processEvent :: "'a env \<Rightarrow> int \<Rightarrow> int \<Rightarrow> nat option \<Rightarrow> int \<Rightarrow> int \<Rightarrow> 'a tool \<Rightarrow> 'a tool res" where
  "done_processEvent E tid now event deviceId sessionId s =
     rbind (get_device tid deviceId (pl s)) (\<lambda>dev.
       case dev of None \<Rightarrow> Inl NullDeref
       | Some p \<Rightarrow> postAgentProcessing E tid now event p sessionId s)"

text \<open>
  The frames the guest sent: those from index 3 on, once one repeats the address before it.
  \<open>new_frame\<close> allocates as above.
\<close>

record VMContextFrame =
  vm_binary_addr :: int
  vm_method_name :: string
  vm_src_lineno :: int

fun guest_frames :: "(nat \<Rightarrow> ContextFrame) \<Rightarrow> nat \<Rightarrow> int \<Rightarrow> bool \<Rightarrow> VMContextFrame list \<Rightarrow> ContextFrame list" where
  "guest_frames new_frame k prev recording [] = []"
| "guest_frames new_frame k prev recording (v # vs) =
     (let recording = (recording \<or> prev = vm_binary_addr v)
      in if recording
         then (new_frame k)\<lparr>binary_addr := vm_binary_addr v, method_name := vm_method_name v,
                source_file := '''', src_lineno := vm_src_lineno v\<rparr> #
              guest_frames new_frame (Suc k) (vm_binary_addr v) recording vs
         else guest_frames new_frame k (vm_binary_addr v) recording vs)"

text \<open>The address spaces the build looks at: \<open>CONSIDER_KERNEL_HEAP\<close>, \<open>CONSIDER_KERNEL_STACK\<close>.\<close>

definition considered :: "bool \<Rightarrow> bool \<Rightarrow> AddressSpaceType \<Rightarrow> bool" where
  "considered heap stack t \<longleftrightarrow> heap \<and> t = KERNEL_HEAP \<or>
     stack \<and> t \<in> {KERNEL_TASK_STACK, KERNEL_IRQ_STACK, KERNEL_NMI_STACK, KERNEL_EXCEPTION_STACK}"

definition guest_event ::
  "Event \<Rightarrow> int \<Rightarrow> int \<Rightarrow> int \<Rightarrow> u64 \<Rightarrow> u64 \<Rightarrow> AddressSpaceType \<Rightarrow> int \<Rightarrow> int \<Rightarrow> Event" where
  "guest_event junk k deviceId threadId dataAddr ip addressType cpu_no clock_now =
     (new_Event junk)\<lparr>Event.deviceFileId := deviceId, eventId := k, event_time := clock_now, sample_index := to_u64 k,
       h_tId := threadId, h_data_addr := dataAddr, data_addr := dataAddr, h_ip_addr := ip, ip_addr := ip,
       addressSpaceType := addressType, cpu := cpu_no, isFixed := False\<rparr>"

definition kvm__doneEventProcessing_HyPerf ::
  "'a env \<Rightarrow> bool \<times> bool \<Rightarrow> int \<Rightarrow> int \<Rightarrow> Event \<Rightarrow> (nat \<Rightarrow> ContextFrame) \<Rightarrow> VMContextFrame list \<Rightarrow> u64 \<Rightarrow> int \<Rightarrow> int \<Rightarrow>
    u64 \<Rightarrow> AddressSpaceType \<Rightarrow> int \<Rightarrow> int \<Rightarrow> 'a tool \<Rightarrow> 'a tool res" where
  "kvm__doneEventProcessing_HyPerf E build tid now junk new_frame frames ip deviceId threadId dataAddr addressType
      cpu_no clock_now s =
     (let finish = (\<lambda>event s. rbind (get_session_key_from_threadId threadId (pl s)) (\<lambda>(q, sessionId).
            done_processEvent E tid now event deviceId sessionId (s\<lparr>pl := q\<rparr>)))
      in if ip = 0 \<or> \<not> considered (fst build) (snd build) addressType then finish None s
         else let (q, k) = generate_event_key (pl s);
                  (s, e) = alloc_ev (guest_event junk k deviceId threadId dataAddr ip addressType cpu_no clock_now) (s\<lparr>pl := q\<rparr>)
              in rbind (add_new_event k e (pl s)) (\<lambda>q.
                 rbind (get_ev e s) (\<lambda>ev.
                   finish (Some e) (set_ev e (ev\<lparr>eventContext_agent := guest_frames new_frame 0 0 False (drop 3 frames)\<rparr>)
                     (s\<lparr>pl := q\<rparr>)))))"

definition kvm__VCPU_start ::
  "'a env \<Rightarrow> int \<Rightarrow> bool \<Rightarrow> u64 \<Rightarrow> WP_ThreadData option \<Rightarrow> bool \<Rightarrow> int \<Rightarrow> 'a tool \<Rightarrow> 'a tool res" where
  "kvm__VCPU_start = tool_sessionInit"

definition kvm__VCPU_end :: "'a env \<Rightarrow> int \<Rightarrow> 'a tool \<Rightarrow> 'a tool res" where
  "kvm__VCPU_end = tool_sessionExit"

definition kvm__register_HyPerf :: "hypervisor option \<Rightarrow> kvm_agent tool \<Rightarrow> kvm_agent tool" where
  "kvm__register_HyPerf kvmInfo s = s\<lparr>pl := (pl s)\<lparr>agent := set_hyPerfDev kvmInfo (agent (pl s))\<rparr>\<rparr>"

definition on_plat :: "('a plat \<Rightarrow> 'a plat res) \<Rightarrow> 'a tool \<Rightarrow> 'a tool res" where
  "on_plat f s = rbind (f (pl s)) (\<lambda>q. Inr (s\<lparr>pl := q\<rparr>))"

definition kvm__enableAllEBSDevice :: "'a env \<Rightarrow> 'a tool \<Rightarrow> 'a tool res" where
  "kvm__enableAllEBSDevice E = on_plat (resume_all_devices (ops E))"

definition kvm__disableAllEBSDevice :: "'a env \<Rightarrow> 'a tool \<Rightarrow> 'a tool res" where
  "kvm__disableAllEBSDevice E = on_plat (pause_all_devices (ops E))"

definition kvm__disableEBSDevicesThisSession :: "'a env \<Rightarrow> int \<Rightarrow> int \<Rightarrow> 'a tool \<Rightarrow> 'a tool res" where
  "kvm__disableEBSDevicesThisSession E tid threadId = on_plat (\<lambda>q.
     rbind (get_session_key_from_threadId threadId q) (\<lambda>(q, sid). pause_devices_by_session (ops E) tid sid q))"

definition kvm__enableEBSDevicesThisSession :: "'a env \<Rightarrow> int \<Rightarrow> 'a tool \<Rightarrow> 'a tool res" where
  "kvm__enableEBSDevicesThisSession E tid =
     on_plat (\<lambda>q. resume_devices_by_session (ops E) tid (get_session_key tid q) q)"

definition kvm__eventWillbeHandledByOS :: "bool \<Rightarrow> 'a env \<Rightarrow> 'a env" where
  "kvm__eventWillbeHandledByOS val E = E\<lparr>ops := (ops E)\<lparr>requestWillBeNotified := val\<rparr>\<rparr>"

definition kvm__doPostProcessing :: "'a env \<Rightarrow> print_cfg \<Rightarrow> 'a tool \<Rightarrow> ('a tool \<times> out_line list) res" where
  "kvm__doPostProcessing = tool_doPostProcess"

end
