(* ===== verification/Witch_Props.thy ===== *)
theory Witch_Props
  imports Witch_Tool
begin

text \<open>
  Properties of the tool as a whole: a PEBS sample is handled with slots and tables in order, and so
  is every sequence of samples and triggers of a thread.
\<close>

section \<open>Samples\<close>

lemma spy_wl_set [simp]: "spy_wl l (spy_set_wl l w s) = w"
  by (cases l) (simp_all add: spy_wl_def spy_set_wl_def)

text \<open>The detector's table is well-formed and its mutex free.\<close>

definition spies_ok :: "WitchLogicType \<Rightarrow> spies \<Rightarrow> bool" where
  "spies_ok l sp \<longleftrightarrow> wl_ok (spy_wl l sp) \<and> \<not> contextTree_mtx (spy_wl l sp)"

lemma spy_OnSample_ok:
  assumes "spies_ok l sp"
  shows "\<exists>sp' b. spy_OnSample l ev sp = Inr (sp', b) \<and> spies_ok l sp'"
proof (cases "eventContext_agent ev = []")
  case True
  with on_sample_empty [of "spy_wl l sp" ev] assms show ?thesis by (auto simp: spy_OnSample_def spies_ok_def)
next
  case False
  with sample_filed [of "spy_wl l sp" ev] assms show ?thesis by (auto simp: spy_OnSample_def spies_ok_def)
qed

text \<open>The range a sample is to be watched on.\<close>

definition sample_range :: "WitchLogicType \<Rightarrow> Event \<Rightarrow> u64 \<times> int" where
  "sample_range l ev = (if l = DUPSPY then (h_ip_addr ev, 8) else (h_data_addr ev, GetFloorWPLength (accessLength ev)))"

lemma floor_len_valid: "bp_len_of (GetFloorWPLength n) \<noteq> None"
  by (simp add: GetFloorWPLength_def bp_len_of_def)

text \<open>
  A sample has been handled: either every slot watches what it watched, or one slot has been given
  to the event, which then still lives. Only the event itself may be freed.
\<close>

definition sample_done :: "'a env \<Rightarrow> ('a plat \<Rightarrow> bool) \<Rightarrow> int \<Rightarrow> nat \<Rightarrow> 'a tool \<Rightarrow> 'a tool \<Rightarrow> bool" where
  "sample_done E dinv tid e s s' \<longleftrightarrow> (let n = nat (maxWP (wpConfig s)); old = watch_at tid s; new = watch_at tid s' in
     wp_ok dinv tid s' \<and> wpConfig s' = wpConfig s \<and> spies_ok (logicType E) (spies s') \<and>
     ((\<forall>j < n. new j = old j) \<and> dom (evs s') \<in> {dom (evs s), dom (evs s) - {e}} \<or>
      (\<exists>i < n. \<exists>ev. (\<forall>j < n. j \<noteq> i \<longrightarrow> new j = old j) \<and> evs s' e = Some ev \<and> dom (evs s') = dom (evs s) \<and>
         snd (new i) \<in> {None, Some (fst (sample_range (logicType E) ev), snd (sample_range (logicType E) ev), Some e)})))"

lemma watch_at_fields [simp]:
  "watch_at tid (s\<lparr>evs := es\<rparr>) j = watch_at tid s j" "watch_at tid (s\<lparr>spies := sp\<rparr>) j = watch_at tid s j"
  "watch_at tid (s\<lparr>next_ev := n\<rparr>) j = watch_at tid s j"
  by (simp_all add: watch_at_def)

lemma wp_ok_spies [simp]: "wp_ok dinv tid (s\<lparr>spies := sp\<rparr>) = wp_ok dinv tid s" "wp_ok dinv tid (s\<lparr>next_ev := n\<rparr>) = wp_ok dinv tid s"
  by (auto simp: wp_ok_def split: option.splits)

lemma slot_event_live:
  assumes "wp_ok dinv tid s" and "j < nat (maxWP (wpConfig s))" and "snd (watch_at tid s j) = Some (v, l, Some x)"
  shows "evs s x \<noteq> None"
proof -
  obtain t where t: "WP_ThreadData_key s tid = Some t"
    "wp_slots_ok (pl s) (evs s) tid (nat (maxWP (wpConfig s))) (watchPointArray t)" by (rule wp_okE [OF assms(1)])
  show ?thesis
    using wpi_ok_event [OF wp_slots_okD(2) [OF t(2) assms(2)]] assms(3)
    by (auto simp: watch_at_key [OF t(1)] watch_def split: if_splits)
qed

text \<open>No active slot holds the event.\<close>

definition unheld_ev :: "int \<Rightarrow> nat \<Rightarrow> 'a tool \<Rightarrow> bool" where
  "unheld_ev tid e s \<longleftrightarrow> (\<forall>j < nat (maxWP (wpConfig s)). \<forall>v l. snd (watch_at tid s j) \<noteq> Some (v, l, Some e))"

lemma wp_ok_new_value:
  assumes "wp_ok dinv tid s" and "evs s e \<noteq> None"
  shows "wp_ok dinv tid (s\<lparr>evs := (evs s)(e \<mapsto> ev')\<rparr>)"
  by (rule wp_ok_evs [OF assms(1)]) (use slot_event_live [OF assms(1)] in auto)

text \<open>What fixing the instruction pointer, when it is done, may change.\<close>

lemma fixed_frame:
  assumes "(if isFixed ev then Inr (s, True) else fixIP E tid e s) = Inr (s1, b)" and "evs s e = Some ev"
  obtains ev1 where "s1 = s\<lparr>evs := (evs s)(e \<mapsto> ev1)\<rparr>"
proof (cases "isFixed ev")
  case True
  with assms that [of ev] show thesis by (simp add: fun_upd_idem)
next
  case False
  with assms have "fixIP E tid e s = Inr (s1, b)" by simp
  from fixIP_frame [OF this] that show thesis by blast
qed

context wp_devices
begin

lemma subscribe_sample_cases:
  assumes ok: "wp_ok dinv tid s" and pol: "replacementPolicy (wpConfig s) = WP_REPLACEMENT_AUTO"
    and e: "evs s e = Some ev" and new: "unheld_ev tid e s" and sp: "spies_ok (logicType E) (spies s)"
  shows "subscribe_sample E tid now e ev s = Inl (ExitProcess (-1)) \<or>
    (\<exists>s' r. subscribe_sample E tid now e ev s = Inr (s', r) \<and>
       subscribed dinv tid (fst (sample_range (logicType E) ev)) (snd (sample_range (logicType E) ev)) e s s' r)"
proof -
  have len: "bp_len_of 8 \<noteq> None" by (simp add: bp_len_of_def)
  have e': "evs s e \<noteq> None" using e by simp
  note c = Subscribe_cases [OF ok pol e' new [unfolded unheld_ev_def]]
  show ?thesis
  proof (cases "logicType E = DUPSPY")
    case True
    with c [of WP_INST 8 now "h_ip_addr ev"] len show ?thesis
      by (auto simp: subscribe_sample_def sample_range_def Let_def)
  next
    case False
    with c [of "if logicType E = REDSPY then WP_WRITE else WP_RW" "GetFloorWPLength (accessLength ev)" now "h_data_addr ev"]
    show ?thesis using False floor_len_valid by (auto simp: subscribe_sample_def sample_range_def Let_def)
  qed
qed

lemma sample_ok:
  assumes ok: "wp_ok dinv tid s" and pol: "replacementPolicy (wpConfig s) = WP_REPLACEMENT_AUTO"
    and ev: "evs s e = Some ev" and new: "unheld_ev tid e s" and sp: "spies_ok (logicType E) (spies s)"
    and fix_ip: "kernel_ip ev \<Longrightarrow> (if isFixed ev then Inr (s, True) else fixIP E tid e s) = Inr (s1, b)"
  shows "tool_PEBSEventHandler E tid now e s = Inl (ExitProcess (-1)) \<or>
    (\<exists>s'. tool_PEBSEventHandler E tid now e s = Inr s' \<and> sample_done E dinv tid e s s' \<and> next_ev s' = next_ev s)"
proof -
  let ?H = "tool_PEBSEventHandler E tid now e s" and ?n = "nat (maxWP (wpConfig s))"
  have get: "get_ev e s = Inr ev" using ev by (simp add: get_ev_def)
  have done0: "sample_done E dinv tid e s s" using ok sp by (simp add: sample_done_def Let_def)
  show ?thesis
  proof (cases "kernel_ip ev")
    case False
    then have "?H = Inr s" by (simp add: tool_PEBSEventHandler_def get)
    with done0 show ?thesis by blast
  next
    case True
    note f = fix_ip [OF True]
    obtain ev1 where s1: "s1 = s\<lparr>evs := (evs s)(e \<mapsto> ev1)\<rparr>" by (rule fixed_frame [OF f ev])
    have g1: "get_ev e s1 = Inr ev1" "evs s1 e = Some ev1" by (simp_all add: s1 get_ev_def)
    have ok1: "wp_ok dinv tid s1" unfolding s1 by (rule wp_ok_new_value [OF ok]) (simp add: ev)
    have same1: "wpConfig s1 = wpConfig s" "spies s1 = spies s" "next_ev s1 = next_ev s" "dom (evs s1) = dom (evs s)"
      "watch_at tid s1 j = watch_at tid s j" for j
      using ev by (auto simp: s1)
    have new1: "unheld_ev tid e s1" using new by (simp add: unheld_ev_def same1)
    have done1: "sample_done E dinv tid e s s1" using ok1 sp by (simp add: sample_done_def Let_def same1)
    have H: "?H = (if \<not> b \<or> accessType ev1 = UNKNOWN \<or> excluded_ip ev1 then Inr s1
        else if avoided E ev1 then del_ev e s1
        else rbind (spy_OnSample (logicType E) ev1 (spies s1)) (\<lambda>(sp, ok).
          if \<not> ok then Inr (s1\<lparr>spies := sp\<rparr>)
          else rbind (subscribe_sample E tid now e ev1 (s1\<lparr>spies := sp\<rparr>)) (\<lambda>(s, _). Inr s)))"
      using True f by (simp add: tool_PEBSEventHandler_def get g1 Let_def)
    consider (no) "\<not> b \<or> accessType ev1 = UNKNOWN \<or> excluded_ip ev1"
      | (avoid) "\<not> (\<not> b \<or> accessType ev1 = UNKNOWN \<or> excluded_ip ev1)" "avoided E ev1"
      | (sub) "\<not> (\<not> b \<or> accessType ev1 = UNKNOWN \<or> excluded_ip ev1)" "\<not> avoided E ev1" by blast
    then show ?thesis
    proof cases
      case no
      with done1 same1 show ?thesis by (simp add: H)
    next
      case avoid
      let ?s = "s1\<lparr>evs := (evs s1)(e := None)\<rparr>"
      have "?H = Inr ?s" using avoid g1 by (simp add: H del_ev_def)
      moreover have "wp_ok dinv tid ?s"
        by (rule wp_ok_evs [OF ok1]) (use slot_event_live [OF ok1] new1 in \<open>auto simp: unheld_ev_def\<close>)
      then have "sample_done E dinv tid e s ?s" using sp same1 by (auto simp: sample_done_def Let_def)
      ultimately show ?thesis using same1(3) by simp
    next
      case sub
      obtain sp' ok' where sp': "spy_OnSample (logicType E) ev1 (spies s1) = Inr (sp', ok')" "spies_ok (logicType E) sp'"
        using spy_OnSample_ok [of "logicType E" "spies s1" ev1] sp same1(2) by auto
      let ?s = "s1\<lparr>spies := sp'\<rparr>"
      show ?thesis
      proof (cases ok')
        case False
        then have "?H = Inr ?s" using sub sp'(1) by (simp add: H)
        moreover have "sample_done E dinv tid e s ?s" using ok1 sp'(2) same1 by (simp add: sample_done_def Let_def)
        ultimately show ?thesis using same1(3) by simp
      next
        case True
        have ok2: "wp_ok dinv tid ?s" "unheld_ev tid e ?s" "spies_ok (logicType E) (spies ?s)"
          "replacementPolicy (wpConfig ?s) = WP_REPLACEMENT_AUTO" "evs ?s e = Some ev1"
          using ok1 new1 sp'(2) pol same1 g1 by (simp_all add: unheld_ev_def)
        from subscribe_sample_cases [OF ok2(1,4,5,2,3), of now] show ?thesis
        proof (elim disjE exE conjE)
          assume "subscribe_sample E tid now e ev1 ?s = Inl (ExitProcess (-1))"
          with sub sp'(1) True show ?thesis by (simp add: H)
        next
          fix s' r assume r: "subscribe_sample E tid now e ev1 ?s = Inr (s', r)"
            "subscribed dinv tid (fst (sample_range (logicType E) ev1)) (snd (sample_range (logicType E) ev1)) e ?s s' r"
          have "?H = Inr s'" using sub sp'(1) True r(1) by (simp add: H)
          moreover have "sample_done E dinv tid e s s'"
            using r(2) sp'(2) same1 g1(2) by (auto simp: sample_done_def subscribed_def Let_def)
          moreover have "next_ev s' = next_ev s" using r(2) same1(3) by (simp add: subscribed_def Let_def)
          ultimately show ?thesis by blast
        qed
      qed
    qed
  qed
qed

end



section \<open>Sequences of samples and triggers\<close>

lemma first_slot_Some:
  "first_slot P arr is = Inr (Some i) \<Longrightarrow> i \<in> set is \<and> i < length arr \<and> P (arr ! i) = Inr True"
  by (induction "is") (auto simp: rbind_Inr slot_at_def split: if_splits)

lemma matches_True:
  assumes "matches l fd ev s w = Inr True"
  obtains se sam where "isActive w" and "fd = fileHandle w" and "sampledEvent w = Some se" and "evs s se = Some sam"
  using assms by (auto simp: matches_def sampled_def get_ev_def rbind_Inr split: if_splits option.splits)

text \<open>What a call of the detector that returned has done, whatever the trigger was.\<close>

lemma callback_after:
  assumes cb: "wp_callback E tid (int i) e s = Inr (s', act)" and ev: "evs s e = Some ev"
    and sp: "spies_ok (logicType E) (spies s)"
  obtains ev' sp where "s' = s\<lparr>evs := (evs s)(e \<mapsto> ev'), spies := sp\<rparr>" and "spies_ok (logicType E) sp"
    and "act \<in> {WP_DISABLE, WP_RETAIN}"
proof (cases "h_ip_addr ev = 0")
  case True
  with cb ev have "s' = s" "act = WP_DISABLE" by (simp_all add: wp_callback_def get_ev_def)
  with that [of "spies s" ev] ev sp show thesis by (simp add: fun_upd_idem)
next
  case False
  obtain s1 b where f: "(if isFixed ev then Inr (s, True) else fixIP E tid e s) = Inr (s1, b)"
    using cb ev False by (auto simp: wp_callback_def get_ev_def rbind_Inr simp del: if_split)
  obtain ev1 where s1: "s1 = s\<lparr>evs := (evs s)(e \<mapsto> ev1)\<rparr>" by (rule fixed_frame [OF f ev])
  show thesis
  proof (cases b)
    case False
    with cb f ev \<open>h_ip_addr ev \<noteq> 0\<close> have "s' = s1" "act = WP_DISABLE" by (simp_all add: wp_callback_def get_ev_def)
    with that [of "spies s" ev1] s1 sp show thesis by simp
  next
    case True
    with cb f ev \<open>h_ip_addr ev \<noteq> 0\<close> obtain w :: WP_RegisterInfo and sam sp' where
      r: "spy_OnWP (logicType E) (spycfg E) ev1 sam \<lparr>wpt_va = va w, wpt_watchLen = wpLength w\<rparr> (spies s1) = Inr (sp', act)"
        "s' = s1\<lparr>spies := sp'\<rparr>"
      by (auto simp: wp_callback_def get_ev_def rbind_Inr s1)
    have "after_hit sam (spy_wl (logicType E) (spies s1)) (spy_wl (logicType E) sp') act"
      by (rule spy.after [OF _ _ r(1)]) (use sp s1 in \<open>simp_all add: spies_ok_def\<close>)
    then show thesis
      using r(2) s1 by (intro that [of sp' ev1]) (auto simp: after_hit_def spies_ok_def)
  qed
qed

context wp_devices
begin

lemma hit_after:
  assumes ok: "wp_ok dinv tid s" and ev: "evs s e = Some ev" and new: "unheld_ev tid e s"
    and sp: "spies_ok (logicType E) (spies s)" and r: "OnWatchPoint E tid fd e s = Inr s'"
  shows "\<exists>i se v l. i < nat (maxWP (wpConfig s)) \<and> snd (watch_at tid s i) = Some (v, l, Some se) \<and>
    handled dinv tid i e se s s' \<and> spies_ok (logicType E) (spies s') \<and> next_ev s' = next_ev s"
proof -
  obtain t where t: "WP_ThreadData_key s tid = Some t" by (rule wp_okE [OF ok])
  note new' = new [unfolded unheld_ev_def]
  from r t ev obtain i s2 act where
    m: "first_slot (matches (logicType E) fd ev s) (watchPointArray t) (wp_slots (wpConfig s)) = Inr (Some i)"
    and cb: "wp_callback E tid (int i) e s = Inr (s2, act)"
    and rest: "rbind (wp_action E tid (int i) act s2) (\<lambda>(s, cleanup).
      if \<not> cleanup then Inr s
      else rbind (del_ev e s) (\<lambda>s. rbind (wpi_get tid (int i) s) (\<lambda>w.
        case sampledEvent w of None \<Rightarrow> Inr s | Some se \<Rightarrow> del_ev se s))) = Inr s'"
    by (auto simp: OnWatchPoint_def get_ev_def rbind_Inr no_match_def split: option.splits simp del: split_paired_Ex)
  from first_slot_Some [OF m] have i: "i < nat (maxWP (wpConfig s))" "i < length (watchPointArray t)"
    "matches (logicType E) fd ev s (watchPointArray t ! i) = Inr True" by (auto simp: wp_slots_def)
  obtain se sam where w: "isActive (watchPointArray t ! i)" "sampledEvent (watchPointArray t ! i) = Some se"
    "evs s se = Some sam" by (rule matches_True [OF i(3)])
  obtain ev' sp' where c: "s2 = s\<lparr>evs := (evs s)(e \<mapsto> ev'), spies := sp'\<rparr>" "spies_ok (logicType E) sp'"
    "act \<in> {WP_DISABLE, WP_RETAIN}" by (rule callback_after [OF cb ev sp])
  have "snd (watch_at tid s i) = Some (va (watchPointArray t ! i), wpLength (watchPointArray t ! i), Some se)"
    using w by (simp add: watch_at_key [OF t] watch_def)
  with hit_tail [OF ok t i(1) refl w(1,2) ev w(3) new' c(1,3)] rest c(2) i(1) show ?thesis by auto
qed

end

text \<open>One event of the thread: it is allocated, filled in and given to a handler that returns.\<close>

inductive tool_step :: "'a env \<Rightarrow> int \<Rightarrow> 'a tool \<Rightarrow> 'a tool \<Rightarrow> bool" for E tid where
  sample: "alloc_ev ev s = (s1, e) \<Longrightarrow> tool_PEBSEventHandler E tid now e s1 = Inr s' \<Longrightarrow> tool_step E tid s s'"
| trigger: "alloc_ev ev s = (s1, e) \<Longrightarrow> tool_BPEventHandler E tid e d s1 = Inr s' \<Longrightarrow> tool_step E tid s s'"

definition tool_inv :: "'a env \<Rightarrow> ('a plat \<Rightarrow> bool) \<Rightarrow> int \<Rightarrow> 'a tool \<Rightarrow> bool" where
  "tool_inv E dinv tid s \<longleftrightarrow> wp_ok dinv tid s \<and> replacementPolicy (wpConfig s) = WP_REPLACEMENT_AUTO \<and>
     spies_ok (logicType E) (spies s) \<and> (\<forall>x. evs s x \<noteq> None \<longrightarrow> x < next_ev s)"

lemma alloc_inv:
  assumes "tool_inv E dinv tid s" and "alloc_ev ev s = (s1, e)"
  shows "tool_inv E dinv tid s1 \<and> evs s1 e = Some ev \<and> unheld_ev tid e s1"
proof -
  from assms(1) have s: "wp_ok dinv tid s" "\<forall>x. evs s x \<noteq> None \<longrightarrow> x < next_ev s" by (simp_all add: tool_inv_def)
  let ?t = "s\<lparr>evs := (evs s)(next_ev s \<mapsto> ev)\<rparr>"
  have e: "s1 = ?t\<lparr>next_ev := Suc (next_ev s)\<rparr>" "e = next_ev s" using assms(2) by (auto simp: alloc_ev_def)
  have live: "x < next_ev s" if "j < nat (maxWP (wpConfig s))" "snd (watch_at tid s j) = Some (v, l, Some x)" for j v l x
    using slot_event_live [OF s(1) that] s(2) by blast
  have "wp_ok dinv tid ?t" by (rule wp_ok_evs [OF s(1)]) (use slot_event_live [OF s(1)] in auto)
  moreover have "unheld_ev tid e s1" using live by (fastforce simp: unheld_ev_def e)
  ultimately show ?thesis using assms(1) by (auto simp: tool_inv_def e less_Suc_eq)
qed

text \<open>The events the active slots of a thread were sampled for.\<close>

definition held :: "int \<Rightarrow> 'a tool \<Rightarrow> nat set" where
  "held tid s = {x. \<exists>j < nat (maxWP (wpConfig s)). \<exists>v l. snd (watch_at tid s j) = Some (v, l, Some x)}"

text \<open>A step allocates one event and frees at most that one and those its own thread held.\<close>

definition events_step :: "int \<Rightarrow> nat \<Rightarrow> 'a tool \<Rightarrow> 'a tool \<Rightarrow> bool" where
  "events_step tid e s s' \<longleftrightarrow> held tid s' \<subseteq> insert e (held tid s) \<and> dom (evs s) - held tid s \<subseteq> insert e (dom (evs s')) \<and>
     dom (evs s') \<subseteq> dom (evs s)"

lemma sample_events:
  assumes "sample_done E dinv tid e s s'"
  shows "events_step tid e s s'"
proof -
  let ?n = "nat (maxWP (wpConfig s))"
  from assms have c: "wpConfig s' = wpConfig s" by (simp add: sample_done_def Let_def)
  from assms consider (none) "\<forall>j < ?n. watch_at tid s' j = watch_at tid s j" "dom (evs s') \<in> {dom (evs s), dom (evs s) - {e}}"
    | (one) i a l where "\<forall>j < ?n. j \<noteq> i \<longrightarrow> watch_at tid s' j = watch_at tid s j" "dom (evs s') = dom (evs s)"
      "snd (watch_at tid s' i) \<in> {None, Some (a, l, Some e)}"
    unfolding sample_done_def Let_def by blast
  then show ?thesis
  proof cases
    case none
    then have "held tid s' = held tid s" by (auto simp: held_def c)
    with none show ?thesis by (auto simp: events_step_def)
  next
    case one
    have "held tid s' \<subseteq> insert e (held tid s)"
    proof
      fix x assume "x \<in> held tid s'"
      then obtain j v m where j: "j < ?n" "snd (watch_at tid s' j) = Some (v, m, Some x)" by (auto simp: held_def c)
      then show "x \<in> insert e (held tid s)" using one by (cases "j = i") (auto simp: held_def)
    qed
    with one show ?thesis by (auto simp: events_step_def)
  qed
qed

lemma hit_events:
  assumes h: "handled dinv tid i e se s s'" and i: "i < nat (maxWP (wpConfig s))" "snd (watch_at tid s i) = Some (v, l, Some se)"
  shows "events_step tid e s s'"
proof -
  from h have c: "wpConfig s' = wpConfig s" by (simp add: handled_def)
  have "held tid s' \<subseteq> held tid s"
  proof
    fix x assume "x \<in> held tid s'"
    then obtain j a m where "j < nat (maxWP (wpConfig s))" "snd (watch_at tid s' j) = Some (a, m, Some x)" by (auto simp: held_def c)
    then show "x \<in> held tid s" using h by (cases "j = i") (auto simp: held_def handled_def)
  qed
  moreover have "se \<in> held tid s" using i by (auto simp: held_def)
  ultimately show ?thesis using h by (auto simp: events_step_def handled_def)
qed

lemma alloc_events:
  assumes al: "alloc_ev ev s = (s1, e)" and inv: "tool_inv E dinv tid s" "tool_inv E dinv' tid s1"
    and ev: "events_step tid e s1 s'" and n: "next_ev s' = next_ev s1"
    and ok: "wp_ok dinv tid s' \<and> wpConfig s' = wpConfig s1 \<and> spies_ok (logicType E) (spies s')"
  shows "tool_inv E dinv tid s' \<and> wpConfig s' = wpConfig s \<and> held tid s' \<subseteq> insert (next_ev s) (held tid s) \<and>
    dom (evs s) - held tid s \<subseteq> dom (evs s') \<and> next_ev s' = Suc (next_ev s)"
proof -
  have e: "s1 = s\<lparr>evs := (evs s)(next_ev s \<mapsto> ev), next_ev := Suc (next_ev s)\<rparr>" "e = next_ev s"
    using al by (auto simp: alloc_ev_def)
  have h: "held tid s1 = held tid s" by (simp add: held_def e)
  have "evs s (next_ev s) = None" using inv(1) by (auto simp: tool_inv_def)
  then have "dom (evs s) \<subseteq> dom (evs s1) - {e}" by (auto simp: e)
  moreover from ev have "dom (evs s1) - held tid s \<subseteq> insert e (dom (evs s'))" unfolding events_step_def h by blast
  ultimately have "dom (evs s) - held tid s \<subseteq> dom (evs s')" by blast
  moreover have "\<forall>x. evs s' x \<noteq> None \<longrightarrow> x < next_ev s'"
    using ev n inv(2) unfolding events_step_def tool_inv_def dom_def by auto
  moreover have "wpConfig s1 = wpConfig s" "next_ev s1 = Suc (next_ev s)" by (simp_all add: e)
  moreover have "replacementPolicy (wpConfig s) = WP_REPLACEMENT_AUTO" using inv(1) by (simp add: tool_inv_def)
  moreover have "held tid s' \<subseteq> insert (next_ev s) (held tid s)" using ev h e(2) by (simp add: events_step_def)
  ultimately show ?thesis using ok n unfolding tool_inv_def by simp
qed

context wp_devices
begin

lemma step_post:
  assumes "tool_step E tid s s'" and "tool_inv E dinv tid s"
  shows "tool_inv E dinv tid s' \<and> wpConfig s' = wpConfig s \<and> held tid s' \<subseteq> insert (next_ev s) (held tid s) \<and>
    dom (evs s) - held tid s \<subseteq> dom (evs s') \<and> next_ev s' = Suc (next_ev s)"
  using assms
proof (induction rule: tool_step.induct)
  case (sample ev s s1 e now s')
  from alloc_inv [OF sample(3,1)] have a: "tool_inv E dinv tid s1" "evs s1 e = Some ev" "unheld_ev tid e s1" by simp_all
  obtain s2 b where f: "kernel_ip ev \<Longrightarrow> (if isFixed ev then Inr (s1, True) else fixIP E tid e s1) = Inr (s2, b)"
  proof (cases "kernel_ip ev")
    case True
    with sample(2) a(2) obtain r where "(if isFixed ev then Inr (s1, True) else fixIP E tid e s1) = Inr r"
      by (auto simp: tool_PEBSEventHandler_def get_ev_def rbind_Inr simp del: if_split)
    with that show thesis by (cases r) simp
  qed (use that in blast)
  have i: "wp_ok dinv tid s1" "replacementPolicy (wpConfig s1) = WP_REPLACEMENT_AUTO" "spies_ok (logicType E) (spies s1)"
    using a(1) by (simp_all add: tool_inv_def)
  from sample_ok [OF i(1,2) a(2,3) i(3) f, of now] sample(2)
  have d: "sample_done E dinv tid e s1 s'" "next_ev s' = next_ev s1" by auto
  have "wp_ok dinv tid s' \<and> wpConfig s' = wpConfig s1 \<and> spies_ok (logicType E) (spies s')"
    using d(1) by (simp add: sample_done_def Let_def)
  with alloc_events [OF sample(1,3) a(1) sample_events [OF d(1)] d(2)] show ?case by blast
next
  case (trigger ev s s1 e d s')
  from alloc_inv [OF trigger(3,1)] have a: "tool_inv E dinv tid s1" "evs s1 e = Some ev" "unheld_ev tid e s1" by simp_all
  have i: "wp_ok dinv tid s1" "spies_ok (logicType E) (spies s1)" using a(1) by (simp_all add: tool_inv_def)
  from hit_after [OF i(1) a(2,3) i(2) trigger(2) [unfolded tool_BPEventHandler_def]] obtain k se v l where
    h: "k < nat (maxWP (wpConfig s1))" "snd (watch_at tid s1 k) = Some (v, l, Some se)"
      "handled dinv tid k e se s1 s'" "spies_ok (logicType E) (spies s')" "next_ev s' = next_ev s1" by blast
  have "wp_ok dinv tid s' \<and> wpConfig s' = wpConfig s1" using h(3) by (simp add: handled_def)
  with alloc_events [OF trigger(1,3) a(1) hit_events [OF h(3,1,2)] h(5)] h(4) show ?case by blast
qed

lemma step_inv: "tool_step E tid s s' \<Longrightarrow> tool_inv E dinv tid s \<Longrightarrow> tool_inv E dinv tid s' \<and> wpConfig s' = wpConfig s"
  using step_post by blast

lemma steps_inv:
  "(tool_step E tid)\<^sup>*\<^sup>* s s' \<Longrightarrow> tool_inv E dinv tid s \<Longrightarrow> tool_inv E dinv tid s' \<and> wpConfig s' = wpConfig s"
  by (induction rule: rtranclp_induct) (use step_inv in auto)

end

lemma watched_apart:
  assumes "wp_ok dinv tid s" and "i < nat (maxWP (wpConfig s))" and "j < nat (maxWP (wpConfig s))" and "i \<noteq> j"
    and "snd (watch_at tid s i) = Some (a, l, x)" and "snd (watch_at tid s j) = Some (b, m, y)"
  shows "x \<noteq> y \<and> \<not> ADDRESSES_OVERLAP a l b m"
proof -
  obtain t where t: "WP_ThreadData_key s tid = Some t"
    "wp_slots_ok (pl s) (evs s) tid (nat (maxWP (wpConfig s))) (watchPointArray t)" by (rule wp_okE [OF assms(1)])
  from wp_slots_okD(3) [OF t(2) assms(2,3)] assms(4-6) show ?thesis
    by (auto simp: watch_at_key [OF t(1)] watch_def wp_apart_def split: if_splits)
qed

text \<open>Whatever samples and triggers a thread of the KVM agent goes through, in any order, as long as the
  handlers return: two active slots never watch a common byte or share a sampled event, the event of
  every active slot is allocated, every slot with a device has a registered breakpoint device of its
  thread, and the detector's table is well-formed with its mutex free.\<close>

theorem tool_runs_in_order:
  assumes "tool_inv E (kvm_agent.dev_inv E) tid s" and "(tool_step E tid)\<^sup>*\<^sup>* s s'"
  shows "tool_inv E (kvm_agent.dev_inv E) tid s' \<and>
    (\<forall>i < nat (maxWP (wpConfig s)). \<forall>j < nat (maxWP (wpConfig s)). \<forall>a l x b m y. i \<noteq> j \<longrightarrow>
       snd (watch_at tid s' i) = Some (a, l, Some x) \<longrightarrow> snd (watch_at tid s' j) = Some (b, m, Some y) \<longrightarrow>
       x \<noteq> y \<and> evs s' x \<noteq> None \<and> \<not> ADDRESSES_OVERLAP a l b m)"
proof -
  from kvm_wp.steps_inv [OF assms(2,1)] have s': "tool_inv E (kvm_agent.dev_inv E) tid s'" "wpConfig s' = wpConfig s"
    by simp_all
  then have ok: "wp_ok (kvm_agent.dev_inv E) tid s'" by (simp add: tool_inv_def)
  show ?thesis
    using s' watched_apart [OF ok, unfolded s'(2)] slot_event_live [OF ok, unfolded s'(2)] by blast
qed

lemma demo_tool_inv: "tool_inv (demo_env True) (kvm_agent.dev_inv (demo_env True)) 7 (demo_tool ip)"
proof -
  have "\<forall>x. evs (demo_tool ip) x \<noteq> None \<longrightarrow> x < next_ev (demo_tool ip)" by (simp add: demo_tool_def)
  with demo_wp_ok demo_spies_ok show ?thesis by (simp add: tool_inv_def spies_ok_def)
qed

theorem tool_runs_in_order_witness:
  "\<exists>s'. tool_step (demo_env True) 7 (demo_tool 64) s' \<and> s' \<noteq> demo_tool 64 \<and>
     tool_inv (demo_env True) (kvm_agent.dev_inv (demo_env True)) 7 s'"
proof -
  let ?s = "fst (alloc_ev zero_Event (demo_tool 64))"
  have "tool_PEBSEventHandler (demo_env True) 7 0 4 ?s = Inr ?s"
    by (simp add: tool_PEBSEventHandler_def get_ev_def alloc_ev_def demo_tool_def kernel_ip_def zero_Event_def)
  moreover have "alloc_ev zero_Event (demo_tool 64) = (?s, 4)" by (simp add: alloc_ev_def demo_tool_def)
  ultimately have st: "tool_step (demo_env True) 7 (demo_tool 64) ?s" by (rule_tac tool_step.sample)
  moreover have "next_ev ?s \<noteq> next_ev (demo_tool 64)" by (simp add: alloc_ev_def)
  then have "?s \<noteq> demo_tool 64" by metis
  moreover have "tool_inv (demo_env True) (kvm_agent.dev_inv (demo_env True)) 7 ?s"
    using tool_runs_in_order [OF demo_tool_inv r_into_rtranclp [of "tool_step (demo_env True) 7", OF st]] by blast
  ultimately show ?thesis by blast
qed

end
