(* ===== verification/Decoder_Props.thy ===== *)
theory Decoder_Props
  imports Decoder
begin

text \<open>
  The search for the previous instruction against linear disassembly as a relation, for both agents: it
  ends, it finds the instruction before the address if there is one, and on gapless code both agents
  find the same.
\<close>

section \<open>Linear disassembly\<close>

text \<open>
  \<open>sweeps\<close>: disassembly that starts at one position comes by another; a byte that does not decode is
  skipped. \<open>ends\<close>: the instruction at a position ends at another. \<open>bytes\<close> is what can be read at a
  position.
\<close>

inductive sweeps :: "'i xed \<Rightarrow> (nat \<Rightarrow> u8 list) \<Rightarrow> nat \<Rightarrow> nat \<Rightarrow> bool" for X bytes where
  here: "sweeps X bytes p p"
| skip: "decode X (bytes p) = Inr None \<Longrightarrow> sweeps X bytes (p + 1) q \<Longrightarrow> sweeps X bytes p q"
| inst: "decode X (bytes p) = Inr (Some i) \<Longrightarrow> sweeps X bytes (p + inst_length X i) q \<Longrightarrow> sweeps X bytes p q"

inductive_simps sweeps_from: "sweeps X bytes p q"

definition ends :: "'i xed \<Rightarrow> (nat \<Rightarrow> u8 list) \<Rightarrow> nat \<Rightarrow> nat \<Rightarrow> bool" where
  "ends X bytes p e \<longleftrightarrow> (case decode X (bytes p) of Inr (Some i) \<Rightarrow> p + inst_length X i = e | _ \<Rightarrow> False)"

text \<open>What XED documents: an instruction has 1 to 15 bytes, and only these decide what it is.\<close>

definition xed_lengths :: "'i xed \<Rightarrow> bool" where
  "xed_lengths X \<longleftrightarrow> (\<forall>bs i. xed_decode X bs = XED_OK i \<longrightarrow> 0 < inst_length X i \<and> inst_length X i \<le> MAX_BYTES_TO_DECODE)"

definition xed_local :: "'i xed \<Rightarrow> bool" where
  "xed_local X \<longleftrightarrow> (\<forall>bs i bs'. xed_decode X bs = XED_OK i \<longrightarrow> inst_length X i \<le> length bs \<longrightarrow>
     take (inst_length X i) bs' = take (inst_length X i) bs \<longrightarrow> xed_decode X bs' = XED_OK i)"

lemma decode_length:
  assumes "xed_lengths X" and "decode X bs = Inr (Some i)"
  shows "0 < inst_length X i" and "inst_length X i \<le> 15"
  using assms by (auto simp: decode_def xed_lengths_def MAX_BYTES_TO_DECODE_def split: xed_result.splits)

lemma sweeps_mono: "sweeps X bytes p q \<Longrightarrow> p \<le> q"
  by (induction rule: sweeps.induct) simp_all

lemma ends_less: "xed_lengths X \<Longrightarrow> ends X bytes p e \<Longrightarrow> p < e"
  by (auto simp: ends_def dest: decode_length split: sum.splits option.splits)

lemma readable_decode: "decode X bs = Inl e \<Longrightarrow> xed_decode X (take MAX_BYTES_TO_DECODE bs) = XED_READS_ON"
  by (simp add: decode_def split: xed_result.splits)

text \<open>The position a turn of the loop looks at is the one to find, or the search goes on behind it.\<close>

lemma sweep_turn:
  assumes "xed_lengths X"
  shows "decode X (bytes p) = Inr None \<Longrightarrow>
      sweeps X bytes p q \<and> ends X bytes q e \<longleftrightarrow> sweeps X bytes (p + 1) q \<and> ends X bytes q e"
    and "decode X (bytes p) = Inr (Some i) \<Longrightarrow> p + inst_length X i \<noteq> e \<Longrightarrow>
      sweeps X bytes p q \<and> ends X bytes q e \<longleftrightarrow> sweeps X bytes (p + inst_length X i) q \<and> ends X bytes q e"
    and "decode X (bytes p) = Inr (Some i) \<Longrightarrow> p + inst_length X i = e \<Longrightarrow>
      sweeps X bytes p q \<and> ends X bytes q e \<longleftrightarrow> q = p"
proof -
  show "sweeps X bytes p q \<and> ends X bytes q e \<longleftrightarrow> sweeps X bytes (p + 1) q \<and> ends X bytes q e"
    if "decode X (bytes p) = Inr None"
    using that by (subst sweeps_from) (auto simp: ends_def)
  show "sweeps X bytes p q \<and> ends X bytes q e \<longleftrightarrow> sweeps X bytes (p + inst_length X i) q \<and> ends X bytes q e"
    if "decode X (bytes p) = Inr (Some i)" "p + inst_length X i \<noteq> e"
    using that by (subst sweeps_from) (auto simp: ends_def)
  show "sweeps X bytes p q \<and> ends X bytes q e \<longleftrightarrow> q = p"
    if d: "decode X (bytes p) = Inr (Some i)" "p + inst_length X i = e"
  proof -
    have "\<not> (sweeps X bytes e q \<and> ends X bytes q e)" using sweeps_mono ends_less [OF assms] by fastforce
    then show ?thesis using d by (subst sweeps_from) (auto simp: ends_def intro: sweeps.here)
  qed
qed

lemma behind: "xed_lengths X \<Longrightarrow> e \<le> p \<Longrightarrow> \<not> (sweeps X bytes p q \<and> ends X bytes q e)"
  using sweeps_mono ends_less by fastforce

section \<open>The loops\<close>

lemma kvm_sweep_spec:
  assumes "xed_lengths X" and "\<And>p. p < sz \<Longrightarrow> xed_decode X (take MAX_BYTES_TO_DECODE (drop p buf)) \<noteq> XED_READS_ON"
  shows "0 < n \<Longrightarrow> sz < pins + n \<Longrightarrow> \<exists>r. kvm_sweep n X buf sz pins = Inr r \<and>
    (\<forall>p. r = Some p \<longleftrightarrow> sweeps X (\<lambda>q. drop q buf) pins p \<and> ends X (\<lambda>q. drop q buf) p sz)"
proof (induction n arbitrary: pins)
  case (Suc n)
  note turn = sweep_turn [OF assms(1), of "\<lambda>q. drop q buf" pins]
  show ?case
  proof (cases "pins < sz")
    case False
    with behind [OF assms(1), of sz pins "\<lambda>q. drop q buf"] show ?thesis by simp
  next
    case True
    then have n: "0 < n" using Suc.prems by simp
    obtain r where r: "decode X (drop pins buf) = Inr r"
      using assms(2) [OF True] readable_decode [of X "drop pins buf"] by (cases "decode X (drop pins buf)") auto
    show ?thesis
    proof (cases r)
      case None
      have "kvm_sweep (Suc n) X buf sz pins = kvm_sweep n X buf sz (pins + 1)" using True r None by simp
      moreover have "sz < pins + 1 + n" using Suc.prems by simp
      ultimately show ?thesis using Suc.IH [OF n, of "pins + 1"] turn(1) [OF r [unfolded None]] by simp
    next
      case (Some i)
      note l = decode_length [OF assms(1) r [unfolded Some]]
      have s: "kvm_sweep (Suc n) X buf sz pins = (if pins + inst_length X i = sz then Inr (Some pins)
          else kvm_sweep n X buf sz (pins + inst_length X i))" using True r Some by simp
      show ?thesis
      proof (cases "pins + inst_length X i = sz")
        case True
        then show ?thesis using s turn(3) [OF r [unfolded Some] True] by auto
      next
        case False
        have "sz < pins + inst_length X i + n" using Suc.prems l by simp
        with Suc.IH [OF n this] s False turn(2) [OF r [unfolded Some] False] show ?thesis by simp
      qed
    qed
  qed
qed simp

text \<open>The native loop works on addresses; below \<open>2 ^ 64 - 15\<close> it does what the other does on their values.\<close>

lemma native_sweep_spec:
  fixes prog :: "u64 \<Rightarrow> u8 list"
  defines "bytes \<equiv> \<lambda>q. prog (word_of_nat q)"
  assumes "xed_lengths X" and "unat ins + 15 < 2 ^ 64"
    and "\<And>p. unat pins \<le> unat p \<Longrightarrow> p \<le> ins \<Longrightarrow> xed_decode X (take MAX_BYTES_TO_DECODE (prog p)) \<noteq> XED_READS_ON"
  shows "0 < n \<Longrightarrow> unat ins + 1 < unat pins + n \<Longrightarrow> \<exists>r. native_sweep n X prog ins pins = Inr r \<and>
    (\<forall>p. r = Some p \<longleftrightarrow> sweeps X bytes (unat pins) (unat p) \<and> ends X bytes (unat p) (unat ins))"
  using assms(4)
proof (induction n arbitrary: pins)
  case (Suc n)
  note turn = sweep_turn [OF assms(2), of bytes "unat pins" _ "unat ins"]
  have here: "bytes (unat pins) = prog pins" by (simp add: bytes_def)
  show ?case
  proof (cases "pins \<le> ins")
    case False
    then have "unat ins \<le> unat pins" by (simp add: word_le_nat_alt)
    with behind [OF assms(2), of "unat ins" "unat pins" bytes] False show ?thesis by simp
  next
    case True
    then have le: "unat pins \<le> unat ins" by (simp add: word_le_nat_alt)
    then have n: "0 < n" using Suc.prems by simp
    have plus: "unat (pins + word_of_nat l) = unat pins + l" if "l \<le> 15" for l
    proof -
      have "unat (word_of_nat l :: u64) = l" using that by (simp add: unat_of_nat take_bit_eq_mod)
      with that le assms(3) show ?thesis by (simp add: unat_word_ariths)
    qed
    have rd: "\<And>p. unat (pins + word_of_nat l) \<le> unat p \<Longrightarrow> p \<le> ins \<Longrightarrow>
        xed_decode X (take MAX_BYTES_TO_DECODE (prog p)) \<noteq> XED_READS_ON" if "l \<le> 15" for l
      using Suc.prems(3) plus [OF that] by simp
    obtain r where r: "decode X (prog pins) = Inr r"
      using Suc.prems(3) [OF order_refl True] readable_decode [of X "prog pins"]
      by (cases "decode X (prog pins)") auto
    show ?thesis
    proof (cases r)
      case None
      have "native_sweep (Suc n) X prog ins pins = native_sweep n X prog ins (pins + 1)" using True r None by simp
      moreover have "unat ins + 1 < unat (pins + 1) + n" using Suc.prems(2) plus [of 1] by simp
      ultimately show ?thesis
        using Suc.IH [OF n, of "pins + 1"] rd [of 1] turn(1) [unfolded here, OF r [unfolded None]] plus [of 1] by simp
    next
      case (Some i)
      let ?l = "inst_length X i"
      note l = decode_length [OF assms(2) r [unfolded Some]]
      have s: "native_sweep (Suc n) X prog ins pins = (if pins + word_of_nat ?l = ins then Inr (Some pins)
          else native_sweep n X prog ins (pins + word_of_nat ?l))" using True r Some by simp
      have e: "pins + word_of_nat ?l = ins \<longleftrightarrow> unat pins + ?l = unat ins"
        using plus [OF l(2)] by (metis word_unat_eq_iff)
      show ?thesis
      proof (cases "pins + word_of_nat ?l = ins")
        case True
        then have eq: "unat pins + ?l = unat ins" using e by simp
        have "Some pins = Some p \<longleftrightarrow> sweeps X bytes (unat pins) (unat p) \<and> ends X bytes (unat p) (unat ins)" for p
          unfolding turn(3) [unfolded here, OF r [unfolded Some] eq] by (metis option.inject word_unat_eq_iff)
        with s True show ?thesis by simp
      next
        case False
        have "unat ins + 1 < unat (pins + word_of_nat ?l) + n" using Suc.prems(2) plus [OF l(2)] l by simp
        from Suc.IH [OF n this rd [OF l(2)]] obtain r' where
          r': "native_sweep n X prog ins (pins + word_of_nat ?l) = Inr r'"
            "\<forall>p. r' = Some p \<longleftrightarrow> sweeps X bytes (unat pins + ?l) (unat p) \<and> ends X bytes (unat p) (unat ins)"
          unfolding plus [OF l(2)] by blast
        have ne: "unat pins + ?l \<noteq> unat ins" using False e by simp
        from r'(2) have "\<forall>p. r' = Some p \<longleftrightarrow> sweeps X bytes (unat pins) (unat p) \<and> ends X bytes (unat p) (unat ins)"
          unfolding turn(2) [unfolded here, OF r [unfolded Some] ne] .
        with r'(1) s False show ?thesis by simp
      qed
    qed
  qed
qed simp

lemma kvm_sweep_sound:
  "kvm_sweep n X buf sz pins = Inr (Some p) \<Longrightarrow>
     sweeps X (\<lambda>q. drop q buf) pins p \<and> ends X (\<lambda>q. drop q buf) p sz"
proof (induction n arbitrary: pins)
  case (Suc n)
  then obtain r where r: "decode X (drop pins buf) = Inr r" by (auto simp: rbind_Inr split: if_splits)
  show ?case
  proof (cases r)
    case None
    with Suc.prems r have "kvm_sweep n X buf sz (pins + 1) = Inr (Some p)" by (auto split: if_splits)
    from Suc.IH [OF this] r None show ?thesis by (auto intro: sweeps.skip)
  next
    case (Some i)
    show ?thesis
    proof (cases "pins + inst_length X i = sz")
      case True
      with Suc.prems r Some have "p = pins" by (auto split: if_splits)
      with True r Some show ?thesis by (auto simp: ends_def intro: sweeps.here)
    next
      case False
      with Suc.prems r Some have "kvm_sweep n X buf sz (pins + inst_length X i) = Inr (Some p)"
        by (auto split: if_splits)
      from Suc.IH [OF this] r Some show ?thesis by (auto intro: sweeps.inst)
    qed
  qed
qed simp

section \<open>The searches\<close>


text \<open>A toy decoder: byte 1 is a one-byte instruction, byte 2 starts one of two bytes, all else fails.\<close>

definition demo_xed :: "nat xed" where
  "demo_xed = \<lparr>xed_decode = (\<lambda>bs. case bs of [] \<Rightarrow> XED_READS_ON
       | b # r \<Rightarrow> if b = 1 then XED_OK 1 else if b = 2 then (if r = [] then XED_READS_ON else XED_OK 2) else XED_FAILED),
     inst_length = (\<lambda>i. i), number_of_memory_operands = (\<lambda>_. 1), mem_read = (\<lambda>_ _. True),
     mem_written = (\<lambda>_ _. False), memory_operand_length = (\<lambda>_ _. 8), inst_category = (\<lambda>_. XED_DATAXFER),
     inst_operands = (\<lambda>_. [XED_OPERAND_OTHER, XED_OPERAND_MEM0]), operand_element_type = (\<lambda>_ _. XED_DOUBLE),
     xed_agen = (\<lambda>_ _ reg. rbind (reg (XED_REG_GPR RBX W64)) (\<lambda>(v, e). Inr (if e then None else Some v)))\<rparr>"

lemma demo_xed_ok: "xed_lengths demo_xed" "xed_local demo_xed"
proof -
  show "xed_lengths demo_xed"
    by (auto simp: xed_lengths_def demo_xed_def MAX_BYTES_TO_DECODE_def split: list.splits if_splits)
  have two: "take 2 bs' = take 2 (2 # b # r) \<Longrightarrow> \<exists>c r'. bs' = 2 # c # r'" for bs' b r and c :: u8
    by (cases bs'; cases "tl bs'") auto
  show "xed_local demo_xed"
    unfolding xed_local_def demo_xed_def
    by (auto split: list.splits if_splits simp: take_Suc_conv_app_nth numeral_2_eq_2)
qed

definition demo_text :: "u64 \<Rightarrow> u8 list" where
  "demo_text p = (if p = 16 then 2 else 1) # replicate 14 1"

lemma demo_readable: "xed_decode demo_xed (take MAX_BYTES_TO_DECODE (demo_text p)) \<noteq> XED_READS_ON"
  by (simp add: demo_xed_def demo_text_def MAX_BYTES_TO_DECODE_def)

definition demo_syms :: symbols where
  "demo_syms = \<lparr>isBfdInit = True, symbolMap = [(8, ''e''), (16, ''f''), (64, ''g'')]\<rparr>"


section \<open>Gapless code\<close>

text \<open>A list of instructions lies end to end from a position on.\<close>

fun laid_out :: "'i xed \<Rightarrow> (nat \<Rightarrow> u8 list) \<Rightarrow> nat \<Rightarrow> 'i list \<Rightarrow> bool" where
  "laid_out X bytes p [] \<longleftrightarrow> True"
| "laid_out X bytes p (i # is) \<longleftrightarrow> decode X (bytes p) = Inr (Some i) \<and> laid_out X bytes (p + inst_length X i) is"

definition code_length :: "'i xed \<Rightarrow> 'i list \<Rightarrow> nat" where
  "code_length X is = sum_list (map (inst_length X) is)"

lemma code_length_simps [simp]: "code_length X [] = 0" "code_length X (i # is) = inst_length X i + code_length X is"
  by (simp_all add: code_length_def)

lemma laid_out_positive:
  assumes "xed_lengths X"
  shows "laid_out X bytes p is \<Longrightarrow> length is \<le> code_length X is"
proof (induction "is" arbitrary: p)
  case (Cons i "is")
  then show ?case using decode_length(1) [OF assms, of "bytes p" i] by fastforce
qed simp

lemma kvm_sweep_laid_out:
  assumes "xed_lengths X"
  shows "laid_out X (\<lambda>q. drop q buf) p is \<Longrightarrow> is \<noteq> [] \<Longrightarrow> p + code_length X is = sz \<Longrightarrow> length is \<le> n \<Longrightarrow>
    kvm_sweep n X buf sz p = Inr (Some (sz - inst_length X (last is)))"
proof (induction "is" arbitrary: p n)
  case (Cons i "is")
  then obtain m where n: "n = Suc m" "length is \<le> m" by (cases n) auto
  have d: "decode X (drop p buf) = Inr (Some i)" and r: "laid_out X (\<lambda>q. drop q buf) (p + inst_length X i) is"
    using Cons.prems(1) by simp_all
  note l = decode_length [OF assms d] laid_out_positive [OF assms r]
  show ?case
  proof (cases "is = []")
    case True
    with Cons.prems(3) d l n show ?thesis by auto
  next
    case False
    then have "p + inst_length X i \<noteq> sz" "p < sz" using Cons.prems(3) l by (auto simp: Suc_le_eq)
    with Cons.IH [OF r False _ n(2)] Cons.prems(3) d n(1) False show ?thesis by (simp add: add.assoc)
  qed
qed simp

lemma native_sweep_laid_out:
  assumes "xed_lengths X"
  shows "laid_out X (\<lambda>q. prog (word_of_nat q)) (unat p) is \<Longrightarrow> is \<noteq> [] \<Longrightarrow> unat p + code_length X is = unat ins \<Longrightarrow>
    length is \<le> n \<Longrightarrow> native_sweep n X prog ins p = Inr (Some (ins - word_of_nat (inst_length X (last is))))"
proof (induction "is" arbitrary: p n)
  case (Cons i "is")
  then obtain m where n: "n = Suc m" "length is \<le> m" by (cases n) auto
  have d: "decode X (prog p) = Inr (Some i)"
    and r: "laid_out X (\<lambda>q. prog (word_of_nat q)) (unat p + inst_length X i) is"
    using Cons.prems(1) by simp_all
  note l = decode_length [OF assms d] laid_out_positive [OF assms r]
  have le: "p \<le> ins" using Cons.prems(3) by (simp add: word_le_nat_alt)
  have ins: "ins = p + word_of_nat (code_length X (i # is))"
    using arg_cong [OF Cons.prems(3), of "word_of_nat :: nat \<Rightarrow> u64"] by simp
  have u: "unat (p + word_of_nat (inst_length X i)) = unat p + inst_length X i"
  proof -
    have "unat p + inst_length X i < 2 ^ 64" using Cons.prems(3) unsigned_less [of ins, where ?'a = nat] by simp
    then show ?thesis by (simp add: unat_word_ariths unat_of_nat mod_simps)
  qed
  show ?case
  proof (cases "is = []")
    case True
    with ins d n le show ?thesis by simp
  next
    case False
    then have "p + word_of_nat (inst_length X i) \<noteq> ins"
      using Cons.prems(3) l u by (cases "is") (auto simp: word_unat_eq_iff)
    with Cons.IH [of "p + word_of_nat (inst_length X i)" m] r False n Cons.prems(3) d u le
    show ?thesis by (simp add: add.assoc)
  qed
qed simp

text \<open>The bytes of a memory from an address on, and a hypervisor that reads that memory.\<close>

definition mem_bytes :: "(u64 \<Rightarrow> u8) \<Rightarrow> u64 \<Rightarrow> nat \<Rightarrow> u8 list" where
  "mem_bytes m a n = map (\<lambda>k. m (a + word_of_nat k)) [0..<n]"

definition reads_memory :: "(u64 \<Rightarrow> u8) \<Rightarrow> kvm_agent \<Rightarrow> bool" where
  "reads_memory m a \<longleftrightarrow> (\<forall>addr n. kvm_getValueAtAddress addr n a = (0, mem_bytes m addr (nat n)))"

lemma take_mem_bytes: "take k (mem_bytes m a n) = mem_bytes m a (min k n)"
  by (intro nth_equalityI) (simp_all add: mem_bytes_def)

lemma drop_mem_bytes: "drop k (mem_bytes m a n) = mem_bytes m (a + word_of_nat k) (n - k)"
  by (intro nth_equalityI) (auto simp: mem_bytes_def add.assoc less_diff_conv add.commute [of _ k])

lemma length_mem_bytes [simp]: "length (mem_bytes m a n) = n"
  by (simp add: mem_bytes_def)

text \<open>An instruction within the copy decodes as it does in the memory.\<close>

lemma decode_copy:
  assumes "xed_local X" and "xed_lengths X" and "decode X (mem_bytes m (a + word_of_nat q) 15) = Inr (Some i)"
    and "q + inst_length X i \<le> sz"
  shows "decode X (drop q (mem_bytes m a sz @ zs)) = Inr (Some i)"
proof -
  let ?l = "inst_length X i"
  have d: "xed_decode X (mem_bytes m (a + word_of_nat q) 15) = XED_OK i"
    using assms(3) by (simp add: decode_def MAX_BYTES_TO_DECODE_def take_mem_bytes split: xed_result.splits)
  have l: "?l \<le> 15" by (rule decode_length [OF assms(2,3)])
  moreover have "?l \<le> sz - q" using assms(4) by simp
  ultimately have "take ?l (take 15 (drop q (mem_bytes m a sz @ zs))) = take ?l (mem_bytes m (a + word_of_nat q) 15)"
    by (simp add: drop_mem_bytes take_mem_bytes)
  with assms(1) d l have "xed_decode X (take 15 (drop q (mem_bytes m a sz @ zs))) = XED_OK i"
    unfolding xed_local_def by (metis length_mem_bytes)
  then show ?thesis by (simp add: decode_def MAX_BYTES_TO_DECODE_def)
qed

lemma laid_out_copy:
  assumes "xed_local X" and "xed_lengths X"
  shows "laid_out X (\<lambda>q. mem_bytes m (word_of_nat q) 15) (unat a + q) is \<Longrightarrow> q + code_length X is \<le> sz \<Longrightarrow>
    laid_out X (\<lambda>q. drop q (mem_bytes m a sz @ zs)) q is"
proof (induction "is" arbitrary: q)
  case (Cons i "is")
  then have "decode X (mem_bytes m (a + word_of_nat q) 15) = Inr (Some i)" by simp
  from decode_copy [OF assms this, of sz zs] Cons show ?case by (simp add: add.assoc)
qed simp

lemma kvm_previous_laid_out:
  assumes "xed_lengths X" and "xed_local X" and "reads_memory m a"
    and "kvm_getStartAddress (sint ins) syms = Inr st" and "st \<noteq> -1" and "fn = (word_of_int st :: u64)"
    and "unat fn + code_length X is = unat ins" and "is \<noteq> []" and "code_length X is < 2 ^ 31"
    and "laid_out X (\<lambda>q. mem_bytes m (word_of_nat q) 15) (unat fn) is"
  shows "kvm_get_previous_instruction X a syms ins ex n = Inr (ins - word_of_nat (inst_length X (last is)))"
proof -
  let ?L = "code_length X is"
  note len = laid_out_positive [OF assms(1,10)]
  have "0 < length is" using assms(8) by simp
  with len have pos: "0 < ?L" by linarith
  have ins: "ins = fn + word_of_nat ?L"
    using arg_cong [OF assms(7), of "word_of_nat :: nat \<Rightarrow> u64"] by simp
  have sz: "to_i32 (uint (ins - fn)) = int ?L"
  proof -
    have "uint (ins - fn) = int ?L" using assms(9) by (simp add: ins uint_nat unat_of_nat)
    then show ?thesis using assms(9) by simp
  qed
  have ne: "fn \<noteq> ins" using assms(7) pos by auto
  have buf: "guest_copy a fn (int ?L) (8 * ?L) = Some (mem_bytes m fn ?L @ replicate (7 * ?L) 0)"
    using assms(3) by (simp add: guest_copy_def reads_memory_def Let_def)
  have "laid_out X (\<lambda>q. drop q (mem_bytes m fn ?L @ replicate (7 * ?L) 0)) 0 is"
    by (rule laid_out_copy [OF assms(2,1)]) (use assms(10) in simp_all)
  then have "kvm_sweep (?L + 1) X (mem_bytes m fn ?L @ replicate (7 * ?L) 0) ?L 0 = Inr (Some (?L - inst_length X (last is)))"
    by (rule kvm_sweep_laid_out [OF assms(1) _ assms(8)]) (use len in simp_all)
  moreover have "inst_length X (last is) \<le> ?L"
    using assms(8) member_le_sum_list [of "inst_length X (last is)" "map (inst_length X) is"] by (simp add: code_length_def)
  ultimately show ?thesis
    using assms(4,5) pos ne buf
    by (simp add: kvm_get_previous_instruction_def Let_def assms(6) [symmetric] sz of_nat_diff del: kvm_sweep.simps)
      (simp add: ins)
qed

text \<open>C17: Where the code from the start of a function to an address is a gapless sequence of instructions, both
  agents find the last of them, the native one in the memory of the process and the KVM agent in its
  copy of the memory of the guest; the KVM agent also when that instruction is being watched.\<close>

theorem agents_find_same_instruction:
  assumes "xed_lengths X" and "xed_local X" and "reads_memory m a"
    and "native_getStartAddress (sint ins) nsyms = Inr st" and "kvm_getStartAddress (sint ins) ksyms = Inr st"
    and "st \<noteq> -1" and "fn = (word_of_int st :: u64)" and "unat fn + code_length X is = unat ins" and "is \<noteq> []"
    and "code_length X is < 2 ^ 31" and "laid_out X (\<lambda>q. mem_bytes m (word_of_nat q) 15) (unat fn) is"
    and "excluded fn ins ex n = Inr False"
  shows "native_get_previous_instruction X (\<lambda>p. mem_bytes m p 15) nsyms ins ex n =
      Inr (ins - word_of_nat (inst_length X (last is))) \<and>
    kvm_get_previous_instruction X a ksyms ins ex' n' = Inr (ins - word_of_nat (inst_length X (last is)))"
proof
  have "length is \<le> unat ins - unat fn + 2" using laid_out_positive [OF assms(1,11)] assms(8) by simp
  from native_sweep_laid_out [OF assms(1,11,9,8) this]
  show "native_get_previous_instruction X (\<lambda>p. mem_bytes m p 15) nsyms ins ex n =
      Inr (ins - word_of_nat (inst_length X (last is)))"
    using assms(4,6,12) by (simp add: native_get_previous_instruction_def Let_def assms(7) [symmetric])
  show "kvm_get_previous_instruction X a ksyms ins ex' n' = Inr (ins - word_of_nat (inst_length X (last is)))"
    by (rule kvm_previous_laid_out [OF assms(1-3,5-11)])
qed

definition demo_mem :: "u64 \<Rightarrow> u8" where
  "demo_mem p = (if p = 16 then 2 else 1)"

definition demo_guest :: kvm_agent where
  "demo_guest = kvm_init\<lparr>hyPerfDev := Some (demo_hv\<lparr>hv_memory := \<lambda>addr n. (0, mem_bytes demo_mem addr (nat n))\<rparr>)\<rparr>"

definition demo_ksyms :: kvm_symbols where
  "demo_ksyms = \<lparr>isBfdInit = True, symbolMap = [(8, ''e''), (16, ''f''), (64, ''g'')],
     symbolSectionEnd = [(8, 99), (16, 99), (64, 99)]\<rparr>"

lemma demo_laid_out:
  "kvm_getStartAddress (sint (19 :: u64)) demo_ksyms = Inr 16" "reads_memory demo_mem demo_guest"
  "laid_out demo_xed (\<lambda>q. mem_bytes demo_mem (word_of_nat q) 15) (unat (16 :: u64)) [2, 1]"
  "code_length demo_xed [2, 1] = 3"
  by (simp_all add: kvm_getStartAddress_def demo_ksyms_def lower_bound_def iter_prev_def iter_get_def
      reads_memory_def kvm_getValueAtAddress_def demo_guest_def decode_def demo_xed_def MAX_BYTES_TO_DECODE_def
      mem_bytes_def demo_mem_def upt_rec)

lemma demo_previous: "kvm_get_previous_instruction demo_xed demo_guest demo_ksyms 19 ex n = Inr 18"
  using kvm_previous_laid_out [OF demo_xed_ok demo_laid_out(2,1) _ _ _ _ _ demo_laid_out(3)] demo_laid_out(4)
  by (simp add: demo_xed_def)

theorem agents_find_same_instruction_witness:
  "native_get_previous_instruction demo_xed (\<lambda>p. mem_bytes demo_mem p 15) demo_syms 19 [] 0 = Inr 18 \<and>
   kvm_get_previous_instruction demo_xed demo_guest demo_ksyms 19 [16] 1 = Inr 18"
proof -
  have st: "native_getStartAddress (sint (19 :: u64)) demo_syms = Inr 16"
    by (simp add: native_getStartAddress_def demo_syms_def lower_bound_def iter_prev_def iter_get_def)
  show ?thesis
    using agents_find_same_instruction [OF demo_xed_ok demo_laid_out(2) st demo_laid_out(1) _ _ _ _ _ demo_laid_out(3),
        of "[]" 0 "[16]" 1] demo_laid_out(4)
    by (simp add: excluded_def demo_xed_def)
qed

section \<open>Length and type alone\<close>

text \<open>
  Without an address to compute no register is read, so the missing context does no harm: the answer is the one any
  context gives, and the variables for the float type and the address keep their values.
\<close>

lemma length_and_type_needs_no_context:
  "get_mem_access_length_and_type X text ip out = native_mem_access X text context ip False False out"
  "get_mem_access_length_and_type X text ip out = Inr (out', ok) \<Longrightarrow>
    out_float out' = out_float out \<and> out_addr out' = out_addr out"
  "get_mem_access_length_and_type X text ip out \<noteq> Inl NullDeref"
  by (auto simp: get_mem_access_length_and_type_def native_mem_access_def mem_access_of_def Let_def decode_def rbind_def
    split: xed_result.splits option.splits sum.splits if_splits)

end
