(* ===== verification/Fix_Props.thy ===== *)
theory Fix_Props
  imports Decoder_Props Watch_Props
begin

text \<open>
  \<open>fixIP\<close> over the decoders: with the KVM agent the instruction pointer of a data breakpoint moves to the
  instruction before it; with the native agent the address of a memory operand cannot be computed.
\<close>

section \<open>The tool with the decoder of an agent\<close>

text \<open>
  \<open>MyAgent::get_previous_instruction\<close>, \<open>get_mem_access_length_and_type_address\<close> and \<open>getValueAtAddress\<close>. The
  tool passes no \<open>context\<close>. \<open>regs\<close> is what \<open>kvm_get_regs\<close> fills in.
\<close>

definition kvm_decoder :: "'i xed \<Rightarrow> (kvm_agent \<Rightarrow> regs) \<Rightarrow> kvm_symbols \<Rightarrow> kvm_agent env \<Rightarrow> kvm_agent env" where
  "kvm_decoder X regs syms E = E\<lparr>
     get_previous_instruction := \<lambda>ins ex n a. kvm_get_previous_instruction X a syms ins ex n,
     mem_access := \<lambda>ip floatTypeP addressP out a. kvm_mem_access X a (regs a) ip floatTypeP addressP out,
     value_at := kvm_getValueAtAddress\<rparr>"

definition native_decoder :: "'i xed \<Rightarrow> (u64 \<Rightarrow> u8 list) \<Rightarrow> symbols \<Rightarrow> unit env \<Rightarrow> unit env" where
  "native_decoder X prog syms E = E\<lparr>
     get_previous_instruction := \<lambda>ins ex n a. native_get_previous_instruction X prog syms ins ex n,
     mem_access := \<lambda>ip floatTypeP addressP out a. native_mem_access X prog None ip floatTypeP addressP out,
     value_at := native_getValueAtAddress\<rparr>"

section \<open>Finding the instruction\<close>

lemma kvm_previous_sound:
  assumes "kvm_get_previous_instruction X a syms ins ex n = Inr p" and "p \<noteq> 0"
    and "\<And>st. kvm_getStartAddress (sint ins) syms = Inr st \<Longrightarrow> uint (ins - word_of_int st) < 2 ^ 31"
  obtains st sz buf off where "kvm_getStartAddress (sint ins) syms = Inr st" and "ins = word_of_int st + word_of_nat sz"
    and "sz < 2 ^ 31" and "guest_copy a (word_of_int st) (int sz) (8 * sz) = Some buf"
    and "sweeps X (\<lambda>q. drop q buf) 0 off" and "ends X (\<lambda>q. drop q buf) off sz"
    and "p = word_of_int st + word_of_nat off"
proof -
  from assms(1) obtain st where st: "kvm_getStartAddress (sint ins) syms = Inr st"
    by (auto simp: kvm_get_previous_instruction_def rbind_Inr)
  define sz where "sz = unat (ins - word_of_int st)"
  have u: "uint (ins - word_of_int st) = int sz" unfolding sz_def uint_nat ..
  then have b: "int sz < 2 ^ 31" using assms(3) [OF st] by simp
  then have i32: "to_i32 (uint (ins - word_of_int st)) = int sz" by (simp add: u)
  have ins: "ins = word_of_int st + word_of_nat sz" by (simp add: sz_def)
  have e: "kvm_get_previous_instruction X a syms ins ex n = (if st = -1 \<or> word_of_int st = ins then Inr 0
      else if int sz = 0 then Inr (word_of_int st)
      else case guest_copy a (word_of_int st) (int sz) (8 * sz) of None \<Rightarrow> Inr 0
        | Some buf \<Rightarrow> rbind (kvm_sweep (sz + 1) X buf sz 0) (\<lambda>r.
            Inr (case r of None \<Rightarrow> 0 | Some off \<Rightarrow> word_of_int st + word_of_nat off)))"
    by (simp only: kvm_get_previous_instruction_def st rbind_simps Let_def i32 nat_int of_nat_less_0_iff if_False)
  with assms(1,2) have "st \<noteq> -1" "word_of_int st \<noteq> ins" by auto
  moreover have "sz \<noteq> 0"
  proof
    assume "sz = 0"
    with ins have "ins = word_of_int st" by simp
    with \<open>word_of_int st \<noteq> ins\<close> show False by simp
  qed
  ultimately obtain buf where buf: "guest_copy a (word_of_int st) (int sz) (8 * sz) = Some buf"
    and r: "rbind (kvm_sweep (sz + 1) X buf sz 0) (\<lambda>r.
      Inr (case r of None \<Rightarrow> 0 | Some off \<Rightarrow> word_of_int st + word_of_nat off)) = Inr p"
    using e assms(1,2) by (cases "guest_copy a (word_of_int st) (int sz) (8 * sz)") (simp_all del: kvm_sweep.simps)
  from r assms(2) obtain off where k: "kvm_sweep (sz + 1) X buf sz 0 = Inr (Some off)"
    and p: "p = word_of_int st + word_of_nat off"
    by (auto simp: rbind_Inr simp del: kvm_sweep.simps split: option.splits)
  show thesis by (rule that [OF st ins _ buf _ _ p]) (use b kvm_sweep_sound [OF k] in simp_all)
qed

lemma GetPatchedIP_asks:
  assumes "GetPatchedIP E tid ip s = Inr p"
  obtains ex n where "get_previous_instruction E ip ex n (agent (pl s)) = Inr p"
  using assms by (auto simp: GetPatchedIP_def Let_def rbind_Inr split: if_splits)

text \<open>What \<open>fixIP\<close> leaves in the event when it answers true.\<close>

lemma fix_values_ip:
  "h_ip_addr (fst (fix_values E ev a)) = h_ip_addr ev" "fixedIP (fst (fix_values E ev a)) = fixedIP ev"
  by (auto simp: fix_values_def Let_def split: prod.splits list.splits)

lemma fix_access_ip:
  "fix_access E bp ev a = Inr (ev', b) \<Longrightarrow> h_ip_addr ev' = h_ip_addr ev"
  "fix_access E bp ev a = Inr (ev', b) \<Longrightarrow> fixedIP ev' = fixedIP ev"
  by (cases "accessType ev = UNKNOWN"; cases bp;
      clarsimp simp: fix_access_def Let_def rbind_Inr split: if_splits; fastforce)+

lemma fix_event_ip:
  assumes "fix_event E bp ip ev a = Inr (ev', b)"
  shows "h_ip_addr ev' = ip" and "fixedIP ev' = ip"
proof -
  from assms obtain ev1 c where 1: "fix_access E bp (ev\<lparr>h_ip_addr := ip, fixedIP := ip\<rparr>) a = Inr (ev1, c)"
    and 2: "(if c then fix_values E ev1 a else (ev1, False)) = (ev', b)"
    by (auto simp: fix_event_def rbind_Inr)
  from 2 have "h_ip_addr ev' = h_ip_addr ev1 \<and> fixedIP ev' = fixedIP ev1"
    using fix_values_ip [of E ev1 a] by (cases c) auto
  with fix_access_ip [OF 1] show "h_ip_addr ev' = ip" "fixedIP ev' = ip" by simp_all
qed

lemma fixIP_true:
  assumes "fixIP E tid e s = Inr (s', True)" and "evs s e = Some ev"
    and "get_device (h_tId ev) (Event.deviceFileId ev) (pl s) = Inr (Some p)" and "getd p (pl s) = Inr d"
  obtains ip ev' where "patch_ip E tid ev d s = Inr ip" and "IsPCSane (h_ip_addr ev) ip"
    and "evs s' e = Some ev'" and "h_ip_addr ev' = ip" and "fixedIP ev' = ip"
proof -
  from assms obtain ip where ip: "patch_ip E tid ev d s = Inr ip" "IsPCSane (h_ip_addr ev) ip"
    by (auto simp: fixIP_def get_ev_def rbind_Inr split: if_splits)
  with assms obtain ev' where f: "fix_event E (deviceType d = BPDEVICE) ip ev (agent (pl s)) = Inr (ev', True)"
    and "s' = set_ev e ev' s" by (auto simp: fixIP_def get_ev_def rbind_Inr)
  then have "evs s' e = Some ev'" by (simp add: set_ev_def)
  then show thesis using that [OF ip _ fix_event_ip [OF f]] by blast
qed

lemma near_diff:
  assumes "IsPCSane (b + word_of_nat m) (b + word_of_nat k)" and "k \<le> m" and "m < 2 ^ 31"
  shows "m - k \<le> 127"
proof -
  have "addr_diff (b + word_of_nat m) (b + word_of_nat k) = to_i64 (sint (word_of_nat m - word_of_nat k :: u64))"
  proof -
    have "to_i64 (sint x - sint y) = to_i64 (sint (x - y))" for x y :: u64
      by (simp add: to_i64_def sint_word_ariths)
    then show ?thesis by (simp add: addr_diff_def)
  qed
  also have "word_of_nat m - word_of_nat k = (word_of_nat (m - k) :: u64)" using assms(2) by simp
  also have "to_i64 (sint (word_of_nat (m - k) :: u64)) = int (m - k)"
  proof -
    have "take_bit 64 (m - k) = m - k" using assms(3) by (intro take_bit_nat_eq_self) simp
    then have "sint (word_of_nat (m - k) :: u64) = signed_take_bit 63 (int (m - k))"
      by (simp add: sint_uint unsigned_of_nat)
    also have "\<dots> = int (m - k)" using assms(3) by (intro signed_take_bit_int_eq_self) simp_all
    finally show ?thesis using assms(3) by simp
  qed
  finally have "int (m - k) div 8 \<le> 15" using assms(1) by (simp add: IsPCSane_def)
  then show ?thesis by presburger
qed

section \<open>The KVM agent\<close>

text \<open>C10: When \<open>fixIP\<close> accepts a trigger of a data breakpoint with the decoder of the KVM agent, the instruction
  pointer has moved to an instruction of the guest that linear disassembly of its function comes by,
  that ends where the processor stopped, and that is at most 127 bytes long.\<close>

theorem fixIP_finds_instruction:
  assumes "fixIP (kvm_decoder X regs syms E) tid e s = Inr (s', True)" and "evs s e = Some ev"
    and "get_device (h_tId ev) (Event.deviceFileId ev) (pl s) = Inr (Some p)" and "getd p (pl s) = Inr d"
    and "deviceType d = BPDEVICE" and "bp_type d \<noteq> 4"
    and "\<And>st. kvm_getStartAddress (sint (h_ip_addr ev)) syms = Inr st \<Longrightarrow>
      uint (h_ip_addr ev - word_of_int st) < 2 ^ 31" and "xed_lengths X"
  shows "\<exists>st sz buf off ev'. kvm_getStartAddress (sint (h_ip_addr ev)) syms = Inr st \<and>
    h_ip_addr ev = word_of_int st + word_of_nat sz \<and>
    guest_copy (agent (pl s)) (word_of_int st) (int sz) (8 * sz) = Some buf \<and>
    sweeps X (\<lambda>q. drop q buf) 0 off \<and> ends X (\<lambda>q. drop q buf) off sz \<and> off < sz \<and> sz - off \<le> 127 \<and>
    evs s' e = Some ev' \<and> h_ip_addr ev' = word_of_int st + word_of_nat off \<and> fixedIP ev' = h_ip_addr ev'"
proof -
  let ?E = "kvm_decoder X regs syms E"
  from fixIP_true [OF assms(1-4)] obtain ip ev' where ip: "patch_ip ?E tid ev d s = Inr ip"
    "IsPCSane (h_ip_addr ev) ip" and ev': "evs s' e = Some ev'" "h_ip_addr ev' = ip" "fixedIP ev' = ip" .
  from ip(1) assms(5,6) have "GetPatchedIP ?E tid (h_ip_addr ev) s = Inr ip"
    by (simp add: patch_ip_def PEBSDEVICE_def BPDEVICE_def)
  then obtain ex n where "kvm_get_previous_instruction X (agent (pl s)) syms (h_ip_addr ev) ex n = Inr ip"
    by (rule GetPatchedIP_asks) (auto simp: kvm_decoder_def)
  moreover have "ip \<noteq> 0" using ip(2) by (simp add: IsPCSane_def)
  ultimately obtain st sz buf off where f: "kvm_getStartAddress (sint (h_ip_addr ev)) syms = Inr st"
      "h_ip_addr ev = word_of_int st + word_of_nat sz" "sz < 2 ^ 31"
      "guest_copy (agent (pl s)) (word_of_int st) (int sz) (8 * sz) = Some buf"
      "sweeps X (\<lambda>q. drop q buf) 0 off" "ends X (\<lambda>q. drop q buf) off sz" "ip = word_of_int st + word_of_nat off"
    by (rule kvm_previous_sound [OF _ _ assms(7)])
  have "off < sz" by (rule ends_less [OF assms(8) f(6)])
  moreover have "sz - off \<le> 127"
    by (rule near_diff [of "word_of_int st"]) (use ip(2) f \<open>off < sz\<close> in simp_all)
  ultimately show ?thesis using f ev' by auto
qed

text \<open>When the guest cannot be read at the instruction, the KVM decoder reports success without having
  written anything: a breakpoint event of unknown type keeps that type and gets the data address
  \<open>-1\<close>, and \<open>fixIP\<close> goes on with it.\<close>

theorem unreadable_instruction_accepted:
  assumes "fst (kvm_getValueAtAddress (h_ip_addr ev) 8 a) \<noteq> 0" and "accessType ev = UNKNOWN"
  shows "fix_access (kvm_decoder X regs syms E) True ev a = Inr (ev\<lparr>h_data_addr := -1, data_addr := -1\<rparr>, True)"
  using assms by (simp add: fix_access_def kvm_decoder_def kvm_mem_access_def guest_copy_def split_def)

section \<open>The native agent\<close>

text \<open>C36: With the native agent a data breakpoint crashes the process when the type of the access is not known and
  the address of the operand needs a register: the tool passes no context and the register callback
  follows the null pointer.\<close>

theorem native_breakpoint_follows_null:
  assumes "evs s e = Some ev" and "accessType ev = UNKNOWN"
    and "get_device (h_tId ev) (Event.deviceFileId ev) (pl s) = Inr (Some p)" and "getd p (pl s) = Inr d"
    and "deviceType d = BPDEVICE" and "patch_ip (native_decoder X prog syms E) tid ev d s = Inr ip"
    and "IsPCSane (h_ip_addr ev) ip" and "decode X (prog ip) = Inr (Some i)" and "number_of_memory_operands X i = 1"
    and "\<And>reg. xed_agen X i 0 reg = rbind (reg (XED_REG_GPR r W64)) f"
  shows "fixIP (native_decoder X prog syms E) tid e s = Inl NullDeref"
proof -
  have "fix_event (native_decoder X prog syms E) True ip ev (agent (pl s)) = Inl NullDeref"
    using assms(2,8-10)
    by (simp add: fix_event_def fix_access_def native_decoder_def native_mem_access_def mem_access_of_def Let_def
        gpr_value_def greg_def)
  with assms(1,3-7) show ?thesis by (simp add: fixIP_def get_ev_def)
qed

text \<open>A guest whose code is \<open>demo_mem\<close>: the processor stops at 19, the instruction before is at 18.\<close>

definition demo_stopped :: Event where
  "demo_stopped = (demo_event LOAD 9)\<lparr>h_ip_addr := 19, h_tId := 7, Event.deviceFileId := 5, accessType := UNKNOWN\<rparr>"

definition fix_tool :: "kvm_agent tool" where
  "fix_tool = (demo_tool 0)\<lparr>pl := (pl (demo_tool 0))\<lparr>agent := demo_guest\<rparr>, evs := [3 \<mapsto> demo_stopped]\<rparr>"

definition demo_regs :: "kvm_agent \<Rightarrow> regs" where
  "demo_regs a = \<lparr>gregs = \<lambda>_. 4096, rflags = 0, rip = 19, csgsfs = 0\<rparr>"

lemma demo_access:
  "kvm_mem_access demo_xed demo_guest (demo_regs demo_guest) 18 True True out =
     Inr (\<lparr>out_len = 8, out_type = LOAD, out_float = ELEM_TYPE_DOUBLE, out_addr = 4096\<rparr>, True)"
  by (cases out) (simp add: kvm_mem_access_def guest_copy_def kvm_getValueAtAddress_def demo_guest_def mem_bytes_def demo_mem_def
      mem_access_of_def decode_def demo_xed_def MAX_BYTES_TO_DECODE_def upt_rec mem_float_def access_of_def
      float_of_element_def gpr_value_def demo_regs_def)

lemma demo_reads: "kvm_getValueAtAddress addr n demo_guest = (0, mem_bytes demo_mem addr (nat n))"
  by (simp add: kvm_getValueAtAddress_def demo_guest_def)

lemma demo_device:
  "get_device (h_tId demo_stopped) (Event.deviceFileId demo_stopped) (pl fix_tool) = Inr (Some 0)"
  "\<exists>d. getd 0 (pl fix_tool) = Inr d \<and> deviceType d = BPDEVICE \<and> bp_type d \<noteq> 4"
  "evs fix_tool 3 = Some demo_stopped" "agent (pl fix_tool) = demo_guest" "WP_ThreadData_key fix_tool 7 = Some demo_td"
  by (simp_all add: get_device_def lockDevice_def fix_tool_def demo_stopped_def demo_bp_plat_def plat_init_def getd_def
      new_BPDevice_def)

lemma demo_fixed:
  "\<exists>s'. fixIP (kvm_decoder demo_xed demo_regs demo_ksyms (demo_env True)) 7 3 fix_tool = Inr (s', True)"
proof -
  let ?E = "kvm_decoder demo_xed demo_regs demo_ksyms (demo_env True)"
  obtain d where d: "getd 0 (pl fix_tool) = Inr d" "deviceType d = BPDEVICE" "bp_type d \<noteq> 4" using demo_device(2) by blast
  have slots: "wp_slots (wpConfig fix_tool) = [0, 1]" by (simp add: fix_tool_def wp_slots_def upt_rec)
  have ip: "h_ip_addr demo_stopped = 19" "accessType demo_stopped = UNKNOWN" by (simp_all add: demo_stopped_def)
  have "GetPatchedIP ?E 7 19 fix_tool = Inr 18"
    using demo_device(4,5)
    by (simp add: GetPatchedIP_def slots TD_GET_def slot_at_def kvm_decoder_def demo_previous)
  then have "patch_ip ?E 7 demo_stopped d fix_tool = Inr 18"
    using d by (simp add: patch_ip_def ip PEBSDEVICE_def BPDEVICE_def)
  moreover have "IsPCSane 19 18" by (simp add: IsPCSane_def addr_diff_def)
  moreover have "\<exists>ev'. fix_event ?E True 18 demo_stopped demo_guest = Inr (ev', True)"
    using ip by (auto simp: fix_event_def fix_access_def fix_values_def kvm_decoder_def demo_access Let_def
        demo_reads split: prod.splits list.splits)
  ultimately show ?thesis using demo_device d by (auto simp: fixIP_def get_ev_def ip)
qed

theorem fixIP_finds_instruction_witness:
  "\<exists>s' ev' st off. fixIP (kvm_decoder demo_xed demo_regs demo_ksyms (demo_env True)) 7 3 fix_tool = Inr (s', True) \<and>
     kvm_getStartAddress 19 demo_ksyms = Inr st \<and> evs s' 3 = Some ev' \<and> h_ip_addr ev' = word_of_int st + word_of_nat off"
proof -
  obtain s' where s': "fixIP (kvm_decoder demo_xed demo_regs demo_ksyms (demo_env True)) 7 3 fix_tool = Inr (s', True)"
    using demo_fixed by blast
  obtain d where d: "getd 0 (pl fix_tool) = Inr d" "deviceType d = BPDEVICE" "bp_type d \<noteq> 4" using demo_device(2) by blast
  have ip: "h_ip_addr demo_stopped = 19" by (simp add: demo_stopped_def)
  show ?thesis
    using fixIP_finds_instruction [OF s' demo_device(3,1) d, unfolded ip] demo_laid_out(1) demo_xed_ok(1) s' by auto
qed

theorem unreadable_instruction_accepted_witness:
  "fix_access (kvm_decoder demo_xed demo_regs demo_ksyms (demo_env True)) True demo_stopped kvm_init =
     Inr (demo_stopped\<lparr>h_data_addr := -1, data_addr := -1\<rparr>, True)"
  by (rule unreadable_instruction_accepted) (simp_all add: kvm_getValueAtAddress_def kvm_init_def demo_stopped_def)

text \<open>A thread of the native agent with an execution breakpoint on device 5.\<close>

definition native_env :: "unit env" where
  "native_env = \<lparr>ops = native_ops, sysos = demo_os 100, devcfg = demo_cfg, fast_bp = False, spycfg = demo_spy_cfg,
     logicType = DEADSPY, AVOID_PUSH = True, AVOID_CALLQ = True, AVOID_LOCK = False,
     get_previous_instruction = (\<lambda>ip _ _ _. Inr (ip - 4)), mem_access = (\<lambda>_ _ _ out _. Inr (out, True)),
     value_at = native_getValueAtAddress, fresh_mem = (\<lambda>n. replicate (nat n) 0)\<rparr>"

definition native_tool :: "unit tool" where
  "native_tool = \<lparr>pl = (plat_init ())\<lparr>deviceMap := [((7, 5), 0)],
       devs := [0 \<mapsto> (new_BPDevice 8 4 4096)\<lparr>deviceFileId := 5\<rparr>]\<rparr>,
     wpConfig = two_slots WP_REPLACEMENT_AUTO,
     WPInitFlag = True, WP_ThreadData_key = [7 \<mapsto> demo_td], oldBadAddress = 0,
     evs = [3 \<mapsto> demo_stopped], next_ev = 4, spies = \<lparr>sp_dead = demo_dead, sp_red = demo_red, sp_load = demo_red,
     sp_dup = demo_red, sp_false = demo_dead\<rparr>\<rparr>"

theorem native_breakpoint_follows_null_witness:
  "fixIP (native_decoder demo_xed demo_text demo_syms native_env) 7 3 native_tool = Inl NullDeref"
proof -
  let ?d = "(new_BPDevice 8 4 4096)\<lparr>deviceFileId := 5\<rparr>"
  have stopped: "h_ip_addr demo_stopped = 19" "accessType demo_stopped = UNKNOWN" "h_tId demo_stopped = 7"
      "Event.deviceFileId demo_stopped = 5" by (simp_all add: demo_stopped_def)
  have d: "deviceType ?d = BPDEVICE" "bp_type ?d = 4" by (simp_all add: new_BPDevice_def)
  show ?thesis
  proof (rule native_breakpoint_follows_null [where ev = demo_stopped and p = 0 and d = ?d and ip = 19 and i = 1 and r = RBX
        and f = "\<lambda>(v, e). Inr (if e then None else Some v)"])
    show "get_device (h_tId demo_stopped) (Event.deviceFileId demo_stopped) (pl native_tool) = Inr (Some 0)"
      by (simp add: stopped get_device_def lockDevice_def native_tool_def plat_init_def)
    show "patch_ip (native_decoder demo_xed demo_text demo_syms native_env) 7 demo_stopped ?d native_tool = Inr 19"
      using d by (simp add: patch_ip_def stopped PEBSDEVICE_def BPDEVICE_def)
    show "IsPCSane (h_ip_addr demo_stopped) 19" by (simp add: IsPCSane_def addr_diff_def stopped)
    show "decode demo_xed (demo_text 19) = Inr (Some 1)"
      by (simp add: decode_def demo_xed_def demo_text_def MAX_BYTES_TO_DECODE_def)
  qed (use d stopped in \<open>simp_all add: native_tool_def getd_def demo_xed_def\<close>)
qed

end
