(* ===== verification/Python_Agent.thy ===== *)
theory Python_Agent
  imports Context_Types
begin

text \<open>
  The Python agent (\<^verbatim>\<open>src/agent/pythonAgent\<close>): the bytecode iterator, the walk of the Python stack that
  fills an event, and the search for the state of a thread. The objects of the interpreter are records
  of the members the code reads; the list of frames is the chain of \<open>f_back\<close>.
\<close>

section \<open>Opcodes\<close>

definition HAVE_ARGUMENT :: int where "HAVE_ARGUMENT = 90"
definition EXTENDED_ARG :: int where "EXTENDED_ARG = 144"

definition HAS_ARG :: "int \<Rightarrow> bool" where
  "HAS_ARG op \<longleftrightarrow> HAVE_ARGUMENT \<le> op"

text \<open>
  \<open>STORE_SUBSCR\<close>, \<open>STORE_NAME\<close>, \<open>STORE_ATTR\<close>, \<open>STORE_GLOBAL\<close>, \<open>STORE_FAST\<close>, \<open>STORE_ANNOTATION\<close>, \<open>STORE_DEREF\<close>;
  \<open>LOAD_BUILD_CLASS\<close>, \<open>LOAD_CONST\<close>, \<open>LOAD_NAME\<close>, \<open>LOAD_ATTR\<close>, \<open>LOAD_GLOBAL\<close>, \<open>LOAD_FAST\<close>, \<open>LOAD_CLOSURE\<close>, \<open>LOAD_DEREF\<close>,
  \<open>LOAD_CLASSDEREF\<close>.
\<close>

definition store_ops :: "int list" where
  "store_ops = [60, 90, 95, 97, 125, 127, 137]"

definition load_ops :: "int list" where
  "load_ops = [71, 100, 101, 106, 116, 124, 135, 136, 148]"

section \<open>The bytecode iterator\<close>

text \<open>\<open>bytecode_size_\<close> is the length of \<open>bytecode_str\<close>. The constructor leaves opcode and argument indeterminate.\<close>

record iterator =
  it_opcode :: int
  it_oparg :: int
  cur_index :: nat
  next_index :: nat
  it_error :: bool
  bytecode_str :: "u8 list"

definition Done :: "iterator \<Rightarrow> bool" where
  "Done it \<longleftrightarrow> cur_index it = length (bytecode_str it)"

definition byte_of :: "iterator \<Rightarrow> nat \<Rightarrow> int res" where
  "byte_of it i = rbind (rd (bytecode_str it) (int i)) (\<lambda>b. Inr (uint b))"

text \<open>The two bytes of an argument, low byte first.\<close>

definition arg_of :: "iterator \<Rightarrow> nat \<Rightarrow> int res" where
  "arg_of it i = rbind (byte_of it i) (\<lambda>lo. rbind (byte_of it (i + 1)) (\<lambda>hi. Inr (lo OR push_bit 8 hi)))"

text \<open>What follows an \<open>EXTENDED_ARG\<close>: an opcode with argument, whose argument are the lower 16 bits.\<close>

definition Advance_extended :: "iterator \<Rightarrow> iterator res" where
  "Advance_extended it =
     (if next_index it + 2 \<ge> length (bytecode_str it) then Inr (it\<lparr>it_error := True\<rparr>)
      else rbind (byte_of it (next_index it)) (\<lambda>op.
        let it = it\<lparr>it_opcode := op\<rparr>
        in if \<not> HAS_ARG op then Inr (it\<lparr>it_error := True\<rparr>)
           else rbind (arg_of it (next_index it + 1)) (\<lambda>arg.
             Inr (it\<lparr>it_oparg := to_i32 (push_bit 16 (it_oparg it)) OR arg, next_index := next_index it + 3\<rparr>))))"

definition Advance :: "iterator \<Rightarrow> iterator res" where
  "Advance it =
     (let it = it\<lparr>cur_index := next_index it\<rparr>
      in if Done it then Inr it
         else rbind (byte_of it (cur_index it)) (\<lambda>op.
           let it = it\<lparr>it_opcode := op, next_index := next_index it + 1\<rparr>
           in if \<not> HAS_ARG op then Inr it
              else if next_index it + 1 \<ge> length (bytecode_str it) then Inr (it\<lparr>it_error := True\<rparr>)
              else rbind (arg_of it (next_index it)) (\<lambda>arg.
                let it = it\<lparr>it_oparg := arg, next_index := next_index it + 2\<rparr>
                in if op = EXTENDED_ARG then Advance_extended it else Inr it)))"

definition new_iterator :: "int \<Rightarrow> u8 list \<Rightarrow> iterator res" where
  "new_iterator junk code =
     Advance \<lparr>it_opcode = junk, it_oparg = junk, cur_index = 0, next_index = 0, it_error = False, bytecode_str = code\<rparr>"

text \<open>
  The constructor that starts in the middle of the bytecode of another iterator; \<open>index\<close> is converted to
  \<open>size_t\<close>.
\<close>

definition iterator_at :: "int \<Rightarrow> iterator \<Rightarrow> int \<Rightarrow> iterator res" where
  "iterator_at junk it index =
     Advance \<lparr>it_opcode = junk, it_oparg = junk, cur_index = 0, next_index = nat (to_u64 index), it_error = False,
       bytecode_str = bytecode_str it\<rparr>"

section \<open>The stack walk\<close>

record pyframe =
  f_lineno :: int
  f_lasti :: int
  co_lnotab :: "u8 list option"
  co_code :: "u8 list"
  co_name :: string
  co_filename :: string

text \<open>
  The loop over the line table. \<open>char\<close> is signed; \<open>addr\<close> is an \<open>int\<close>, \<open>line\<close> a \<open>uint64_t\<close>. A table of odd
  length ends with the null byte behind it.
\<close>

fun lnotab_walk :: "int \<Rightarrow> u8 list \<Rightarrow> int \<Rightarrow> int \<Rightarrow> int \<times> int" where
  "lnotab_walk lasti [] addr line = (addr, line)"
| "lnotab_walk lasti (a # ls) addr line =
     (let addr = to_i32 (addr + sint a)
      in if addr > lasti then (addr, line)
         else case ls of [] \<Rightarrow> (addr, line) | l # r \<Rightarrow> lnotab_walk lasti r addr (to_u64 (line + sint l)))"

text \<open>The loop over the bytecode: \<open>addr\<close> is converted to \<open>size_t\<close> for the comparison.\<close>

fun find_op :: "nat \<Rightarrow> int \<Rightarrow> iterator \<Rightarrow> int \<Rightarrow> (iterator \<times> int) res" where
  "find_op 0 addr it prevOpCode = Inl OutOfFuel"
| "find_op (Suc n) addr it prevOpCode =
     (if Done it \<or> it_error it \<or> to_u64 addr = int (cur_index it) then Inr (it, prevOpCode)
      else rbind (Advance it) (\<lambda>it'. find_op n addr it' (it_opcode it)))"

text \<open>The context frame of a Python frame; \<open>ptr\<close> is its address. One equal to the last of the event is dropped.\<close>

definition record_frame :: "nat \<Rightarrow> pyframe \<Rightarrow> Event \<Rightarrow> Event \<times> int" where
  "record_frame ptr f event =
     (case co_lnotab f of None \<Rightarrow> (event, 0)
      | Some lnotab \<Rightarrow>
          let (addr, line) = lnotab_walk (f_lasti f) lnotab 0 (to_u64 (f_lineno f));
              cf = \<lparr>cf_ptr = ptr, binary_addr = addr, method_name = co_name f, source_file = co_filename f, src_lineno = line\<rparr>
          in (if eventContext_agent event = [] \<or> \<not> frame_eq (last (eventContext_agent event)) cf
              then event\<lparr>eventContext_agent := eventContext_agent event @ [cf]\<rparr> else event, addr))"

text \<open>What the instruction at \<open>addr\<close> and the one before it say of the access.\<close>

definition classify_op :: "int \<Rightarrow> AccessType \<Rightarrow> AccessType" where
  "classify_op prevOpCode old =
     (if prevOpCode \<in> set store_ops then STORE else if prevOpCode \<in> set load_ops then LOAD else old)"

definition fix_frame :: "int \<Rightarrow> pyframe \<Rightarrow> int \<Rightarrow> Event \<Rightarrow> Event res" where
  "fix_frame junk f addr event =
     rbind (new_iterator junk (co_code f)) (\<lambda>it.
     rbind (find_op (length (co_code f) + 1) addr it (-1)) (\<lambda>(it, prevOpCode).
       let event = event\<lparr>opcode := it_opcode it\<rparr>;
           event = (if fixSkid event
                    then event\<lparr>fixedIP := word_of_nat (cur_index it), isFixed := True, opcode := prevOpCode\<rparr> else event)
       in Inr (event\<lparr>accessType := classify_op prevOpCode (accessType event)\<rparr>)))"

definition per_loop :: int where "per_loop = 2"
definition MAX_STACK_DEPTH :: int where "MAX_STACK_DEPTH = (248 - 4) div 8"

text \<open>\<open>ptr depth\<close> is the address of the frame allocated at a depth.\<close>

fun walk_python_stack ::
  "int \<Rightarrow> (int \<Rightarrow> nat) \<Rightarrow> int \<Rightarrow> pyframe list \<Rightarrow> int \<Rightarrow> Event \<Rightarrow> (Event \<times> int) res" where
  "walk_python_stack junk ptr max_depth [] depth event = Inr (event, depth)"
| "walk_python_stack junk ptr max_depth (f # fs) depth event =
     (if depth + per_loop \<le> max_depth
      then (let (event, addr) = record_frame (ptr depth) f event
            in rbind (fix_frame junk f addr event) (\<lambda>event.
                 walk_python_stack junk ptr max_depth fs (depth + 1) event))
      else Inr (event, depth))"

section \<open>Threads\<close>

text \<open>A thread state: its identifier and the chain of its frames, \<open>None\<close> for a null \<open>frame\<close>.\<close>

record pythread =
  thread_id :: int
  thread_frame :: "pyframe list option"

definition get_stack_trace ::
  "int \<Rightarrow> (int \<Rightarrow> nat) \<Rightarrow> pythread option \<Rightarrow> int \<Rightarrow> Event \<Rightarrow> (Event \<times> int) res" where
  "get_stack_trace junk ptr current max_depth event =
     (case current of None \<Rightarrow> Inr (event, 0)
      | Some t \<Rightarrow> (case thread_frame t of None \<Rightarrow> Inr (event, 0)
          | Some frames \<Rightarrow> walk_python_stack junk ptr max_depth frames 0 event))"

text \<open>
  The threads of the interpreters, in order. The inner loop looks at a state before it tests it for null.
\<close>

fun get_pystate_for_this_thread :: "int \<Rightarrow> pythread list list \<Rightarrow> pythread option res" where
  "get_pystate_for_this_thread mythread_id [] = Inr None"
| "get_pystate_for_this_thread mythread_id (ts # is) =
     (if ts = [] then Inl NullDeref
      else case filter (\<lambda>t. thread_id t = mythread_id) ts of t # _ \<Rightarrow> Inr (Some t)
        | [] \<Rightarrow> get_pystate_for_this_thread mythread_id is)"

text \<open>
  The spinlock: a thread that interrupts the holder spins forever. \<open>state\<close> is what
  \<open>PyGILState_GetThisThreadState\<close> answers.
\<close>

definition acquire_spinlock :: "bool \<Rightarrow> bool res" where
  "acquire_spinlock spinlock = (if spinlock then Inl Deadlock else Inr True)"

definition sig_handler_getContext ::
  "int \<Rightarrow> (int \<Rightarrow> nat) \<Rightarrow> pythread option \<Rightarrow> bool \<Rightarrow> Event \<Rightarrow> (bool \<times> Event) res" where
  "sig_handler_getContext junk ptr state spinlock event =
     rbind (acquire_spinlock spinlock) (\<lambda>_.
     rbind (get_stack_trace junk ptr state (MAX_STACK_DEPTH - 1) event) (\<lambda>(event, depth). Inr (False, event)))"

definition python_processEvent ::
  "int \<Rightarrow> (int \<Rightarrow> nat) \<Rightarrow> pythread option \<Rightarrow> bool \<Rightarrow> Event \<Rightarrow> (bool \<times> Event) res" where
  "python_processEvent junk ptr state spinlock event = sig_handler_getContext junk ptr state spinlock event"

section \<open>The Python module\<close>

text \<open>\<open>depth\<close> is a local variable that nothing writes: what it holds is an argument.\<close>

definition pyagent_sample_stack :: "int \<Rightarrow> int" where
  "pyagent_sample_stack depth = (if depth = 0 then 0 else 1)"

text \<open>The result is the spinlock afterwards; \<open>commit\<close> is not used.\<close>

definition sigprof_handler_template :: "int \<Rightarrow> pythread list list \<Rightarrow> int \<Rightarrow> bool \<Rightarrow> bool res" where
  "sigprof_handler_template mythread_id interpreters depth spinlock =
     rbind (acquire_spinlock spinlock) (\<lambda>_.
     rbind (get_pystate_for_this_thread mythread_id interpreters) (\<lambda>tstate.
       let commit = pyagent_sample_stack depth in Inr False))"

definition pyAgent_is_enabled :: int where "pyAgent_is_enabled = 0"

definition pyAgent_print_stack :: "int \<Rightarrow> pythread list list \<Rightarrow> int \<Rightarrow> bool \<Rightarrow> (bool \<times> int) res" where
  "pyAgent_print_stack mythread_id interpreters depth spinlock =
     rbind (sigprof_handler_template mythread_id interpreters depth spinlock) (\<lambda>spinlock. Inr (spinlock, 0))"

text \<open>The two methods of the module; \<open>Py_True\<close> and \<open>Py_False\<close> are Booleans.\<close>

definition libperform_is_enabled :: bool where
  "libperform_is_enabled \<longleftrightarrow> pyAgent_is_enabled \<noteq> 0"

definition libperform_print_stack :: "int \<Rightarrow> pythread list list \<Rightarrow> int \<Rightarrow> bool \<Rightarrow> (bool \<times> bool) res" where
  "libperform_print_stack mythread_id interpreters depth spinlock =
     rbind (pyAgent_print_stack mythread_id interpreters depth spinlock) (\<lambda>(spinlock, r). Inr (spinlock, r \<noteq> 0))"

section \<open>The other virtual functions\<close>

text \<open>\<open>updateBPAddress\<close> is a free function in the file of the agent.\<close>

definition python_updateBPAddress :: "int \<Rightarrow> int \<Rightarrow> int \<Rightarrow> u64 \<Rightarrow> bool" where
  "python_updateBPAddress deviceId len bpType addr = False"
definition python_registerDevice :: "'dev \<Rightarrow> 'a \<Rightarrow> 'a" where "python_registerDevice dev s = s"
definition python_unRegisterDevice :: "'dev \<Rightarrow> 'a \<Rightarrow> 'a" where "python_unRegisterDevice dev s = s"
definition python_pauseDevice :: "'dev \<Rightarrow> 'a \<Rightarrow> 'a \<times> bool" where "python_pauseDevice dev s = (s, False)"
definition python_resumeDevice :: "'dev \<Rightarrow> 'a \<Rightarrow> 'a \<times> bool" where "python_resumeDevice dev s = (s, False)"
definition python_get_mem_access :: bool where "python_get_mem_access = False"
definition python_get_previous_instruction :: u64 where "python_get_previous_instruction = 0"
definition python_getValueAtAddress :: "u64 \<Rightarrow> int \<Rightarrow> int \<times> u8 list" where
  "python_getValueAtAddress addr n = (-1, [])"

end
