(* ===== verification/Python_Props.thy ===== *)
theory Python_Props
  imports Python_Agent
begin

text \<open>
  The bytecode iterator stays inside its string and ends; on well-formed bytecode it visits the encoded
  instructions one by one. The line table agrees with the interpreter's own function while address
  increments are below 128. The walk of the stack returns for any frames.
\<close>

section \<open>The iterator stays in bounds\<close>

text \<open>Opcode a byte or what it was, argument an \<open>int\<close>, and the indices inside the string.\<close>

definition iter_typed :: "int \<Rightarrow> iterator \<Rightarrow> bool" where
  "iter_typed junk it \<longleftrightarrow> next_index it \<le> length (bytecode_str it) \<and>
     (it_opcode it = junk \<or> 0 \<le> it_opcode it \<and> it_opcode it < 256) \<and>
     - (2 ^ 31) \<le> it_oparg it \<and> it_oparg it < 2 ^ 31"

definition iter_ok :: "int \<Rightarrow> iterator \<Rightarrow> bool" where
  "iter_ok junk it \<longleftrightarrow> iter_typed junk it \<and> cur_index it \<le> next_index it \<and> (Done it \<or> cur_index it < next_index it)"

lemma byte_of_ok: "i < length (bytecode_str it) \<Longrightarrow> byte_of it i = Inr (uint (bytecode_str it ! i))"
  by (simp add: byte_of_def)

lemma byte_range: "0 \<le> uint (b :: u8)" "uint (b :: u8) < 256"
  using uint_lt2p [of b] by simp_all

lemma or_push: "0 \<le> lo \<Longrightarrow> lo < 2 ^ n \<Longrightarrow> lo OR push_bit n hi = lo + 2 ^ n * hi" for lo hi :: int
  using concat_bit_eq [of n lo hi] concat_bit_def [of n lo hi]
  by (simp add: take_bit_int_eq_self push_bit_eq_mult)

lemma arg_of_ok:
  assumes "i + 1 < length (bytecode_str it)"
  shows "arg_of it i = Inr (uint (bytecode_str it ! i) + 256 * uint (bytecode_str it ! (i + 1)))"
  using assms byte_range or_push [of "uint (bytecode_str it ! i)" 8]
  by (simp add: arg_of_def byte_of_ok)

lemma i32_or:
  assumes "0 \<le> arg" and "arg < 2 ^ 16"
  shows "to_i32 (push_bit 16 x) OR arg = arg + 65536 * signed_take_bit 15 x"
proof -
  have "to_i32 (push_bit 16 x) = push_bit 16 (signed_take_bit 15 x)"
    unfolding to_i32_def by (rule bit_eqI) (auto simp: bit_simps min_def split: if_splits elim: back_subst [of "bit x"])
  then show ?thesis using or_push [OF assms] by (simp add: or.commute)
qed

lemma i32_or_range:
  assumes "0 \<le> arg" and "arg < 2 ^ 16"
  shows "- (2 ^ 31) \<le> to_i32 (push_bit 16 x) OR arg" and "to_i32 (push_bit 16 x) OR arg < 2 ^ 31"
  using assms signed_take_bit_int_greater_eq_minus_exp [of 15 x] signed_take_bit_int_less_exp [of 15 x]
  unfolding i32_or [OF assms] by simp_all

text \<open>The iterator after a call, as far as the invariant speaks of it.\<close>

definition moved :: "int \<Rightarrow> iterator \<Rightarrow> iterator \<Rightarrow> bool" where
  "moved junk it it' \<longleftrightarrow> iter_ok junk it' \<and> bytecode_str it' = bytecode_str it \<and> cur_index it' = next_index it"

lemma arg_range: "0 \<le> uint (a :: u8) + 256 * uint (b :: u8)" "uint (a :: u8) + 256 * uint (b :: u8) < 2 ^ 16"
  "- 2147483648 \<le> uint (a :: u8) + 256 * uint (b :: u8)"
proof -
  note r = byte_range [of a] byte_range [of b]
  show 0: "0 \<le> uint a + 256 * uint b" using r by simp
  show "uint a + 256 * uint b < 2 ^ 16" using r by simp
  show "- 2147483648 \<le> uint a + 256 * uint b" using 0 by linarith
qed

lemma Advance_extended_ok:
  assumes "cur_index it < next_index it" and "next_index it \<le> length (bytecode_str it)"
    and "iter_ok junk it"
  shows "\<exists>it'. Advance_extended it = Inr it' \<and> iter_ok junk it' \<and> bytecode_str it' = bytecode_str it \<and>
    cur_index it' = cur_index it"
proof (cases "next_index it + 2 \<ge> length (bytecode_str it)")
  case True
  with assms show ?thesis by (simp add: Advance_extended_def iter_ok_def iter_typed_def Done_def)
next
  case False
  let ?op = "uint (bytecode_str it ! next_index it)" and ?i = "next_index it + 1"
  let ?arg = "uint (bytecode_str it ! ?i) + 256 * uint (bytecode_str it ! (?i + 1))"
  have op: "byte_of it (next_index it) = Inr ?op" using False by (simp add: byte_of_ok)
  have arg: "arg_of (it\<lparr>it_opcode := ?op\<rparr>) ?i = Inr ?arg"
    using False arg_of_ok [of ?i "it\<lparr>it_opcode := ?op\<rparr>"] by simp
  note r = i32_or_range [OF arg_range(1,2), of "it_oparg it" "bytecode_str it ! ?i" "bytecode_str it ! (?i + 1)"]
  show ?thesis
    using False assms op arg r byte_range
    by (simp add: Advance_extended_def Let_def iter_ok_def iter_typed_def Done_def)
qed

lemma Advance_ok:
  assumes "iter_typed junk it"
  shows "\<exists>it'. Advance it = Inr it' \<and> moved junk it it'"
proof -
  let ?c = "next_index it"
  let ?it = "it\<lparr>cur_index := ?c\<rparr>"
  show ?thesis
  proof (cases "Done ?it")
    case True
    with assms show ?thesis by (simp add: Advance_def moved_def iter_ok_def iter_typed_def Done_def)
  next
    case False
    then have c: "?c < length (bytecode_str it)" using assms by (auto simp: iter_ok_def iter_typed_def Done_def)
    let ?op = "uint (bytecode_str it ! ?c)"
    let ?it1 = "?it\<lparr>it_opcode := ?op, next_index := ?c + 1\<rparr>"
    have op: "byte_of ?it ?c = Inr ?op" using c byte_of_ok [of ?c ?it] by simp
    have ok1: "moved junk it ?it1" using assms c byte_range by (simp add: moved_def iter_ok_def iter_typed_def)
    then have err: "moved junk it (?it1\<lparr>it_error := True\<rparr>)" by (simp add: moved_def iter_ok_def iter_typed_def Done_def)
    show ?thesis
    proof (cases "\<not> HAS_ARG ?op \<or> ?c + 2 \<ge> length (bytecode_str it)")
      case True
      with False op ok1 err show ?thesis by (auto simp: Advance_def Let_def)
    next
      case arg: False
      let ?arg = "uint (bytecode_str it ! (?c + 1)) + 256 * uint (bytecode_str it ! (?c + 1 + 1))"
      let ?it2 = "?it1\<lparr>it_oparg := ?arg, next_index := ?c + 1 + 2\<rparr>"
      have a: "arg_of ?it1 (?c + 1) = Inr ?arg" using arg arg_of_ok [of "?c + 1" ?it1] by simp
      have ok2: "moved junk it ?it2" "cur_index ?it2 < next_index ?it2" "next_index ?it2 \<le> length (bytecode_str ?it2)"
        using ok1 arg arg_range [of "bytecode_str it ! (?c + 1)" "bytecode_str it ! (?c + 1 + 1)"]
        by (simp_all add: moved_def iter_ok_def iter_typed_def)
      have e: "Advance it = (if ?op = EXTENDED_ARG then Advance_extended ?it2 else Inr ?it2)"
        using False op arg a by (simp add: Advance_def Let_def)
      from ok2(1) have "iter_ok junk ?it2" by (simp add: moved_def)
      from Advance_extended_ok [OF ok2(2,3) this] ok2(1) e show ?thesis
        by (cases "?op = EXTENDED_ARG") (auto simp: moved_def)
    qed
  qed
qed

lemma find_op_ok:
  "iter_ok junk it \<Longrightarrow> cur_index it + n > length (bytecode_str it) \<Longrightarrow>
    \<exists>it' prev'. find_op n addr it prev = Inr (it', prev') \<and> iter_ok junk it' \<and> bytecode_str it' = bytecode_str it"
proof (induction n arbitrary: it prev)
  case 0
  then show ?case by (simp add: iter_ok_def iter_typed_def)
next
  case (Suc n)
  show ?case
  proof (cases "Done it \<or> it_error it \<or> to_u64 addr = int (cur_index it)")
    case True
    with Suc.prems show ?thesis by simp
  next
    case False
    from Advance_ok [of junk it] Suc.prems(1) obtain it1 where a: "Advance it = Inr it1" and m: "moved junk it it1"
      by (auto simp: iter_ok_def)
    have "cur_index it < next_index it" using False Suc.prems(1) by (simp add: iter_ok_def iter_typed_def)
    with m Suc.prems(2) have "iter_ok junk it1" "cur_index it1 + n > length (bytecode_str it1)"
      by (simp_all add: moved_def)
    from Suc.IH [OF this, of "it_opcode it"] False a m show ?thesis by (auto simp: moved_def)
  qed
qed

lemma new_iterator_ok:
  assumes "- (2 ^ 31) \<le> junk" and "junk < 2 ^ 31"
  shows "\<exists>it. new_iterator junk code = Inr it \<and> iter_ok junk it \<and> bytecode_str it = code \<and> cur_index it = 0"
proof -
  let ?it = "\<lparr>it_opcode = junk, it_oparg = junk, cur_index = 0, next_index = 0, it_error = False, bytecode_str = code\<rparr>"
  have "iter_typed junk ?it" using assms by (simp add: iter_typed_def)
  from Advance_ok [OF this] show ?thesis unfolding new_iterator_def moved_def by auto
qed

section \<open>Well-formed bytecode\<close>

text \<open>
  An instruction without argument, one with an argument of 16 bits, and one with an \<open>EXTENDED_ARG\<close> before
  it, whose argument has 32 bits.
\<close>

datatype pyinst = Plain u8 | With u8 "16 word" | Extended u8 "32 word"

fun op_of :: "pyinst \<Rightarrow> int" where
  "op_of (Plain p) = uint p"
| "op_of (With p a) = uint p"
| "op_of (Extended p a) = uint p"

fun inst_ok :: "pyinst \<Rightarrow> bool" where
  "inst_ok (Plain p) \<longleftrightarrow> \<not> HAS_ARG (uint p)"
| "inst_ok (With p a) \<longleftrightarrow> HAS_ARG (uint p) \<and> uint p \<noteq> EXTENDED_ARG"
| "inst_ok (Extended p a) \<longleftrightarrow> HAS_ARG (uint p)"

definition half :: "16 word \<Rightarrow> u8 list" where
  "half a = [ucast a, ucast (drop_bit 8 a)]"

fun encode_inst :: "pyinst \<Rightarrow> u8 list" where
  "encode_inst (Plain p) = [p]"
| "encode_inst (With p a) = p # half a"
| "encode_inst (Extended p a) = 144 # half (ucast (drop_bit 16 a)) @ p # half (ucast a)"

definition encode :: "pyinst list \<Rightarrow> u8 list" where
  "encode is = concat (map encode_inst is)"

text \<open>The argument an instruction leaves in the iterator; one without argument leaves the old.\<close>

fun oparg_of :: "pyinst \<Rightarrow> int \<Rightarrow> int" where
  "oparg_of (Plain p) old = old"
| "oparg_of (With p a) old = uint a"
| "oparg_of (Extended p a) old = sint a"

lemma half_value: "uint (ucast a :: u8) OR push_bit 8 (uint (ucast (drop_bit 8 a) :: u8)) = uint (a :: 16 word)"
  by (rule bit_eqI) (auto simp: bit_simps bit_uint_iff dest: bit_imp_le_length)

lemma halves_value:
  "to_i32 (push_bit 16 (uint (ucast (drop_bit 16 a) :: 16 word))) OR uint (ucast a :: 16 word) = sint (a :: 32 word)"
  unfolding to_i32_def sint_uint
  by (rule bit_eqI) (auto simp: bit_simps bit_uint_iff min_def)

lemma byte_at: "bytecode_str it = xs @ b # ys \<Longrightarrow> n = length xs \<Longrightarrow> byte_of it n = Inr (uint b)"
  by (simp add: byte_of_ok)

lemma arg_at: "bytecode_str it = xs @ half a @ ys \<Longrightarrow> n = length xs \<Longrightarrow> arg_of it n = Inr (uint a)"
  using byte_at [of it xs "ucast a"] byte_at [of it "xs @ [ucast a]" "ucast (drop_bit 8 a)"] half_value [of a]
  by (simp add: arg_of_def half_def)

lemma Advance_extended_encoded:
  assumes "bytecode_str it = xs @ p # half (ucast a) @ ys" and "next_index it = length xs" and "HAS_ARG (uint p)"
    and "it_oparg it = uint (ucast (drop_bit 16 a) :: 16 word)"
  shows "Advance_extended it = Inr (it\<lparr>next_index := length xs + 3, it_opcode := uint p, it_oparg := sint (a :: 32 word)\<rparr>)"
proof -
  have "byte_of it (length xs) = Inr (uint p)" by (rule byte_at [OF assms(1) refl])
  moreover have "arg_of (it\<lparr>it_opcode := uint p\<rparr>) (length xs + 1) = Inr (uint (ucast a :: 16 word))"
    by (rule arg_at [of _ "xs @ [p]" _ ys]) (use assms(1) in simp_all)
  moreover have "\<not> next_index it + 2 \<ge> length (bytecode_str it)" using assms(1,2) by (simp add: half_def)
  ultimately show ?thesis using assms(2-4) halves_value [of a] by (simp add: Advance_extended_def Let_def)
qed

lemma Advance_encoded:
  assumes "bytecode_str it = xs @ encode_inst i @ ys" and "next_index it = length xs" and "inst_ok i"
  shows "Advance it = Inr (it\<lparr>cur_index := length xs, next_index := length xs + length (encode_inst i),
    it_opcode := op_of i, it_oparg := oparg_of i (it_oparg it)\<rparr>)"
proof -
  let ?c = "length xs"
  have n: "\<not> Done (it\<lparr>cur_index := ?c\<rparr>)" using assms(1) by (cases i) (simp_all add: Done_def)
  show ?thesis
  proof (cases i)
    case (Plain p)
    with assms have "byte_of (it\<lparr>cur_index := ?c\<rparr>) ?c = Inr (uint p)" by (intro byte_at) simp_all
    with Plain assms n show ?thesis by (simp add: Advance_def Let_def)
  next
    case (With p a)
    have "byte_of (it\<lparr>cur_index := ?c\<rparr>) ?c = Inr (uint p)" using With assms by (intro byte_at) simp_all
    moreover have "arg_of (it\<lparr>cur_index := ?c, it_opcode := uint p, next_index := ?c + 1\<rparr>) (?c + 1) = Inr (uint a)"
      by (rule arg_at [of _ "xs @ [p]" _ ys]) (use With assms in simp_all)
    ultimately show ?thesis using With assms n by (simp add: Advance_def Let_def half_def)
  next
    case (Extended p a)
    let ?hi = "ucast (drop_bit 16 a) :: 16 word"
    let ?it = "it\<lparr>cur_index := ?c, it_opcode := 144, next_index := ?c + 1\<rparr>"
    let ?it2 = "?it\<lparr>it_oparg := uint ?hi, next_index := ?c + 1 + 2\<rparr>"
    have "byte_of (it\<lparr>cur_index := ?c\<rparr>) ?c = Inr (uint (144 :: u8))" using Extended assms by (intro byte_at) simp_all
    moreover have "arg_of ?it (?c + 1) = Inr (uint ?hi)"
      by (rule arg_at [of _ "xs @ [144]"]) (use Extended assms in simp_all)
    moreover have "Advance_extended ?it2 = Inr (?it2\<lparr>next_index := length (xs @ 144 # half ?hi) + 3, it_opcode := uint p,
        it_oparg := sint a\<rparr>)"
      by (rule Advance_extended_encoded [of _ _ _ _ ys]) (use Extended assms in \<open>simp_all add: half_def\<close>)
    ultimately show ?thesis
      using Extended assms n
      by (simp add: Advance_def Let_def half_def EXTENDED_ARG_def HAS_ARG_def HAVE_ARGUMENT_def)
  qed
qed

lemma encode_simps [simp]: "encode [] = []" "encode (i # is) = encode_inst i @ encode is"
  "encode (is @ js) = encode is @ encode js"
  by (simp_all add: encode_def)

lemma encode_inst_length: "0 < length (encode_inst i)"
  by (cases i) simp_all

lemma encode_inst_Cons [simp]: "encode_inst i \<noteq> []"
  using encode_inst_length [of i] by auto

text \<open>The iterator has read the instruction that starts behind \<open>xs\<close>; or it is at the end.\<close>

definition read_at :: "iterator \<Rightarrow> u8 list \<Rightarrow> pyinst list \<Rightarrow> bool" where
  "read_at it xs is \<longleftrightarrow> bytecode_str it = xs @ encode is \<and> cur_index it = length xs \<and> \<not> it_error it \<and>
     (case is of [] \<Rightarrow> True | i # _ \<Rightarrow> next_index it = length xs + length (encode_inst i) \<and> it_opcode it = op_of i)"

lemma Advance_reads:
  assumes "bytecode_str it = xs @ encode is" and "next_index it = length xs" and "\<not> it_error it"
    and "list_all inst_ok is"
  shows "\<exists>it'. Advance it = Inr it' \<and> read_at it' xs is"
proof (cases "is")
  case Nil
  with assms show ?thesis by (simp add: Advance_def Done_def read_at_def Let_def)
next
  case (Cons i js)
  with assms Advance_encoded [of it xs i "encode js"] show ?thesis by (simp add: read_at_def)
qed

lemma find_op_reads:
  "read_at it xs is \<Longrightarrow> list_all inst_ok is \<Longrightarrow> is = pre @ post \<Longrightarrow> addr = int (length (xs @ encode pre)) \<Longrightarrow>
    addr < 2 ^ 64 \<Longrightarrow> length pre < n \<Longrightarrow>
    \<exists>it'. find_op n addr it prev = Inr (it', if pre = [] then prev else op_of (last pre)) \<and>
      read_at it' (xs @ encode pre) post"
proof (induction pre arbitrary: n it xs prev "is")
  case Nil
  then show ?case by (cases n) (auto simp: read_at_def)
next
  case (Cons i pre)
  obtain m where n: "n = Suc m" "length pre < m" using Cons.prems(6) by (cases n) auto
  have "is": "is = i # pre @ post" using Cons.prems(3) by simp
  have r: "bytecode_str it = (xs @ encode_inst i) @ encode (pre @ post)" "next_index it = length (xs @ encode_inst i)"
      "\<not> it_error it" "cur_index it = length xs" "it_opcode it = op_of i"
    using Cons.prems(1) "is" by (auto simp: read_at_def)
  have ok: "list_all inst_ok (pre @ post)" using Cons.prems(2) "is" by simp
  from Advance_reads [OF r(1-3) ok] obtain it1 where a: "Advance it = Inr it1"
    and it1: "read_at it1 (xs @ encode_inst i) (pre @ post)" by blast
  have "\<not> Done it" using r(1,4) encode_inst_length [of i] by (simp add: Done_def)
  moreover have "to_u64 addr \<noteq> int (cur_index it)"
  proof -
    have a: "addr = int (length xs) + int (length (encode_inst i)) + int (length (encode pre))"
      using Cons.prems(4) by simp
    with encode_inst_length [of i] have "addr \<noteq> int (length xs)" by linarith
    with a Cons.prems(5) r(4) show ?thesis by simp
  qed
  ultimately have "find_op n addr it prev = find_op m addr it1 (op_of i)" using n(1) a r(3,5) by simp
  moreover have "addr = int (length ((xs @ encode_inst i) @ encode pre))" using Cons.prems(4) by simp
  ultimately obtain it' where "find_op n addr it prev = Inr (it', if pre = [] then op_of i else op_of (last pre))"
    "read_at it' ((xs @ encode_inst i) @ encode pre) post"
    using Cons.IH [OF it1 ok refl _ Cons.prems(5) n(2), of "op_of i"] by auto
  then show ?case by (cases pre) auto
qed

section \<open>What an event learns from a frame\<close>

text \<open>C18: For bytecode made of whole instructions and the address of one of them (or the end), the search of the
  Python agent ends there: without skid correction the event gets the opcode at that address, with it the
  opcode before it and the address itself, and the opcode before it decides between load and store.\<close>

theorem python_finds_instruction:
  assumes "co_code f = encode (pre @ post)" and "list_all inst_ok (pre @ post)"
    and "addr = int (length (encode pre))" and "addr < 2 ^ 64"
  defines "before \<equiv> if pre = [] then -1 else op_of (last pre)"
  shows "\<exists>op. fix_frame junk f addr event = Inr (event\<lparr>
      opcode := (if fixSkid event then before else op),
      fixedIP := (if fixSkid event then word_of_int addr else fixedIP event), isFixed := isFixed event \<or> fixSkid event,
      accessType := classify_op before (accessType event)\<rparr>) \<and> (\<forall>i is. post = i # is \<longrightarrow> op = op_of i)"
proof -
  let ?it = "\<lparr>it_opcode = junk, it_oparg = junk, cur_index = 0, next_index = 0, it_error = False,
    bytecode_str = co_code f\<rparr>"
  from Advance_reads [of ?it "[]" "pre @ post"] assms(1,2) obtain it where
    new: "new_iterator junk (co_code f) = Inr it" and it: "read_at it [] (pre @ post)"
    by (auto simp: new_iterator_def)
  have "length pre \<le> length (encode pre)" for pre
  proof (induction pre)
    case (Cons i pre)
    with encode_inst_length [of i] show ?case by (simp only: encode_simps length_append list.size)
  qed simp
  then have "length pre < length (co_code f) + 1" using assms(1) by (simp add: le_imp_less_Suc trans_le_add1)
  from find_op_reads [OF it assms(2) refl _ assms(4) this, of "-1"] assms(3) obtain it' where
    f: "find_op (length (co_code f) + 1) addr it (-1) = Inr (it', before)" and it': "read_at it' (encode pre) post"
    by (auto simp: before_def)
  show ?thesis
  proof (rule exI [of _ "it_opcode it'"], intro conjI allI impI)
    show "fix_frame junk f addr event = Inr (event\<lparr>opcode := (if fixSkid event then before else it_opcode it'),
      fixedIP := (if fixSkid event then word_of_int addr else fixedIP event), isFixed := isFixed event \<or> fixSkid event,
      accessType := classify_op before (accessType event)\<rparr>)"
      using new f it' assms(3)
      by (simp add: fix_frame_def Let_def read_at_def del: find_op.simps)
    show "it_opcode it' = op_of i" if "post = i # is" for i "is"
      using it' that by (simp add: read_at_def)
  qed
qed

text \<open>\<open>LOAD_FAST\<close> with an extended argument, \<open>STORE_FAST 1\<close>, \<open>POP_TOP\<close>: at 9 the store lies behind.\<close>

definition demo_code :: "pyinst list" where
  "demo_code = [Extended 124 0x10002, With 125 1, Plain 1]"

definition demo_frame :: pyframe where
  "demo_frame = \<lparr>f_lineno = 10, f_lasti = 6, co_lnotab = Some [0, 1, 9, 1], co_code = encode demo_code,
     co_name = ''f'', co_filename = ''f.py''\<rparr>"

theorem python_finds_instruction_witness:
  "\<exists>ev. fix_frame 0 demo_frame 9 (zero_Event\<lparr>fixSkid := True\<rparr>) = Inr ev \<and> accessType ev = STORE \<and> fixedIP ev = 9"
  using python_finds_instruction [of demo_frame "[Extended 124 0x10002, With 125 1]" "[Plain 1]" 9 0
      "zero_Event\<lparr>fixSkid := True\<rparr>"]
  by (auto simp: demo_frame_def demo_code_def half_def HAS_ARG_def HAVE_ARGUMENT_def EXTENDED_ARG_def classify_op_def
      store_ops_def zero_Event_def)

text \<open>C24: Whatever the bytecode is, also a truncated one or no bytecode at all, the iterator never reads outside
  of it, its indices, opcode and argument stay in their ranges, and the search for an address ends.\<close>

theorem python_bytecode_safe:
  assumes "- (2 ^ 31) \<le> junk" and "junk < 2 ^ 31"
  shows "\<exists>it it' prev. new_iterator junk code = Inr it \<and> iter_ok junk it \<and>
    find_op (length code + 1) addr it (-1) = Inr (it', prev) \<and> iter_ok junk it'"
proof -
  from new_iterator_ok [OF assms, of code] obtain it where "new_iterator junk code = Inr it" "iter_ok junk it"
    "bytecode_str it = code" "cur_index it = 0" by blast
  with find_op_ok [of junk it "length code + 1" addr "-1"] show ?thesis by auto
qed

theorem python_bytecode_safe_witness:
  "\<exists>it it' prev. new_iterator 0 [100, 1] = Inr it \<and> iter_ok 0 it \<and> find_op 3 7 it (-1) = Inr (it', prev) \<and> iter_ok 0 it'"
  using python_bytecode_safe [of 0 "[100, 1]" 7] by (simp add: numeral_3_eq_3 del: find_op.simps)

section \<open>The stack\<close>

lemma fix_frame_returns:
  assumes "- (2 ^ 31) \<le> junk" and "junk < 2 ^ 31"
  shows "\<exists>ev. fix_frame junk f addr event = Inr ev \<and> eventContext_agent ev = eventContext_agent event"
proof -
  from new_iterator_ok [OF assms, of "co_code f"] obtain it where "new_iterator junk (co_code f) = Inr it"
    "iter_ok junk it" "bytecode_str it = co_code f" "cur_index it = 0" by blast
  with find_op_ok [of junk it "length (co_code f) + 1" addr "-1"] show ?thesis
    by (auto simp: fix_frame_def Let_def simp del: find_op.simps)
qed

definition frame_addr :: "pyframe \<Rightarrow> int" where
  "frame_addr f = (case co_lnotab f of None \<Rightarrow> 0 | Some tab \<Rightarrow> fst (lnotab_walk (f_lasti f) tab 0 (to_u64 (f_lineno f))))"

text \<open>The opcode before the address the line table gives for a frame.\<close>

definition frame_op :: "int \<Rightarrow> pyframe \<Rightarrow> int" where
  "frame_op junk f = (case rbind (new_iterator junk (co_code f)) (\<lambda>it.
     find_op (length (co_code f) + 1) (frame_addr f) it (-1)) of Inl _ \<Rightarrow> -1 | Inr (_, p) \<Rightarrow> p)"

lemma record_frame_props:
  assumes "record_frame p f ev = (ev', addr)"
  shows "addr = frame_addr f" and "accessType ev' = accessType ev"
    and "length (eventContext_agent ev') \<le> length (eventContext_agent ev) + 1"
    and "eventContext_agent ev' \<noteq> [] \<or> co_lnotab f = None"
  using assms by (auto simp: record_frame_def frame_addr_def Let_def split: option.splits prod.splits if_splits)

lemma fix_frame_access:
  assumes "fix_frame junk f (frame_addr f) ev = Inr ev'"
  shows "accessType ev' = classify_op (frame_op junk f) (accessType ev)"
proof -
  from assms obtain it it' p where "new_iterator junk (co_code f) = Inr it"
    "find_op (length (co_code f) + 1) (frame_addr f) it (-1) = Inr (it', p)"
    "accessType ev' = classify_op p (accessType ev)"
    by (auto simp: fix_frame_def rbind_Inr Let_def simp del: find_op.simps)
  then show ?thesis by (simp add: frame_op_def del: find_op.simps)
qed

lemma walk_python_stack_result:
  assumes "- (2 ^ 31) \<le> junk" and "junk < 2 ^ 31"
  shows "\<exists>ev'. walk_python_stack junk ptr md fs depth ev =
      Inr (ev', depth + int (length (take (nat (md - 1 - depth)) fs))) \<and>
    accessType ev' = fold (\<lambda>f. classify_op (frame_op junk f)) (take (nat (md - 1 - depth)) fs) (accessType ev) \<and>
    length (eventContext_agent ev') \<le> length (eventContext_agent ev) + length (take (nat (md - 1 - depth)) fs)"
proof (induction fs arbitrary: depth ev)
  case (Cons f fs)
  show ?case
  proof (cases "depth + per_loop \<le> md")
    case False
    then show ?thesis by (simp add: per_loop_def)
  next
    case True
    then have n: "nat (md - 1 - depth) = Suc (nat (md - 1 - (depth + 1)))" by (simp add: per_loop_def)
    obtain ev1 addr where r: "record_frame (ptr depth) f ev = (ev1, addr)" by (cases "record_frame (ptr depth) f ev")
    note rp = record_frame_props [OF r]
    from fix_frame_returns [OF assms, of f addr ev1] obtain ev2 where x: "fix_frame junk f addr ev1 = Inr ev2"
      "eventContext_agent ev2 = eventContext_agent ev1" by blast
    have a: "accessType ev2 = classify_op (frame_op junk f) (accessType ev)"
      using fix_frame_access [of junk f ev1 ev2] x(1) rp(1,2) by simp
    from Cons.IH [of "depth + 1" ev2] obtain ev' where
      w: "walk_python_stack junk ptr md fs (depth + 1) ev2 =
          Inr (ev', depth + 1 + int (length (take (nat (md - 1 - (depth + 1))) fs)))"
        "accessType ev' = fold (\<lambda>f. classify_op (frame_op junk f)) (take (nat (md - 1 - (depth + 1))) fs) (accessType ev2)"
        "length (eventContext_agent ev') \<le> length (eventContext_agent ev2) + length (take (nat (md - 1 - (depth + 1))) fs)"
      by blast
    then show ?thesis using True r x rp(3) a unfolding n by auto
  qed
qed simp



section \<open>The line table\<close>

text \<open>
  \<open>PyCode_Addr2Line\<close> as the interpreter documents the table: pairs of an unsigned address increment and a
  signed line increment.
\<close>

fun addr2line :: "int \<Rightarrow> u8 list \<Rightarrow> int \<Rightarrow> int \<Rightarrow> int" where
  "addr2line lasti (a # l # r) addr line =
     (let addr = addr + uint a in if addr > lasti then line else addr2line lasti r addr (line + sint l))"
| "addr2line lasti _ addr line = line"

fun short_steps :: "u8 list \<Rightarrow> bool" where
  "short_steps (a # l # r) \<longleftrightarrow> a < 128 \<and> short_steps r"
| "short_steps [a] \<longleftrightarrow> a < 128"
| "short_steps [] \<longleftrightarrow> True"

lemma sint_short: "a < 128 \<Longrightarrow> sint (a :: u8) = uint a"
proof -
  assume "a < 128"
  then have "uint a < 2 ^ 7" by (simp add: word_less_def)
  moreover have "- (2 ^ 7) \<le> uint a" by (rule order_trans [of _ 0]) simp_all
  ultimately show ?thesis by (simp add: sint_uint signed_take_bit_int_eq_self)
qed

lemma lnotab_walk_addr2line:
  "short_steps tab \<Longrightarrow> 0 \<le> addr \<Longrightarrow> addr + 128 * int (length tab) < 2 ^ 31 \<Longrightarrow>
     snd (lnotab_walk lasti tab addr (to_u64 line)) = to_u64 (addr2line lasti tab addr line)"
proof (induction lasti tab addr line rule: addr2line.induct)
  case (1 lasti a l r addr line)
  then have a: "sint a = uint a" "uint a < 128" by (simp_all add: sint_short word_less_def)
  have "- (2 ^ 31) \<le> addr + uint a" by (rule order_trans [of _ 0]) (use 1(3) in simp_all)
  moreover have "addr + uint a < 2 ^ 31" using 1(4) a by simp
  ultimately have "to_i32 (addr + sint a) = addr + uint a" using a by simp
  with 1 a show ?case by (simp add: Let_def)
qed (auto simp: Let_def)



text \<open>An increment of 200 is negative for the agent: it counts a line too many.\<close>

lemma long_step_wrong_line:
  "snd (lnotab_walk 5 [200, 1] 0 10) = 11" "addr2line 5 [200, 1] 0 10 = 10"
  by simp_all

section \<open>The second constructor and the module\<close>

text \<open>
  An iterator started at the next index of another one goes on as that one does: same place, same opcode, same error.
\<close>

definition place :: "iterator res \<Rightarrow> (nat \<times> nat \<times> bool \<times> int option) res" where
  "place r = rbind r (\<lambda>it. Inr (cur_index it, next_index it, it_error it, if Done it then None else Some (it_opcode it)))"

lemma place_simps [simp]:
  "place (Inr it) = Inr (cur_index it, next_index it, it_error it, if Done it then None else Some (it_opcode it))"
  "place (Inl e) = Inl e"
  by (simp_all add: place_def)

lemma place_Advance:
  assumes "next_index b = next_index a" and "bytecode_str b = bytecode_str a" and "it_error b = it_error a"
  shows "place (Advance b) = place (Advance a)"
  by (simp add: assms Advance_def Advance_extended_def Let_def Done_def byte_of_def arg_of_def rbind_def split: sum.split)

lemma iterator_at_resumes:
  assumes "iter_typed junk it" and "length (bytecode_str it) < 2 ^ 64" and "\<not> it_error it"
  shows "place (iterator_at j it (int (next_index it))) = place (Advance it)"
  unfolding iterator_at_def by (rule place_Advance) (use assms in \<open>simp_all add: to_u64_def iter_typed_def\<close>)

text \<open>Outside the bytecode, as for a negative index, it reads past the end of the string.\<close>

lemma iterator_at_outside:
  assumes "to_u64 index > int (length (bytecode_str it))"
  shows "iterator_at junk it index = Inl OutOfBounds"
  using assms by (simp add: iterator_at_def Advance_def Done_def byte_of_def rd_def Let_def)

lemma find_filter: "List.find P xs = (case filter P xs of [] \<Rightarrow> None | x # _ \<Rightarrow> Some x)"
  by (induction xs) auto

lemma get_pystate_for_this_thread_spec:
  "[] \<notin> set interps \<Longrightarrow>
    get_pystate_for_this_thread tid interps = Inr (List.find (\<lambda>t. thread_id t = tid) (concat interps))"
proof (induction interps)
  case (Cons ts tss)
  then show ?case by (auto simp: find_filter split: list.splits)
qed simp

text \<open>
  The module says it is not enabled and prints no stack, whatever the uninitialised \<open>depth\<close> holds; it returns
  unless the lock is held or an interpreter has no thread.
\<close>

lemma libperform_returns:
  assumes "[] \<notin> set interps"
  shows "libperform_print_stack tid interps depth False = Inr (False, False)" and "\<not> libperform_is_enabled"
  using assms get_pystate_for_this_thread_spec [OF assms]
  by (simp_all add: libperform_print_stack_def pyAgent_print_stack_def sigprof_handler_template_def
    acquire_spinlock_def libperform_is_enabled_def pyAgent_is_enabled_def)

end
