(* ===== verification/Sample_Tools.thy ===== *)
theory Sample_Tools
  imports Wp_Devices
begin

text \<open>
  The sample tools (\<^verbatim>\<open>src/tools/sampleTool\<close>, \<^verbatim>\<open>sampleEBSTool\<close>, \<^verbatim>\<open>samplePEBSTool\<close>, \<^verbatim>\<open>samplePEBSBPTool\<close>) and the
  calls the process monitor makes (\<^verbatim>\<open>src/agent/nativeAgent/session.cpp\<close>).
\<close>

section \<open>The state\<close>

text \<open>\<open>st_fd\<close> is the thread-local \<open>MyTool::fd\<close> of the tool with breakpoints.\<close>

record 'a stool =
  st_plat :: "'a plat"
  st_fd :: "int \<Rightarrow> int"

definition on_st_plat :: "('a plat \<Rightarrow> 'a plat res) \<Rightarrow> 'a stool \<Rightarrow> 'a stool res" where
  "on_st_plat f s = rbind (f (st_plat s)) (\<lambda>q. Inr (s\<lparr>st_plat := q\<rparr>))"

section \<open>Sessions\<close>

text \<open>Create a device and register it for the session of the thread.\<close>

definition open_device :: "'a env \<Rightarrow> int \<Rightarrow> device \<Rightarrow> 'a plat \<Rightarrow> ('a plat \<times> nat \<times> int) res" where
  "open_device E tid d q =
     (let sessionId = get_session_key tid q; (q, p) = new_dev d q
      in rbind (registerDevice (ops E) (sysos E) (devcfg E) tid sessionId p q) (\<lambda>(q, r). Inr (q, p, r)))"

definition sampleTool_sessionInit :: "'a env \<Rightarrow> int \<Rightarrow> 'a stool \<Rightarrow> 'a stool res" where
  "sampleTool_sessionInit E tid = on_st_plat (generate_session_key tid)"

definition sampleTool_sessionExit :: "'a env \<Rightarrow> int \<Rightarrow> 'a stool \<Rightarrow> 'a stool res" where
  "sampleTool_sessionExit E tid = on_st_plat (\<lambda>q.
     remove_device_by_session (ops E) (sysos E) tid (get_session_key tid q) q)"

definition EBSTool_sessionInit :: "'a env \<Rightarrow> int \<Rightarrow> 'a stool \<Rightarrow> 'a stool res" where
  "EBSTool_sessionInit E tid = on_st_plat (\<lambda>q.
     rbind (generate_session_key tid q) (\<lambda>q.
     rbind (open_device E tid new_EBSDevice q) (\<lambda>(q, _). Inr q)))"

definition EBSTool_sessionExit :: "'a env \<Rightarrow> int \<Rightarrow> 'a stool \<Rightarrow> 'a stool res" where
  "EBSTool_sessionExit E tid = on_st_plat (\<lambda>q.
     remove_device_by_session (ops E) (sysos E) tid (get_session_key tid q) q)"

definition PEBSTool_sessionInit :: "'a env \<Rightarrow> int \<Rightarrow> 'a stool \<Rightarrow> 'a stool res" where
  "PEBSTool_sessionInit E tid = on_st_plat (\<lambda>q.
     rbind (generate_session_key tid q) (\<lambda>q.
     rbind (open_device E tid (new_PEBSDevice STORE) q) (\<lambda>(q, _). Inr q)))"

text \<open>\<open>destroy_session_key\<close>, which takes a thread, is given the session.\<close>

definition PEBSTool_sessionExit :: "'a env \<Rightarrow> int \<Rightarrow> 'a stool \<Rightarrow> 'a stool res" where
  "PEBSTool_sessionExit E tid = on_st_plat (\<lambda>q.
     let sessionId = get_session_key tid q
     in rbind (remove_device_by_session (ops E) (sysos E) tid sessionId q) (destroy_session_key sessionId))"

definition PEBSBPTool_sessionInit :: "'a env \<Rightarrow> int \<Rightarrow> 'a stool \<Rightarrow> 'a stool res" where
  "PEBSBPTool_sessionInit E tid = on_st_plat (\<lambda>q.
     rbind (generate_session_key tid q) (\<lambda>q.
     rbind (open_device E tid (new_PEBSDevice STORE) q) (\<lambda>(q, _). Inr q)))"

definition PEBSBPTool_sessionExit :: "'a env \<Rightarrow> int \<Rightarrow> 'a stool \<Rightarrow> 'a stool res" where
  "PEBSBPTool_sessionExit E tid = on_st_plat (\<lambda>q.
     let sessionId = get_session_key tid q
     in rbind (remove_device_by_session (ops E) (sysos E) tid sessionId q) (destroy_session_key sessionId))"

section \<open>Events\<close>

text \<open>The addresses the PEBS tool prints for a sample, outermost frame first; \<open>None\<close> when it returns at once.\<close>

definition PEBSTool_PEBSEventHandler :: "Event option \<Rightarrow> int list option" where
  "PEBSTool_PEBSEventHandler event =
     (case event of None \<Rightarrow> None
      | Some ev \<Rightarrow> if data_addr ev = 0 \<or> ip_addr ev = 0 then None
                   else Some (map binary_addr (rev (eventContext_host ev))))"

text \<open>A breakpoint on the sampled address: the first is registered, later ones move it.\<close>

definition sample_BPDevice :: "Event \<Rightarrow> device" where
  "sample_BPDevice ev = new_BPDevice 1 3 (h_data_addr ev)"

definition PEBSBPTool_PEBSEventHandler :: "'a env \<Rightarrow> int \<Rightarrow> Event \<Rightarrow> 'a stool \<Rightarrow> 'a stool res" where
  "PEBSBPTool_PEBSEventHandler E tid ev s =
     (if h_data_addr ev = 0 then Inr s
      else if st_fd s tid = -1
      then rbind (open_device E tid (sample_BPDevice ev) (st_plat s)) (\<lambda>(q, p, r).
             if r \<noteq> 0 then Inr (s\<lparr>st_plat := q\<rparr>)
             else rbind (getd p q) (\<lambda>d. Inr (s\<lparr>st_plat := q, st_fd := (st_fd s)(tid := device.deviceFileId d)\<rparr>)))
      else rbind (get_device tid (st_fd s tid) (st_plat s)) (\<lambda>dev.
             let forget = s\<lparr>st_fd := (st_fd s)(tid := -1)\<rparr>
             in case dev of None \<Rightarrow> Inr forget
                | Some p \<Rightarrow> rbind (getd p (st_plat s)) (\<lambda>d.
                    if deviceType d \<noteq> BPDEVICE then Inr forget
                    else rbind (updateBPAddress (ops E) (sysos E) (devcfg E) (fast_bp E) p 1 3 (h_data_addr ev) (st_plat s))
                           (\<lambda>(q, _). Inr (s\<lparr>st_plat := q\<rparr>)))))"

definition PEBSBPTool_BPEventHandler :: "'a env \<Rightarrow> nat \<Rightarrow> 'a stool \<Rightarrow> 'a stool res" where
  "PEBSBPTool_BPEventHandler E p = on_st_plat (end_device (ops E) p)"

definition PEBSBPTool_eventHandler :: "'a env \<Rightarrow> int \<Rightarrow> Event \<Rightarrow> nat \<Rightarrow> 'a stool \<Rightarrow> 'a stool res" where
  "PEBSBPTool_eventHandler E tid ev p s =
     rbind (getd p (st_plat s)) (\<lambda>d.
       if deviceType d = PEBSDEVICE then PEBSBPTool_PEBSEventHandler E tid ev s
       else if deviceType d = BPDEVICE then PEBSBPTool_BPEventHandler E p s
       else Inr s)"

text \<open>The PEBS tool only prints, as does the EBS tool.\<close>

definition PEBSTool_eventHandler :: "Event \<Rightarrow> nat \<Rightarrow> 'a stool \<Rightarrow> ('a stool \<times> int list option) res" where
  "PEBSTool_eventHandler ev p s =
     rbind (getd p (st_plat s)) (\<lambda>d.
       Inr (s, if deviceType d = PEBSDEVICE then PEBSTool_PEBSEventHandler (Some ev) else None))"

section \<open>The calls of the process monitor\<close>

record 'a tool_calls =
  tool_processInit :: "int \<Rightarrow> 'a stool \<Rightarrow> 'a stool res"
  tool_processExit :: "int \<Rightarrow> 'a stool \<Rightarrow> 'a stool res"
  tool_threadInit :: "int \<Rightarrow> 'a stool \<Rightarrow> 'a stool res"
  tool_threadExit :: "int \<Rightarrow> 'a stool \<Rightarrow> 'a stool res"
  tool_onEvent :: "int \<Rightarrow> Event \<Rightarrow> nat \<Rightarrow> 'a stool \<Rightarrow> 'a stool res"

definition sampleTool :: "'a env \<Rightarrow> 'a tool_calls" where
  "sampleTool E = \<lparr>tool_processInit = sampleTool_sessionInit E, tool_processExit = sampleTool_sessionExit E,
     tool_threadInit = (\<lambda>_ s. Inr s), tool_threadExit = (\<lambda>_ s. Inr s), tool_onEvent = (\<lambda>_ _ _ s. Inr s)\<rparr>"

definition EBSTool :: "'a env \<Rightarrow> 'a tool_calls" where
  "EBSTool E = \<lparr>tool_processInit = EBSTool_sessionInit E, tool_processExit = EBSTool_sessionExit E,
     tool_threadInit = EBSTool_sessionInit E, tool_threadExit = EBSTool_sessionExit E,
     tool_onEvent = (\<lambda>_ _ p s. rbind (getd p (st_plat s)) (\<lambda>_. Inr s))\<rparr>"

definition PEBSTool :: "'a env \<Rightarrow> 'a tool_calls" where
  "PEBSTool E = \<lparr>tool_processInit = PEBSTool_sessionInit E, tool_processExit = PEBSTool_sessionExit E,
     tool_threadInit = PEBSTool_sessionInit E, tool_threadExit = PEBSTool_sessionExit E,
     tool_onEvent = (\<lambda>_ ev p s. rbind (PEBSTool_eventHandler ev p s) (\<lambda>(s, _). Inr s))\<rparr>"

definition PEBSBPTool :: "'a env \<Rightarrow> 'a tool_calls" where
  "PEBSBPTool E = \<lparr>tool_processInit = PEBSBPTool_sessionInit E, tool_processExit = PEBSBPTool_sessionExit E,
     tool_threadInit = PEBSBPTool_sessionInit E, tool_threadExit = PEBSBPTool_sessionExit E,
     tool_onEvent = PEBSBPTool_eventHandler E\<rparr>"

definition monitor_init_process :: "'a tool_calls \<Rightarrow> int \<Rightarrow> 'a stool \<Rightarrow> 'a stool res" where
  "monitor_init_process T tid s = tool_processInit T tid s"

definition monitor_fini_process :: "'a tool_calls \<Rightarrow> int \<Rightarrow> 'a stool \<Rightarrow> 'a stool res" where
  "monitor_fini_process T tid s = tool_processExit T tid s"

text \<open>A new thread starts with its own \<open>MyTool::fd\<close>.\<close>

definition monitor_init_thread :: "'a tool_calls \<Rightarrow> int \<Rightarrow> 'a stool \<Rightarrow> 'a stool res" where
  "monitor_init_thread T tid s = tool_threadInit T tid (s\<lparr>st_fd := (st_fd s)(tid := -1)\<rparr>)"

definition monitor_fini_thread :: "'a tool_calls \<Rightarrow> int \<Rightarrow> 'a stool \<Rightarrow> 'a stool res" where
  "monitor_fini_thread T tid s = tool_threadExit T tid s"

end
