(* ===== verification/Sample_Props.thy ===== *)
theory Sample_Props
  imports Sample_Tools
begin

text \<open>
  The sample tools keep the contract \<open>session_tool\<close>: whatever the order of thread starts, signals and
  ends, a registered device belongs to a running thread and to that thread's session. The locale is
  interpreted for the three tools that open devices, with the KVM and the native agent.
\<close>

section \<open>Ownership\<close>

definition owned :: "('a plat \<Rightarrow> bool) \<Rightarrow> int set \<Rightarrow> 'a plat \<Rightarrow> bool" where
  "owned di ts q \<longleftrightarrow> di q \<and> \<not> threadSessionmap_mtx q \<and>
     (\<forall>t fd p. ((t, fd), p) \<in> set (deviceMap q) \<longrightarrow>
       t \<in> ts \<and> (sessionKey q t, fd) \<in> set (deviceSessionMultiMap q)) \<and>
     (\<forall>e \<in> set (deviceSessionMultiMap q). fst e \<in> sessionKey q ` ts) \<and>
     0 \<le> sKey q \<and> (\<forall>t \<in> ts. sessionKey q t < sKey q) \<and> inj_on (sessionKey q) ts"

text \<open>What no operation on devices touches.\<close>

definition same_keys :: "('a, 'z) plat_scheme \<Rightarrow> ('a, 'z) plat_scheme \<Rightarrow> bool" where
  "same_keys q q' \<longleftrightarrow> sessionKey q' = sessionKey q \<and> sKey q' = sKey q \<and>
     threadSessionmap_mtx q' = threadSessionmap_mtx q \<and> threadSessionMap q' = threadSessionMap q"

lemma same_keys_trans: "same_keys q r \<Longrightarrow> same_keys r s \<Longrightarrow> same_keys q s"
  by (simp add: same_keys_def)

lemma register_open_keys:
  assumes "register_open A os cfg sid p q = Inr (q', b)"
  shows "same_keys q q'"
proof -
  from assms obtain d where d: "devs q p = Some d" by (auto simp: register_open_def rbind_Inr getd_def split: option.splits)
  with assms show ?thesis
    by (simp add: register_open_def getd_def setd_def sys_def sys_CHECK_def close_fd_def Let_def same_keys_def split: if_splits)
      auto
qed

lemma register_keys:
  assumes "registerDevice A os cfg tid sid p q = Inr (q', r)"
  shows "same_keys q q'"
proof -
  from assms obtain q1 b where q1: "register_open A os cfg sid p q = Inr (q1, b)"
    by (auto simp: registerDevice_def rbind_Inr)
  note k = register_open_keys [OF q1]
  show ?thesis
  proof (cases b)
    case False
    with assms q1 k show ?thesis by (simp add: registerDevice_def)
  next
    case True
    with assms q1 obtain d q2 c where d: "getd p q1 = Inr d"
      and q2: "register_signals os (device.deviceFileId d) q1 = Inr (q2, c)"
      by (auto simp: registerDevice_def rbind_Inr)
    from q2 register_signals_cases [of os "device.deviceFileId d" q1] have "same_keys q1 q2"
      by (auto simp: same_keys_def)
    with k have "same_keys q q2" by (rule same_keys_trans)
    moreover have "same_keys q2 q'"
      using assms q1 True d q2
      by (auto simp: registerDevice_def rbind_Inr same_keys_def add_new_device_def add_new_device_to_session_def
          with_devices_def lockDevice_def unlockDevice_def split: if_splits)
    ultimately show ?thesis by (rule same_keys_trans)
  qed
qed

lemma end_device_frame:
  assumes "end_device A p q = Inr q'"
  shows "same_keys q q' \<and> deviceMap q' = deviceMap q \<and> deviceSessionMultiMap q' = deviceSessionMultiMap q"
  using assms
  by (auto simp: end_device_def disable_device_def rbind_Inr getd_def setd_def ioc_disable_def same_keys_def
      Let_def split: if_splits option.splits prod.splits)

lemma update_frame:
  assumes "updateBPAddress A os cfg fast p len bt a q = Inr (q', b)"
  shows "same_keys q q' \<and> deviceMap q' = deviceMap q \<and> deviceSessionMultiMap q' = deviceSessionMultiMap q"
  using assms
  by (auto simp: updateBPAddress_def rbind_Inr getd_def setd_def sys_def same_keys_def Let_def
      split: if_splits option.splits prod.splits)

lemma removed_all_keys:
  assumes "removed_all tid fds q q'"
  shows "same_keys q q'"
proof -
  obtain a r dv F c M where "q' = q\<lparr>agent := a, running := r, devs := dv, open_fds := F, clock := c, deviceMap := M\<rparr>"
    using assms unfolding removed_all_def by blast
  then show ?thesis by (simp add: same_keys_def)
qed

lemma owned_frame:
  assumes "owned di ts q" and "di q'" and "same_keys q q'" and "deviceMap q' = deviceMap q"
    and "deviceSessionMultiMap q' = deviceSessionMultiMap q"
  shows "owned di ts q'"
  using assms by (simp add: owned_def same_keys_def)

section \<open>The operations\<close>

context bp_agent
begin

text \<open>A new device: registered with a descriptor that names no other device, or not registered.\<close>

definition registers ::
  "int \<Rightarrow> int \<Rightarrow> nat \<Rightarrow> int \<Rightarrow> bool \<Rightarrow> 'a plat \<Rightarrow> 'a plat \<Rightarrow> bool" where
  "registers tid sid p fd done q q' \<longleftrightarrow> same_keys q q' \<and> devicemap_mtx q' = devicemap_mtx q \<and>
     (\<forall>x. x \<noteq> p \<longrightarrow> devs q' x = devs q x) \<and> (\<forall>x. x \<noteq> fd \<longrightarrow> running q' x = running q x) \<and>
     (\<forall>t x c. ((t, x), c) \<in> set (deviceMap q) \<longrightarrow> x \<noteq> fd \<and> c \<noteq> p) \<and>
     (if done then set (deviceMap q') = insert ((tid, fd), p) (set (deviceMap q)) \<and>
          set (deviceSessionMultiMap q') = insert (sid, fd) (set (deviceSessionMultiMap q))
      else deviceMap q' = deviceMap q \<and> deviceSessionMultiMap q' = deviceSessionMultiMap q)"

lemma register_new:
  assumes inv: "dev_inv E q" and n: "new_dev d q = (q1, p)"
    and r: "registerDevice A (sysos E) (devcfg E) tid sid p q1 = Inr (q', c)"
  obtains fd where "dev_inv E q'" and "registers tid sid p fd (c = 0) q q'" and "c = 0 \<or> c = -1"
    and "c = 0 \<Longrightarrow> \<exists>d'. devs q' p = Some d' \<and> deviceType d' = deviceType d \<and> device.deviceFileId d' = fd"
proof -
  note o = dev_invD [OF inv] and nd = new_dev_simps [OF n] and nk = new_dev_ok [OF dev_invD(4,6) [OF inv] n]
  define fd where "fd = perf_event_open (sysos E) (clock q1) (open_fds q1) (registerThisDevice (devcfg E) (isAgentKVM A) d attr0)"
  have new: "fd \<noteq> -1 \<longrightarrow> 1 \<le> fd \<and> fd \<notin> open_fds q1" using o(2) unfolding fd_def fresh_os_def by auto
  have m: "\<not> devicemap_mtx q1" using o(5) nd(6) by simp
  have k1: "same_keys q q1" "running q1 = running q" using n by (auto simp: new_dev_def same_keys_def)
  have k: "same_keys q q'" using same_keys_trans [OF k1(1) register_keys [OF r]] .
  have fr: "x \<noteq> fd \<and> v \<noteq> p" if e: "((t, x), v) \<in> set (deviceMap q)" for t x v
  proof
    have e1: "((t, x), v) \<in> set (deviceMap q1)" using e nd(3) by simp
    then have "1 \<le> x \<and> x \<in> open_fds q1" using plat_okD [OF nk(1)] by metis
    with new show "x \<noteq> fd" by (cases "fd = -1") auto
    show "v \<noteq> p" using nk(2) e1 by force
  qed
  from register_ok [OF nk(1) m nd(2) nk(2) fd_def new, of tid sid] r
  consider (failed) "c = -1" "ok q'" "opened p fd q1 q'" | (added) "c = 0" "ok q'" "added tid sid fd p q1 q'" "fd \<noteq> -1"
    by auto
  then show thesis
  proof cases
    case failed
    have i: "dev_inv E q'"
      by (rule dev_invI [OF inv failed(2)]) (use failed(3) m nk(3) in \<open>simp_all add: opened_def allocated_def\<close>)
    have "registers tid sid p fd (c = 0) q q'"
      using failed k k1 nd fr by (simp add: registers_def opened_def)
    with i failed(1) show thesis by (intro that) simp_all
  next
    case added
    have nk': "(tid, fd) \<notin> fst ` set (deviceMap q1)" using fr nd(3) by fastforce
    have M: "set (deviceMap q') = insert ((tid, fd), p) (set (deviceMap q))"
      using added(3) omap_put_fresh [OF nk'] nd(3) by (simp add: added_def)
    have i: "dev_inv E q'"
      by (rule dev_invI [OF inv added(2)]) (use added(3) m nk(3) nd M in \<open>auto simp: added_def allocated_def\<close>)
    have "registers tid sid p fd (c = 0) q q'"
      using added k k1 nd fr M by (simp add: registers_def added_def set_mmap_insert)
    moreover have "\<exists>d'. devs q' p = Some d' \<and> deviceType d' = deviceType d \<and> device.deviceFileId d' = fd"
      using register_type [OF nd(2) _ fd_def new] r added(1) by simp
    ultimately show thesis using i added(1) by (intro that) simp_all
  qed
qed

lemma registers_owned:
  assumes i: "owned (dev_inv E) ts q" and t: "tid \<in> ts" and q': "dev_inv E q'"
    and r: "registers tid (sessionKey q tid) p fd done q q'"
  shows "owned (dev_inv E) ts q'"
proof (cases "done")
  case True
  with i t q' r show ?thesis by (auto simp: registers_def owned_def same_keys_def)
next
  case False
  with r show ?thesis by (intro owned_frame [OF i q']) (simp_all add: registers_def)
qed

lemma open_device_owned:
  assumes i: "owned (dev_inv E) ts q" and t: "tid \<in> ts" and r: "open_device E tid d q = Inr (q', p, c)"
  shows "owned (dev_inv E) ts q' \<and> same_keys q q' \<and> (c = 0 \<longrightarrow> (\<exists>d'. devs q' p = Some d'))"
proof -
  obtain q1 p1 where n: "new_dev d q = (q1, p1)" by (cases "new_dev d q")
  have inv: "dev_inv E q" using i by (simp add: owned_def)
  have "registerDevice A (sysos E) (devcfg E) tid (sessionKey q tid) p q1 = Inr (q', c)" and "p = p1"
    using r n dev_invD(1) [OF inv] by (auto simp: open_device_def get_session_key_def rbind_Inr)
  with n obtain fd where q': "dev_inv E q'" "registers tid (sessionKey q tid) p fd (c = 0) q q'"
    "c = 0 \<Longrightarrow> \<exists>d'. devs q' p = Some d' \<and> deviceType d' = deviceType d \<and> device.deviceFileId d' = fd"
    by (auto elim: register_new [OF inv])
  from registers_owned [OF i t q'(1,2)] q'(2,3) show ?thesis by (auto simp: registers_def)
qed

lemma key_owned:
  assumes i: "owned (dev_inv E) ts q" and t: "tid \<notin> ts" and b: "sKey q < 2 ^ 31 - 1"
    and g: "generate_session_key tid q = Inr q'"
  shows "owned (dev_inv E) (insert tid ts) q'"
proof -
  have q': "q' = q\<lparr>sessionKey := (sessionKey q)(tid := sKey q), sKey := to_i32 (sKey q + 1),
      threadSessionMap := (threadSessionMap q)(tid \<mapsto> sKey q)\<rparr>"
    using g by (auto simp: generate_session_key_def split: if_splits)
  have s: "to_i32 (sKey q + 1) = sKey q + 1" using b i by (simp add: owned_def)
  have inv: "dev_inv E q" using i by (simp add: owned_def)
  note o = dev_invD [OF inv]
  have "ok q'" by (rule plat_ok_frame [OF o(4)]) (simp_all add: q')
  then have "dev_inv E q'" by (rule dev_invI [OF inv]) (use o in \<open>simp_all add: q' allocated_def\<close>)
  moreover have "inj_on (sessionKey q') (insert tid ts)"
    using i t by (auto simp: owned_def q' inj_on_def)
  moreover have "\<forall>e \<in> set (deviceSessionMultiMap q'). fst e \<in> sessionKey q' ` insert tid ts"
  proof
    fix e assume "e \<in> set (deviceSessionMultiMap q')"
    with i obtain u where "u \<in> ts" "fst e = sessionKey q u" by (auto simp: owned_def q')
    with t show "fst e \<in> sessionKey q' ` insert tid ts" by (intro image_eqI [of _ _ u]) (auto simp: q')
  qed
  moreover have "((tid, fd), p) \<notin> set (deviceMap q)" for fd p using i t by (auto simp: owned_def)
  ultimately show ?thesis using i t s by (auto simp: owned_def q')
qed

lemma remove_owned:
  assumes i: "owned (dev_inv E) ts q" and t: "tid \<in> ts"
  shows "\<exists>q'. remove_device_by_session (ops E) (sysos E) tid (sessionKey q tid) q = Inr q' \<and>
    owned (dev_inv E) (ts - {tid}) q' \<and> same_keys q q'"
proof -
  have inv: "dev_inv E q" using i by (simp add: owned_def)
  note o = dev_invD [OF inv]
  let ?sid = "sessionKey q tid" and ?fds = "equal_range (sessionKey q tid) (deviceSessionMultiMap q)"
  from remove_by_session_ok [OF o(4,5) o(3), where sid = ?sid and tid = tid] obtain q' u where
    r: "remove_device_by_session A (sysos E) tid ?sid q = Inr q'" "ok q'" "removed_all tid ?fds q u"
      "q' = u\<lparr>deviceSessionMultiMap := filter (\<lambda>e. fst e \<noteq> ?sid) (deviceSessionMultiMap q)\<rparr>" by blast
  note ra = removed_all_maps [OF r(3)]
  have k: "same_keys q q'" using removed_all_keys [OF r(3)] by (simp add: same_keys_def r(4))
  have M: "set (deviceMap q') = {e \<in> set (deviceMap q). other_entry tid ?fds e}" by (simp add: r(4) ra(1))
  have "dev_inv E q'"
    by (rule dev_invI [OF inv r(2)]) (use ra o M in \<open>auto simp: r(4) allocated_def\<close>)
  moreover have "x \<in> ts - {tid} \<and> (sessionKey q' x, fd) \<in> set (deviceSessionMultiMap q')"
    if e: "((x, fd), p) \<in> set (deviceMap q')" for x fd p
  proof -
    from e M have m: "((x, fd), p) \<in> set (deviceMap q)" "\<not> (x = tid \<and> fd \<in> set ?fds)"
      by (simp_all add: other_entry_def)
    with i have x: "x \<in> ts" "(sessionKey q x, fd) \<in> set (deviceSessionMultiMap q)" by (auto simp: owned_def)
    with m(2) have "x \<noteq> tid" by (auto simp: set_equal_range)
    moreover from this have "sessionKey q x \<noteq> ?sid" using i t x(1) by (auto simp: owned_def inj_on_def)
    ultimately show ?thesis using x k by (simp add: r(4) same_keys_def)
  qed
  moreover have "fst e \<in> sessionKey q' ` (ts - {tid})" if "e \<in> set (deviceSessionMultiMap q')" for e
    using that i k by (auto simp: owned_def same_keys_def r(4))
  ultimately have "owned (dev_inv E) (ts - {tid}) q'"
    using i k by (auto simp: owned_def same_keys_def intro: inj_on_diff)
  with r(1) k o(1) show ?thesis by auto
qed

lemma init_owned:
  assumes "owned (dev_inv E) ts (st_plat s)" and "tid \<notin> ts" and "sKey (st_plat s) < 2 ^ 31 - 1"
    and r: "on_st_plat (\<lambda>q. rbind (generate_session_key tid q) (\<lambda>q.
      rbind (open_device E tid d q) (\<lambda>(q, _). Inr q))) s = Inr s'"
  shows "owned (dev_inv E) (insert tid ts) (st_plat s')"
proof -
  from r obtain q1 q2 x where q: "generate_session_key tid (st_plat s) = Inr q1" "open_device E tid d q1 = Inr (q2, x)"
    "s' = s\<lparr>st_plat := q2\<rparr>" by (auto simp: on_st_plat_def rbind_Inr)
  obtain p c where x: "x = (p, c)" by (cases x)
  from open_device_owned [OF key_owned [OF assms(1-3) q(1)] _ q(2) [unfolded x]] q(3) show ?thesis by simp
qed

lemma exit_owned:
  assumes "owned (dev_inv E) ts (st_plat s)" and "tid \<in> ts"
  shows "\<exists>s'. on_st_plat (\<lambda>q. remove_device_by_session (ops E) (sysos E) tid (get_session_key tid q) q) s = Inr s' \<and>
      owned (dev_inv E) (ts - {tid}) (st_plat s')"
    and "\<exists>s'. on_st_plat (\<lambda>q. let sessionId = get_session_key tid q
        in rbind (remove_device_by_session (ops E) (sysos E) tid sessionId q) (destroy_session_key sessionId)) s = Inr s' \<and>
      owned (dev_inv E) (ts - {tid}) (st_plat s')"
proof -
  from remove_owned [OF assms] obtain q where
    q: "remove_device_by_session (ops E) (sysos E) tid (sessionKey (st_plat s) tid) (st_plat s) = Inr q"
      "owned (dev_inv E) (ts - {tid}) q" by blast
  then show "\<exists>s'. on_st_plat (\<lambda>q. remove_device_by_session (ops E) (sysos E) tid (get_session_key tid q) q) s = Inr s' \<and>
      owned (dev_inv E) (ts - {tid}) (st_plat s')"
    by (simp add: on_st_plat_def get_session_key_def)
  let ?q = "q\<lparr>threadSessionMap := (threadSessionMap q)(sessionKey (st_plat s) tid \<mapsto> -1)\<rparr>"
  have inv: "dev_inv E q" using q(2) by (simp add: owned_def)
  note o = dev_invD [OF inv]
  have "ok ?q" by (rule plat_ok_frame [OF o(4)]) simp_all
  then have "dev_inv E ?q" by (rule dev_invI [OF inv]) (use o in \<open>simp_all add: allocated_def\<close>)
  then have "owned (dev_inv E) (ts - {tid}) ?q" using q(2) by (simp add: owned_def)
  with q show "\<exists>s'. on_st_plat (\<lambda>q. let sessionId = get_session_key tid q
        in rbind (remove_device_by_session (ops E) (sysos E) tid sessionId q) (destroy_session_key sessionId)) s = Inr s' \<and>
      owned (dev_inv E) (ts - {tid}) (st_plat s')"
    by (simp add: on_st_plat_def get_session_key_def destroy_session_key_def owned_def)
qed

lemma bp_of_map:
  assumes "dev_inv E q" and "get_device tid fd q = Inr (Some p)" and "getd p q = Inr d" and "deviceType d = BPDEVICE"
  shows "bp_dev q tid fd"
proof -
  have "map_of (deviceMap q) (tid, fd) = Some p"
    using assms(1,2) dev_invD(5) [OF assms(1)] by (simp add: get_device_def lockDevice_def)
  with assms(3,4) show ?thesis
    by (auto simp: bp_dev_def getd_def dest!: map_of_SomeD split: option.splits)
qed

lemma PEBSBP_event_owned:
  assumes i: "owned (dev_inv E) ts (st_plat s)" and t: "tid \<in> ts" and g: "get_device tid fd (st_plat s) = Inr (Some p)"
    and r: "PEBSBPTool_eventHandler E tid ev p s = Inr s'"
  shows "owned (dev_inv E) ts (st_plat s')"
proof -
  have inv: "dev_inv E (st_plat s)" using i by (simp add: owned_def)
  from r obtain d where d: "getd p (st_plat s) = Inr d" by (auto simp: PEBSBPTool_eventHandler_def rbind_Inr)
  from r have "PEBSBPTool_PEBSEventHandler E tid ev s = Inr s' \<or>
      deviceType d = BPDEVICE \<and> PEBSBPTool_BPEventHandler E p s = Inr s' \<or> s' = s"
    by (simp add: PEBSBPTool_eventHandler_def d split: if_split_asm)
  then consider (pebs) "PEBSBPTool_PEBSEventHandler E tid ev s = Inr s'"
    | (bp) "deviceType d = BPDEVICE" "PEBSBPTool_BPEventHandler E p s = Inr s'" | (none) "s' = s"
    by blast
  then show ?thesis
  proof cases
    case bp
    note b = bp_of_map [OF inv g d bp(1)]
    from bp(2) obtain q where q: "end_device (ops E) p (st_plat s) = Inr q" "s' = s\<lparr>st_plat := q\<rparr>"
      by (auto simp: PEBSBPTool_BPEventHandler_def on_st_plat_def rbind_Inr)
    with stop_ok [OF inv b g] end_device_frame [OF q(1)] owned_frame [OF i] show ?thesis by auto
  next
    case pebs
    show ?thesis
    proof (cases "h_data_addr ev = 0")
      case True
      with pebs i show ?thesis by (simp add: PEBSBPTool_PEBSEventHandler_def)
    next
      case nz: False
      show ?thesis
      proof (cases "st_fd s tid = -1")
        case True
        with pebs nz obtain q x c where "open_device E tid (sample_BPDevice ev) (st_plat s) = Inr (q, x, c)"
          "st_plat s' = q"
          by (auto simp: PEBSBPTool_PEBSEventHandler_def rbind_Inr split: if_splits)
        with open_device_owned [OF i t] show ?thesis by blast
      next
        case False
        with pebs nz obtain dev where dev: "get_device tid (st_fd s tid) (st_plat s) = Inr dev"
          by (auto simp: PEBSBPTool_PEBSEventHandler_def rbind_Inr)
        show ?thesis
        proof (cases dev)
          case None
          with pebs nz False dev i show ?thesis by (simp add: PEBSBPTool_PEBSEventHandler_def Let_def) auto
        next
          case (Some x)
          with pebs nz False dev obtain e where e: "getd x (st_plat s) = Inr e"
            by (auto simp: PEBSBPTool_PEBSEventHandler_def rbind_Inr Let_def)
          show ?thesis
          proof (cases "deviceType e = BPDEVICE")
            case False
            with pebs nz \<open>st_fd s tid \<noteq> -1\<close> dev Some e i show ?thesis
              by (simp add: PEBSBPTool_PEBSEventHandler_def Let_def) auto
          next
            case True
            with pebs nz False dev Some e obtain q c where
              u: "updateBPAddress (ops E) (sysos E) (devcfg E) (fast_bp E) x 1 3 (h_data_addr ev) (st_plat s) = Inr (q, c)"
              and s': "s' = s\<lparr>st_plat := q\<rparr>"
              by (auto simp: PEBSBPTool_PEBSEventHandler_def Let_def rbind_Inr)
            from move_ok [OF inv bp_of_map [OF inv dev [unfolded Some] e True] dev [unfolded Some], of 1 3 "h_data_addr ev"] u
            have "dev_inv E q" by auto
            with update_frame [OF u] owned_frame [OF i] s' show ?thesis by simp
          qed
        qed
      qed
    qed
  qed (use i in simp)
qed

end

section \<open>The contract of a tool\<close>

text \<open>The threads that run and the state, after any calls of the process monitor and any signals.\<close>

inductive tool_reach :: "'a tool_calls \<Rightarrow> 'a stool \<Rightarrow> int set \<Rightarrow> 'a stool \<Rightarrow> bool" for T s0 where
  start: "tool_reach T s0 {} s0"
| init_process: "tool_reach T s0 ts s \<Longrightarrow> tid \<notin> ts \<Longrightarrow> sKey (st_plat s) < 2 ^ 31 - 1 \<Longrightarrow>
    monitor_init_process T tid s = Inr s' \<Longrightarrow> tool_reach T s0 (insert tid ts) s'"
| init_thread: "tool_reach T s0 ts s \<Longrightarrow> tid \<notin> ts \<Longrightarrow> sKey (st_plat s) < 2 ^ 31 - 1 \<Longrightarrow>
    monitor_init_thread T tid s = Inr s' \<Longrightarrow> tool_reach T s0 (insert tid ts) s'"
| signal: "tool_reach T s0 ts s \<Longrightarrow> tid \<in> ts \<Longrightarrow> get_device tid fd (st_plat s) = Inr (Some p) \<Longrightarrow>
    tool_onEvent T tid ev p s = Inr s' \<Longrightarrow> tool_reach T s0 ts s'"
| fini_thread: "tool_reach T s0 ts s \<Longrightarrow> tid \<in> ts \<Longrightarrow> monitor_fini_thread T tid s = Inr s' \<Longrightarrow>
    tool_reach T s0 (ts - {tid}) s'"
| fini_process: "tool_reach T s0 ts s \<Longrightarrow> tid \<in> ts \<Longrightarrow> monitor_fini_process T tid s = Inr s' \<Longrightarrow>
    tool_reach T s0 (ts - {tid}) s'"

locale session_tool =
  fixes T :: "'a tool_calls" and di :: "'a plat \<Rightarrow> bool"
  assumes init: "owned di ts (st_plat s) \<Longrightarrow> tid \<notin> ts \<Longrightarrow> sKey (st_plat s) < 2 ^ 31 - 1 \<Longrightarrow>
      tool_processInit T tid s = Inr s' \<or> tool_threadInit T tid s = Inr s' \<Longrightarrow> owned di (insert tid ts) (st_plat s')"
    and exit_process: "owned di ts (st_plat s) \<Longrightarrow> tid \<in> ts \<Longrightarrow>
      \<exists>s'. tool_processExit T tid s = Inr s' \<and> owned di (ts - {tid}) (st_plat s')"
    and exit_thread: "owned di ts (st_plat s) \<Longrightarrow> tid \<in> ts \<Longrightarrow>
      \<exists>s'. tool_threadExit T tid s = Inr s' \<and> owned di (ts - {tid}) (st_plat s')"
    and event: "owned di ts (st_plat s) \<Longrightarrow> tid \<in> ts \<Longrightarrow> get_device tid fd (st_plat s) = Inr (Some p) \<Longrightarrow>
      tool_onEvent T tid ev p s = Inr s' \<Longrightarrow> owned di ts (st_plat s')"
begin

lemma reach_owned: "tool_reach T s0 ts s \<Longrightarrow> owned di {} (st_plat s0) \<Longrightarrow> owned di ts (st_plat s)"
proof (induction rule: tool_reach.induct)
  case (init_process ts s tid s')
  then show ?case using init [of ts s tid s'] by (simp add: monitor_init_process_def)
next
  case (init_thread ts s tid s')
  then show ?case using init [of ts "s\<lparr>st_fd := (st_fd s)(tid := -1)\<rparr>" tid s'] by (simp add: monitor_init_thread_def)
next
  case (signal ts s tid fd p ev s')
  then show ?case using event by blast
next
  case (fini_thread ts s tid s')
  then show ?case using exit_thread [of ts s tid] by (auto simp: monitor_fini_thread_def)
next
  case (fini_process ts s tid s')
  then show ?case using exit_process [of ts s tid] by (auto simp: monitor_fini_process_def)
qed

lemma threads_can_end: "tool_reach T s0 ts s \<Longrightarrow> owned di {} (st_plat s0) \<Longrightarrow> tid \<in> ts \<Longrightarrow>
    (\<exists>s'. monitor_fini_thread T tid s = Inr s') \<and> (\<exists>s'. monitor_fini_process T tid s = Inr s')"
  using exit_thread exit_process reach_owned by (fastforce simp: monitor_fini_thread_def monitor_fini_process_def)

lemma owners: "tool_reach T s0 ts s \<Longrightarrow> owned di {} (st_plat s0) \<Longrightarrow>
    di (st_plat s) \<and> (\<forall>t fd p. ((t, fd), p) \<in> set (deviceMap (st_plat s)) \<longrightarrow>
       t \<in> ts \<and> (sessionKey (st_plat s) t, fd) \<in> set (deviceSessionMultiMap (st_plat s))) \<and>
    inj_on (sessionKey (st_plat s)) ts"
  using reach_owned by (fastforce simp: owned_def)

lemma nothing_left: "tool_reach T s0 {} s \<Longrightarrow> owned di {} (st_plat s0) \<Longrightarrow>
    deviceMap (st_plat s) = [] \<and> deviceSessionMultiMap (st_plat s) = []"
proof -
  assume "tool_reach T s0 {} s" "owned di {} (st_plat s0)"
  then have o: "owned di {} (st_plat s)" by (rule reach_owned)
  have "e \<notin> set (deviceMap (st_plat s))" for e using o by (cases e; cases "fst e") (auto simp: owned_def)
  moreover have "e \<notin> set (deviceSessionMultiMap (st_plat s))" for e using o by (cases e) (auto simp: owned_def)
  ultimately show "deviceMap (st_plat s) = [] \<and> deviceSessionMultiMap (st_plat s) = []"
    by (metis list.set_intros(1) neq_Nil_conv)
qed

end

lemmas tool_defs = EBSTool_def PEBSTool_def PEBSBPTool_def EBSTool_sessionInit_def EBSTool_sessionExit_def
  PEBSTool_sessionInit_def PEBSTool_sessionExit_def PEBSBPTool_sessionInit_def PEBSBPTool_sessionExit_def

context bp_agent
begin

lemma EBSTool_laws: "session_tool (EBSTool E) (dev_inv E)"
proof
  fix ts tid fd p ev and s s' :: "'a stool"
  assume o: "owned (dev_inv E) ts (st_plat s)"
  show "owned (dev_inv E) (insert tid ts) (st_plat s')" if "tid \<notin> ts" "sKey (st_plat s) < 2 ^ 31 - 1"
    "tool_processInit (EBSTool E) tid s = Inr s' \<or> tool_threadInit (EBSTool E) tid s = Inr s'"
    by (rule init_owned [OF o that(1,2)]) (use that(3) in \<open>auto simp: tool_defs\<close>)
  show "\<exists>s'. tool_processExit (EBSTool E) tid s = Inr s' \<and> owned (dev_inv E) (ts - {tid}) (st_plat s')"
    "\<exists>s'. tool_threadExit (EBSTool E) tid s = Inr s' \<and> owned (dev_inv E) (ts - {tid}) (st_plat s')" if "tid \<in> ts"
    using exit_owned(1) [OF o that] by (simp_all add: tool_defs)
  show "owned (dev_inv E) ts (st_plat s')" if "tool_onEvent (EBSTool E) tid ev p s = Inr s'"
    using o that by (auto simp: tool_defs rbind_Inr)
qed

lemma PEBSTool_laws: "session_tool (PEBSTool E) (dev_inv E)"
proof
  fix ts tid fd p ev and s s' :: "'a stool"
  assume o: "owned (dev_inv E) ts (st_plat s)"
  show "owned (dev_inv E) (insert tid ts) (st_plat s')" if "tid \<notin> ts" "sKey (st_plat s) < 2 ^ 31 - 1"
    "tool_processInit (PEBSTool E) tid s = Inr s' \<or> tool_threadInit (PEBSTool E) tid s = Inr s'"
    by (rule init_owned [OF o that(1,2)]) (use that(3) in \<open>auto simp: tool_defs\<close>)
  show "\<exists>s'. tool_processExit (PEBSTool E) tid s = Inr s' \<and> owned (dev_inv E) (ts - {tid}) (st_plat s')"
    "\<exists>s'. tool_threadExit (PEBSTool E) tid s = Inr s' \<and> owned (dev_inv E) (ts - {tid}) (st_plat s')" if "tid \<in> ts"
    using exit_owned(2) [OF o that] by (simp_all add: tool_defs)
  show "owned (dev_inv E) ts (st_plat s')" if "tool_onEvent (PEBSTool E) tid ev p s = Inr s'"
    using o that by (auto simp: tool_defs PEBSTool_eventHandler_def rbind_Inr)
qed

lemma PEBSBPTool_laws: "session_tool (PEBSBPTool E) (dev_inv E)"
proof
  fix ts tid fd p ev and s s' :: "'a stool"
  assume o: "owned (dev_inv E) ts (st_plat s)"
  show "owned (dev_inv E) (insert tid ts) (st_plat s')" if "tid \<notin> ts" "sKey (st_plat s) < 2 ^ 31 - 1"
    "tool_processInit (PEBSBPTool E) tid s = Inr s' \<or> tool_threadInit (PEBSBPTool E) tid s = Inr s'"
    by (rule init_owned [OF o that(1,2)]) (use that(3) in \<open>auto simp: tool_defs\<close>)
  show "\<exists>s'. tool_processExit (PEBSBPTool E) tid s = Inr s' \<and> owned (dev_inv E) (ts - {tid}) (st_plat s')"
    "\<exists>s'. tool_threadExit (PEBSBPTool E) tid s = Inr s' \<and> owned (dev_inv E) (ts - {tid}) (st_plat s')" if "tid \<in> ts"
    using exit_owned(2) [OF o that] by (simp_all add: tool_defs)
  show "owned (dev_inv E) ts (st_plat s')" if "tid \<in> ts" "get_device tid fd (st_plat s) = Inr (Some p)"
    "tool_onEvent (PEBSBPTool E) tid ev p s = Inr s'"
    by (rule PEBSBP_event_owned [OF o that(1,2)]) (use that(3) in \<open>simp add: tool_defs\<close>)
qed

end

interpretation kvm_ebs: session_tool "EBSTool E" "kvm_agent.dev_inv E" for E by (rule kvm_agent.EBSTool_laws)
interpretation kvm_pebs: session_tool "PEBSTool E" "kvm_agent.dev_inv E" for E by (rule kvm_agent.PEBSTool_laws)
interpretation kvm_pebsbp: session_tool "PEBSBPTool E" "kvm_agent.dev_inv E" for E by (rule kvm_agent.PEBSBPTool_laws)
interpretation native_ebs: session_tool "EBSTool E" "native_agent.dev_inv E" for E by (rule native_agent.EBSTool_laws)
interpretation native_pebs: session_tool "PEBSTool E" "native_agent.dev_inv E" for E by (rule native_agent.PEBSTool_laws)
interpretation native_pebsbp: session_tool "PEBSBPTool E" "native_agent.dev_inv E" for E
  by (rule native_agent.PEBSBPTool_laws)

section \<open>No device outlives its thread\<close>

definition sample_start :: "'a \<Rightarrow> 'a stool" where
  "sample_start a = \<lparr>st_plat = plat_init a, st_fd = \<lambda>_. -1\<rparr>"

lemma kvm_start_owned:
  assumes "ops E = kvm_ops" and "fresh_os (sysos E)" and "\<And>fd. closable (sysos E) fd"
    and "kvm_inv a" and "\<And>fd. 1 \<le> fd \<Longrightarrow> unheld a fd"
  shows "owned (kvm_agent.dev_inv E) {} (st_plat (sample_start a))"
  using assms by (simp add: owned_def sample_start_def plat_init_def kvm_agent.dev_inv_def kvm_agent.reg_ok_def
      plat_ok_def fds_of_def allocated_def)


definition sample_env :: "'a agent_ops \<Rightarrow> 'a env" where
  "sample_env A = \<lparr>ops = A, sysos = demo_os 100, devcfg = demo_cfg, fast_bp = False, spycfg = demo_spy_cfg,
     logicType = DEADSPY, AVOID_PUSH = False, AVOID_CALLQ = False, AVOID_LOCK = False,
     get_previous_instruction = (\<lambda>_ _ _ _. Inr 0), mem_access = (\<lambda>_ _ _ out _. Inr (out, False)),
     value_at = (\<lambda>_ _ _. (-1, [])), fresh_mem = (\<lambda>n. replicate (nat n) 0)\<rparr>"

lemma sample_env_ok:
  "ops (sample_env A) = A" "fresh_os (sysos (sample_env A))" "closable (sysos (sample_env A)) fd"
  by (simp_all add: sample_env_def fresh_os_def demo_os_def closable_def)

lemma demo_kvm_start_ok: "kvm_inv demo_kvm_start" "unheld demo_kvm_start fd"
  by (simp_all add: kvm_inv_def kvm_ok_def demo_kvm_start_def kvm_init_def demo_hv_def unheld_def)

text \<open>A thread starts, has its PEBS device, and ends.\<close>

lemma sample_thread_starts:
  "\<exists>s. monitor_init_thread (PEBSTool (sample_env kvm_ops)) 7 (sample_start demo_kvm_start) = Inr s \<and>
     deviceMap (st_plat s) = [((7, 10), 0)]"
  by (simp add: monitor_init_thread_def tool_defs on_st_plat_def sample_start_def plat_init_def generate_session_key_def
      open_device_def new_dev_def get_session_key_def registerDevice_def register_open_def register_signals_def getd_def
      setd_def sample_env_def demo_os_def sys_def sys_CHECK_def Let_def add_new_device_def add_new_device_to_session_def
      with_devices_def lockDevice_def unlockDevice_def omap_put_def)


section \<open>Two slips of the sample tools\<close>

text \<open>When a thread ends the PEBS tool destroys the key of the wrong thread: the row of the ending thread
  still names its session, and the row of the thread whose number equals the session is set to \<open>-1\<close>.\<close>

theorem sample_exit_destroys_wrong_key:
  assumes "owned (kvm_agent.dev_inv E) ts (st_plat s)" and "tid \<in> ts" and "sessionKey (st_plat s) tid \<noteq> tid"
  shows "\<exists>s'. monitor_fini_thread (PEBSTool E) tid s = Inr s' \<and>
    threadSessionMap (st_plat s') tid = threadSessionMap (st_plat s) tid \<and>
    threadSessionMap (st_plat s') (sessionKey (st_plat s) tid) = Some (-1)"
proof -
  from kvm_agent.remove_owned [OF assms(1,2)] obtain q where
    q: "remove_device_by_session (ops E) (sysos E) tid (sessionKey (st_plat s) tid) (st_plat s) = Inr q"
      "\<not> threadSessionmap_mtx q" "threadSessionMap q = threadSessionMap (st_plat s)"
    by (auto simp: owned_def same_keys_def)
  with assms(3) show ?thesis
    by (simp add: monitor_fini_thread_def tool_defs on_st_plat_def get_session_key_def destroy_session_key_def)
qed

theorem sample_exit_destroys_wrong_key_witness:
  "\<exists>s1 s2. monitor_init_thread (PEBSTool (sample_env kvm_ops)) 7 (sample_start demo_kvm_start) = Inr s1 \<and>
     monitor_fini_thread (PEBSTool (sample_env kvm_ops)) 7 s1 = Inr s2 \<and>
     threadSessionMap (st_plat s2) 7 = threadSessionMap (st_plat s1) 7 \<and>
     threadSessionMap (st_plat s2) (sessionKey (st_plat s1) 7) = Some (-1)"
proof -
  let ?T = "PEBSTool (sample_env kvm_ops)" and ?s0 = "sample_start demo_kvm_start"
  obtain s1 where s1: "monitor_init_thread ?T 7 ?s0 = Inr s1" using sample_thread_starts by blast
  have r1: "tool_reach ?T ?s0 {7} s1"
    using tool_reach.init_thread [OF tool_reach.start _ _ s1] by (simp add: sample_start_def plat_init_def)
  have o: "owned (kvm_agent.dev_inv (sample_env kvm_ops)) {7} (st_plat s1)"
    by (rule kvm_pebs.reach_owned [OF r1]) (intro kvm_start_owned sample_env_ok demo_kvm_start_ok)
  have "sessionKey (st_plat s1) 7 = 0"
  proof -
    from s1 obtain q1 q2 x where "generate_session_key 7 (st_plat ?s0) = Inr q1"
      and q2: "open_device (sample_env kvm_ops) 7 (new_PEBSDevice STORE) q1 = Inr (q2, x)" "st_plat s1 = q2"
      by (auto simp: monitor_init_thread_def tool_defs on_st_plat_def rbind_Inr sample_start_def)
    then have "sessionKey q1 7 = 0" by (auto simp: generate_session_key_def sample_start_def plat_init_def)
    moreover have "same_keys q1 q2"
    proof -
      obtain q p where n: "new_dev (new_PEBSDevice STORE) q1 = (q, p)" by (cases "new_dev (new_PEBSDevice STORE) q1")
      then have "same_keys q1 q" by (auto simp: new_dev_def same_keys_def)
      moreover have "same_keys q q2" using q2(1) n register_keys by (auto simp: open_device_def rbind_Inr)
      ultimately show ?thesis by (rule same_keys_trans)
    qed
    ultimately show ?thesis using q2(2) by (simp add: same_keys_def)
  qed
  with sample_exit_destroys_wrong_key [OF o] s1 show ?thesis by auto
qed

text \<open>Without the kernel's fast path the breakpoint of the sample tool fires once: its handler switches
  the device off and marks it, and later samples find the descriptor and try to move the device, which
  leaves it off.\<close>

theorem sample_breakpoint_fires_once:
  assumes "ops E = native_ops" and "\<not> fast_bp E" and "\<not> devicemap_mtx (st_plat s)"
    and "map_of (deviceMap (st_plat s)) (tid, fd) = Some p" and "devs (st_plat s) p = Some d"
    and "deviceType d = BPDEVICE" and "device.deviceFileId d = fd" and "fd \<in> open_fds (st_plat s)"
    and "st_fd s tid = fd" and "fd \<noteq> -1"
  shows "\<exists>s1 s2 d2. PEBSBPTool_eventHandler E tid ev p s = Inr s1 \<and>
    PEBSBPTool_PEBSEventHandler E tid ev' s1 = Inr s2 \<and> \<not> running (st_plat s2) fd \<and>
    devs (st_plat s2) p = Some d2 \<and> isDisabled d2"
proof -
  let ?d = "d\<lparr>isDisabled := True\<rparr>"
  let ?q = "(setd p ?d (st_plat s))\<lparr>running := (running (st_plat s))(fd := False)\<rparr>"
  have "PEBSBPTool_eventHandler E tid ev p s = Inr (s\<lparr>st_plat := ?q\<rparr>)"
    using assms(1,5-8)
    by (simp add: PEBSBPTool_eventHandler_def PEBSBPTool_BPEventHandler_def on_st_plat_def end_device_def getd_def
        disable_device_def native_pauseDevice_def ioc_disable_def setd_def PEBSDEVICE_def BPDEVICE_def)
  moreover have "PEBSBPTool_PEBSEventHandler E tid ev' (s\<lparr>st_plat := ?q\<rparr>) = Inr (s\<lparr>st_plat := ?q\<rparr>)"
    using assms(1-10)
    by (simp add: PEBSBPTool_PEBSEventHandler_def get_device_def lockDevice_def getd_def updateBPAddress_def
        native_updateBPAddress_def setd_def Let_def)
  ultimately show ?thesis by (simp add: setd_def)
qed

theorem sample_breakpoint_fires_once_witness:
  "\<exists>s1 s2. PEBSBPTool_eventHandler (sample_env native_ops) 7 zero_Event 0
      \<lparr>st_plat = (plat_init ())\<lparr>deviceMap := [((7, 5), 0)], open_fds := {5},
         devs := [0 \<mapsto> (new_BPDevice 1 3 4096)\<lparr>deviceFileId := 5\<rparr>], running := (\<lambda>fd. fd = 5)\<rparr>, st_fd = \<lambda>_. 5\<rparr> = Inr s1 \<and>
     PEBSBPTool_PEBSEventHandler (sample_env native_ops) 7 (zero_Event\<lparr>h_data_addr := 8192\<rparr>) s1 = Inr s2 \<and>
     \<not> running (st_plat s2) 5"
  using sample_breakpoint_fires_once [of "sample_env native_ops"
      "\<lparr>st_plat = (plat_init ())\<lparr>deviceMap := [((7, 5), 0)], open_fds := {5},
         devs := [0 \<mapsto> (new_BPDevice 1 3 4096)\<lparr>deviceFileId := 5\<rparr>], running := (\<lambda>fd. fd = 5)\<rparr>, st_fd = \<lambda>_. 5\<rparr>"
      7 5 0 "(new_BPDevice 1 3 4096)\<lparr>deviceFileId := 5\<rparr>" zero_Event "zero_Event\<lparr>h_data_addr := 8192\<rparr>"]
  by (auto simp: sample_env_def plat_init_def new_BPDevice_def)

end
