(* ===== verification/Kvm_Setup.thy ===== *)
theory Kvm_Setup
  imports Sample_Props Decoder
begin

text \<open>
  What the KVM agent does besides breakpoints and decoding: handing the debug store of a guest to the PEBS
  device (\<open>MyAgent::setupPEBSbuffer\<close>, \<open>PEBSDevice::updateDSAddress\<close>) and naming the functions of a sample.
\<close>

section \<open>The debug store\<close>

text \<open>
  The addresses of guest and host, when the kernel is given them, and the result. \<open>patched\<close>: the headers
  define \<^verbatim>\<open>PEBS_UPDATE_DS_AREA\<close>; \<open>cpus\<close> and \<open>updated\<close>: the two ioctls succeed.
\<close>

record ds_g2h_map =
  guest_buffer_base_virt_addr :: u64
  host_buffer_base_virt_addr :: u64

record ds_ioctl =
  patched :: bool
  cpus :: bool
  updated :: bool

definition updateDSAddress :: "ds_ioctl \<Rightarrow> u64 \<Rightarrow> u64 \<Rightarrow> ds_g2h_map option \<times> bool" where
  "updateDSAddress io guest host =
     (if \<not> patched io \<or> \<not> cpus io then (None, False)
      else (Some \<lparr>guest_buffer_base_virt_addr = guest, host_buffer_base_virt_addr = host\<rparr>, updated io))"

text \<open>
  \<open>shmem\<close> is the first word of the memory at \<open>ptr\<close>. The results of \<open>registerDevice\<close> and
  \<open>updateDSAddress\<close> are not looked at; the device is removed without the lock.
\<close>

definition setupPEBSbuffer ::
  "'a env \<Rightarrow> ds_ioctl \<Rightarrow> int \<Rightarrow> u64 \<Rightarrow> u64 \<Rightarrow> 'a plat \<Rightarrow> ('a plat \<times> ds_g2h_map option) res" where
  "setupPEBSbuffer E io tid shmem ptr q =
     rbind (generate_session_key tid q) (\<lambda>q.
     rbind (open_device E tid (new_PEBSDevice STORE) q) (\<lambda>(q, p, _).
     rbind (getd p q) (\<lambda>d.
       let (handed, _) = updateDSAddress io (shmem + 8) (ptr + 8)
       in rbind (remove_device (ops E) (sysos E) tid (device.deviceFileId d) True q) (\<lambda>q. Inr (q, handed)))))"

section \<open>The function names of a sample\<close>

text \<open>The lines \<open>isGuestSample\<close> prints: name and address of each frame; it always answers true.\<close>

fun isGuestSample :: "kvm_symbols \<Rightarrow> ContextFrame list \<Rightarrow> ((string \<times> int) list \<times> bool) res" where
  "isGuestSample syms [] = Inr ([], True)"
| "isGuestSample syms (f # fs) =
     rbind (getFunctionName (binary_addr f) syms) (\<lambda>name.
     rbind (isGuestSample syms fs) (\<lambda>(out, b). Inr ((name, binary_addr f) # out, b)))"

section \<open>Registering leaves the descriptor in the device\<close>

lemma register_open_fd:
  assumes "register_open A os cfg sid p q = Inr (q', b)" and "devs q p = Some d"
  shows "\<exists>d'. devs q' p = Some d' \<and>
    device.deviceFileId d' = perf_event_open os (clock q) (open_fds q) (registerThisDevice cfg (isAgentKVM A) d attr0) \<and>
    dev_sessionId d' = sid"
  using assms
  by (simp add: register_open_def getd_def setd_def sys_def sys_CHECK_def close_fd_def Let_def split: if_splits) auto

lemma register_fd:
  assumes "registerDevice A os cfg tid sid p q = Inr (q', r)" and "devs q p = Some d"
  shows "\<exists>d'. devs q' p = Some d' \<and>
    device.deviceFileId d' = perf_event_open os (clock q) (open_fds q) (registerThisDevice cfg (isAgentKVM A) d attr0) \<and>
    dev_sessionId d' = sid"
proof -
  from assms obtain q1 b where q1: "register_open A os cfg sid p q = Inr (q1, b)"
    by (auto simp: registerDevice_def rbind_Inr)
  note f = register_open_fd [OF q1 assms(2)]
  show ?thesis
  proof (cases b)
    case False
    with assms(1) q1 f show ?thesis by (simp add: registerDevice_def)
  next
    case True
    with assms q1 obtain e q2 c where d: "getd p q1 = Inr e"
      and q2: "register_signals os (device.deviceFileId e) q1 = Inr (q2, c)"
      by (auto simp: registerDevice_def rbind_Inr)
    from q2 register_signals_cases [of os "device.deviceFileId e" q1] have "devs q2 = devs q1" by auto
    moreover have "devs q' = devs q2"
      using assms(1) q1 True d q2
      by (auto simp: registerDevice_def rbind_Inr add_new_device_def add_new_device_to_session_def
          with_devices_def lockDevice_def unlockDevice_def split: if_splits)
    ultimately show ?thesis using f by simp
  qed
qed

section \<open>The session that is lost\<close>

lemma remove1_mmap_insert: "(k, v) \<notin> set m \<Longrightarrow> remove1 (k, v) (mmap_insert k v m) = m"
proof -
  assume "(k, v) \<notin> set m"
  then have "(k, v) \<notin> set (takeWhile (\<lambda>e. fst e \<le> k) m)" by (meson set_takeWhileD)
  then show ?thesis by (simp add: mmap_insert_def remove1_append)
qed

lemma generate_frame:
  assumes "generate_session_key tid q = Inr q'"
  shows "sessionKey q' = (sessionKey q)(tid := sKey q)" and "deviceMap q' = deviceMap q"
    and "deviceSessionMultiMap q' = deviceSessionMultiMap q"
  using assms by (auto simp: generate_session_key_def split: if_splits)

context bp_agent
begin

lemma generate_inv:
  assumes "dev_inv E q" and "generate_session_key tid q = Inr q'"
  shows "dev_inv E q'"
proof -
  have q': "q' = q\<lparr>sessionKey := (sessionKey q)(tid := sKey q), sKey := to_i32 (sKey q + 1),
      threadSessionMap := (threadSessionMap q)(tid \<mapsto> sKey q)\<rparr>"
    using assms(2) by (auto simp: generate_session_key_def split: if_splits)
  note o = dev_invD [OF assms(1)]
  have "ok q'" by (rule plat_ok_frame [OF o(4)]) (simp_all add: q')
  then show ?thesis by (rule dev_invI [OF assms(1)]) (use o in \<open>simp_all add: q' allocated_def\<close>)
qed

lemma open_remove:
  assumes i: "dev_inv E q" and new_key: "\<And>fd. (sessionKey q tid, fd) \<notin> set (deviceSessionMultiMap q)"
    and r: "open_device E tid dv q = Inr (q2, p, r)" and d: "getd p q2 = Inr d"
  shows "\<exists>q'. remove_device (ops E) (sysos E) tid (device.deviceFileId d) True q2 = Inr q' \<and> dev_inv E q' \<and>
    deviceMap q' = deviceMap q \<and> deviceSessionMultiMap q' = deviceSessionMultiMap q \<and> sessionKey q' = sessionKey q"
proof -
  obtain q1 p1 where n: "new_dev dv q = (q1, p1)" by (cases "new_dev dv q")
  note o = dev_invD [OF i] and nd = new_dev_simps [OF n] and nk = new_dev_ok [OF dev_invD(4,6) [OF i] n]
  define fd where "fd = perf_event_open (sysos E) (clock q1) (open_fds q1) (registerThisDevice (devcfg E) (isAgentKVM A) dv attr0)"
  have new: "fd \<noteq> -1 \<longrightarrow> 1 \<le> fd \<and> fd \<notin> open_fds q1" using o(2) unfolding fd_def fresh_os_def by auto
  have m: "\<not> devicemap_mtx q1" using o(5) nd(6) by simp
  let ?sid = "sessionKey q tid"
  have e: "registerDevice A (sysos E) (devcfg E) tid ?sid p q1 = Inr (q2, r)" and p: "p = p1"
    using r n o(1) by (auto simp: open_device_def get_session_key_def rbind_Inr)
  have "sessionKey q1 = sessionKey q" using n by (auto simp: new_dev_def)
  with register_keys [OF e] have sk: "sessionKey q2 = sessionKey q" by (simp add: same_keys_def)
  from register_fd [OF e] nd(2) p d have df: "device.deviceFileId d = fd" "dev_sessionId d = ?sid"
    unfolding fd_def by (auto simp: getd_def)
  have "((tid, fd), c) \<notin> set (deviceMap q1)" for c
  proof
    assume "((tid, fd), c) \<in> set (deviceMap q1)"
    then have "1 \<le> fd" "fd \<in> open_fds q1" by (auto elim: plat_okD [OF nk(1)])
    with new show False by auto
  qed
  then have fr: "((tid, fd), c) \<notin> set (deviceMap q)" for c using nd(3) by simp
  from register_ok [OF nk(1) m nd(2) nk(2) fd_def new, of tid ?sid] e p
  consider (failed) "ok q2" "opened p fd q1 q2" | (added) "ok q2" "added tid ?sid fd p q1 q2" by auto
  then show ?thesis
  proof cases
    case failed
    then have f: "deviceMap q2 = deviceMap q" "deviceSessionMultiMap q2 = deviceSessionMultiMap q"
      "devicemap_mtx q2 = devicemap_mtx q" "next_dev q2 = next_dev q1" using nd by (simp_all add: opened_def)
    have "remove_device A (sysos E) tid fd True q2 = Inr q2"
      by (rule remove_absent [OF failed(1)]) (use f fr in simp)
    moreover have "dev_inv E q2" by (rule dev_invI [OF i failed(1)]) (use f nd nk(3) o in \<open>simp_all add: allocated_def\<close>)
    ultimately show ?thesis using f sk df(1) o(1) by simp
  next
    case added
    have k: "(tid, fd) \<notin> fst ` set (deviceMap q)" using fr by force
    have M: "deviceMap q2 = omap_put (tid, fd) p (deviceMap q)"
      and N: "deviceSessionMultiMap q2 = mmap_insert ?sid fd (deviceSessionMultiMap q)"
      using added(2) nd(3,5) by (simp_all add: added_def)
    define q3 where "q3 = q2\<lparr>deviceSessionMultiMap := deviceSessionMultiMap q\<rparr>"
    have o3: "ok q3" by (rule plat_ok_frame [OF added(1)]) (simp_all add: q3_def)
    have e3: "((tid, fd), p) \<in> set (deviceMap q3)" by (simp add: q3_def M omap_put_fresh [OF k])
    from remove_device_ok [OF o3 e3 o(3)] obtain q' where
      q': "remove_device A (sysos E) tid fd False q3 = Inr q'" "ok q'" "removed tid fd p q3 q'" by blast
    have "remove_device A (sysos E) tid fd True q2 = remove_device A (sysos E) tid fd False q3"
      using d df N remove1_mmap_insert [of ?sid fd] new_key
      by (simp add: remove_device_def getd_def q3_def M map_of_omap_put)
    moreover have "deviceMap q' = deviceMap q" "deviceSessionMultiMap q' = deviceSessionMultiMap q"
      "sessionKey q' = sessionKey q" "devicemap_mtx q' = devicemap_mtx q2" "next_dev q' = next_dev q2"
    proof -
      have "q' = q3\<lparr>agent := agent q', running := running q', devs := devs q', open_fds := open_fds q3 - {fd},
         clock := clock q', deviceMap := AList.delete (tid, fd) (deviceMap q3)\<rparr>"
        using q'(3) unfolding removed_def by blast
      then obtain ag rn ds fs cl where
        e: "q' = q3\<lparr>agent := ag, running := rn, devs := ds, open_fds := fs, clock := cl,
          deviceMap := AList.delete (tid, fd) (deviceMap q3)\<rparr>" by blast
      show "deviceMap q' = deviceMap q" by (simp add: e q3_def M delete_omap_put [OF k])
      show "deviceSessionMultiMap q' = deviceSessionMultiMap q" "sessionKey q' = sessionKey q"
        "devicemap_mtx q' = devicemap_mtx q2" "next_dev q' = next_dev q2"
        by (simp_all add: e q3_def sk)
    qed
    moreover from this have "dev_inv E q'"
      by (intro dev_invI [OF i q'(2)]) (use added(2) m nd o in \<open>auto simp: added_def allocated_def less_SucI\<close>)
    ultimately show ?thesis using q'(1) df(1) o(1) by simp
  qed
qed

lemma setup_keeps_devices:
  assumes i: "owned (dev_inv E) ts q" and r: "setupPEBSbuffer E io tid shmem ptr q = Inr (q', h)"
  shows "dev_inv E q' \<and> deviceMap q' = deviceMap q \<and> deviceSessionMultiMap q' = deviceSessionMultiMap q \<and>
    sessionKey q' tid = sKey q"
proof -
  obtain hd b where u: "updateDSAddress io (shmem + 8) (ptr + 8) = (hd, b)"
    by (cases "updateDSAddress io (shmem + 8) (ptr + 8)")
  from r u obtain q1 q2 p c d where g: "generate_session_key tid q = Inr q1"
    and op: "open_device E tid (new_PEBSDevice STORE) q1 = Inr (q2, p, c)" "getd p q2 = Inr d"
    and rm: "remove_device (ops E) (sysos E) tid (device.deviceFileId d) True q2 = Inr q'"
    by (auto simp: setupPEBSbuffer_def rbind_Inr)
  note gf = generate_frame [OF g]
  have inv: "dev_inv E q1" using generate_inv [of E, OF _ g] i by (simp add: owned_def)
  have "(sessionKey q1 tid, fd) \<notin> set (deviceSessionMultiMap q1)" for fd
    using i unfolding gf by (fastforce simp: owned_def)
  from open_remove [OF inv this op] rm gf show ?thesis by auto
qed

end

text \<open>C37: After the KVM agent has handed over the debug store of a guest the calling thread has a new session
  without devices: when the thread ends, the devices of the session it had before stay registered.\<close>

theorem setupPEBSbuffer_loses_session:
  assumes "owned (kvm_agent.dev_inv E) ts q" and "setupPEBSbuffer E io tid shmem ptr q = Inr (q', h)"
  shows "\<exists>q''. remove_device_by_session (ops E) (sysos E) tid (get_session_key tid q') q' = Inr q'' \<and>
    deviceMap q'' = deviceMap q"
proof -
  note s = kvm_agent.setup_keeps_devices [OF assms]
  then have o: "kvm_plat_ok q'" "\<not> devicemap_mtx q'" "\<And>fd. closable (sysos E) fd" and k: "get_session_key tid q' = sKey q"
    and a: "ops E = kvm_ops"
    by (auto simp: get_session_key_def dest: kvm_agent.dev_invD)
  have none: "equal_range (sKey q) (deviceSessionMultiMap q') = []"
    using assms(1) s by (fastforce simp: owned_def equal_range_def filter_empty_conv)
  from kvm_agent.remove_by_session_ok [OF o(1,2) o(3), where sid = "sKey q" and tid = tid] obtain q'' u where
    r: "remove_device_by_session kvm_ops (sysos E) tid (sKey q) q' = Inr q''" "removed_all tid [] q' u"
      "q'' = u\<lparr>deviceSessionMultiMap := filter (\<lambda>e. fst e \<noteq> sKey q) (deviceSessionMultiMap q')\<rparr>"
    unfolding none by blast
  from removed_all_maps(1) [OF r(2)] have "deviceMap q'' = deviceMap q'" by (simp add: r(3) other_entry_def)
  with r(1) k a s show ?thesis by auto
qed

lemma demo_setup_runs:
  "case monitor_init_thread (PEBSTool (sample_env kvm_ops)) 7 (sample_start demo_kvm_start) of Inl _ \<Rightarrow> False
   | Inr s \<Rightarrow> (case setupPEBSbuffer (sample_env kvm_ops) \<lparr>patched = True, cpus = True, updated = True\<rparr> 7 4096 8192 (st_plat s) of
       Inl _ \<Rightarrow> False | Inr _ \<Rightarrow> True)"
  by code_simp

theorem setupPEBSbuffer_loses_session_witness:
  "\<exists>s q' h q''. monitor_init_thread (PEBSTool (sample_env kvm_ops)) 7 (sample_start demo_kvm_start) = Inr s \<and>
     setupPEBSbuffer (sample_env kvm_ops) \<lparr>patched = True, cpus = True, updated = True\<rparr> 7 4096 8192 (st_plat s) = Inr (q', h) \<and>
     remove_device_by_session kvm_ops (demo_os 100) 7 (get_session_key 7 q') q' = Inr q'' \<and>
     deviceMap q'' = [((7, 10), 0)]"
proof -
  let ?T = "PEBSTool (sample_env kvm_ops)" and ?s0 = "sample_start demo_kvm_start"
  obtain s where s: "monitor_init_thread ?T 7 ?s0 = Inr s" "deviceMap (st_plat s) = [((7, 10), 0)]"
    using sample_thread_starts by blast
  from demo_setup_runs s(1) obtain q' h where
    q': "setupPEBSbuffer (sample_env kvm_ops) \<lparr>patched = True, cpus = True, updated = True\<rparr> 7 4096 8192 (st_plat s) = Inr (q', h)"
    by (auto split: sum.splits)
  have r: "tool_reach ?T ?s0 {7} s"
    using tool_reach.init_thread [OF tool_reach.start _ _ s(1)] by (simp add: sample_start_def plat_init_def)
  have "owned (kvm_agent.dev_inv (sample_env kvm_ops)) {7} (st_plat s)"
    by (rule kvm_pebs.reach_owned [OF r]) (intro kvm_start_owned sample_env_ok demo_kvm_start_ok)
  from setupPEBSbuffer_loses_session [OF this q'] s q' show ?thesis
    by (simp add: sample_env_def)
qed

end
