(* ===== verification/Session_Frame.thy ===== *)
theory Session_Frame
  imports Sample_Props Witch_Props
begin

text \<open>
  What one thread's watchpoints leave alone. The laws of \<open>wp_devices\<close> hold for a stronger invariant
  as well: devices belong to the running threads, and the devices a thread's watchpoints must not touch
  (those of other threads, and its own that are no breakpoints) are as they were, counters included.
  With the locale interpreted for it, every lemma on samples and triggers also says what they preserve.
\<close>

section \<open>Devices as others see them\<close>

definition dev_view :: "(int \<Rightarrow> device \<Rightarrow> bool) \<Rightarrow> ('a, 'z) plat_scheme \<Rightarrow> (int \<times> int \<times> nat \<times> device \<times> bool) set" where
  "dev_view P q = {(t, fd, p, d, r). ((t, fd), p) \<in> set (deviceMap q) \<and> devs q p = Some d \<and> r = running q fd \<and> P t d}"

definition beside :: "int \<Rightarrow> int \<Rightarrow> device \<Rightarrow> bool" where
  "beside tid t d \<longleftrightarrow> t \<noteq> tid \<or> deviceType d \<noteq> BPDEVICE"

lemma dev_view_sub:
  "(\<And>t d. Q t d \<Longrightarrow> P t d) \<Longrightarrow> dev_view Q q = {x \<in> dev_view P q. case x of (t, fd, p, d, r) \<Rightarrow> Q t d}"
  by (auto simp: dev_view_def)

lemma dev_view_mono: "dev_view P q' = dev_view P q \<Longrightarrow> (\<And>t d. Q t d \<Longrightarrow> P t d) \<Longrightarrow> dev_view Q q' = dev_view Q q"
proof -
  assume e: "dev_view P q' = dev_view P q" and Q: "\<And>t d. Q t d \<Longrightarrow> P t d"
  show ?thesis using dev_view_sub [of Q P q', OF Q] dev_view_sub [of Q P q, OF Q] e by simp
qed

lemma dev_view_others: "dev_view (beside tid) q' = dev_view (beside tid) q \<Longrightarrow> dev_view (\<lambda>t _. t \<noteq> tid) q' = dev_view (\<lambda>t _. t \<noteq> tid) q"
  by (rule dev_view_mono [of "beside tid"]) (simp_all add: beside_def)

lemma dev_view_bp:
  fixes q q' :: "'a plat"
  assumes "dev_view (\<lambda>t _. t \<noteq> tid) q' = dev_view (\<lambda>t _. t \<noteq> tid) q" and "u \<noteq> tid"
  shows "bp_dev q' u fd = bp_dev q u fd"
proof -
  have "bp_dev r u fd \<longleftrightarrow> (\<exists>p d b. (u, fd, p, d, b) \<in> dev_view (\<lambda>t _. t \<noteq> tid) r \<and> deviceType d = BPDEVICE)" for r :: "'a plat"
    using assms(2) by (auto simp: bp_dev_def dev_view_def)
  with assms(1) show ?thesis by simp
qed

text \<open>The entries but one are the same, and that one is not seen.\<close>

lemma dev_view_but:
  assumes ent: "set (deviceMap q') - {((tid, fd), p)} = set (deviceMap q) - {((tid, fd), p)}"
    and dv: "\<And>x. x \<noteq> p \<Longrightarrow> devs q' x = devs q x" and rn: "\<And>x. x \<noteq> fd \<Longrightarrow> running q' x = running q x"
    and old: "\<And>d. ((tid, fd), p) \<in> set (deviceMap q) \<Longrightarrow> devs q p = Some d \<Longrightarrow> \<not> P tid d"
    and new: "\<And>d. ((tid, fd), p) \<in> set (deviceMap q') \<Longrightarrow> devs q' p = Some d \<Longrightarrow> \<not> P tid d"
    and uniq: "\<And>t x c. ((t, x), c) \<in> set (deviceMap q) \<Longrightarrow> ((t, x), c) \<noteq> ((tid, fd), p) \<Longrightarrow> x \<noteq> fd \<and> c \<noteq> p"
  shows "dev_view P q' = dev_view P q"
proof -
  have "(t, x, c, d, r) \<in> dev_view P q' \<longleftrightarrow> (t, x, c, d, r) \<in> dev_view P q" for t x c d r
  proof (cases "((t, x), c) = ((tid, fd), p)")
    case True
    with old new show ?thesis by (auto simp: dev_view_def)
  next
    case False
    then have m: "((t, x), c) \<in> set (deviceMap q') \<longleftrightarrow> ((t, x), c) \<in> set (deviceMap q)" using ent by blast
    show ?thesis
    proof (cases "((t, x), c) \<in> set (deviceMap q)")
      case True
      from uniq [OF this False] m show ?thesis by (simp add: dev_view_def dv rn)
    qed (use m in \<open>simp add: dev_view_def\<close>)
  qed
  then show ?thesis by auto
qed

context bp_agent
begin

lemma entry_unique':
  assumes "ok q" and "((tid, fd), p) \<in> set (deviceMap q)" and "((t, x), c) \<in> set (deviceMap q)"
    and "((t, x), c) \<noteq> ((tid, fd), p)"
  shows "x \<noteq> fd \<and> c \<noteq> p"
  using fd_unique [OF assms(1,2)] dev_unique [OF assms(1,2)] assms(3,4) by blast

section \<open>The stronger invariant\<close>

definition "sess_inv E ts tid q0 q \<longleftrightarrow> tid \<in> ts \<and> owned (dev_inv E) ts q \<and> same_keys q0 q \<and>
  dev_view (beside tid) q = dev_view (beside tid) q0"

lemma sess_invD: "sess_inv E ts tid q0 q \<Longrightarrow> dev_inv E q"
  by (simp add: sess_inv_def owned_def)

text \<open>An operation on one breakpoint device that stays registered.\<close>

definition "one_dev p fd q q' \<longleftrightarrow> (\<forall>x. x \<noteq> p \<longrightarrow> devs q' x = devs q x) \<and> (\<forall>x. x \<noteq> fd \<longrightarrow> running q' x = running q x) \<and>
  (\<forall>d d'. devs q p = Some d \<longrightarrow> devs q' p = Some d' \<longrightarrow> deviceType d' = deviceType d)"

lemma sess_keep:
  assumes i: "sess_inv E ts tid q0 q" and b: "bp_dev q tid fd" and g: "get_device tid fd q = Inr (Some p)"
    and q': "dev_inv E q'" "same_keys q q' \<and> deviceMap q' = deviceMap q \<and> deviceSessionMultiMap q' = deviceSessionMultiMap q"
    and one: "one_dev p fd q q'"
  shows "sess_inv E ts tid q0 q'"
proof -
  note inv = sess_invD [OF i]
  obtain d where d: "((tid, fd), p) \<in> set (deviceMap q)" "devs q p = Some d" "deviceType d = BPDEVICE"
    by (rule the_entry [OF inv b g])
  have "dev_view (beside tid) q' = dev_view (beside tid) q"
  proof (rule dev_view_but)
    show "x \<noteq> fd \<and> c \<noteq> p" if "((t, x), c) \<in> set (deviceMap q)" "((t, x), c) \<noteq> ((tid, fd), p)" for t x c
      by (rule entry_unique' [OF dev_invD(4) [OF inv] d(1) that])
    show "\<not> beside tid tid d'" if "devs q p = Some d'" for d' using that d by (simp add: beside_def)
    show "\<not> beside tid tid d'" if "devs q' p = Some d'" for d' using that d one by (simp add: beside_def one_dev_def)
  qed (use q'(2) one in \<open>simp_all add: one_dev_def\<close>)
  moreover have "owned (dev_inv E) ts q'" by (rule owned_frame [of _ _ q]) (use i q' in \<open>simp_all add: sess_inv_def\<close>)
  moreover have "same_keys q0 q'" using i q'(2) same_keys_trans by (auto simp: sess_inv_def)
  ultimately show ?thesis using i by (simp add: sess_inv_def)
qed

lemma end_device_dev:
  assumes "end_device A p q = Inr q'" and "devs q p = Some d"
  shows "one_dev p (device.deviceFileId d) q q'"
  using assms
  by (auto simp: one_dev_def end_device_def disable_device_def rbind_Inr getd_def setd_def ioc_disable_def
      Let_def split: if_splits prod.splits)

lemma start_device_dev:
  assumes "start_device p q = Inr q'" and "devs q p = Some d"
  shows "same_keys q q' \<and> deviceMap q' = deviceMap q \<and> deviceSessionMultiMap q' = deviceSessionMultiMap q"
    and "one_dev p (device.deviceFileId d) q q'"
  using assms by (auto simp: one_dev_def start_device_def getd_def setd_def ioc_refresh_def same_keys_def split: if_splits)

lemma update_dev:
  assumes "updateBPAddress A os cfg fast p len bt a q = Inr (q', b)" and "devs q p = Some d"
  shows "one_dev p fd q q'"
  using assms
  by (auto simp: one_dev_def updateBPAddress_def rbind_Inr getd_def setd_def sys_def Let_def split: if_splits prod.splits)

lemma sess_find:
  "sess_inv E ts tid q0 q \<Longrightarrow> bp_dev q tid fd \<Longrightarrow>
     fd \<noteq> -1 \<and> (\<exists>p d. get_device tid fd q = Inr (Some p) \<and> getd p q = Inr d \<and> deviceType d = BPDEVICE)"
  by (rule find_ok [OF sess_invD])

lemma sess_stop:
  assumes i: "sess_inv E ts tid q0 q" "bp_dev q tid fd" "get_device tid fd q = Inr (Some p)"
  shows "\<exists>q'. end_device (ops E) p q = Inr q' \<and> sess_inv E ts tid q0 q' \<and> keeps_bp tid {} q q'"
proof -
  note inv = sess_invD [OF i(1)]
  from stop_ok [OF inv i(2,3)] obtain q' where q': "end_device (ops E) p q = Inr q'" "dev_inv E q'" "keeps_bp tid {} q q'"
    by blast
  obtain d where d: "devs q p = Some d" "device.deviceFileId d = fd" by (rule the_entry [OF inv i(2,3)])
  have "sess_inv E ts tid q0 q'"
    using sess_keep [OF i q'(2) end_device_frame [OF q'(1)]] end_device_dev [of p q q' d] q'(1) d dev_invD(1) [OF inv]
    by simp
  with q' show ?thesis by blast
qed

lemma sess_start:
  assumes i: "sess_inv E ts tid q0 q" "bp_dev q tid fd" "get_device tid fd q = Inr (Some p)"
  shows "\<exists>q'. start_device p q = Inr q' \<and> sess_inv E ts tid q0 q' \<and> keeps_bp tid {} q q'"
proof -
  note inv = sess_invD [OF i(1)]
  from start_ok [OF inv i(2,3)] obtain q' where q': "start_device p q = Inr q'" "dev_inv E q'" "keeps_bp tid {} q q'"
    by blast
  obtain d where d: "devs q p = Some d" "device.deviceFileId d = fd" by (rule the_entry [OF inv i(2,3)])
  have "sess_inv E ts tid q0 q'"
    using sess_keep [OF i q'(2) start_device_dev(1) [OF q'(1) d(1)]] start_device_dev(2) [OF q'(1) d(1)] d by simp
  with q' show ?thesis by blast
qed

lemma sess_move:
  assumes i: "sess_inv E ts tid q0 q" "bp_dev q tid fd" "get_device tid fd q = Inr (Some p)"
  shows "\<exists>q' b. updateBPAddress (ops E) (sysos E) (devcfg E) (fast_bp E) p len bt a q = Inr (q', b) \<and>
    sess_inv E ts tid q0 q' \<and> keeps_bp tid {} q q'"
proof -
  note inv = sess_invD [OF i(1)]
  from move_ok [OF inv i(2,3), of len bt a] obtain q' b where
    q': "updateBPAddress (ops E) (sysos E) (devcfg E) (fast_bp E) p len bt a q = Inr (q', b)" "dev_inv E q'"
      "keeps_bp tid {} q q'" by blast
  obtain d where d: "devs q p = Some d" "device.deviceFileId d = fd" by (rule the_entry [OF inv i(2,3)])
  have "sess_inv E ts tid q0 q'"
    using sess_keep [OF i q'(2) update_frame [OF q'(1)]] update_dev [of _ _ _ p len bt a q q' b d] q'(1) d dev_invD(1) [OF inv]
    by simp
  with q' show ?thesis by blast
qed

lemma sess_drop:
  assumes i: "sess_inv E ts tid q0 q" "bp_dev q tid fd"
  shows "\<exists>q'. drop_dev E tid fd q = Inr q' \<and> sess_inv E ts tid q0 q' \<and> keeps_bp tid {fd} q q' \<and> \<not> bp_dev q' tid fd"
proof -
  note inv = sess_invD [OF i(1)]
  from drop_ok [OF inv i(2)] obtain q' where
    q': "drop_dev E tid fd q = Inr q'" "dev_inv E q'" "keeps_bp tid {fd} q q'" "\<not> bp_dev q' tid fd" by blast
  obtain t p d where t: "drop_dev E tid fd q = Inr (unlockDevice t)" and "ok t"
    and d: "((tid, fd), p) \<in> set (deviceMap q)" "devs q p = Some d" "deviceType d = BPDEVICE"
    and r: "removed tid fd p (q\<lparr>devicemap_mtx := True,
      deviceSessionMultiMap := remove1 (dev_sessionId d, fd) (deviceSessionMultiMap q)\<rparr>) t"
    by (rule drop_removed [OF inv i(2)])
  note rm = removedD [OF r, simplified]
  have u: "q' = unlockDevice t" using q'(1) t by simp
  note un = entry_unique' [OF dev_invD(4) [OF inv] d(1)]
  have k: "same_keys q q'" using rm(4) by (simp add: u unlockDevice_def same_keys_def)
  have "dev_view (beside tid) q' = dev_view (beside tid) q"
  proof (rule dev_view_but)
    show "x \<noteq> fd \<and> c \<noteq> p" if "((t, x), c) \<in> set (deviceMap q)" "((t, x), c) \<noteq> ((tid, fd), p)" for t x c
      by (rule un [OF that])
    show "set (deviceMap q') - {((tid, fd), p)} = set (deviceMap q) - {((tid, fd), p)}"
      using un by (fastforce simp: u unlockDevice_def rm(1) set_delete)
    show "\<not> beside tid tid d'" if "devs q p = Some d'" for d' using that d by (simp add: beside_def)
    show "\<not> beside tid tid d'" if "((tid, fd), p) \<in> set (deviceMap q')" for d'
      using that by (simp add: u unlockDevice_def rm(1) set_delete)
  qed (simp_all add: u unlockDevice_def rm)
  moreover have "owned (dev_inv E) ts q'"
  proof -
    have o: "owned (dev_inv E) ts q" using i(1) by (simp add: sess_inv_def)
    have "x \<in> ts \<and> (sessionKey q x, y) \<in> set (deviceSessionMultiMap q')" if "((x, y), c) \<in> set (deviceMap q')" for x y c
    proof -
      from that have m: "((x, y), c) \<in> set (deviceMap q)" "(x, y) \<noteq> (tid, fd)"
        by (simp_all add: u unlockDevice_def rm(1) set_delete)
      with un have "y \<noteq> fd" by blast
      with o m(1) show ?thesis by (auto simp: owned_def u unlockDevice_def rm(3) in_set_remove1)
    qed
    moreover have "set (deviceSessionMultiMap q') \<subseteq> set (deviceSessionMultiMap q)"
      using set_remove1_subset by (simp add: u unlockDevice_def rm(3))
    ultimately show ?thesis using o q'(2) k by (auto simp: owned_def same_keys_def)
  qed
  moreover have "same_keys q0 q'" using i(1) k same_keys_trans by (auto simp: sess_inv_def)
  ultimately have "sess_inv E ts tid q0 q'" using i(1) by (simp add: sess_inv_def)
  with q' show ?thesis by blast
qed

text \<open>A new device changes nothing that is seen, when the device itself is not.\<close>

lemma registers_view:
  assumes r: "registers tid sid p fd done q q'" and new: "\<And>d. done \<Longrightarrow> devs q' p = Some d \<Longrightarrow> \<not> P tid d"
  shows "dev_view P q' = dev_view P q"
proof (rule dev_view_but)
  show "x \<noteq> fd \<and> c \<noteq> p" if "((t, x), c) \<in> set (deviceMap q)" "((t, x), c) \<noteq> ((tid, fd), p)" for t x c
    using r that(1) by (simp add: registers_def)
  have no: "((tid, fd), p) \<notin> set (deviceMap q)" using r unfolding registers_def by blast
  then show "\<not> P tid d" if "((tid, fd), p) \<in> set (deviceMap q)" for d using that by simp
  show "\<not> P tid d" if "((tid, fd), p) \<in> set (deviceMap q')" "devs q' p = Some d" for d
    using r no that new by (cases "done") (simp_all add: registers_def)
  show "set (deviceMap q') - {((tid, fd), p)} = set (deviceMap q) - {((tid, fd), p)}"
    using r by (cases "done") (auto simp: registers_def)
qed (use r in \<open>simp_all add: registers_def\<close>)

lemma sess_create:
  assumes i: "sess_inv E ts tid q0 q" and n: "new_dev (new_BPDevice len bt a) q = (q1, p)" and sid: "sid = get_session_key tid q1"
  shows "registerDevice (ops E) (sysos E) (devcfg E) tid sid p q1 = Inl (ExitProcess (-1)) \<or>
    (\<exists>q'. registerDevice (ops E) (sysos E) (devcfg E) tid sid p q1 = Inr (q', -1) \<and> sess_inv E ts tid q0 q' \<and>
       keeps_bp tid {} q q') \<or>
    (\<exists>q' d. registerDevice (ops E) (sysos E) (devcfg E) tid sid p q1 = Inr (q', 0) \<and> sess_inv E ts tid q0 q' \<and>
       keeps_bp tid {} q q' \<and> getd p q' = Inr d \<and> \<not> bp_dev q tid (device.deviceFileId d) \<and>
       bp_dev q' tid (device.deviceFileId d))"
proof -
  note inv = sess_invD [OF i]
  have k: "sid = sessionKey q tid" using n sid by (auto simp: new_dev_def get_session_key_def)
  have "sess_inv E ts tid q0 q'" if r: "registerDevice (ops E) (sysos E) (devcfg E) tid sid p q1 = Inr (q', c)" for q' c
  proof -
    obtain fd where q': "dev_inv E q'" "registers tid sid p fd (c = 0) q q'"
      "c = 0 \<Longrightarrow> \<exists>d'. devs q' p = Some d' \<and> deviceType d' = deviceType (new_BPDevice len bt a) \<and> device.deviceFileId d' = fd"
      by (rule register_new [OF inv n r [unfolded dev_invD(1) [OF inv]]]) auto
    have "dev_view (beside tid) q' = dev_view (beside tid) q"
      by (rule registers_view [OF q'(2)]) (use q'(3) in \<open>auto simp: beside_def new_BPDevice_def\<close>)
    moreover have "owned (dev_inv E) ts q'"
      by (rule registers_owned [of _ _ q]) (use i q' k in \<open>auto simp: sess_inv_def\<close>)
    moreover have "same_keys q0 q'" using i q'(2) same_keys_trans by (auto simp: sess_inv_def registers_def)
    ultimately show ?thesis using i by (simp add: sess_inv_def)
  qed
  with new_ok [OF inv n sid] show ?thesis by blast
qed

lemmas sess_laws = sess_find sess_drop sess_create sess_stop sess_start sess_move

end

interpretation kvm_sess: wp_devices E "kvm_agent.sess_inv E ts tid q0" tid
  for E :: "kvm_agent env" and ts and tid and q0
  by unfold_locales (rule kvm_agent.sess_laws; assumption)+

interpretation native_sess: wp_devices E "native_agent.sess_inv E ts tid q0" tid
  for E :: "unit env" and ts and tid and q0
  by unfold_locales (rule native_agent.sess_laws; assumption)+

section \<open>The data of the other threads\<close>

definition td_rest :: "int \<Rightarrow> 'a tool \<Rightarrow> bool \<times> (int \<rightharpoonup> WP_ThreadData)" where
  "td_rest tid s = (WPInitFlag s, (WP_ThreadData_key s)(tid := None))"

named_theorems td_frame

lemma td_rest_upd [simp]:
  "td_rest tid (s\<lparr>pl := q\<rparr>) = td_rest tid s" "td_rest tid (s\<lparr>evs := es\<rparr>) = td_rest tid s"
  "td_rest tid (s\<lparr>spies := sp\<rparr>) = td_rest tid s" "td_rest tid (s\<lparr>next_ev := n\<rparr>) = td_rest tid s"
  "td_rest tid (set_td tid t s) = td_rest tid s" "td_rest tid (set_ev e ev s) = td_rest tid s"
  by (simp_all add: td_rest_def set_td_def set_ev_def)

lemma wpi_upd_td [td_frame]: "wpi_upd tid i f s = Inr s' \<Longrightarrow> td_rest tid s' = td_rest tid s"
  by (auto simp: wpi_upd_def rbind_Inr)

lemma del_ev_td [td_frame]: "del_ev e s = Inr s' \<Longrightarrow> td_rest tid s' = td_rest tid s"
  by (auto simp: del_ev_def split: if_splits)

lemma fixIP_td [td_frame]: "fixIP E tid' e s = Inr (s', b) \<Longrightarrow> td_rest tid s' = td_rest tid s"
  by (drule fixIP_frame) auto

lemma Enable_td [td_frame]: "EnableWatchpoint t fd s = Inr s' \<Longrightarrow> td_rest tid s' = td_rest tid s"
  by (auto simp: EnableWatchpoint_def rbind_Inr split: option.splits)

lemma Disable_td [td_frame]: "DisableWatchpoint E tid i s = Inr s' \<Longrightarrow> td_rest tid s' = td_rest tid s"
  by (auto simp: DisableWatchpoint_def rbind_Inr split: option.splits if_splits dest!: wpi_upd_td)

lemma DisArm_td [td_frame]: "DisArm E tid i s = Inr s' \<Longrightarrow> td_rest tid s' = td_rest tid s"
  by (auto simp: DisArm_def rbind_Inr split: if_splits dest!: wpi_upd_td)

lemma Wrapper_td [td_frame]: "DisableWatchpointWrapper E tid i s = Inr s' \<Longrightarrow> td_rest tid s' = td_rest tid s"
  by (auto simp: DisableWatchpointWrapper_def split: if_splits dest!: Disable_td DisArm_td)

lemma modify_td [td_frame]: "modify_wp E tid i len bt a s = Inr (s', b) \<Longrightarrow> td_rest tid s' = td_rest tid s"
  by (auto simp: modify_wp_def rbind_Inr Let_def split: if_splits option.splits dest!: Disable_td Enable_td [where tid = tid])

lemma fresh_td [td_frame]: "fresh_wp E tid i len bt a s = Inr (s', b) \<Longrightarrow> td_rest tid s' = td_rest tid s"
  by (auto simp: fresh_wp_def rbind_Inr Let_def split: if_splits prod.splits dest!: wpi_upd_td)

lemma Create_td [td_frame]: "CreateWatchPoint E tid now i len wt a m e s = Inr s' \<Longrightarrow> td_rest tid s' = td_rest tid s"
  by (auto simp: CreateWatchPoint_def rbind_Inr split: if_splits option.splits dest!: wpi_upd_td modify_td fresh_td)

lemma Arm_td [td_frame]: "ArmWatchPoint E tid now i len wt a e s = Inr (s', b) \<Longrightarrow> td_rest tid s' = td_rest tid s"
  by (auto simp: ArmWatchPoint_def rbind_Inr split: if_splits dest!: Create_td DisArm_td)

lemma Subscribe_td [td_frame]: "WP_Subscribe E tid now a len wt e s = Inr (s', r) \<Longrightarrow> td_rest tid s' = td_rest tid s"
  by (auto simp: WP_Subscribe_def rbind_Inr Let_def split: if_splits option.splits dest!: Arm_td)

lemma callback_td [td_frame]: "wp_callback E tid i e s = Inr (s', act) \<Longrightarrow> td_rest tid s' = td_rest tid s"
  by (auto simp: wp_callback_def rbind_Inr split: if_splits dest!: fixIP_td [where tid = tid])

lemma reset_td_td [td_frame]: "reset_td tid s = Inr s' \<Longrightarrow> td_rest tid s' = td_rest tid s"
  by (auto simp: reset_td_def rbind_Inr)

lemma action_td [td_frame]: "wp_action E tid i act s = Inr (s', b) \<Longrightarrow> td_rest tid s' = td_rest tid s"
proof -
  assume a: "wp_action E tid i act s = Inr (s', b)"
  let ?f = "\<lambda>i s. rbind (wpi_get tid (int i) s) (\<lambda>w.
    rbind (if isActive w then DisableWatchpointWrapper E tid (int i) s else Inr s) (reset_slot tid (int i)))"
  have "td_rest tid v = td_rest tid s" if "rfold ?f is s = Inr v" for "is" v
    by (rule rfold_invar [OF that, where P = "\<lambda>v. td_rest tid v = td_rest tid s"])
      (auto simp: rbind_Inr reset_slot_def split: if_splits dest!: wpi_upd_td Wrapper_td)
  with a show ?thesis
    by (cases act) (auto simp: wp_action_def rbind_Inr reset_slot_def split: if_splits
      dest!: wpi_upd_td Wrapper_td reset_td_td Enable_td [where tid = tid])
qed

lemma hit_td [td_frame]:
  assumes r: "OnWatchPoint E tid fd e s = Inr s'"
  shows "td_rest tid s' = td_rest tid s"
proof (cases "WP_ThreadData_key s tid")
  case None
  with r del_ev_td show ?thesis by (simp add: OnWatchPoint_def)
next
  case (Some t)
  with r obtain i s2 act where cb: "wp_callback E tid (int i) e s = Inr (s2, act)"
    and rest: "rbind (wp_action E tid (int i) act s2) (\<lambda>(s, cleanup).
      if \<not> cleanup then Inr s
      else rbind (del_ev e s) (\<lambda>s. rbind (wpi_get tid (int i) s) (\<lambda>w.
        case sampledEvent w of None \<Rightarrow> Inr s | Some se \<Rightarrow> del_ev se s))) = Inr s'"
    by (auto simp: OnWatchPoint_def rbind_Inr no_match_def split: option.splits simp del: split_paired_Ex)
  from rest obtain s3 c where a: "wp_action E tid (int i) act s2 = Inr (s3, c)"
    and f: "(if \<not> c then Inr s3
      else rbind (del_ev e s3) (\<lambda>s. rbind (wpi_get tid (int i) s) (\<lambda>w.
        case sampledEvent w of None \<Rightarrow> Inr s | Some se \<Rightarrow> del_ev se s))) = Inr s'"
    by (auto simp: rbind_Inr simp del: if_split)
  from f have "td_rest tid s' = td_rest tid s3"
    by (auto simp: rbind_Inr split: if_splits option.splits dest!: del_ev_td [where tid = tid])
  with action_td [OF a] callback_td [OF cb] show ?thesis by simp
qed

lemma subscribe_sample_td: "subscribe_sample E tid now e ev s = Inr (s', r) \<Longrightarrow> td_rest tid s' = td_rest tid s"
  by (simp add: subscribe_sample_def Let_def Subscribe_td split: if_splits)

lemma sample_td [td_frame]:
  assumes r: "tool_PEBSEventHandler E tid now e s = Inr s'"
  shows "td_rest tid s' = td_rest tid s"
proof -
  from r obtain ev where ev: "get_ev e s = Inr ev" by (auto simp: tool_PEBSEventHandler_def rbind_Inr simp del: if_split)
  show ?thesis
  proof (cases "kernel_ip ev")
    case False
    with r ev show ?thesis by (simp add: tool_PEBSEventHandler_def)
  next
    case True
    with r ev obtain s1 b where f: "(if isFixed ev then Inr (s, True) else fixIP E tid e s) = Inr (s1, b)"
      and r1: "(if \<not> b then Inr s1 else rbind (get_ev e s1) (\<lambda>ev.
        if accessType ev = UNKNOWN \<or> excluded_ip ev then Inr s1
        else if avoided E ev then del_ev e s1
        else rbind (spy_OnSample (logicType E) ev (spies s1)) (\<lambda>(sp, ok).
          let s = s1\<lparr>spies := sp\<rparr> in if \<not> ok then Inr s
          else rbind (subscribe_sample E tid now e ev s) (\<lambda>(s, _). Inr s)))) = Inr s'"
      by (auto simp: tool_PEBSEventHandler_def rbind_Inr simp del: if_split)
    have "td_rest tid s1 = td_rest tid s" using f by (auto split: if_splits dest: fixIP_td)
    moreover have "td_rest tid s' = td_rest tid s1"
    proof (cases b)
      case True
      with r1 obtain ev1 where "(if accessType ev1 = UNKNOWN \<or> excluded_ip ev1 then Inr s1
        else if avoided E ev1 then del_ev e s1
        else rbind (spy_OnSample (logicType E) ev1 (spies s1)) (\<lambda>(sp, ok).
          let s = s1\<lparr>spies := sp\<rparr> in if \<not> ok then Inr s
          else rbind (subscribe_sample E tid now e ev1 s) (\<lambda>(s, _). Inr s))) = Inr s'"
        by (auto simp: rbind_Inr simp del: if_split)
      then show ?thesis
        by (auto simp: rbind_Inr Let_def split: if_splits dest!: subscribe_sample_td del_ev_td [where tid = tid])
    qed (use r1 in simp)
    ultimately show ?thesis by simp
  qed
qed

lemma step_td: "tool_step E tid s s' \<Longrightarrow> td_rest tid s' = td_rest tid s"
proof (induction rule: tool_step.induct)
  case (sample ev s s1 e now s')
  then show ?case using sample_td [OF sample(2)] by (auto simp: alloc_ev_def)
next
  case (trigger ev s s1 e d s')
  then show ?case using hit_td [OF trigger(2) [unfolded tool_BPEventHandler_def]] by (auto simp: alloc_ev_def)
qed

text \<open>A step of a thread of the native agent leaves the other threads' devices and slots as they are.\<close>

lemma native_step_frame:
  assumes "tool_step E tid s s'" and "tool_inv E (native_agent.dev_inv E) tid s" and "tid \<in> ts"
    and "owned (native_agent.dev_inv E) ts (pl s)"
  shows "owned (native_agent.dev_inv E) ts (pl s') \<and> dev_view (beside tid) (pl s') = dev_view (beside tid) (pl s) \<and>
    td_rest tid s' = td_rest tid s"
proof -
  let ?D = "native_agent.sess_inv E ts tid (pl s)"
  have "?D (pl s)" using assms(3,4) by (simp add: native_agent.sess_inv_def same_keys_def)
  then have "tool_inv E ?D tid s" using assms(2) by (simp add: tool_inv_def wp_ok_def)
  from native_sess.step_inv [OF assms(1) this] have "?D (pl s')" by (auto simp: tool_inv_def wp_ok_def)
  with step_td [OF assms(1)] show ?thesis by (simp add: native_agent.sess_inv_def)
qed

end
