(* ===== verification/Session_Life.thy ===== *)
theory Session_Life
  imports Session_Frame
begin

text \<open>
  The start and the end of a session of the witch tool (\<^verbatim>\<open>tool_sessionInit\<close>, \<^verbatim>\<open>tool_sessionExit\<close>): the
  slots are set up, the watchpoints are probed for once, the session gets its PEBS device; at the end
  every slot is disarmed and every device of the session removed.
\<close>

section \<open>Slots\<close>

lemma rfold_total:
  assumes "P s" and "\<And>x u. x \<in> set xs \<Longrightarrow> P u \<Longrightarrow> \<exists>v. f x u = Inr v \<and> P v"
  shows "\<exists>t. rfold f xs s = Inr t \<and> P t"
  using assms
proof (induction xs arbitrary: s)
  case (Cons x xs)
  from Cons.prems(2) [OF _ Cons.prems(1), of x] obtain v where "f x s = Inr v" "P v" by auto
  with Cons.IH [of v] Cons.prems(2) show ?case by auto
qed simp

context wp_devices
begin

lemma Terminate_slot:
  assumes ok: "wp_ok dinv tid u" and i: "i < nat (maxWP (wpConfig u))"
  shows "\<exists>w q v. rbind (wpi_get tid (int i) u) (\<lambda>w. if fileHandle w \<noteq> -1 then DisArm E tid (int i) u else Inr u) = Inr v \<and>
    wpi_get tid (int i) u = Inr w \<and> (v = u \<or> (\<exists>w'. v = put_slot tid i w' q u)) \<and> wp_ok dinv tid v"
proof -
  obtain t where t: "dinv (pl u)" "WP_ThreadData_key u tid = Some t"
    "wp_slots_ok (pl u) (evs u) tid (nat (maxWP (wpConfig u))) (watchPointArray t)" by (rule wp_okE [OF ok])
  let ?w = "watchPointArray t ! i"
  have g: "wpi_get tid (int i) u = Inr ?w" by (rule wpi_get_key [OF t(2) wp_slots_okD(1) [OF t(3) i]])
  have w: "wpi_ok (pl u) (evs u) tid ?w" by (rule wp_slots_okD(2) [OF t(3) i])
  show ?thesis
  proof (cases "fileHandle ?w = -1")
    case True
    with g ok show ?thesis by auto
  next
    case False
    let ?v = "?w\<lparr>wp_mmapBuffer := False, fileHandle := -1, isActive := False\<rparr>"
    have h: "owns u i ?w" using t(1) g w False by (simp add: owns_def wpi_ok_def)
    then obtain q where q: "DisArm E tid (int i) u = Inr (put_slot tid i ?v q u)" "dinv q"
      "keeps_bp tid {fileHandle ?w} (pl u) q" by (rule DisArm_slot)
    have "wp_ok dinv tid (put_slot tid i ?v q u)"
      by (rule put_slot_ok [OF ok i g q(2,3)]) (use False w in \<open>auto simp: wpi_ok_def wp_apart_def\<close>)
    with q(1) g False show ?thesis by auto
  qed
qed

lemma Terminate_ok:
  assumes ok: "wp_ok dinv tid s"
  shows "\<exists>q. dinv q \<and> WP_ThreadTerminate E tid s =
    Inr (s\<lparr>pl := q, WP_ThreadData_key := (WP_ThreadData_key s)(tid := None)\<rparr>)"
proof -
  define P where "P u \<longleftrightarrow> wp_ok dinv tid u \<and>
    (\<exists>q K. u = s\<lparr>pl := q, WP_ThreadData_key := K\<rparr> \<and> K(tid := None) = (WP_ThreadData_key s)(tid := None))" for u
  let ?f = "\<lambda>i s. rbind (wpi_get tid (int i) s) (\<lambda>w. if fileHandle w \<noteq> -1 then DisArm E tid (int i) s else Inr s)"
  have "s = s\<lparr>pl := pl s, WP_ThreadData_key := WP_ThreadData_key s\<rparr>" by simp
  then have P0: "P s" unfolding P_def using ok by blast
  have step: "\<exists>v. ?f i u = Inr v \<and> P v" if i: "i \<in> set (wp_slots (wpConfig s))" and u: "P u" for i u
  proof -
    from u obtain q0 K where u': "wp_ok dinv tid u" "u = s\<lparr>pl := q0, WP_ThreadData_key := K\<rparr>"
      "K(tid := None) = (WP_ThreadData_key s)(tid := None)" unfolding P_def by blast
    have "i < nat (maxWP (wpConfig u))" using i u'(2) by (simp add: wp_slots_def)
    from Terminate_slot [OF u'(1) this] obtain w q v where v: "?f i u = Inr v" "wpi_get tid (int i) u = Inr w"
      "v = u \<or> (\<exists>w'. v = put_slot tid i w' q u)" "wp_ok dinv tid v" by blast
    have "P v"
    proof (cases "v = u")
      case False
      with v(3) obtain w' where "v = put_slot tid i w' q u" by blast
      moreover obtain t where "K tid = Some t" using wpi_getE [OF v(2)] u'(2) by auto
      ultimately have "v = s\<lparr>pl := q, WP_ThreadData_key := K(tid \<mapsto> t\<lparr>watchPointArray := (watchPointArray t)[i := w']\<rparr>)\<rparr>"
        by (simp add: u'(2) put_slot_def set_td_def)
      moreover have "(K(tid \<mapsto> t'))(tid := None) = (WP_ThreadData_key s)(tid := None)" for t' using u'(3) by simp
      ultimately show ?thesis using v(4) unfolding P_def by blast
    qed (use u in simp)
    with v(1) show ?thesis by blast
  qed
  have "\<exists>u. rfold ?f (wp_slots (wpConfig s)) s = Inr u \<and> P u" by (rule rfold_total [of P s, OF P0]) (rule step)
  then obtain u where u: "rfold ?f (wp_slots (wpConfig s)) s = Inr u" "P u" by blast
  from u(2) obtain q K where k: "wp_ok dinv tid u" "u = s\<lparr>pl := q, WP_ThreadData_key := K\<rparr>"
    "K(tid := None) = (WP_ThreadData_key s)(tid := None)" unfolding P_def by blast
  obtain t where t: "dinv (pl u)" "WP_ThreadData_key u tid = Some t" by (rule wp_okE [OF k(1)])
  with u(1) k(2,3) have "WP_ThreadTerminate E tid s = Inr (s\<lparr>pl := q, WP_ThreadData_key := (WP_ThreadData_key s)(tid := None)\<rparr>)"
    by (simp add: WP_ThreadTerminate_def TD_GET_def)
  with t(1) k(2) show ?thesis by auto
qed

end

lemma init_slots:
  "rfold (\<lambda>i arr. rbind (slot_at arr (int i)) (\<lambda>w. Inr (arr[i := init_slot tid w]))) [0..<n] arr = Inr arr' \<Longrightarrow>
     n \<le> length arr' \<and> (\<forall>i < n. \<exists>w. arr' ! i = init_slot tid w)"
proof (induction n arbitrary: arr')
  case (Suc n)
  from Suc.prems obtain a where a: "rfold (\<lambda>i arr. rbind (slot_at arr (int i)) (\<lambda>w. Inr (arr[i := init_slot tid w]))) [0..<n] arr = Inr a"
    and n: "n < length a" "arr' = a[n := init_slot tid (a ! n)]"
    by (auto simp: rfold_append rbind_Inr slot_at_def split: if_splits)
  from Suc.IH [OF a] n show ?case by (auto simp: nth_list_update less_Suc_eq)
qed simp

lemma ThreadInit_ok:
  assumes r: "WP_ThreadInit tid (Some t0) True time s = Inr (s', c)" and d: "dinv (pl s)"
  shows "wp_ok dinv tid s' \<and> (\<exists>t. s' = set_td tid t s) \<and> held tid s' = {}"
proof -
  let ?n = "nat (maxWP (wpConfig s))"
  from r obtain t arr where s': "s' = set_td tid (t\<lparr>watchPointArray := arr\<rparr>) s"
    and a: "?n \<le> length arr" "\<forall>i < ?n. \<exists>w. arr ! i = init_slot tid w"
    by (auto simp: WP_ThreadInit_def rbind_Inr wp_slots_def Let_def dest!: init_slots)
  have slot: "wpi_ok (pl s) (evs s) tid (arr ! i) \<and> \<not> isActive (arr ! i) \<and> fileHandle (arr ! i) = -1" if i: "i < ?n" for i
    using a(2) i by (fastforce simp: init_slot_def wpi_ok_def)
  have "wp_slots_ok (pl s) (evs s) tid ?n arr" using a(1) slot by (simp add: wp_slots_ok_def wp_apart_def)
  then have "wp_ok dinv tid s'" using d by (simp add: s' wp_ok_def set_td_def)
  moreover have "held tid s' = {}" using slot by (auto simp: held_def s' watch_at_set_td watch_def)
  ultimately show ?thesis using s' by blast
qed

section \<open>Devices and keys\<close>

text \<open>Nothing of the other threads has changed.\<close>

definition others_same :: "int \<Rightarrow> 'a plat \<Rightarrow> 'a plat \<Rightarrow> bool" where
  "others_same tid q q' \<longleftrightarrow> dev_view (\<lambda>t _. t \<noteq> tid) q' = dev_view (\<lambda>t _. t \<noteq> tid) q \<and>
     (\<forall>u. u \<noteq> tid \<longrightarrow> sessionKey q' u = sessionKey q u \<and> threadSessionMap q' u = threadSessionMap q u)"

lemma others_same_trans: "others_same tid q r \<Longrightarrow> others_same tid r s \<Longrightarrow> others_same tid q s"
  by (simp add: others_same_def)

lemma key_others:
  assumes "generate_session_key tid q = Inr q'" and "0 \<le> sKey q" and "sKey q < 2 ^ 31 - 1"
  shows "others_same tid q q'" and "threadSessionMap q' tid = Some (sessionKey q' tid)" and "sKey q' = sKey q + 1"
    and "deviceMap q' = deviceMap q"
  using assms by (auto simp: generate_session_key_def others_same_def dev_view_def split: if_splits)

lemma register_running:
  assumes d: "devs q p = Some d" and r: "registerDevice A os cfg tid sid p q = Inr (q', 0)"
  shows "\<exists>d'. devs q' p = Some d' \<and> running q' (device.deviceFileId d') = (\<not> pa_disabled (registerThisDevice cfg (isAgentKVM A) d attr0))"
proof -
  let ?x = "\<not> pa_disabled (registerThisDevice cfg (isAgentKVM A) d attr0)"
  from r obtain q1 where q1: "register_open A os cfg sid p q = Inr (q1, True)"
    by (auto simp: registerDevice_def rbind_Inr split: if_splits)
  with d obtain d' where d': "devs q1 p = Some d'" "running q1 (device.deviceFileId d') = ?x"
    by (auto simp: register_open_def getd_def Let_def sys_def setd_def rbind_Inr sys_CHECK_def close_fd_def split: if_splits)
  with r q1 obtain q2 where q2: "register_signals os (device.deviceFileId d') q1 = Inr (q2, True)"
    by (auto simp: registerDevice_def getd_def rbind_Inr split: if_splits)
  with register_signals_cases [of os "device.deviceFileId d'" q1] have "devs q2 = devs q1" "running q2 = running q1" by auto
  moreover have "devs q' = devs q2" "running q' = running q2"
    using r q1 d' q2
    by (auto simp: registerDevice_def getd_def rbind_Inr add_new_device_def add_new_device_to_session_def
        with_devices_def lockDevice_def unlockDevice_def split: if_splits)
  ultimately show ?thesis using d' by simp
qed

context bp_agent
begin

lemma register_others: "registers tid sid p fd done q q' \<Longrightarrow> others_same tid q q'"
  using registers_view [of tid sid p fd "done" q q' "\<lambda>t _. t \<noteq> tid"]
  by (simp add: others_same_def registers_def same_keys_def)

lemma remove_others:
  assumes i: "dev_inv E q" and r: "remove_device_by_session (ops E) (sysos E) tid sid q = Inr q'"
  shows "others_same tid q q'"
proof -
  note o = dev_invD [OF i]
  let ?S = "session_entries tid (equal_range sid (deviceSessionMultiMap q)) (deviceMap q)"
  from remove_by_session_ok [OF o(4,5) o(3), where sid = sid and tid = tid] r o(1) obtain t where
    t: "removed_all tid (equal_range sid (deviceSessionMultiMap q)) q t"
      "q' = t\<lparr>deviceSessionMultiMap := filter (\<lambda>e. fst e \<noteq> sid) (deviceSessionMultiMap q)\<rparr>" by auto
  note k = removed_all_keys [OF t(1)] and m = removed_all_maps(1) [OF t(1)]
  have S: "e \<in> ?S \<Longrightarrow> e \<in> set (deviceMap q) \<and> fst (fst e) = tid" for e by (auto simp: session_entries_def)
  have same: "devs t c = devs q c \<and> running t x = running q x" if e: "((u, x), c) \<in> set (deviceMap q)" "u \<noteq> tid" for u x c
  proof -
    have "x \<notin> (\<lambda>e. snd (fst e)) ` ?S \<and> c \<notin> snd ` ?S"
    proof -
      have "y \<noteq> x \<and> v \<noteq> c" if "((w, y), v) \<in> ?S" for w y v
        using entry_unique' [OF o(4) e(1), of w y v] S [OF that] e(2) by auto
      then show ?thesis by fastforce
    qed
    with t(1) show ?thesis by (simp add: removed_all_def)
  qed
  have ent: "((u, x), c) \<in> set (deviceMap t) \<longleftrightarrow> ((u, x), c) \<in> set (deviceMap q)" if "u \<noteq> tid" for u x c
    using that by (simp add: m other_entry_def)
  have "(u, x, c, d, b) \<in> dev_view (\<lambda>t _. t \<noteq> tid) q' \<longleftrightarrow> (u, x, c, d, b) \<in> dev_view (\<lambda>t _. t \<noteq> tid) q" for u x c d b
  proof (cases "u \<noteq> tid \<and> ((u, x), c) \<in> set (deviceMap q)")
    case True
    with same [of u x c] ent [of u x c] show ?thesis by (simp add: dev_view_def t(2))
  qed (use ent in \<open>auto simp: dev_view_def t(2)\<close>)
  then have "dev_view (\<lambda>t _. t \<noteq> tid) q' = dev_view (\<lambda>t _. t \<noteq> tid) q" by auto
  with k show ?thesis by (simp add: others_same_def same_keys_def t(2))
qed

lemma probe_owned:
  assumes "owned (dev_inv E) ts q" and "tid \<in> ts"
    and "probe_devices A (sysos E) (devcfg E) tid (sessionKey q tid) type wp n m q = Inr (u, k)"
  shows "owned (dev_inv E) ts u \<and> same_keys q u \<and> others_same tid q u"
  using assms
proof (induction n arbitrary: m q)
  case 0
  then show ?case by (simp add: same_keys_def others_same_def)
next
  case (Suc n)
  obtain q1 p where n: "new_dev (probe_device type m wp) q = (q1, p)" by fastforce
  with Suc.prems(3) obtain q2 c where r: "registerDevice A (sysos E) (devcfg E) tid (sessionKey q tid) p q1 = Inr (q2, c)"
    and rest: "if c = 0 then probe_devices A (sysos E) (devcfg E) tid (sessionKey q tid) type wp n (m + 1) q2 = Inr (u, k)
      else u = q2" by (auto simp: rbind_Inr split: if_splits)
  have inv: "dev_inv E q" using Suc.prems(1) by (simp add: owned_def)
  obtain fd where q2: "dev_inv E q2" "registers tid (sessionKey q tid) p fd (c = 0) q q2"
    by (rule register_new [OF inv n r])
  have o: "owned (dev_inv E) ts q2" by (rule registers_owned [OF Suc.prems(1,2) q2])
  have k: "same_keys q q2" "others_same tid q q2" using q2(2) register_others by (auto simp: registers_def)
  show ?case
  proof (cases "c = 0")
    case True
    with rest k(1) have "probe_devices A (sysos E) (devcfg E) tid (sessionKey q2 tid) type wp n (m + 1) q2 = Inr (u, k)"
      by (simp add: same_keys_def)
    from Suc.IH [OF o Suc.prems(2) this] k show ?thesis using same_keys_trans others_same_trans by blast
  qed (use rest o k in simp)
qed

lemma max_owned:
  assumes i: "owned (dev_inv E) ts q" and t: "tid \<notin> ts" and b: "sKey q < 2 ^ 31 - 1"
    and g: "getMaxDevices (ops E) (sysos E) (devcfg E) tid BPDEVICE wp q = Inr (q', k)"
  shows "owned (dev_inv E) ts q' \<and> others_same tid q q' \<and> sKey q' = sKey q + 1"
proof -
  have A: "ops E = A" and "0 \<le> sKey q" using i dev_invD(1) by (auto simp: owned_def)
  from g obtain q1 q2 where q1: "generate_session_key tid q = Inr q1"
    and q2: "probe_devices A (sysos E) (devcfg E) tid (sessionKey q1 tid) BPDEVICE wp MAX_POSSIBLE_DEVICES 0 q1 = Inr (q2, k)"
    and q': "remove_device_by_session (ops E) (sysos E) tid (sessionKey q1 tid) q2 = Inr q'"
    by (auto simp: getMaxDevices_def rbind_Inr get_session_key_def A simp del: probe_devices.simps)
  note o1 = key_owned [OF i t b q1] and k1 = key_others [OF q1 \<open>0 \<le> sKey q\<close> b]
  from probe_owned [OF o1 _ q2] have p: "owned (dev_inv E) (insert tid ts) q2" "same_keys q1 q2" "others_same tid q1 q2" by auto
  have "sessionKey q2 tid = sessionKey q1 tid" using p(2) by (simp add: same_keys_def)
  with remove_owned [OF p(1), of tid] q' t have r: "owned (dev_inv E) ts q'" "same_keys q2 q'" by auto
  have "others_same tid q2 q'" by (rule remove_others [OF _ q']) (use p(1) in \<open>simp add: owned_def\<close>)
  with k1(1) p(3) have "others_same tid q q'" using others_same_trans by blast
  with r k1(3) p(2) show ?thesis by (simp add: same_keys_def)
qed

text \<open>The new session has its key and at most one device, which counts unless it was opened disabled.\<close>

lemma begin_session:
  assumes i: "owned (dev_inv E) ts q" and t: "tid \<notin> ts" and b: "sKey q < 2 ^ 31 - 1"
    and q1: "generate_session_key tid q = Inr q1" and n: "new_dev d q1 = (q2, p)"
    and r: "registerDevice (ops E) (sysos E) (devcfg E) tid (get_session_key tid q1) p q2 = Inr (q3, c)"
  shows "owned (dev_inv E) (insert tid ts) q3" and "others_same tid q q3"
    and "threadSessionMap q3 tid = Some (sessionKey q3 tid)"
    and "(tid, fd, x, e, run) \<in> dev_view (\<lambda>_ _. True) q3 \<Longrightarrow> deviceType e = deviceType d \<and>
      run = (\<not> pa_disabled (registerThisDevice (devcfg E) (isAgentKVM A) d attr0))"
proof -
  have A: "ops E = A" and "0 \<le> sKey q" using i dev_invD(1) by (auto simp: owned_def)
  note o1 = key_owned [OF i t b q1] and k1 = key_others [OF q1 \<open>0 \<le> sKey q\<close> b]
  have inv: "dev_inv E q1" using o1 by (simp add: owned_def)
  note r' = r [unfolded A get_session_key_def]
  obtain y where q3: "dev_inv E q3" "registers tid (sessionKey q1 tid) p y (c = 0) q1 q3" "c = 0 \<or> c = -1"
    "c = 0 \<Longrightarrow> \<exists>d'. devs q3 p = Some d' \<and> deviceType d' = deviceType d \<and> device.deviceFileId d' = y"
    by (rule register_new [OF inv n r']) blast
  show "owned (dev_inv E) (insert tid ts) q3" by (rule registers_owned [OF o1 _ q3(1,2)]) simp
  show "others_same tid q q3" using k1(1) register_others [OF q3(2)] by (rule others_same_trans)
  show "threadSessionMap q3 tid = Some (sessionKey q3 tid)" using k1(2) q3(2) by (simp add: registers_def same_keys_def)
  assume v: "(tid, fd, x, e, run) \<in> dev_view (\<lambda>_ _. True) q3"
  have none: "((tid, z), v) \<notin> set (deviceMap q1)" for z v using i t k1(4) by (auto simp: owned_def)
  with v q3(2,3) have c: "c = 0" and x: "fd = y" "x = p" "devs q3 p = Some e" "run = running q3 y"
    by (auto simp: dev_view_def registers_def split: if_splits)
  from register_running [OF new_dev_simps(2) [OF n] r' [unfolded c]] q3(4) c x
  show "deviceType e = deviceType d \<and> run = (\<not> pa_disabled (registerThisDevice (devcfg E) (isAgentKVM A) d attr0))"
    by auto
qed

end

end
