(* ===== verification/Guest_Detour.thy ===== *)
theory Guest_Detour
  imports Witch_Props
begin

text \<open>
  The detour of a sample through the guest (\<^verbatim>\<open>src/agent/kvmAgent/kvminterface.cpp\<close>): the driver in the guest
  stops the devices of a thread's session, looks at the sample and answers; an answer the tool does not
  want starts the devices again. The steps of all threads interleave.
\<close>

section \<open>Steps\<close>

text \<open>
  \<open>interrupt\<close>: the guest stops the session of thread \<open>t\<close>, which waits from then on. \<open>reject\<close>: on thread \<open>t\<close>
  the guest answers with no instruction pointer or with an address space the build does not look at.
  \<open>W\<close> are the threads that wait.
\<close>

inductive guest_reach :: "kvm_agent env \<Rightarrow> int set \<Rightarrow> kvm_agent tool \<Rightarrow> int set \<Rightarrow> kvm_agent tool \<Rightarrow> bool"
  for E T s0 where
  start: "guest_reach E T s0 {} s0"
| interrupt: "guest_reach E T s0 W s \<Longrightarrow> t \<in> T \<Longrightarrow> kvm__disableEBSDevicesThisSession E t t s = Inr s' \<Longrightarrow>
    guest_reach E T s0 (insert t W) s'"
| reject: "guest_reach E T s0 W s \<Longrightarrow> t \<in> T \<Longrightarrow> ip = 0 \<or> \<not> considered (fst build) (snd build) ty \<Longrightarrow>
    kvm__doneEventProcessing_HyPerf E build t now junk new_frame frames ip fd t addr ty cpu_no clk s = Inr s' \<Longrightarrow>
    guest_reach E T s0 (W - {t}) s'"

text \<open>\<open>fd\<close> counts accesses for thread \<open>t\<close>: an enabled device of its session that is no breakpoint.\<close>

definition counts :: "kvm_agent plat \<Rightarrow> int \<Rightarrow> int \<Rightarrow> bool" where
  "counts q t fd \<longleftrightarrow> (\<exists>p d sid. ((t, fd), p) \<in> set (deviceMap q) \<and> devs q p = Some d \<and> \<not> isDisabled d \<and>
     deviceType d \<noteq> BPDEVICE \<and> threadSessionMap q t = Some sid \<and> (sid, fd) \<in> set (deviceSessionMultiMap q))"

section \<open>What a step does\<close>

definition switched_tool :: "kvm_agent tool \<Rightarrow> kvm_agent tool \<Rightarrow> bool" where
  "switched_tool s s' \<longleftrightarrow> (\<exists>q. switched (pl s) q \<and> s' = s\<lparr>pl := q\<rparr>)"

lemma switched_toolD:
  assumes "switched_tool s s'"
  shows "deviceMap (pl s') = deviceMap (pl s)" and "threadSessionMap (pl s') = threadSessionMap (pl s)"
    and "threadSessionmap_mtx (pl s') = threadSessionmap_mtx (pl s)" and "devicemap_mtx (pl s') = devicemap_mtx (pl s)"
    and "counts (pl s') = counts (pl s)"
proof -
  from assms obtain q where q: "switched (pl s) q" "s' = s\<lparr>pl := q\<rparr>" by (auto simp: switched_tool_def)
  have e: "q = (pl s)\<lparr>agent := agent q, running := running q\<rparr>" using q(1) by (simp add: switched_def)
  show "deviceMap (pl s') = deviceMap (pl s)" "devicemap_mtx (pl s') = devicemap_mtx (pl s)"
    using switchedD [OF q(1)] q(2) by simp_all
  show t: "threadSessionMap (pl s') = threadSessionMap (pl s)"
    "threadSessionmap_mtx (pl s') = threadSessionmap_mtx (pl s)"
    by (simp_all add: q(2)) (subst e, simp)+
  from switchedD [OF q(1)] t show "counts (pl s') = counts (pl s)" by (simp add: q(2) counts_def fun_eq_iff)
qed

lemma switched_tool_trans: "switched_tool s t \<Longrightarrow> switched_tool t u \<Longrightarrow> switched_tool s u"
  using switched_trans by (fastforce simp: switched_tool_def)

text \<open>Switching the session of thread \<open>t\<close> to \<open>on\<close>.\<close>

definition turned :: "bool \<Rightarrow> int \<Rightarrow> kvm_agent tool \<Rightarrow> kvm_agent tool \<Rightarrow> bool" where
  "turned on t s s' \<longleftrightarrow> switched_tool s s' \<and> kvm_plat_ok (pl s') \<and>
     (\<forall>fd. counts (pl s) t fd \<longrightarrow> running (pl s') fd = on) \<and>
     (\<forall>t' fd. t' \<noteq> t \<longrightarrow> counts (pl s) t' fd \<longrightarrow> running (pl s') fd = running (pl s) fd)"

lemma turnedI:
  assumes ok: "kvm_plat_ok (pl s)" "kvm_plat_ok q" and key: "threadSessionMap (pl s) t = Some sid"
    and sw: "swept kvm_ops (\<lambda>d. \<not> isDisabled d) on
      (session_entries t (equal_range sid (deviceSessionMultiMap (pl s))) (deviceMap (pl s))) (pl s) q"
  shows "turned on t s (s\<lparr>pl := q\<rparr>)"
proof -
  let ?E = "session_entries t (equal_range sid (deviceSessionMultiMap (pl s))) (deviceMap (pl s))"
  have own: "running q fd = on" if c: "counts (pl s) t fd" for fd
  proof -
    from c key obtain p d where d: "((t, fd), p) \<in> set (deviceMap (pl s))" "devs (pl s) p = Some d" "\<not> isDisabled d"
      "deviceType d \<noteq> BPDEVICE" "(sid, fd) \<in> set (deviceSessionMultiMap (pl s))" by (auto simp: counts_def)
    then have "((t, fd), p) \<in> ?E" by (simp add: session_entries_def set_equal_range)
    with sw d show ?thesis unfolding swept_def kernel_driven_def by blast
  qed
  have other: "running q fd = running (pl s) fd" if "t' \<noteq> t" and c: "counts (pl s) t' fd" for t' fd
  proof -
    from c obtain p where p: "((t', fd), p) \<in> set (deviceMap (pl s))" by (auto simp: counts_def)
    have "\<not> ((v, fd), p') \<in> ?E" for v p'
      using fd_unique [OF ok(1) p, of v p'] that(1) by (auto simp: session_entries_def)
    with sw show ?thesis unfolding swept_def by blast
  qed
  show ?thesis using sw ok(2) own other by (auto simp: turned_def switched_tool_def swept_def)
qed

lemma key_of:
  "\<not> threadSessionmap_mtx q \<Longrightarrow> threadSessionMap q t = Some sid \<Longrightarrow> get_session_key_from_threadId t q = Inr (q, sid)"
  by (simp add: get_session_key_from_threadId_def idx0_def map_upd_triv)

lemma interrupt_turns:
  assumes "ops E = kvm_ops" and "kvm_plat_ok (pl s)" and "\<not> devicemap_mtx (pl s)" and "\<not> threadSessionmap_mtx (pl s)"
    and "threadSessionMap (pl s) t = Some sid"
  obtains s' where "kvm__disableEBSDevicesThisSession E t t s = Inr s'" and "turned False t s s'"
proof -
  from kvm_agent.pause_session_ok [OF assms(2,3), of t sid] obtain q where q: "pause_devices_by_session kvm_ops t sid (pl s) = Inr q"
    "kvm_plat_ok q" "swept kvm_ops (\<lambda>d. \<not> isDisabled d) False
      (session_entries t (equal_range sid (deviceSessionMultiMap (pl s))) (deviceMap (pl s))) (pl s) q" by blast
  then have "kvm__disableEBSDevicesThisSession E t t s = Inr (s\<lparr>pl := q\<rparr>)"
    by (simp add: kvm__disableEBSDevicesThisSession_def on_plat_def key_of [OF assms(4,5)] assms(1))
  with turnedI [OF assms(2) q(2) assms(5) q(3)] that show thesis by blast
qed

text \<open>A rejected answer for a device that is gone follows a null pointer, any other returns.\<close>

lemma reject_turns:
  assumes "ops E = kvm_ops" and "kvm_plat_ok (pl s)" and "\<not> devicemap_mtx (pl s)" and "\<not> threadSessionmap_mtx (pl s)"
    and "threadSessionMap (pl s) t = Some sid" and "ip = 0 \<or> \<not> considered (fst build) (snd build) ty"
    and r: "kvm__doneEventProcessing_HyPerf E build t now junk new_frame frames ip fd t addr ty cpu_no clk s = r"
  shows "map_of (deviceMap (pl s)) (t, fd) = None \<and> r = Inl NullDeref \<or>
    map_of (deviceMap (pl s)) (t, fd) \<noteq> None \<and> (\<exists>s'. r = Inr s' \<and> turned True t s s')"
proof -
  from kvm_agent.resume_session_ok [OF assms(2,3), of t sid] obtain q where
    q: "resume_devices_by_session kvm_ops t sid (pl s) = Inr q" "kvm_plat_ok q" "swept kvm_ops (\<lambda>d. \<not> isDisabled d) True
      (session_entries t (equal_range sid (deviceSessionMultiMap (pl s))) (deviceMap (pl s))) (pl s) q" by blast
  have "r = done_processEvent E t now None fd sid s"
    using assms(6) r [symmetric] by (auto simp: kvm__doneEventProcessing_HyPerf_def key_of [OF assms(4,5)])
  then have "r = (case map_of (deviceMap (pl s)) (t, fd) of None \<Rightarrow> Inl NullDeref | Some p \<Rightarrow> Inr (s\<lparr>pl := q\<rparr>))"
    using assms(1,3) q(1)
    by (simp add: done_processEvent_def get_device_def lockDevice_def postAgentProcessing_def split: option.splits)
  with turnedI [OF assms(2) q(2) assms(5) q(3)] show ?thesis by (cases "map_of (deviceMap (pl s)) (t, fd)") auto
qed

section \<open>Every order of steps\<close>

text \<open>Threads of \<open>T\<close> have a session and their devices count; then the devices stand still for those that wait.\<close>

definition detour_start :: "int set \<Rightarrow> kvm_agent tool \<Rightarrow> bool" where
  "detour_start T s \<longleftrightarrow> kvm_plat_ok (pl s) \<and> \<not> devicemap_mtx (pl s) \<and> \<not> threadSessionmap_mtx (pl s) \<and>
     (\<forall>t \<in> T. threadSessionMap (pl s) t \<noteq> None \<and> (\<forall>fd. counts (pl s) t fd \<longrightarrow> running (pl s) fd))"

definition detour_inv :: "int set \<Rightarrow> kvm_agent tool \<Rightarrow> int set \<Rightarrow> kvm_agent tool \<Rightarrow> bool" where
  "detour_inv T s0 W s \<longleftrightarrow> kvm_plat_ok (pl s) \<and> switched_tool s0 s \<and>
     (\<forall>t \<in> T. \<forall>fd. counts (pl s0) t fd \<longrightarrow> running (pl s) fd = (t \<notin> W))"

lemma turned_inv:
  assumes "detour_inv T s0 W s" and "turned on t s s'" and "W' - {t} = W - {t}" and "t \<in> W' \<longleftrightarrow> \<not> on"
  shows "detour_inv T s0 W' s'"
proof -
  from assms(1) have i: "switched_tool s0 s" "\<And>t fd. t \<in> T \<Longrightarrow> counts (pl s0) t fd \<Longrightarrow> running (pl s) fd = (t \<notin> W)"
    by (simp_all add: detour_inv_def)
  note c = switched_toolD(5) [OF i(1)]
  have "running (pl s') fd = (v \<notin> W')" if "v \<in> T" "counts (pl s0) v fd" for v fd
  proof (cases "v = t")
    case True
    with assms(2,4) that(2) show ?thesis by (simp add: turned_def c)
  next
    case False
    with assms(2) that(2) have "running (pl s') fd = running (pl s) fd" unfolding turned_def c by blast
    moreover have "v \<in> W' \<longleftrightarrow> v \<in> W" using False assms(3) by blast
    ultimately show ?thesis using i(2) [OF that] by simp
  qed
  with assms(2) switched_tool_trans [OF i(1)] show ?thesis by (auto simp: turned_def detour_inv_def)
qed

lemma detour_reach_inv:
  assumes "guest_reach E T s0 W s" and "ops E = kvm_ops" and "detour_start T s0"
  shows "detour_inv T s0 W s"
  using assms(1)
proof (induction rule: guest_reach.induct)
  case start
  have "switched_tool s0 s0" by (auto simp: switched_tool_def intro!: exI [of _ "pl s0"])
  with assms(3) show ?case by (simp add: detour_inv_def detour_start_def)
next
  case (interrupt W s t s')
  note f = switched_toolD [of s0 s]
  have sw: "switched_tool s0 s" and ok: "kvm_plat_ok (pl s)" using interrupt.IH by (simp_all add: detour_inv_def)
  from assms(3) interrupt.hyps(2) obtain sid where "threadSessionMap (pl s0) t = Some sid" by (auto simp: detour_start_def)
  with assms(2,3) sw ok interrupt.hyps(3) have "turned False t s s'"
    by (auto simp: detour_start_def f elim: interrupt_turns [of E s t sid])
  from turned_inv [OF interrupt.IH this] show ?case by simp
next
  case (reject W s t ip build ty now junk new_frame frames fd addr cpu_no clk s')
  note f = switched_toolD [of s0 s]
  have sw: "switched_tool s0 s" and ok: "kvm_plat_ok (pl s)" using reject.IH by (simp_all add: detour_inv_def)
  from assms(3) reject.hyps(2) obtain sid where "threadSessionMap (pl s0) t = Some sid" by (auto simp: detour_start_def)
  with assms(3) sw have "\<not> devicemap_mtx (pl s)" "\<not> threadSessionmap_mtx (pl s)" "threadSessionMap (pl s) t = Some sid"
    by (simp_all add: detour_start_def f)
  from reject_turns [OF assms(2) ok this reject.hyps(3,4)] have "turned True t s s'" by simp
  from turned_inv [OF reject.IH this] show ?case by simp
qed

text \<open>However the guest interrupts threads and rejects their samples, the devices of a thread that count
  its accesses stand still exactly while the thread waits for an answer; nothing but counters and the
  agent changes. Each thread can be interrupted, and each rejected answer for a registered device
  returns; one for a device that is gone ends the process.\<close>

theorem guest_detour_resumes:
  assumes "guest_reach E T s0 W s" and "ops E = kvm_ops" and "detour_start T s0" and "t \<in> T"
  shows "(\<forall>fd. counts (pl s0) t fd \<longrightarrow> running (pl s) fd = (t \<notin> W)) \<and>
    s = s0\<lparr>pl := (pl s0)\<lparr>agent := agent (pl s), running := running (pl s)\<rparr>\<rparr> \<and>
    (\<exists>s'. kvm__disableEBSDevicesThisSession E t t s = Inr s') \<and>
    (ip = 0 \<or> \<not> considered (fst build) (snd build) ty \<longrightarrow>
      (let r = kvm__doneEventProcessing_HyPerf E build t now junk new_frame frames ip fd t addr ty cpu_no clk s
       in if map_of (deviceMap (pl s0)) (t, fd) = None then r = Inl NullDeref
          else \<exists>s'. r = Inr s' \<and> (\<forall>fd'. counts (pl s0) t fd' \<longrightarrow> running (pl s') fd')))"
proof -
  from detour_reach_inv [OF assms(1-3)] have i: "kvm_plat_ok (pl s)" "switched_tool s0 s"
    "\<forall>t \<in> T. \<forall>fd. counts (pl s0) t fd \<longrightarrow> running (pl s) fd = (t \<notin> W)" by (simp_all add: detour_inv_def)
  note f = switched_toolD [OF i(2)]
  from i(2) have s: "s = s0\<lparr>pl := (pl s0)\<lparr>agent := agent (pl s), running := running (pl s)\<rparr>\<rparr>"
    by (auto simp: switched_tool_def switched_def)
  from assms(3,4) obtain sid where "threadSessionMap (pl s0) t = Some sid" by (auto simp: detour_start_def)
  with assms(3) have k: "\<not> devicemap_mtx (pl s)" "\<not> threadSessionmap_mtx (pl s)" "threadSessionMap (pl s) t = Some sid"
    by (simp_all add: detour_start_def f)
  from interrupt_turns [OF assms(2) i(1) k] obtain s1 where "kvm__disableEBSDevicesThisSession E t t s = Inr s1" by blast
  moreover note reject_turns [OF assms(2) i(1) k _ refl, where ip = ip and build = build and ty = ty and now = now and
      junk = junk and new_frame = new_frame and frames = frames and fd = fd and addr = addr and cpu_no = cpu_no and clk = clk]
  ultimately show ?thesis using i(3) assms(4) s by (auto simp: Let_def f turned_def)
qed

text \<open>Threads 1 and 2 with devices 5 and 7; device 6 of thread 1 is disabled.\<close>

definition detour_tool :: "kvm_agent tool" where
  "detour_tool = (demo_tool 64)\<lparr>pl := demo_kvm_plat\<lparr>threadSessionMap := [1 \<mapsto> 3, 2 \<mapsto> 3]\<rparr>\<rparr>"

lemma detour_counts: "counts (pl detour_tool) t fd \<longleftrightarrow> t = 1 \<and> fd = 5 \<or> t = 2 \<and> fd = 7"
  by (auto simp: counts_def detour_tool_def demo_kvm_plat_def demo_plat_def plat_init_def demo_dev_def
      new_PEBSDevice_def new_BPDevice_def PEBSDEVICE_def BPDEVICE_def)

lemma detour_started: "detour_start {1, 2} detour_tool"
proof -
  have "kvm_plat_ok (pl detour_tool)"
    using demo_kvm_plat_ok by (simp add: detour_tool_def plat_ok_def dev_ok_def fds_of_def cong: option.case_cong)
  moreover have "running (pl detour_tool) 5" "running (pl detour_tool) 7" "\<not> devicemap_mtx (pl detour_tool)"
    "\<not> threadSessionmap_mtx (pl detour_tool)" "threadSessionMap (pl detour_tool) = [1 \<mapsto> 3, 2 \<mapsto> 3]"
    by (simp_all add: detour_tool_def demo_kvm_plat_def demo_plat_def plat_init_def)
  ultimately show ?thesis by (simp add: detour_start_def detour_counts)
qed

theorem guest_detour_resumes_witness:
  "\<exists>s. guest_reach (demo_env True) {1, 2} detour_tool {1} s \<and> \<not> running (pl s) 5 \<and> running (pl s) 7 \<and>
    (\<forall>frames nf. \<exists>s'. kvm__doneEventProcessing_HyPerf (demo_env True) (False, True) 1 0 zero_Event nf frames 0 5 1 0
        KERNEL_HEAP 0 0 s = Inr s' \<and> running (pl s') 5) \<and>
    (\<forall>frames nf. kvm__doneEventProcessing_HyPerf (demo_env True) (False, True) 1 0 zero_Event nf frames 64 9 1 0
        KERNEL_HEAP 0 0 s = Inl NullDeref)"
proof -
  note start = guest_reach.start [of "demo_env True" "{1, 2}" detour_tool]
  note detour = guest_detour_resumes [OF _ demo_env_fields(1) detour_started]
  have "\<exists>s. kvm__disableEBSDevicesThisSession (demo_env True) 1 1 detour_tool = Inr s"
    using conjunct1 [OF conjunct2 [OF conjunct2 [OF detour [OF start, of 1]]]] by simp
  then obtain s where "kvm__disableEBSDevicesThisSession (demo_env True) 1 1 detour_tool = Inr s" ..
  from guest_reach.interrupt [OF start _ this] have g: "guest_reach (demo_env True) {1, 2} detour_tool {1} s" by simp
  have "considered False True KERNEL_HEAP = False" by (simp add: considered_def)
  then have r: "ip = 0 \<or> \<not> considered (fst (False, True)) (snd (False, True)) KERNEL_HEAP" for ip :: u64 by simp
  have m: "map_of (deviceMap (pl detour_tool)) (1, 5) = Some 0" "map_of (deviceMap (pl detour_tool)) (1, 9) = None"
    by (simp_all add: detour_tool_def demo_kvm_plat_def demo_plat_def)
  note one = detour [OF g, of 1] and two = detour [OF g, of 2]
  have "\<not> running (pl s) 5" "running (pl s) 7" using conjunct1 [OF one] conjunct1 [OF two] by (simp_all add: detour_counts)
  moreover have "\<exists>s'. kvm__doneEventProcessing_HyPerf (demo_env True) (False, True) 1 0 zero_Event nf frames 0 5 1 0
      KERNEL_HEAP 0 0 s = Inr s' \<and> running (pl s') 5" for frames nf
    using mp [OF conjunct2 [OF conjunct2 [OF conjunct2 [OF detour [OF g, of 1, where fd = 5 and ip = 0 and now = 0 and junk = zero_Event and
      new_frame = nf and frames = frames and addr = 0 and cpu_no = 0 and clk = 0]]]] r] m(1)
    by (auto simp: Let_def detour_counts)
  moreover have "kvm__doneEventProcessing_HyPerf (demo_env True) (False, True) 1 0 zero_Event nf frames 64 9 1 0
      KERNEL_HEAP 0 0 s = Inl NullDeref" for frames nf
    using mp [OF conjunct2 [OF conjunct2 [OF conjunct2 [OF detour [OF g, of 1, where fd = 9 and ip = 64 and now = 0 and junk = zero_Event and
      new_frame = nf and frames = frames and addr = 0 and cpu_no = 0 and clk = 0]]]] r] m(2)
    by (simp add: Let_def)
  ultimately show ?thesis using g by blast
qed

end
