(* ===== verification/Session_Run.thy ===== *)
theory Session_Run
  imports Session_Life Guest_Detour
begin

text \<open>
  The witch tool with the KVM agent under any interleaving of its threads: VCPUs start and end their
  sessions, the guest stops and starts devices and answers samples, samples and triggers are handled.
\<close>

section \<open>Steps\<close>

text \<open>
  \<open>ts\<close> are the threads with a session, \<open>W\<close> those whose devices the hypervisor or the guest has stopped.
  A VCPU starts stopped, since its device is opened disabled. The first session probes for watchpoints
  and so uses two session keys, which are 32 bits wide.
\<close>

inductive kvm_run :: "kvm_agent env \<Rightarrow> kvm_agent tool \<Rightarrow> int set \<Rightarrow> int set \<Rightarrow> kvm_agent tool \<Rightarrow> bool"
  for E s0 where
  boot: "kvm_run E s0 {} {} s0"
| vcpu_start: "kvm_run E s0 ts W s \<Longrightarrow> t \<notin> ts \<Longrightarrow> sKey (pl s) < 2 ^ 31 - 2 \<Longrightarrow>
    kvm__VCPU_start E t ok dummyWP (Some td) True time s = Inr s' \<Longrightarrow> kvm_run E s0 (insert t ts) (insert t W) s'"
| vcpu_end: "kvm_run E s0 ts W s \<Longrightarrow> t \<in> ts \<Longrightarrow> kvm__VCPU_end E t s = Inr s' \<Longrightarrow> kvm_run E s0 (ts - {t}) (W - {t}) s'"
| enter: "kvm_run E s0 ts W s \<Longrightarrow> t \<in> ts \<Longrightarrow> kvm__enableEBSDevicesThisSession E t s = Inr s' \<Longrightarrow>
    kvm_run E s0 ts (W - {t}) s'"
| interrupt: "kvm_run E s0 ts W s \<Longrightarrow> t \<in> ts \<Longrightarrow> kvm__disableEBSDevicesThisSession E t t s = Inr s' \<Longrightarrow>
    kvm_run E s0 ts (insert t W) s'"
| all_on: "kvm_run E s0 ts W s \<Longrightarrow> kvm__enableAllEBSDevice E s = Inr s' \<Longrightarrow> kvm_run E s0 ts {} s'"
| all_off: "kvm_run E s0 ts W s \<Longrightarrow> kvm__disableAllEBSDevice E s = Inr s' \<Longrightarrow> kvm_run E s0 ts ts s'"
| answer: "kvm_run E s0 ts W s \<Longrightarrow> t \<in> ts \<Longrightarrow>
    kvm__doneEventProcessing_HyPerf E build t now junk new_frame frames ip fd t addr ty cpu_no clk s = Inr s' \<Longrightarrow>
    kvm_run E s0 ts (W - {t}) s'"
| event: "kvm_run E s0 ts W s \<Longrightarrow> t \<in> ts \<Longrightarrow> tool_step E t s s' \<Longrightarrow> kvm_run E s0 ts W s'"

section \<open>The invariant\<close>

abbreviation "kvm_registry \<equiv> kvm_agent.dev_inv"

definition counting :: "int \<Rightarrow> device \<Rightarrow> bool" where
  "counting t d \<longleftrightarrow> deviceType d \<noteq> BPDEVICE \<and> \<not> isDisabled d"

definition run_inv :: "kvm_agent env \<Rightarrow> int set \<Rightarrow> int set \<Rightarrow> kvm_agent tool \<Rightarrow> bool" where
  "run_inv E ts W s \<longleftrightarrow> owned (kvm_registry E) ts (pl s) \<and>
     (\<forall>t \<in> ts. threadSessionMap (pl s) t = Some (sessionKey (pl s) t)) \<and>
     (\<forall>t \<in> ts. wp_ok (kvm_registry E) t s) \<and> (\<forall>t \<in> ts. \<forall>u \<in> ts. t \<noteq> u \<longrightarrow> held t s \<inter> held u s = {}) \<and>
     replacementPolicy (wpConfig s) = WP_REPLACEMENT_AUTO \<and> spies_ok (logicType E) (spies s) \<and>
     (\<forall>x. evs s x \<noteq> None \<longrightarrow> x < next_ev s) \<and> (ts \<noteq> {} \<longrightarrow> WPInitFlag s) \<and>
     (\<forall>(t, fd, p, d, r) \<in> dev_view counting (pl s). r = (t \<notin> W))"

lemma run_invD:
  assumes "run_inv E ts W s"
  shows "owned (kvm_registry E) ts (pl s)" and "kvm_registry E (pl s)" and "ops E = kvm_ops" and "kvm_plat_ok (pl s)"
    and "\<not> devicemap_mtx (pl s)" and "\<not> threadSessionmap_mtx (pl s)"
    and "replacementPolicy (wpConfig s) = WP_REPLACEMENT_AUTO" and "spies_ok (logicType E) (spies s)"
    and "\<forall>x. evs s x \<noteq> None \<longrightarrow> x < next_ev s"
proof -
  show o: "owned (kvm_registry E) ts (pl s)" using assms by (simp add: run_inv_def)
  then show d: "kvm_registry E (pl s)" by (simp add: owned_def)
  from o show "\<not> threadSessionmap_mtx (pl s)" by (simp add: owned_def)
  note k = kvm_agent.dev_invD [OF d]
  show "ops E = kvm_ops" "kvm_plat_ok (pl s)" "\<not> devicemap_mtx (pl s)" by (rule k)+
qed (use assms in \<open>simp_all add: run_inv_def\<close>)

lemma run_inv_thread:
  assumes "run_inv E ts W s" and "t \<in> ts"
  shows "wp_ok (kvm_registry E) t s" and "tool_inv E (kvm_registry E) t s" and "threadSessionMap (pl s) t = Some (sessionKey (pl s) t)"
    and "u \<in> ts \<Longrightarrow> u \<noteq> t \<Longrightarrow> held t s \<inter> held u s = {}"
  using assms by (auto simp: run_inv_def tool_inv_def)

lemma run_inv_counting: "run_inv E ts W s \<Longrightarrow> (t, fd, p, d, r) \<in> dev_view counting (pl s) \<Longrightarrow> r = (t \<notin> W)"
  unfolding run_inv_def by blast

lemma run_invI:
  assumes "owned (kvm_registry E) ts (pl s)" and "\<And>t. t \<in> ts \<Longrightarrow> threadSessionMap (pl s) t = Some (sessionKey (pl s) t)"
    and "\<And>t. t \<in> ts \<Longrightarrow> wp_ok (kvm_registry E) t s" and "\<And>t u. t \<in> ts \<Longrightarrow> u \<in> ts \<Longrightarrow> t \<noteq> u \<Longrightarrow> held t s \<inter> held u s = {}"
    and "replacementPolicy (wpConfig s) = WP_REPLACEMENT_AUTO" and "spies_ok (logicType E) (spies s)"
    and "\<forall>x. evs s x \<noteq> None \<longrightarrow> x < next_ev s" and "ts \<noteq> {} \<Longrightarrow> WPInitFlag s"
    and "\<And>t fd p d r. (t, fd, p, d, r) \<in> dev_view counting (pl s) \<Longrightarrow> r = (t \<notin> W)"
  shows "run_inv E ts W s"
  using assms unfolding run_inv_def by blast

lemma counting_beside: "dev_view (beside tid) q' = dev_view (beside tid) q \<Longrightarrow> dev_view counting q' = dev_view counting q"
  by (rule dev_view_mono [of "beside tid"]) (simp_all add: beside_def counting_def)

lemma counting_other:
  assumes "dev_view (\<lambda>t _. t \<noteq> tid) q' = dev_view (\<lambda>t _. t \<noteq> tid) q" and "t \<noteq> tid"
  shows "(t, x) \<in> dev_view counting q' \<longleftrightarrow> (t, x) \<in> dev_view counting q"
proof -
  have "dev_view (\<lambda>t d. t \<noteq> tid \<and> counting t d) q' = dev_view (\<lambda>t d. t \<noteq> tid \<and> counting t d) q"
    by (rule dev_view_mono [OF assms(1)]) simp
  then have "(t, x) \<in> dev_view (\<lambda>t d. t \<noteq> tid \<and> counting t d) q' \<longleftrightarrow> (t, x) \<in> dev_view (\<lambda>t d. t \<noteq> tid \<and> counting t d) q"
    by simp
  with assms(2) show ?thesis by (cases x) (simp add: dev_view_def)
qed

text \<open>A thread whose slots, devices and events another thread's step has left alone.\<close>

lemma wp_ok_other:
  assumes ok: "wp_ok dinv u s" and d: "dinv (pl s')" and k: "WP_ThreadData_key s' u = WP_ThreadData_key s u"
    and c: "wpConfig s' = wpConfig s" and b: "\<And>fd. bp_dev (pl s') u fd = bp_dev (pl s) u fd"
    and e: "held u s \<subseteq> dom (evs s')"
  shows "wp_ok dinv u s'" and "held u s' = held u s"
proof -
  let ?n = "nat (maxWP (wpConfig s))"
  obtain t where t: "WP_ThreadData_key s u = Some t" "wp_slots_ok (pl s) (evs s) u ?n (watchPointArray t)"
    by (rule wp_okE [OF ok])
  have w: "watch_at u s' j = watch_at u s j" for j by (simp add: watch_at_def k)
  show "held u s' = held u s" by (simp add: held_def w c)
  have "wpi_ok (pl s') (evs s') u (watchPointArray t ! j)" if j: "j < ?n" for j
  proof -
    have "evs s' x \<noteq> None" if "isActive (watchPointArray t ! j)" "sampledEvent (watchPointArray t ! j) = Some x" for x
    proof -
      have "x \<in> held u s" using that j by (auto simp: held_def watch_at_key [OF t(1)] watch_def)
      with e show ?thesis by blast
    qed
    with wp_slots_okD(2) [OF t(2) j] show ?thesis by (auto simp: wpi_ok_def b split: option.splits)
  qed
  with t(2) have "wp_slots_ok (pl s') (evs s') u ?n (watchPointArray t)" by (simp add: wp_slots_ok_def)
  with d show "wp_ok dinv u s'" by (simp add: wp_ok_def k t(1) c)
qed

lemma wp_ok_weaken: "wp_ok dinv t s \<Longrightarrow> dinv' (pl s) \<Longrightarrow> wp_ok dinv' t s"
  by (simp add: wp_ok_def)

lemma held_live: "wp_ok dinv t s \<Longrightarrow> held t s \<subseteq> dom (evs s)"
  using slot_event_live by (fastforce simp: held_def)

section \<open>Each step keeps it\<close>

lemma run_event:
  assumes i: "run_inv E ts W s" and t: "t \<in> ts" and st: "tool_step E t s s'"
  shows "run_inv E ts W s'" and "sessionKey (pl s') = sessionKey (pl s)"
proof -
  let ?D = "kvm_agent.sess_inv E ts t (pl s)"
  note d = run_invD [OF i] and th = run_inv_thread [OF i t]
  have D: "?D (pl s)" using d(1) t by (simp add: kvm_agent.sess_inv_def same_keys_def)
  have "tool_inv E ?D t s" using th(1,2) D by (simp add: tool_inv_def wp_ok_weaken)
  from kvm_sess.step_post [OF st this] have p: "tool_inv E ?D t s'" "wpConfig s' = wpConfig s"
    "held t s' \<subseteq> insert (next_ev s) (held t s)" "dom (evs s) - held t s \<subseteq> dom (evs s')" "next_ev s' = Suc (next_ev s)" by simp_all
  then have ok: "wp_ok ?D t s'" and D': "?D (pl s')" by (auto simp: tool_inv_def wp_ok_def)
  then have o: "owned (kvm_registry E) ts (pl s')" "kvm_registry E (pl s')" and k: "same_keys (pl s) (pl s')"
    and v: "dev_view (beside t) (pl s') = dev_view (beside t) (pl s)" by (simp_all add: kvm_agent.sess_inv_def owned_def)
  show "sessionKey (pl s') = sessionKey (pl s)" using k by (simp add: same_keys_def)
  have f: "WPInitFlag s' = WPInitFlag s" "WP_ThreadData_key s' u = WP_ThreadData_key s u" if "u \<noteq> t" for u
    using step_td [OF st] that by (auto simp: td_rest_def dest: fun_cong [of _ _ u])
  have other: "wp_ok (kvm_registry E) u s' \<and> held u s' = held u s \<and> held t s' \<inter> held u s = {}" if u: "u \<in> ts" "u \<noteq> t" for u
  proof -
    note okU = run_inv_thread(1) [OF i u(1)]
    have live: "held u s \<subseteq> dom (evs s)" by (rule held_live [OF okU])
    have apart: "held t s \<inter> held u s = {}" using th(4) u by blast
    with live p(4) have "held u s \<subseteq> dom (evs s')" by blast
    from wp_ok_other [OF okU o(2) f(2) [OF u(2)] p(2) dev_view_bp [OF dev_view_others [OF v] u(2)] this]
    have "wp_ok (kvm_registry E) u s' \<and> held u s' = held u s" by blast
    moreover have "next_ev s \<notin> held u s" using live d(9) by blast
    ultimately show ?thesis using p(3) apart by blast
  qed
  have flag: "WPInitFlag s' = WPInitFlag s" using step_td [OF st] by (simp add: td_rest_def)
  show "run_inv E ts W s'"
  proof (rule run_invI [OF o(1)])
    show "threadSessionMap (pl s') u = Some (sessionKey (pl s') u)" if "u \<in> ts" for u
      using run_inv_thread(3) [OF i that] k by (simp add: same_keys_def)
    show "wp_ok (kvm_registry E) u s'" if "u \<in> ts" for u
      using other [OF that] wp_ok_weaken [of _ t s' "kvm_registry E", OF ok o(2)] by (cases "u = t") simp_all
    show "held u s' \<inter> held v s' = {}" if "u \<in> ts" "v \<in> ts" "u \<noteq> v" for u v
    proof -
      consider "u = t" | "v = t" | "u \<noteq> t" "v \<noteq> t" by blast
      then show ?thesis
      proof cases
        case 1
        with other [OF that(2)] that(3) show ?thesis by auto
      next
        case 2
        with other [OF that(1)] that(3) show ?thesis by auto
      next
        case 3
        with other [OF that(1)] other [OF that(2)] run_inv_thread(4) [OF i that(1,2)] that(3) show ?thesis by auto
      qed
    qed
    show "(ts \<noteq> {}) \<Longrightarrow> WPInitFlag s'" using i flag by (simp add: run_inv_def)
    show "r = (u \<notin> W)" if "(u, fd, p, d, r) \<in> dev_view counting (pl s')" for u fd p d r
      using i that unfolding counting_beside [OF v] run_inv_def by blast
  qed (use p(1,2) d(7) in \<open>simp_all add: tool_inv_def\<close>)
qed

text \<open>Switching counters.\<close>

lemma run_switch:
  assumes i: "run_inv E ts W s" and sw: "switched (pl s) q" and ok: "kvm_plat_ok q"
    and run: "\<And>t fd p d. ((t, fd), p) \<in> set (deviceMap (pl s)) \<Longrightarrow> devs (pl s) p = Some d \<Longrightarrow> counting t d \<Longrightarrow>
      running q fd = (t \<notin> W')"
  shows "run_inv E ts W' (s\<lparr>pl := q\<rparr>)"
proof -
  note d = run_invD [OF i] and f = switchedD [OF sw]
  have e: "q = (pl s)\<lparr>agent := agent q, running := running q\<rparr>" using sw by (simp add: switched_def)
  have k: "same_keys (pl s) q" by (subst e) (simp add: same_keys_def)
  have o: "owned (kvm_registry E) ts q"
    by (rule owned_frame [OF d(1) kvm_agent.dev_invI [OF d(2) ok] k f(1,4)])
      (use f d kvm_agent.dev_invD(6) [OF d(2)] in \<open>simp_all add: allocated_def\<close>)
  have b: "bp_dev q = bp_dev (pl s)" by (simp add: bp_dev_def fun_eq_iff f)
  have w: "wp_ok (kvm_registry E) t (s\<lparr>pl := q\<rparr>) \<and> held t (s\<lparr>pl := q\<rparr>) = held t s" if t: "t \<in> ts" for t
    using wp_ok_other [OF run_inv_thread(1) [OF i t], of "s\<lparr>pl := q\<rparr>"] o held_live [OF run_inv_thread(1) [OF i t]]
    by (simp add: b owned_def)
  show ?thesis
    by (rule run_invI)
      (use o w d k f run run_inv_thread(3,4) [OF i] i in \<open>auto simp: same_keys_def run_inv_def dev_view_def\<close>)
qed

lemma run_sweep:
  assumes i: "run_inv E ts W s" and ok: "kvm_plat_ok q"
    and sw: "swept kvm_ops (\<lambda>d. \<not> isDisabled d) on
      (session_entries t (equal_range (sessionKey (pl s) t) (deviceSessionMultiMap (pl s))) (deviceMap (pl s))) (pl s) q"
  shows "run_inv E ts (if on then W - {t} else insert t W) (s\<lparr>pl := q\<rparr>)"
proof (rule run_switch [OF i swept_switched [OF sw] ok])
  let ?E = "session_entries t (equal_range (sessionKey (pl s) t) (deviceSessionMultiMap (pl s))) (deviceMap (pl s))"
  note d = run_invD [OF i]
  fix u fd p c assume e: "((u, fd), p) \<in> set (deviceMap (pl s))" "devs (pl s) p = Some c" "counting u c"
  show "running q fd = (u \<notin> (if on then W - {t} else insert t W))"
  proof (cases "u = t")
    case True
    with d(1) e have "((t, fd), p) \<in> ?E" by (auto simp: owned_def session_entries_def set_equal_range)
    with sw e True show ?thesis unfolding swept_def kernel_driven_def counting_def by auto
  next
    case False
    have "\<not> ((v, fd), p') \<in> ?E" for v p' using fd_unique [OF d(4) e(1), of v p'] False by (auto simp: session_entries_def)
    with sw have "running q fd = running (pl s) fd" unfolding swept_def by blast
    moreover have "(u, fd, p, c, running (pl s) fd) \<in> dev_view counting (pl s)" using e by (simp add: dev_view_def)
    then have "running (pl s) fd = (u \<notin> W)" using i unfolding run_inv_def by blast
    ultimately show ?thesis using False by simp
  qed
qed

lemma run_resume:
  assumes i: "run_inv E ts W s" and r: "resume_devices_by_session (ops E) t (sessionKey (pl s) t) (pl s) = Inr q"
  shows "run_inv E ts (W - {t}) (s\<lparr>pl := q\<rparr>)"
proof -
  note d = run_invD [OF i]
  from kvm_agent.resume_session_ok [OF d(4,5), of t "sessionKey (pl s) t"] r d(3) run_sweep [OF i, of q True t]
  show ?thesis by auto
qed

lemma run_pause:
  assumes i: "run_inv E ts W s" and r: "pause_devices_by_session (ops E) t (sessionKey (pl s) t) (pl s) = Inr q"
  shows "run_inv E ts (insert t W) (s\<lparr>pl := q\<rparr>)"
proof -
  note d = run_invD [OF i]
  from kvm_agent.pause_session_ok [OF d(4,5), of t "sessionKey (pl s) t"] r d(3) run_sweep [OF i, of q False t]
  show ?thesis by auto
qed

lemma run_all:
  assumes i: "run_inv E ts W s"
  shows "resume_all_devices (ops E) (pl s) = Inr q \<Longrightarrow> run_inv E ts {} (s\<lparr>pl := q\<rparr>)"
    and "pause_all_devices (ops E) (pl s) = Inr q \<Longrightarrow> run_inv E ts ts (s\<lparr>pl := q\<rparr>)"
proof -
  note d = run_invD [OF i]
  assume "resume_all_devices (ops E) (pl s) = Inr q"
  with kvm_agent.resume_all_ok [OF d(4,5)] d(3) have q: "kvm_plat_ok q"
    "swept kvm_ops (\<lambda>d. \<not> isDisabled d) True (set (deviceMap (pl s))) (pl s) q" by auto
  show "run_inv E ts {} (s\<lparr>pl := q\<rparr>)"
    by (rule run_switch [OF i swept_switched [OF q(2)] q(1)])
      (use q(2) in \<open>auto simp: swept_def kernel_driven_def counting_def\<close>)
next
  note d = run_invD [OF i]
  assume "pause_all_devices (ops E) (pl s) = Inr q"
  with kvm_agent.pause_all_ok [OF d(4,5)] d(3) have q: "kvm_plat_ok q"
    "swept kvm_ops (\<lambda>_. True) False (set (deviceMap (pl s))) (pl s) q" by auto
  show "run_inv E ts ts (s\<lparr>pl := q\<rparr>)"
  proof (rule run_switch [OF i swept_switched [OF q(2)] q(1)])
    fix t fd p c assume e: "((t, fd), p) \<in> set (deviceMap (pl s))" "devs (pl s) p = Some c" "counting t c"
    have "t \<in> ts" using d(1) e(1) by (auto simp: owned_def)
    with q(2) e show "running q fd = (t \<notin> ts)" unfolding swept_def kernel_driven_def counting_def by blast
  qed
qed

text \<open>Event keys, the event map, and a new event.\<close>

lemma run_books:
  assumes i: "run_inv E ts W s"
  shows "run_inv E ts W (s\<lparr>pl := (pl s)\<lparr>eKey := k, eventMap := m\<rparr>\<rparr>)"
proof -
  let ?q = "(pl s)\<lparr>eKey := k, eventMap := m\<rparr>" and ?s = "s\<lparr>pl := (pl s)\<lparr>eKey := k, eventMap := m\<rparr>\<rparr>"
  note d = run_invD [OF i]
  have ok: "kvm_plat_ok ?q" by (rule plat_ok_frame [OF d(4)]) simp_all
  have o: "owned (kvm_registry E) ts ?q"
    by (rule owned_frame [OF d(1) kvm_agent.dev_invI [OF d(2) ok]])
      (use d kvm_agent.dev_invD(6) [OF d(2)] in \<open>simp_all add: allocated_def same_keys_def\<close>)
  have b: "bp_dev ?q = bp_dev (pl s)" by (simp add: bp_dev_def fun_eq_iff)
  have w: "wp_ok (kvm_registry E) t ?s \<and> held t ?s = held t s" if t: "t \<in> ts" for t
    using wp_ok_other [OF run_inv_thread(1) [OF i t], of ?s] o held_live [OF run_inv_thread(1) [OF i t]]
    by (simp add: b owned_def)
  have "dev_view counting ?q = dev_view counting (pl s)" by (simp add: dev_view_def)
  then have c: "r = (t \<notin> W)" if "(t, fd, p, e, r) \<in> dev_view counting (pl ?s)" for t fd p e r
    using run_inv_counting [OF i] that by simp
  show ?thesis
    by (rule run_invI) (use o w d(7-9) c run_inv_thread(3,4) [OF i] i in \<open>simp_all add: run_inv_def\<close>)
qed

lemma run_alloc:
  assumes i: "run_inv E ts W s" and a: "alloc_ev ev s = (s1, e)"
  shows "run_inv E ts W s1"
proof -
  have s1: "s1 = s\<lparr>evs := (evs s)(next_ev s \<mapsto> ev), next_ev := Suc (next_ev s)\<rparr>" using a by (auto simp: alloc_ev_def)
  note d = run_invD [OF i]
  have p: "pl s1 = pl s" "wpConfig s1 = wpConfig s" "spies s1 = spies s" "WPInitFlag s1 = WPInitFlag s"
    "WP_ThreadData_key s1 = WP_ThreadData_key s" by (simp_all add: s1)
  have w: "wp_ok (kvm_registry E) t s1 \<and> held t s1 = held t s" if t: "t \<in> ts" for t
  proof -
    have "held t s \<subseteq> dom (evs s1)" using held_live [OF run_inv_thread(1) [OF i t]] by (auto simp: s1)
    with wp_ok_other [OF run_inv_thread(1) [OF i t], of s1] d(2) show ?thesis by (simp add: p)
  qed
  have "\<forall>x. evs s1 x \<noteq> None \<longrightarrow> x < next_ev s1" using d(9) by (auto simp: s1 less_Suc_eq)
  note n = this
  show ?thesis
  proof (rule run_invI)
    show "\<forall>x. evs s1 x \<noteq> None \<longrightarrow> x < next_ev s1" by (rule n)
    show "replacementPolicy (wpConfig s1) = WP_REPLACEMENT_AUTO" unfolding p(2) by (rule d(7))
    show "spies_ok (logicType E) (spies s1)" unfolding p(3) by (rule d(8))
    show "owned (kvm_registry E) ts (pl s1)" using d(1) p(1) by simp
    show "threadSessionMap (pl s1) t = Some (sessionKey (pl s1) t)" if "t \<in> ts" for t
      unfolding p(1) by (rule run_inv_thread(3) [OF i that])
    show "wp_ok (kvm_registry E) t s1" if "t \<in> ts" for t using w [OF that] by simp
    show "WPInitFlag s1" if "ts \<noteq> {}" using that i by (simp add: p run_inv_def)
    show "held t s1 \<inter> held u s1 = {}" if "t \<in> ts" "u \<in> ts" "t \<noteq> u" for t u
      using w [OF that(1)] w [OF that(2)] run_inv_thread(4) [OF i that(1,2)] that(3) by auto
    show "r = (t \<notin> W)" if "(t, fd, p, c, r) \<in> dev_view counting (pl s1)" for t fd p c r
      using run_inv_counting [OF i] that by (simp add: p)
  qed
qed

text \<open>What the tool does with an event it has just been given.\<close>

lemma run_handler:
  assumes i: "run_inv E ts W s" and t: "t \<in> ts" and a: "alloc_ev ev s = (s1, e)"
    and h: "tool_eventHandler E t now e p s1 = Inr s'"
  shows "run_inv E ts W s'" and "sessionKey (pl s') = sessionKey (pl s)"
proof -
  have p1: "pl s1 = pl s" using a by (auto simp: alloc_ev_def)
  from h obtain d where d: "getd p (pl s1) = Inr d" by (auto simp: tool_eventHandler_def rbind_Inr simp del: if_split)
  have "tool_PEBSEventHandler E t now e s1 = Inr s' \<or> tool_BPEventHandler E t e d s1 = Inr s' \<or> s' = s1"
    using h by (simp add: tool_eventHandler_def d split: if_split_asm)
  then consider "tool_PEBSEventHandler E t now e s1 = Inr s'" | "tool_BPEventHandler E t e d s1 = Inr s'" | "s' = s1" by blast
  then have "run_inv E ts W s' \<and> sessionKey (pl s') = sessionKey (pl s)"
  proof cases
    case 1
    from run_event [OF i t tool_step.sample [OF a 1]] show ?thesis by simp
  next
    case 2
    from run_event [OF i t tool_step.trigger [OF a 2]] show ?thesis by simp
  next
    case 3
    with run_alloc [OF i a] p1 show ?thesis by simp
  qed
  then show "run_inv E ts W s'" "sessionKey (pl s') = sessionKey (pl s)" by simp_all
qed

lemma tool_upd_swap: "s\<lparr>next_ev := n, evs := es, pl := q\<rparr> = s\<lparr>pl := q, evs := es, next_ev := n\<rparr>"
  by (cases s) simp

lemma run_finish:
  assumes ops: "ops E = kvm_ops" and d: "done_processEvent E t now event fd sid s = Inr s'"
  obtains p u q where "case event of None \<Rightarrow> u = s | Some e \<Rightarrow> tool_eventHandler E t now e p s = Inr u"
    and "resume_devices_by_session (ops E) t sid (pl u) = Inr q" and "s' = u\<lparr>pl := q\<rparr>"
proof (cases event)
  case None
  with d ops that [of s] show thesis
    by (auto simp: done_processEvent_def postAgentProcessing_def rbind_Inr split: option.splits)
next
  case (Some e)
  with d ops obtain p u q where "tool_eventHandler E t now e p s = Inr u"
    "resume_devices_by_session (ops E) t sid (pl u) = Inr q" "s' = u\<lparr>pl := q\<rparr>"
    by (auto simp: done_processEvent_def postAgentProcessing_def rbind_Inr split: option.splits)
  with Some show thesis by (rule_tac that) simp_all
qed

lemma run_answer:
  assumes i: "run_inv E ts W s" and t: "t \<in> ts"
    and r: "kvm__doneEventProcessing_HyPerf E build t now junk new_frame frames ip fd t addr ty cpu_no clk s = Inr s'"
  shows "run_inv E ts (W - {t}) s'"
proof -
  note d = run_invD [OF i]
  have key: "get_session_key_from_threadId t q = Inr (q, sessionKey (pl s) t)"
    if "threadSessionmap_mtx q = threadSessionmap_mtx (pl s)" "threadSessionMap q = threadSessionMap (pl s)" for q :: "kvm_agent plat"
    by (rule key_of) (use that d(6) run_inv_thread(3) [OF i t] in simp_all)
  show ?thesis
  proof (cases "ip = 0 \<or> \<not> considered (fst build) (snd build) ty")
    case True
    with r have "done_processEvent E t now None fd (sessionKey (pl s) t) s = Inr s'"
      by (simp add: kvm__doneEventProcessing_HyPerf_def Let_def key split: if_splits)
    then show ?thesis by (rule run_finish [OF d(3)]) (use run_resume [OF i] in auto)
  next
    case False
    obtain q k where q: "generate_event_key (pl s) = (q, k)" by fastforce
    then have q': "q = (pl s)\<lparr>eKey := to_i32 (eKey (pl s) + 1)\<rparr>" by (auto simp: generate_event_key_def)
    let ?ev = "guest_event junk k fd t addr ip ty cpu_no clk" and ?fs = "guest_frames new_frame 0 0 False (drop 3 frames)"
    let ?m = "(eventMap (pl s))(k \<mapsto> next_ev s)"
    let ?q2 = "(pl s)\<lparr>eKey := to_i32 (eKey (pl s) + 1), eventMap := ?m\<rparr>" and ?ev2 = "?ev\<lparr>eventContext_agent := ?fs\<rparr>"
    let ?sA = "s\<lparr>pl := ?q2\<rparr>"
    let ?s3 = "fst (alloc_ev ?ev2 ?sA)"
    have mtx: "\<not> eventmap_mtx (pl s)"
      using r False q by (auto simp: kvm__doneEventProcessing_HyPerf_def Let_def alloc_ev_def add_new_event_def q' split: if_splits)
    have "kvm__doneEventProcessing_HyPerf E build t now junk new_frame frames ip fd t addr ty cpu_no clk s =
        done_processEvent E t now (Some (next_ev s)) fd (sessionKey (pl s) t) ?s3"
      using False q mtx by (simp add: kvm__doneEventProcessing_HyPerf_def Let_def alloc_ev_def add_new_event_def q' get_ev_def set_ev_def key tool_upd_swap)
    with r have "done_processEvent E t now (Some (next_ev s)) fd (sessionKey (pl s) t) ?s3 = Inr s'" by simp
    then obtain p u q where h: "tool_eventHandler E t now (next_ev s) p ?s3 = Inr u"
      and res: "resume_devices_by_session (ops E) t (sessionKey (pl s) t) (pl u) = Inr q" "s' = u\<lparr>pl := q\<rparr>"
      by (rule run_finish [OF d(3)]) auto
    have a: "alloc_ev ?ev2 ?sA = (?s3, next_ev s)" by (simp add: alloc_ev_def)
    from run_handler [OF run_books [OF i] t a h] have u: "run_inv E ts W u" "sessionKey (pl u) = sessionKey (pl s)" by simp_all
    from run_resume [OF u(1), of t q] res u(2) show ?thesis by simp
  qed
qed

text \<open>The first session sets the tool up.\<close>

lemma run_init_once:
  assumes i: "run_inv E ts W s" and t: "t \<notin> ts" and b: "sKey (pl s) < 2 ^ 31 - 2"
    and r: "WPInitOnce E t ok dummyWP s = Inr s1"
  shows "run_inv E ts W s1" and "WPInitFlag s1" and "sKey (pl s1) < 2 ^ 31 - 1"
proof -
  have "run_inv E ts W s1 \<and> WPInitFlag s1 \<and> sKey (pl s1) < 2 ^ 31 - 1"
  proof (cases "WPInitFlag s")
    case True
    with r i b show ?thesis by (simp add: WPInitOnce_def)
  next
    case False
    then have ts: "ts = {}" using i by (auto simp: run_inv_def)
    note d = run_invD [OF i]
    have I: "run_inv E {} W u" if "owned (kvm_registry E) {} (pl u)" "replacementPolicy (wpConfig u) = WP_REPLACEMENT_AUTO"
      "spies u = spies s" "evs u = evs s" "next_ev u = next_ev s" for u
    proof (rule run_invI [OF that(1)])
      show "r = (v \<notin> W)" if "(v, fd, p, c, r) \<in> dev_view counting (pl u)" for v fd p c r
        using that \<open>owned (kvm_registry E) {} (pl u)\<close> by (auto simp: dev_view_def owned_def)
    qed (use that d in simp_all)
    show ?thesis
    proof (cases ok)
      case True
      with r False obtain q n where g: "getMaxDevices (ops E) (sysos E) (devcfg E) t BPDEVICE dummyWP (pl s) = Inr (q, n)"
        and s1: "s1 = s\<lparr>WPInitFlag := True, pl := q, wpConfig := \<lparr>isWPModifyEnabled = isAgentKVM (ops E) \<or> fast_bp E,
          replacementPolicy = WP_REPLACEMENT_AUTO, maxWP = int n, userPerfPause = None, userPerfResume = None\<rparr>\<rparr>"
        by (auto simp: WPInitOnce_def WP_Init_def rbind_Inr)
      from kvm_agent.max_owned [OF d(1) t _ g] b ts show ?thesis using I [of s1] by (simp add: s1)
    next
      case no: False
      with r False have "s1 = s\<lparr>WPInitFlag := True\<rparr>" by (simp add: WPInitOnce_def WP_Init_def)
      with I [of s1] d b ts show ?thesis by simp
    qed
  qed
  then show "run_inv E ts W s1" "WPInitFlag s1" "sKey (pl s1) < 2 ^ 31 - 1" by simp_all
qed

lemma ThreadInit_pl:
  "WP_ThreadInit t td ok time s = Inr (s', c) \<Longrightarrow>
     WP_ThreadInit t td ok time (s\<lparr>pl := q\<rparr>) = Inr (s'\<lparr>pl := q\<rparr>, c) \<and> pl s' = pl s"
  by (auto simp: WP_ThreadInit_def Let_def rbind_Inr set_td_def split: option.splits if_splits)

lemma run_start_step:
  assumes i0: "run_inv E ts W s" and t: "t \<notin> ts" and b: "sKey (pl s) < 2 ^ 31 - 2"
    and r: "kvm__VCPU_start E t ok dummyWP (Some td) True time s = Inr s'"
  shows "run_inv E (insert t ts) (insert t W) s'"
proof -
  from r obtain s1 s2 c q1 q2 p q3 c' where 1: "WPInitOnce E t ok dummyWP s = Inr s1"
    and 2: "WP_ThreadInit t (Some td) True time s1 = Inr (s2, c)"
    and q1: "generate_session_key t (pl s2) = Inr q1" and n: "new_dev (new_PEBSDevice (sampled_access E)) q1 = (q2, p)"
    and q3: "registerDevice (ops E) (sysos E) (devcfg E) t (get_session_key t q1) p q2 = Inr (q3, c')"
    and s': "s' = s2\<lparr>pl := q3\<rparr>"
    by (auto simp: kvm__VCPU_start_def tool_sessionInit_def rbind_Inr Let_def new_dev_def)
  note i = run_init_once [OF i0 t b 1]
  note d = run_invD [OF i(1)]
  note pl2 = ThreadInit_pl [OF 2]
  note bs = kvm_agent.begin_session [OF d(1) t i(3) q1 [unfolded conjunct2 [OF pl2]] n q3]
  have inv: "kvm_registry E q3" using bs(1) by (simp add: owned_def)
  have "WP_ThreadInit t (Some td) True time (s1\<lparr>pl := q3\<rparr>) = Inr (s', c)" using pl2 s' by blast
  from ThreadInit_ok [OF this, of "kvm_registry E"] inv obtain t' where ok: "wp_ok (kvm_registry E) t s'" "s' = set_td t t' (s1\<lparr>pl := q3\<rparr>)"
    "held t s' = {}" by auto
  then have f: "pl s' = q3" "wpConfig s' = wpConfig s1" "evs s' = evs s1" "spies s' = spies s1" "next_ev s' = next_ev s1"
    "WPInitFlag s' = WPInitFlag s1" "u \<noteq> t \<Longrightarrow> WP_ThreadData_key s' u = WP_ThreadData_key s1 u" for u
    by (simp_all add: set_td_def)
  have v: "dev_view (\<lambda>u _. u \<noteq> t) q3 = dev_view (\<lambda>u _. u \<noteq> t) (pl s1)" using bs(2) by (simp add: others_same_def)
  have other: "wp_ok (kvm_registry E) u s' \<and> held u s' = held u s1 \<and> u \<noteq> t" if u: "u \<in> ts" for u
  proof -
    have ne: "u \<noteq> t" using u t by blast
    note okU = run_inv_thread(1) [OF i(1) u]
    have "held u s1 \<subseteq> dom (evs s')" using held_live [OF okU] by (simp add: f)
    with wp_ok_other [OF okU _ f(7) [OF ne] f(2)] inv dev_view_bp [OF v ne] ne show ?thesis by (simp add: f(1))
  qed
  show ?thesis
  proof (rule run_invI)
    show "owned (kvm_registry E) (insert t ts) (pl s')" using bs(1) f(1) by simp
    show "threadSessionMap (pl s') u = Some (sessionKey (pl s') u)" if "u \<in> insert t ts" for u
      using that bs(2,3) run_inv_thread(3) [OF i(1), of u] by (cases "u = t") (simp_all add: f(1) others_same_def)
    show "wp_ok (kvm_registry E) u s'" if "u \<in> insert t ts" for u using that other [of u] ok(1) by blast
    show "held u s' \<inter> held v s' = {}" if "u \<in> insert t ts" "v \<in> insert t ts" "u \<noteq> v" for u v
    proof (cases "u = t \<or> v = t")
      case True
      with ok(3) show ?thesis by blast
    next
      case False
      with that other [of u] other [of v] run_inv_thread(4) [OF i(1), of u v] show ?thesis by blast
    qed
    show "r = (u \<notin> insert t W)" if "(u, fd, x, e, r) \<in> dev_view counting (pl s')" for u fd x e r
    proof (cases "u = t")
      case True
      with that have "(t, fd, x, e, r) \<in> dev_view (\<lambda>_ _. True) q3" by (simp add: f(1) dev_view_def)
      from bs(4) [OF this] True d(3) show ?thesis
        by (simp add: registerThisDevice_def new_PEBSDevice_def PEBS_registerThisDevice_def PEBSDEVICE_def BPDEVICE_def)
    next
      case False
      from that have "(u, fd, x, e, r) \<in> dev_view counting (pl s1)" unfolding f(1) counting_other [OF v False] .
      from run_inv_counting [OF i(1) this] False show ?thesis by simp
    qed
  qed (use d(7-9) f i(2) in simp_all)
qed

lemma run_end_step:
  assumes i: "run_inv E ts W s" and t: "t \<in> ts"
  shows "\<exists>s'. kvm__VCPU_end E t s = Inr s' \<and> run_inv E (ts - {t}) (W - {t}) s' \<and> WP_ThreadData_key s' t = None \<and>
    dev_view (\<lambda>u _. u \<noteq> t) (pl s') = dev_view (\<lambda>u _. u \<noteq> t) (pl s) \<and>
    (\<forall>u. u \<noteq> t \<longrightarrow> WP_ThreadData_key s' u = WP_ThreadData_key s u) \<and> evs s' = evs s"
proof -
  let ?D = "kvm_agent.sess_inv E ts t (pl s)"
  note d = run_invD [OF i] and th = run_inv_thread [OF i t]
  have D: "?D (pl s)" using d(1) t by (simp add: kvm_agent.sess_inv_def same_keys_def)
  have "wp_ok ?D t s" using th(1) D by (simp add: wp_ok_weaken)
  from kvm_sess.Terminate_ok [OF this] obtain q where q: "?D q" and 1: "WP_ThreadTerminate E t s =
    Inr (s\<lparr>pl := q, WP_ThreadData_key := (WP_ThreadData_key s)(t := None)\<rparr>)" by blast
  then have o: "owned (kvm_registry E) ts q" "same_keys (pl s) q" "dev_view (beside t) q = dev_view (beside t) (pl s)"
    by (simp_all add: kvm_agent.sess_inv_def)
  from kvm_agent.remove_owned [OF o(1) t] obtain q' where
    q': "remove_device_by_session (ops E) (sysos E) t (sessionKey q t) q = Inr q'" "owned (kvm_registry E) (ts - {t}) q'"
      "same_keys q q'" by blast
  have os: "others_same t q q'" by (rule kvm_agent.remove_others [OF _ q'(1)]) (use o(1) in \<open>simp add: owned_def\<close>)
  let ?s = "s\<lparr>pl := q', WP_ThreadData_key := (WP_ThreadData_key s)(t := None)\<rparr>"
  have e: "kvm__VCPU_end E t s = Inr ?s"
    using 1 q'(1) by (simp add: kvm__VCPU_end_def tool_sessionExit_def get_session_key_def)
  have v: "dev_view (\<lambda>u _. u \<noteq> t) q' = dev_view (\<lambda>u _. u \<noteq> t) (pl s)"
    using os dev_view_others [OF o(3)] by (simp add: others_same_def)
  have k: "same_keys (pl s) q'" using o(2) q'(3) by (rule same_keys_trans)
  have other: "wp_ok (kvm_registry E) u ?s \<and> held u ?s = held u s" if u: "u \<in> ts - {t}" for u
  proof -
    have ne: "u \<in> ts" "u \<noteq> t" using u by blast+
    note okU = run_inv_thread(1) [OF i ne(1)]
    from wp_ok_other [OF okU, of ?s] held_live [OF okU] q'(2) dev_view_bp [OF v ne(2)] ne(2) show ?thesis
      by (simp add: owned_def)
  qed
  have "run_inv E (ts - {t}) (W - {t}) ?s"
  proof (rule run_invI)
    show "threadSessionMap (pl ?s) u = Some (sessionKey (pl ?s) u)" if "u \<in> ts - {t}" for u
      using that run_inv_thread(3) [OF i, of u] k by (simp add: same_keys_def)
    show "held u ?s \<inter> held v ?s = {}" if "u \<in> ts - {t}" "v \<in> ts - {t}" "u \<noteq> v" for u v
      using that other [of u] other [of v] run_inv_thread(4) [OF i, of u v] by blast
    show "r = (u \<notin> W - {t})" if c: "(u, fd, x, g, r) \<in> dev_view counting (pl ?s)" for u fd x g r
    proof -
      have "((u, fd), x) \<in> set (deviceMap q')" using c by (simp add: dev_view_def)
      then have ne: "u \<noteq> t" using q'(2) by (auto simp: owned_def)
      from c have "(u, fd, x, g, r) \<in> dev_view counting (pl s)" using counting_other [OF v ne] by simp
      from run_inv_counting [OF i this] ne show ?thesis by simp
    qed
    show "WPInitFlag ?s" if "ts - {t} \<noteq> {}" using i t by (auto simp: run_inv_def)
  qed (use q'(2) other d(7-9) in simp_all)
  with e v show ?thesis by auto
qed

section \<open>Every order of steps\<close>

text \<open>The tool before its first session: no devices, no table entry out of order, the default policy.\<close>

definition run_start :: "kvm_agent env \<Rightarrow> kvm_agent tool \<Rightarrow> bool" where
  "run_start E s \<longleftrightarrow> owned (kvm_registry E) {} (pl s) \<and> replacementPolicy (wpConfig s) = WP_REPLACEMENT_AUTO \<and>
     spies_ok (logicType E) (spies s) \<and> (\<forall>x. evs s x \<noteq> None \<longrightarrow> x < next_ev s)"

lemma run_start_inv:
  assumes "run_start E s"
  shows "run_inv E {} {} s"
proof -
  from assms have o: "owned (kvm_registry E) {} (pl s)" by (simp add: run_start_def)
  show ?thesis by (rule run_invI [OF o]) (use assms o in \<open>auto simp: run_start_def owned_def dev_view_def\<close>)
qed

lemma kvm_run_inv: "kvm_run E s0 ts W s \<Longrightarrow> run_start E s0 \<Longrightarrow> run_inv E ts W s"
proof (induction rule: kvm_run.induct)
  case boot
  then show ?case by (rule run_start_inv)
next
  case (vcpu_start ts W s t ok dummyWP td time s')
  then show ?case using run_start_step by blast
next
  case (vcpu_end ts W s t s')
  then show ?case using run_end_step [of E ts W s t] by auto
next
  case (enter ts W s t s')
  then obtain q where "resume_devices_by_session (ops E) t (sessionKey (pl s) t) (pl s) = Inr q" "s' = s\<lparr>pl := q\<rparr>"
    by (auto simp: kvm__enableEBSDevicesThisSession_def on_plat_def get_session_key_def rbind_Inr)
  with run_resume enter show ?case by blast
next
  case (interrupt ts W s t s')
  then have i: "run_inv E ts W s" by blast
  from key_of [OF run_invD(6) [OF i] run_inv_thread(3) [OF i interrupt.hyps(2)]] interrupt.hyps(3)
  obtain q where "pause_devices_by_session (ops E) t (sessionKey (pl s) t) (pl s) = Inr q" "s' = s\<lparr>pl := q\<rparr>"
    by (auto simp: kvm__disableEBSDevicesThisSession_def on_plat_def rbind_Inr)
  with run_pause [OF i] show ?case by blast
next
  case (all_on ts W s s')
  then show ?case using run_all(1) by (auto simp: kvm__enableAllEBSDevice_def on_plat_def rbind_Inr)
next
  case (all_off ts W s s')
  then show ?case using run_all(2) by (auto simp: kvm__disableAllEBSDevice_def on_plat_def rbind_Inr)
next
  case (answer ts W s t build now junk new_frame frames ip fd addr ty cpu_no clk s')
  then show ?case using run_answer by blast
next
  case (event ts W s t s')
  then show ?case using run_event(1) by blast
qed

lemma kvm_steps_return:
  assumes i: "run_inv E ts W s" and t: "t \<in> ts"
  shows "\<exists>s'. kvm__disableEBSDevicesThisSession E t t s = Inr s'" and "\<exists>s'. kvm__enableEBSDevicesThisSession E t s = Inr s'"
proof -
  note d = run_invD [OF i]
  show "\<exists>s'. kvm__disableEBSDevicesThisSession E t t s = Inr s'"
    using kvm_agent.pause_session_ok [OF d(4,5), of t "sessionKey (pl s) t"] key_of [OF d(6) run_inv_thread(3) [OF i t]] d(3)
    by (auto simp: kvm__disableEBSDevicesThisSession_def on_plat_def)
  show "\<exists>s'. kvm__enableEBSDevicesThisSession E t s = Inr s'"
    using kvm_agent.resume_session_ok [OF d(4,5), of t "sessionKey (pl s) t"] d(3)
    by (auto simp: kvm__enableEBSDevicesThisSession_def on_plat_def get_session_key_def)
qed

text \<open>An active slot, and the event it holds.\<close>

definition slot_event :: "kvm_agent tool \<Rightarrow> int \<Rightarrow> nat \<Rightarrow> nat \<Rightarrow> bool" where
  "slot_event s t j x \<longleftrightarrow> j < nat (maxWP (wpConfig s)) \<and> (\<exists>v l. snd (watch_at t s j) = Some (v, l, Some x))"




section \<open>Witnesses\<close>

text \<open>Two VCPUs, 1 and 2, of which the hypervisor has entered the first.\<close>

definition boot_tool :: "kvm_agent tool" where
  "boot_tool = (demo_tool 0)\<lparr>pl := plat_init demo_kvm_start, WP_ThreadData_key := Map.empty\<rparr>"

definition boot_td :: WP_ThreadData where
  "boot_td = \<lparr>td_samplePostFull = 0, randBuffer = 0, watchPointArray = [demo_slot 0 False 0 0, demo_slot 0 False 0 0]\<rparr>"

lemma boot_started: "run_start (demo_env True) boot_tool"
proof -
  have "kvm_registry (demo_env True) (plat_init demo_kvm_start)"
    by (simp add: kvm_agent.dev_inv_def kvm_agent.reg_ok_def fresh_os_def demo_os_def closable_def plat_ok_def allocated_def
        plat_init_def kvm_inv_def kvm_ok_def demo_kvm_start_def kvm_init_def demo_hv_def unheld_def fds_of_def)
  moreover have "spies_ok DEADSPY (spies (demo_tool 0))" using demo_spies_ok by (simp add: spies_ok_def)
  moreover have "\<forall>x. evs (demo_tool 0) x \<noteq> None \<longrightarrow> x < next_ev (demo_tool 0)" by (simp add: demo_tool_def)
  ultimately show ?thesis by (simp add: run_start_def boot_tool_def owned_def plat_init_def)
qed

definition boot_ready :: "kvm_agent plat \<Rightarrow> bool" where
  "boot_ready q \<longleftrightarrow> deviceMap q = [((1, 10), 0), ((2, 16), 1)] \<and> deviceSessionMultiMap q = [(0, 10), (1, 16)] \<and>
     threadSessionMap q 1 = Some 0 \<and> threadSessionMap q 2 = Some 1 \<and>
     (case (devs q 0, devs q 1) of (Some c, Some d) \<Rightarrow> deviceType c = PEBSDEVICE \<and> deviceType d = PEBSDEVICE \<and>
        \<not> isDisabled c \<and> \<not> isDisabled d | _ \<Rightarrow> False)"

lemma boot_steps:
  "case kvm__VCPU_start (demo_env True) 1 True 0 (Some boot_td) True 5 boot_tool of Inl _ \<Rightarrow> False | Inr s1 \<Rightarrow>
     sKey (pl s1) < 2 ^ 31 - 2 \<and>
     (case kvm__enableEBSDevicesThisSession (demo_env True) 1 s1 of Inl _ \<Rightarrow> False | Inr s2 \<Rightarrow>
       sKey (pl s2) < 2 ^ 31 - 2 \<and>
       (case kvm__VCPU_start (demo_env True) 2 True 0 (Some boot_td) True 6 s2 of Inl _ \<Rightarrow> False | Inr s3 \<Rightarrow>
         boot_ready (pl s3)))"
  by code_simp

lemma boot_run:
  obtains s where "kvm_run (demo_env True) boot_tool {1, 2} {2} s" and "boot_ready (pl s)"
proof -
  from boot_steps obtain s1 s2 s3 where
    1: "kvm__VCPU_start (demo_env True) 1 True 0 (Some boot_td) True 5 boot_tool = Inr s1" and
    2: "kvm__enableEBSDevicesThisSession (demo_env True) 1 s1 = Inr s2" "sKey (pl s2) < 2 ^ 31 - 2" and
    3: "kvm__VCPU_start (demo_env True) 2 True 0 (Some boot_td) True 6 s2 = Inr s3" "boot_ready (pl s3)"
    by (auto split: sum.splits)
  have b: "sKey (pl boot_tool) < 2 ^ 31 - 2" by (simp add: boot_tool_def plat_init_def)
  from kvm_run.vcpu_start [OF kvm_run.boot _ b 1] have "kvm_run (demo_env True) boot_tool {1} {1} s1" by simp
  from kvm_run.enter [OF this _ 2(1)] have "kvm_run (demo_env True) boot_tool {1} {} s2" by simp
  from kvm_run.vcpu_start [OF this _ 2(2) 3(1)] have "kvm_run (demo_env True) boot_tool {1, 2} {2} s3"
    by (simp add: insert_commute)
  with 3(2) that show thesis by blast
qed

lemma boot_counts: "boot_ready q \<Longrightarrow> counts q 1 10 \<and> counts q 2 16"
  by (auto simp: boot_ready_def counts_def PEBSDEVICE_def BPDEVICE_def split: option.splits)




end
