(* ===== verification/Alloc_Hooks.thy ===== *)
theory Alloc_Hooks
  imports Platform
begin

text \<open>
  The allocation callbacks of \<^verbatim>\<open>src/platform/platform.cpp\<close>, which the process monitor calls around every
  allocation. \<open>signalUnsafe\<close> is a flag of the thread, not a counter: after any calls it tells whether the
  last one of this thread was a \<open>pre\<close> callback. Allocations are counted in \<open>monitor_pre_malloc\<close> only.
\<close>

datatype alloc_call =
    Pre_malloc | Post_malloc | Pre_realloc | Post_realloc | Pre_calloc | Post_calloc
  | Pre_memalign | Post_memalign | Pre_posix_memalign | Post_posix_memalign | Pre_free | Post_free

fun monitor_alloc :: "alloc_call \<Rightarrow> int \<Rightarrow> ('a, 'z) plat_scheme \<Rightarrow> ('a, 'z) plat_scheme" where
  "monitor_alloc Pre_malloc tid s = monitor_pre_malloc tid s"
| "monitor_alloc Post_malloc tid s = exiting_signal_unsafe tid s"
| "monitor_alloc Pre_realloc tid s = entering_signal_unsafe tid s"
| "monitor_alloc Post_realloc tid s = exiting_signal_unsafe tid s"
| "monitor_alloc Pre_calloc tid s = entering_signal_unsafe tid s"
| "monitor_alloc Post_calloc tid s = exiting_signal_unsafe tid s"
| "monitor_alloc Pre_memalign tid s = entering_signal_unsafe tid s"
| "monitor_alloc Post_memalign tid s = exiting_signal_unsafe tid s"
| "monitor_alloc Pre_posix_memalign tid s = entering_signal_unsafe tid s"
| "monitor_alloc Post_posix_memalign tid s = exiting_signal_unsafe tid s"
| "monitor_alloc Pre_free tid s = entering_signal_unsafe tid s"
| "monitor_alloc Post_free tid s = exiting_signal_unsafe tid s"

section \<open>Calls of any threads in any order\<close>

definition is_pre :: "alloc_call \<Rightarrow> bool" where
  "is_pre c \<longleftrightarrow> c \<in> {Pre_malloc, Pre_realloc, Pre_calloc, Pre_memalign, Pre_posix_memalign, Pre_free}"

definition alloc_calls :: "(int \<times> alloc_call) list \<Rightarrow> ('a, 'z) plat_scheme \<Rightarrow> ('a, 'z) plat_scheme" where
  "alloc_calls cs s = fold (\<lambda>(tid, c). monitor_alloc c tid) cs s"

text \<open>What one call does, for all twelve of them.\<close>

lemma monitor_alloc_eq:
  "monitor_alloc c tid s = s\<lparr>signalUnsafe := (signalUnsafe s)(tid := is_pre c),
     mallocCount := (if c = Pre_malloc then to_i32 (mallocCount s + 1) else mallocCount s)\<rparr>"
  by (cases c) (simp_all add: is_pre_def monitor_pre_malloc_def entering_signal_unsafe_def exiting_signal_unsafe_def)

text \<open>The last call of a thread decides, and \<open>mallocCount\<close> wraps.\<close>

definition last_pre :: "(int \<times> alloc_call) list \<Rightarrow> int \<Rightarrow> bool \<Rightarrow> bool" where
  "last_pre cs tid old = (case filter (\<lambda>(t, c). t = tid) (rev cs) of [] \<Rightarrow> old | (t, c) # _ \<Rightarrow> is_pre c)"

lemma alloc_calls_unsafe: "signalUnsafe (alloc_calls cs s) tid = last_pre cs tid (signalUnsafe s tid)"
proof (induction cs rule: rev_induct)
  case Nil
  show ?case by (simp add: alloc_calls_def last_pre_def)
next
  case (snoc x cs)
  then show ?case by (cases x) (auto simp: alloc_calls_def last_pre_def monitor_alloc_eq)
qed

lemma to_i32_add: "to_i32 (to_i32 a + b) = to_i32 (a + b)"
  unfolding to_i32_def
  using signed_take_bit_add [of 31 "signed_take_bit 31 a" b] signed_take_bit_add [of 31 a b] by simp

lemma alloc_calls_count:
  "mallocCount (alloc_calls cs s) = (let n = length (filter (\<lambda>(t, c). c = Pre_malloc) cs) in
     if n = 0 then mallocCount s else to_i32 (mallocCount s + int n))"
proof (induction cs rule: rev_induct)
  case Nil
  show ?case by (simp add: alloc_calls_def)
next
  case (snoc x cs)
  then show ?case
    by (cases x) (auto simp: alloc_calls_def monitor_alloc_eq Let_def to_i32_add add.assoc split: if_splits)
qed

text \<open>Nothing else of the platform changes, so its invariant stays.\<close>

lemma alloc_calls_frame:
  "alloc_calls cs s = s\<lparr>signalUnsafe := signalUnsafe (alloc_calls cs s), mallocCount := mallocCount (alloc_calls cs s)\<rparr>"
proof (induction cs rule: rev_induct)
  case Nil
  show ?case by (simp add: alloc_calls_def)
next
  case (snoc x cs)
  obtain t c where x: "x = (t, c)" by (cases x)
  from snoc.IH obtain u n where "alloc_calls cs s = s\<lparr>signalUnsafe := u, mallocCount := n\<rparr>" by blast
  then show ?case by (simp add: alloc_calls_def x monitor_alloc_eq fun_upd_def if_bool_eq_conj)
qed

text \<open>
  Outside the callbacks of an allocation the thread counts as safe, inside one it does not. The flag does not nest:
  were one allocation to call back inside another, the thread would be safe again before the outer one ends. The
  monitor's wrappers call the C library below the callbacks, so theirs do not nest.
\<close>

lemma allocation_brackets:
  assumes "is_pre b" and "\<not> is_pre e" and "\<forall>(t, c) \<in> set others. t \<noteq> tid"
  shows "signalUnsafe (alloc_calls ((tid, b) # others) s) tid"
    and "\<not> signalUnsafe (alloc_calls ((tid, b) # others @ [(tid, e)]) s) tid"
    and "\<not> signalUnsafe (alloc_calls [(tid, b), (tid, b'), (tid, e)] s) tid"
proof -
  have "filter (\<lambda>(t, c). t = tid) (rev others) = []" using assms(3) by (auto simp: filter_empty_conv)
  with assms(1,2) show "signalUnsafe (alloc_calls ((tid, b) # others) s) tid"
    "\<not> signalUnsafe (alloc_calls ((tid, b) # others @ [(tid, e)]) s) tid"
    "\<not> signalUnsafe (alloc_calls [(tid, b), (tid, b'), (tid, e)] s) tid"
    by (simp_all add: alloc_calls_unsafe last_pre_def)
qed

end
