(* ===== verification/Backtrace_Props.thy ===== *)
theory Backtrace_Props
  imports Witch_Tool Symbols "HOL-Library.Sublist"
begin

text \<open>
  The calling context the native agent records (\<open>agent_retrieveBacktrace\<close> of
  \<^verbatim>\<open>src/agent/nativeAgent/myagent.cpp\<close>) with the agent's own table of symbols: what the loop over the frames of
  libunwind leaves of them.
\<close>

section \<open>The first of each key\<close>

fun first_of :: "('a \<Rightarrow> 'k) \<Rightarrow> 'k set \<Rightarrow> 'a list \<Rightarrow> 'a list" where
  "first_of key old [] = []"
| "first_of key old (x # xs) =
     (if key x \<in> old then first_of key old xs else x # first_of key (insert (key x) old) xs)"

lemma first_of_keys:
  "set (map key (first_of key old xs)) = key ` set xs - old" "distinct (map key (first_of key old xs))"
proof (induction xs arbitrary: old)
  case (Cons x xs)
  {
    case 1
    show ?case using Cons.IH(1) by auto
  next
    case 2
    show ?case using Cons.IH(1) [of "insert (key x) old"] Cons.IH(2) by auto
  }
qed simp_all

lemma first_of_subseq: "subseq (first_of key old xs) xs"
  by (induction xs arbitrary: old) auto

text \<open>Nothing with the same key stands before a chosen element.\<close>

lemma first_of_first:
  "xs = ys @ x # zs \<Longrightarrow> key x \<notin> old \<Longrightarrow> key x \<notin> key ` set ys \<Longrightarrow> x \<in> set (first_of key old xs)"
  by (induction xs arbitrary: ys old) (auto simp: Cons_eq_append_conv split: if_splits)

section \<open>The loop\<close>

text \<open>
  The frames from the one of the signal on, the function a frame is in, and what is recorded of a frame: the frame of
  the signal gets the address of the sample.
\<close>

definition after_signal :: "(int \<times> bool) list \<Rightarrow> (int \<times> bool) list" where
  "after_signal steps = dropWhile (\<lambda>(ip, signal). \<not> signal) steps"

definition in_function :: "(int \<Rightarrow> int) \<Rightarrow> int \<times> bool \<Rightarrow> int" where
  "in_function start x = start (to_i64 (fst x))"

definition recorded :: "u64 \<Rightarrow> int \<times> bool \<Rightarrow> int \<times> string \<times> string" where
  "recorded h_ip x = (if snd x then uint h_ip else fst x, '''', '''')"

definition frame_data :: "ContextFrame \<Rightarrow> int \<times> string \<times> string" where
  "frame_data f = (binary_addr f, method_name f, source_file f)"

text \<open>Behind the signal frame: the test against the frame before is no restriction, its function has been seen.\<close>

lemma backtrace_firsts:
  assumes "start parent \<in> old \<or> parent \<notin> (\<lambda>x. to_i64 (fst x)) ` set steps"
  shows "map frame_data (backtrace start new_frame h_ip k False parent old steps) =
    map (recorded h_ip) (first_of (in_function start) old (filter (\<lambda>x. in_function start x \<noteq> -1) steps))"
  using assms
proof (induction steps arbitrary: k parent old)
  case (Cons x steps)
  obtain ip signal where x: "x = (ip, signal)" by (cases x)
  let ?f = "to_i64 ip"
  show ?case
  proof (cases "start ?f \<noteq> -1 \<and> start ?f \<notin> old")
    case True
    with Cons.prems have "parent \<noteq> ?f" by (auto simp: x)
    with True Cons.IH [of ?f "insert (start ?f) old"] show ?thesis
      by (auto simp: x Let_def in_function_def recorded_def frame_data_def)
  next
    case False
    with Cons.prems Cons.IH [of parent old] show ?thesis
      by (auto simp: x Let_def in_function_def)
  qed
qed simp

lemma backtrace_skips:
  "\<exists>k'. backtrace start new_frame h_ip k True parent old steps =
     backtrace start new_frame h_ip k' False parent old (after_signal steps)"
proof (induction steps arbitrary: k)
  case (Cons x steps)
  obtain ip signal where x: "x = (ip, signal)" by (cases x)
  show ?case
  proof (cases signal)
    case True
    then show ?thesis by (intro exI [of _ k]) (simp add: x after_signal_def Let_def)
  next
    case False
    with Cons.IH [of "Suc k"] show ?thesis by (simp add: x after_signal_def Let_def)
  qed
qed (simp add: after_signal_def)

section \<open>The recorded context\<close>

text \<open>\<open>Symbol::getStartAddress\<close> of a table of symbols; it answers for every address (\<open>native_start\<close>).\<close>

definition native_start_of :: "symbols \<Rightarrow> int \<Rightarrow> int" where
  "native_start_of S ip = (case native_getStartAddress ip S of Inr a \<Rightarrow> a | Inl _ \<Rightarrow> -1)"

lemma native_start_of: "sym_ok S \<Longrightarrow> native_start_of S ip = start_of (fst ` set (symbolMap S)) ip"
  by (simp add: native_start_of_def native_start)

text \<open>C22: What the native agent adds to the context of a sample, for any frames libunwind finds: of the frames from the
  signal frame outwards exactly the first (innermost) one of each function the symbol table knows a start for, in
  their order, with the sampled address in the place of the signal frame's. So recursion is folded to one frame
  per function, no known function on the stack is missing and no frame of an unknown one appears.\<close>

theorem native_context_once_per_function:
  assumes "sym_ok S" and "\<forall>(ip, signal) \<in> set steps. to_i64 ip \<noteq> -1"
  shows "\<exists>fs chosen.
    eventContext_host (agent_retrieveBacktrace (native_start_of S) new_frame steps ev) = eventContext_host ev @ fs \<and>
    map frame_data fs = map (recorded (h_ip_addr ev)) chosen \<and> subseq chosen (after_signal steps) \<and>
    (let function = (\<lambda>x. start_of (fst ` set (symbolMap S)) (to_i64 (fst x)))
     in distinct (map function chosen) \<and> function ` set chosen = function ` set (after_signal steps) - {-1} \<and>
       (\<forall>ys x zs. after_signal steps = ys @ x # zs \<and> function x \<noteq> -1 \<and> function x \<notin> function ` set ys \<longrightarrow>
         x \<in> set chosen))"
proof -
  let ?start = "native_start_of S" and ?a = "after_signal steps"
  let ?key = "in_function ?start"
  let ?known = "filter (\<lambda>x. ?key x \<noteq> -1) ?a"
  let ?chosen = "first_of ?key {} ?known"
  have key: "(\<lambda>x. start_of (fst ` set (symbolMap S)) (to_i64 (fst x))) = ?key"
    by (simp add: fun_eq_iff in_function_def native_start_of [OF assms(1)])
  obtain k where k: "backtrace ?start new_frame (h_ip_addr ev) 0 True (-1) {} steps =
      backtrace ?start new_frame (h_ip_addr ev) k False (-1) {} ?a" using backtrace_skips by blast
  have "set ?a \<subseteq> set steps" by (auto simp: after_signal_def dest: set_dropWhileD)
  with assms(2) have "-1 \<notin> (\<lambda>x. to_i64 (fst x)) ` set ?a" by fastforce
  with backtrace_firsts [of ?start "-1" "{}" ?a new_frame "h_ip_addr ev" k]
  have data: "map frame_data (backtrace ?start new_frame (h_ip_addr ev) 0 True (-1) {} steps) =
      map (recorded (h_ip_addr ev)) ?chosen" by (simp add: k)
  have first: "x \<in> set ?chosen" if "?a = ys @ x # zs" "?key x \<noteq> -1" "?key x \<notin> ?key ` set ys" for ys x zs
    by (rule first_of_first [of _ "filter (\<lambda>x. ?key x \<noteq> -1) ys" _ "filter (\<lambda>x. ?key x \<noteq> -1) zs"]) (use that in auto)
  have keys: "?key ` set ?chosen = ?key ` set ?a - {-1}" using first_of_keys(1) [of ?key "{}" ?known] by auto
  have "subseq ?chosen ?a" using subseq_order.order_trans [OF first_of_subseq subseq_filter_left] .
  with data keys first first_of_keys(2) [of ?key "{}" ?known] show ?thesis
    unfolding Let_def key agent_retrieveBacktrace_def by (intro exI [of _ ?chosen] exI) auto
qed

definition demo_steps :: "(int \<times> bool) list" where
  "demo_steps = [(70, False), (300, True), (20, False), (17, False), (66, False), (30, False), (900, False)]"

definition demo_symbols :: symbols where
  "demo_symbols = \<lparr>isBfdInit = True, symbolMap = [(8, ''main''), (16, ''f''), (64, ''g''), (128, ''end'')]\<rparr>"

definition blank_frame :: "nat \<Rightarrow> ContextFrame" where
  "blank_frame k = \<lparr>cf_ptr = k, binary_addr = 0, method_name = [], source_file = [], src_lineno = 0\<rparr>"

theorem native_context_once_per_function_witness:
  "length (eventContext_host (agent_retrieveBacktrace (native_start_of demo_symbols) blank_frame demo_steps zero_Event)) = 2"
proof -
  have ok: "sym_ok demo_symbols" by (simp add: sym_ok_def demo_symbols_def)
  let ?start_at = "\<lambda>x. start_of (fst ` set (symbolMap demo_symbols)) (to_i64 (fst (x :: int \<times> bool)))"
  have "?start_at (300, True) = -1" "?start_at (20, False) = 16" "?start_at (17, False) = 16" "?start_at (66, False) = 64"
    "?start_at (30, False) = 16" "?start_at (900, False) = -1"
    unfolding native_start_of [OF ok, symmetric] by code_simp+
  then have F: "?start_at ` set (after_signal demo_steps) - {-1} = {16, 64}" by (auto simp: after_signal_def demo_steps_def)
  obtain fs chosen where "eventContext_host (agent_retrieveBacktrace (native_start_of demo_symbols) blank_frame demo_steps zero_Event) = fs"
    "map frame_data fs = map (recorded 0) chosen" "distinct (map ?start_at chosen)" "?start_at ` set chosen = {16, 64}"
    using native_context_once_per_function [OF ok, of demo_steps blank_frame zero_Event] F
    by (auto simp: demo_steps_def zero_Event_def Let_def)
  moreover from this(2) have "length fs = length chosen" using map_eq_imp_length_eq by blast
  moreover from calculation(3,4) have "length chosen = 2"
    using distinct_card [of "map ?start_at chosen"] by simp
  ultimately show ?thesis by simp
qed

text \<open>
  The sampled address is recorded for the frame of the signal only. That frame is the trampoline of the C library;
  when the table has no start for it, the sampled address is not in the context at all.
\<close>

lemma backtrace_frame:
  "f \<in> set (backtrace start new_frame h_ip k False parent old steps) \<Longrightarrow>
    \<exists>x \<in> set steps. frame_data f = recorded h_ip x \<and> in_function start x \<noteq> -1"
proof (induction steps arbitrary: k parent old)
  case (Cons x steps)
  obtain ip signal where x: "x = (ip, signal)" by (cases x)
  show ?case
  proof (cases "\<exists>k parent old. f \<in> set (backtrace start new_frame h_ip k False parent old steps)")
    case True
    with Cons.IH show ?thesis by auto
  next
    case False
    with Cons.prems have "frame_data f = recorded h_ip x" "in_function start x \<noteq> -1"
      by (simp_all add: x Let_def in_function_def recorded_def frame_data_def split: if_splits)
    then show ?thesis by auto
  qed
qed simp

lemma sampled_address_lost:
  assumes "after_signal steps = (ip, True) # outer" and "native_start_of S (to_i64 ip) = -1"
    and "\<forall>(ip, signal) \<in> set outer. \<not> signal \<and> ip \<noteq> uint (h_ip_addr ev)"
  shows "uint (h_ip_addr ev) \<notin> binary_addr `
    set (backtrace (native_start_of S) new_frame (h_ip_addr ev) 0 True (-1) {} steps)"
proof
  let ?start = "native_start_of S"
  obtain k where k: "backtrace ?start new_frame (h_ip_addr ev) 0 True (-1) {} steps =
      backtrace ?start new_frame (h_ip_addr ev) k False (-1) {} (after_signal steps)" using backtrace_skips by blast
  assume "uint (h_ip_addr ev) \<in> binary_addr ` set (backtrace ?start new_frame (h_ip_addr ev) 0 True (-1) {} steps)"
  then obtain f where "f \<in> set (backtrace ?start new_frame (h_ip_addr ev) 0 True (-1) {} steps)"
    "binary_addr f = uint (h_ip_addr ev)" by auto
  with backtrace_frame [of f ?start new_frame "h_ip_addr ev" k "-1" "{}" "after_signal steps"] assms show False
    by (auto simp: k frame_data_def recorded_def in_function_def)
qed

end
